(* ===== verification/Fw_Prelude.thy ===== *)
theory Fw_Prelude
  imports Main "HOL-Library.Word"
begin

section \<open>Prelude: machine integers, byte buffers, outcomes\<close>

text \<open>
  Shared vocabulary of the development.  Rust's fixed-width integers are words of the
  same width, \<open>[u8; N]\<close> arrays and byte slices are lists of \<open>u8\<close> (the array length is a
  hypothesis where it matters), \<open>usize\<close> values are \<open>nat\<close> with the 64-bit bound written out
  where the code relies on it.  \<open>outcome\<close> is the result type of code that can fail in two
  ways: \<open>Err\<close> is a Rust \<open>Err\<close> value, \<open>Fault\<close> is a panic or an access outside the memory
  the code owns.  The lemmas are the generic facts on big-endian conversion, address
  prefixes and lists the components share.
\<close>

unbundle bit_operations_syntax

type_synonym u8 = "8 word"
type_synonym u16 = "16 word"
type_synonym u32 = "32 word"
type_synonym u64 = "64 word"
type_synonym u128 = "128 word"
type_synonym bytes = "u8 list"

named_theorems fw_consts "numeric constants of the source"
named_theorems fw_ops "definitions of operations, unfolded by the component proofs"

datatype ('e, 'a) outcome = Ok 'a | Err 'e | Fault

definition usize_bound :: nat where
  [fw_consts]: "usize_bound = 2 ^ 64"

text \<open>A read of \<open>n\<close> bytes at an offset, and an index expression, of the buffer.\<close>

definition read_at :: "bytes \<Rightarrow> nat \<Rightarrow> nat \<Rightarrow> (bytes \<Rightarrow> ('e, 'a) outcome) \<Rightarrow> ('e, 'a) outcome" where
  "read_at data off n k = (if off + n \<le> length data then k (take n (drop off data)) else Fault)"

definition index_at :: "bytes \<Rightarrow> nat \<Rightarrow> (u8 \<Rightarrow> ('e, 'a) outcome) \<Rightarrow> ('e, 'a) outcome" where
  "index_at data i k = (if i < length data then k (data ! i) else Fault)"

subsection \<open>Options, sums and lists\<close>

lemma not_None_the: "x \<noteq> None \<longleftrightarrow> (\<exists>y. x = Some y)"
  by (cases x) auto

lemma all_less_add: "(\<forall>i < m + r. P i) \<longleftrightarrow> (\<forall>i < m. P i) \<and> (\<forall>k < r. P (m + k))" for m r :: nat
  by (induction r) (auto simp: less_Suc_eq)

lemma take_drop_nth:
  "off + n \<le> length xs \<Longrightarrow> i < n \<Longrightarrow> take n (drop off xs) ! i = xs ! (off + i)"
  by simp

lemma length_take_drop [simp]: "off + n \<le> length xs \<Longrightarrow> length (take n (drop off xs)) = n"
  by simp

lemma take_drop_take_drop:
  "i + m \<le> n \<Longrightarrow> take m (drop i (take n (drop off xs))) = take m (drop (off + i) xs)"
  by (simp add: drop_take min_def add.commute)

lemma take_drop_append: "length b = n \<Longrightarrow> take n (drop (length pre) (pre @ b @ rest)) = b"
  by simp

subsection \<open>Casts between byte and 32-bit integers\<close>

lemma unat_ucast_small: "unat (p :: u32) < 256 \<Longrightarrow> unat (ucast p :: u8) = unat p"
  by (simp add: unsigned_ucast_eq unsigned_take_bit_eq take_bit_nat_eq_self)

lemma ucast_u8_inject:
  "unat (p :: u32) < 256 \<Longrightarrow> unat q < 256 \<Longrightarrow> (ucast p :: u8) = ucast q \<Longrightarrow> p = q"
  by (metis unat_ucast_small word_unat_eq_iff)

lemma ucast_back: "unat (p :: u32) < 256 \<Longrightarrow> ucast (ucast p :: u8) = p"
  by (simp add: word_unat_eq_iff unsigned_ucast_eq unsigned_take_bit_eq take_bit_nat_eq_self)

lemma unat_ucast_up: "unat (ucast (b :: u8) :: u32) = unat b"
proof -
  have "unat b < 2 ^ LENGTH(8)" by (rule unsigned_less)
  then have "unat b < 2 ^ 32" by simp
  then show ?thesis by (simp add: unsigned_ucast_eq unsigned_take_bit_eq take_bit_nat_eq_self)
qed

subsection \<open>Big-endian conversion\<close>

text \<open>
  \<open>u16::from_be_bytes\<close>, \<open>u32::from_be_bytes\<close> and \<open>u128::from_be_bytes\<close>; \<open>to_be n\<close> is
  \<open>to_be_bytes\<close> of an \<open>n\<close>-byte integer.
\<close>

definition from_be :: "bytes \<Rightarrow> 'a::len word" where
  "from_be bs = foldl (\<lambda>acc b. push_bit 8 acc OR ucast b) 0 bs"

primrec to_be :: "nat \<Rightarrow> 'a::len word \<Rightarrow> bytes" where
  "to_be 0 w = []"
| "to_be (Suc n) w = to_be n (drop_bit 8 w) @ [ucast w]"

lemma from_be_Nil [simp]: "from_be [] = 0"
  by (simp add: from_be_def)

lemma from_be_snoc: "from_be (bs @ [b]) = push_bit 8 (from_be bs) OR ucast b"
  by (simp add: from_be_def)

lemma length_to_be [simp]: "length (to_be n w) = n"
  by (induction n arbitrary: w) auto

lemma bit_from_be:
  fixes j :: nat
  shows "bit (from_be bs :: 'a::len word) j \<longleftrightarrow>
    j < LENGTH('a) \<and> j < 8 * length bs \<and> bit (rev bs ! (j div 8)) (j mod 8)"
proof (induction bs arbitrary: j rule: rev_induct)
  case Nil
  then show ?case by simp
next
  case (snoc b bs)
  show ?case
  proof (cases "j < 8")
    case True
    then show ?thesis
      by (auto simp: from_be_snoc bit_simps dest: bit_imp_le_length)
  next
    case False
    then have j: "(j - 8) div 8 = j div 8 - 1" "(j - 8) mod 8 = j mod 8" "0 < j div 8"
      by (simp_all add: le_div_geq le_mod_geq)
    have "\<not> bit (ucast b :: 'a word) j"
      using False by (auto simp: bit_simps dest: bit_imp_le_length)
    with False have "bit (from_be (bs @ [b]) :: 'a word) j \<longleftrightarrow>
        j < LENGTH('a) \<and> bit (from_be bs :: 'a word) (j - 8)"
      by (auto simp: from_be_snoc bit_or_iff bit_push_bit_iff dest: bit_imp_le_length)
    also have "\<dots> \<longleftrightarrow> j < LENGTH('a) \<and> j - 8 < 8 * length bs \<and>
        bit (rev bs ! (j div 8 - 1)) (j mod 8)"
      using snoc [of "j - 8"] j by auto
    also have "rev bs ! (j div 8 - 1) = rev (bs @ [b]) ! (j div 8)"
      using j(3) by (simp add: nth_Cons')
    finally show ?thesis using False by auto
  qed
qed

lemma from_be_to_be: "from_be (to_be n (w :: 'a::len word)) = take_bit (8 * n) w"
proof (induction n arbitrary: w)
  case 0
  then show ?case by simp
next
  case (Suc n)
  have "push_bit 8 (take_bit (8 * n) (drop_bit 8 w)) OR ucast (ucast w :: u8) = take_bit (8 * Suc n) w"
    by (rule bit_eqI) (auto simp: bit_simps)
  with Suc show ?case by (simp add: from_be_snoc)
qed

lemma to_be_from_be:
  assumes "8 * length bs \<le> LENGTH('a::len)"
  shows "to_be (length bs) (from_be bs :: 'a word) = bs"
  using assms
proof (induction bs rule: rev_induct)
  case Nil
  then show ?case by simp
next
  case (snoc b bs)
  let ?w = "push_bit 8 (from_be bs) OR ucast b :: 'a word"
  have "drop_bit 8 ?w = from_be bs"
    using snoc.prems by (intro bit_eqI) (auto simp: bit_simps bit_from_be dest: bit_imp_le_length)
  moreover have "ucast ?w = b"
    using snoc.prems by (intro bit_eqI) (auto simp: bit_simps dest: bit_imp_le_length)
  ultimately show ?case using snoc by (simp add: from_be_snoc)
qed

lemma from_be_inject:
  assumes "length a = length b" "8 * length a \<le> LENGTH('a::len)"
  shows "(from_be a :: 'a word) = from_be b \<longleftrightarrow> a = b"
  using assms to_be_from_be [where 'a = 'a] by metis

subsection \<open>Network prefixes of byte arrays\<close>

text \<open>
  Bit \<open>i\<close> of an address in network order (bit 0 is the most significant bit of the first
  byte), and the specification every prefix test of the program is compared with: two
  addresses agree on their first \<open>p\<close> bits.
\<close>

definition addr_bit :: "bytes \<Rightarrow> nat \<Rightarrow> bool" where
  "addr_bit a i = bit (a ! (i div 8)) (7 - i mod 8)"

definition same_prefix :: "nat \<Rightarrow> bytes \<Rightarrow> bytes \<Rightarrow> bool" where
  "same_prefix p a b \<longleftrightarrow> (\<forall>i < p. addr_bit a i = addr_bit b i)"

lemma same_prefix_refl [simp]: "same_prefix p a a"
  by (simp add: same_prefix_def)

lemma same_prefix_sym: "same_prefix p a b \<Longrightarrow> same_prefix p b a"
  by (simp add: same_prefix_def)

lemma same_prefix_trans: "same_prefix p a b \<Longrightarrow> same_prefix p b c \<Longrightarrow> same_prefix p a c"
  by (simp add: same_prefix_def)

lemma same_prefix_mono: "same_prefix p a b \<Longrightarrow> q \<le> p \<Longrightarrow> same_prefix q a b"
  by (simp add: same_prefix_def)

lemma same_prefix_0 [simp]: "same_prefix 0 a b"
  by (simp add: same_prefix_def)

lemma same_prefix_Suc:
  "same_prefix (Suc p) a b \<longleftrightarrow> same_prefix p a b \<and> addr_bit a p = addr_bit b p"
  by (auto simp: same_prefix_def less_Suc_eq)

lemma byte_eqI: "(\<And>k. k < 8 \<Longrightarrow> bit (x :: u8) k = bit y k) \<Longrightarrow> x = y"
  by (rule bit_eqI) simp

lemma nth_byte_addr_bit: "k < 8 \<Longrightarrow> bit (a ! i) k = addr_bit a (8 * i + (7 - k))"
proof -
  assume k: "k < 8"
  have "(8 * i + r) div 8 = i" "(8 * i + r) mod 8 = r" if "r < 8" for r
    using that by simp_all
  from this [of "7 - k"] k show ?thesis by (simp add: addr_bit_def)
qed

lemma same_prefix_full:
  assumes "length a = length b" "8 * length a \<le> p"
  shows "same_prefix p a b \<longleftrightarrow> a = b"
proof
  assume sp: "same_prefix p a b"
  show "a = b"
  proof (rule nth_equalityI)
    fix i assume "i < length a"
    show "a ! i = b ! i"
    proof (rule byte_eqI)
      fix k :: nat assume "k < 8"
      with \<open>i < length a\<close> assms(2) have "8 * i + (7 - k) < p" by linarith
      with sp \<open>k < 8\<close> show "bit (a ! i) k = bit (b ! i) k"
        by (simp add: nth_byte_addr_bit same_prefix_def)
    qed
  qed (use assms in simp)
qed simp

text \<open>The same test on the integer value of the address.\<close>

lemma bit_from_be_addr:
  assumes "8 * length a = LENGTH('a::len)" "i < LENGTH('a)"
  shows "bit (from_be a :: 'a word) (LENGTH('a) - 1 - i) = addr_bit a i"
proof -
  define q r where "q = i div 8" and "r = i mod 8"
  have i: "i = 8 * q + r" and r: "r < 8" by (simp_all add: q_def r_def)
  from assms i have q: "q < length a" by linarith
  have e: "LENGTH('a) - 1 - i = 8 * (length a - 1 - q) + (7 - r)"
    using assms(1) i r q by linarith
  have "(8 * m + s) div 8 = m" "(8 * m + s) mod 8 = s" if "s < 8" for m s :: nat
    using that by simp_all
  from this [of "7 - r" "length a - 1 - q"]
  have "bit (from_be a :: 'a word) (LENGTH('a) - 1 - i) = bit (rev a ! (length a - 1 - q)) (7 - r)"
    using assms e q by (auto simp add: bit_from_be)
  also have "rev a ! (length a - 1 - q) = a ! q"
    using q by (simp add: rev_nth)
  finally show ?thesis by (simp add: addr_bit_def q_def r_def)
qed

lemma same_prefix_from_be:
  assumes "8 * length a = LENGTH('a::len)" "8 * length b = LENGTH('a)" "p \<le> LENGTH('a)"
  shows "same_prefix p a b \<longleftrightarrow>
    (\<forall>j. LENGTH('a) - p \<le> j \<and> j < LENGTH('a) \<longrightarrow>
      bit (from_be a :: 'a word) j = bit (from_be b :: 'a word) j)" (is "_ = (\<forall>j. ?P j)")
proof
  assume sp: "same_prefix p a b"
  show "\<forall>j. ?P j"
  proof (intro allI impI)
    fix j assume j: "LENGTH('a) - p \<le> j \<and> j < LENGTH('a)"
    define i where "i = LENGTH('a) - 1 - j"
    from j assms(3) have "i < p" "i < LENGTH('a)" "j = LENGTH('a) - 1 - i"
      by (auto simp: i_def)
    with sp assms show "bit (from_be a :: 'a word) j = bit (from_be b :: 'a word) j"
      by (simp only: bit_from_be_addr same_prefix_def)
  qed
next
  assume all: "\<forall>j. ?P j"
  show "same_prefix p a b"
    unfolding same_prefix_def
  proof (intro allI impI)
    fix i assume "i < p"
    with assms(3) all [rule_format, of "LENGTH('a) - 1 - i"]
    have "bit (from_be a :: 'a word) (LENGTH('a) - 1 - i) =
          bit (from_be b :: 'a word) (LENGTH('a) - 1 - i)"
      by simp
    with \<open>i < p\<close> assms show "addr_bit a i = addr_bit b i"
      by (simp only: bit_from_be_addr less_le_trans)
  qed
qed

subsection \<open>Network addresses\<close>

text \<open>The network address of \<open>a\<close> for a \<open>p\<close>-bit prefix: every bit from \<open>p\<close> on is cleared.\<close>

definition net_addr :: "nat \<Rightarrow> bytes \<Rightarrow> bytes" where
  "net_addr p a = map (\<lambda>i. a ! i AND push_bit (8 - min 8 (p - 8 * i)) 0xFF) [0..<length a]"

lemma length_net_addr [simp]: "length (net_addr p a) = length a"
  by (simp add: net_addr_def)

lemma bit_byte_mask: "k < 8 \<Longrightarrow> bit (push_bit n 0xFF :: u8) k \<longleftrightarrow> n \<le> k"
proof -
  assume "k < 8"
  have ff: "(0xFF :: u8) = mask 8" by (simp add: mask_eq_exp_minus_1)
  show ?thesis
    unfolding ff bit_push_bit_iff using \<open>k < 8\<close> by (auto simp: bit_mask_iff)
qed

lemma addr_bit_net_addr:
  assumes "i < 8 * length a"
  shows "addr_bit (net_addr p a) i \<longleftrightarrow> i < p \<and> addr_bit a i"
proof -
  define q r where "q = i div 8" and "r = i mod 8"
  have i: "i = 8 * q + r" and r: "r < 8" by (simp_all add: q_def r_def)
  have q: "q < length a" using assms i by linarith
  have "8 - min 8 (p - 8 * q) \<le> 7 - r \<longleftrightarrow> i < p"
    using r i by (auto simp: min_def)
  then show ?thesis
    using q r by (simp add: addr_bit_def net_addr_def bit_and_iff bit_byte_mask flip: q_def r_def) blast
qed

lemma addr_eqI:
  assumes "length a = length b" "\<And>i. i < 8 * length a \<Longrightarrow> addr_bit a i = addr_bit b i"
  shows "a = b"
  using assms same_prefix_full [of a b "8 * length a"] by (simp add: same_prefix_def)

lemma same_prefix_net_addr:
  assumes "length a = length b" "p \<le> 8 * length a"
  shows "same_prefix p a b \<longleftrightarrow> net_addr p a = net_addr p b"
proof
  assume "same_prefix p a b"
  then show "net_addr p a = net_addr p b"
    using assms by (intro addr_eqI) (auto simp: addr_bit_net_addr same_prefix_def)
next
  assume eq: "net_addr p a = net_addr p b"
  show "same_prefix p a b"
    unfolding same_prefix_def
  proof (intro allI impI)
    fix i assume "i < p"
    with assms have "i < 8 * length a" "i < 8 * length b" by auto
    with \<open>i < p\<close> show "addr_bit a i = addr_bit b i"
      using addr_bit_net_addr [of i a p] addr_bit_net_addr [of i b p] eq by simp
  qed
qed

lemma net_addr_same_prefix: "p \<le> 8 * length a \<Longrightarrow> same_prefix p (net_addr p a) a"
  by (auto simp: same_prefix_def addr_bit_net_addr)

lemma net_addr_idem [simp]: "net_addr p (net_addr p a) = net_addr p a"
  by (rule addr_eqI) (auto simp: addr_bit_net_addr)

lemma net_addr_canonical:
  "net_addr p a = a \<longleftrightarrow> (\<forall>i < 8 * length a. p \<le> i \<longrightarrow> \<not> addr_bit a i)"
proof
  assume "net_addr p a = a"
  then show "\<forall>i < 8 * length a. p \<le> i \<longrightarrow> \<not> addr_bit a i"
    by (metis addr_bit_net_addr not_less)
next
  assume "\<forall>i < 8 * length a. p \<le> i \<longrightarrow> \<not> addr_bit a i"
  then show "net_addr p a = a"
    by (intro addr_eqI) (auto simp: addr_bit_net_addr not_less intro: leI)
qed

lemma net_addr_full: "8 * length a \<le> p \<Longrightarrow> net_addr p a = a"
  by (simp add: net_addr_canonical)

end
