(* ===== verification/Fw_Common.thy ===== *)
theory Fw_Common
  imports Fw_Prelude
begin

section \<open>The types shared by the kernel program and user space\<close>

text \<open>
  Models \<open>firewall-common/src/lib.rs\<close>: the action, match and protocol constants, the map
  capacities, \<open>RuleValue\<close>, the LPM keys, the 64-byte telemetry record \<open>PacketLogEvent\<close> with
  its \<open>repr(C)\<close> byte layout (little-endian, as on the supported targets), its accessors,
  and the statistics counters.  The lemmas show that the layout is exactly 64 bytes and
  that reading it back (the consumer's pointer cast) returns the event that was written.
\<close>

subsection \<open>Constants\<close>

definition ACTION_ACCEPT :: u8 where [fw_consts]: "ACTION_ACCEPT = 0"
definition ACTION_PASS :: u8 where [fw_consts]: "ACTION_PASS = ACTION_ACCEPT"
definition ACTION_DROP :: u8 where [fw_consts]: "ACTION_DROP = 1"

definition MATCH_NONE :: u8 where [fw_consts]: "MATCH_NONE = 0"
definition MATCH_EXACT_HASH :: u8 where [fw_consts]: "MATCH_EXACT_HASH = 1"
definition MATCH_LPM_TRIE :: u8 where [fw_consts]: "MATCH_LPM_TRIE = 2"

definition PROTO_ICMP :: u8 where [fw_consts]: "PROTO_ICMP = 1"
definition PROTO_TCP :: u8 where [fw_consts]: "PROTO_TCP = 6"
definition PROTO_UDP :: u8 where [fw_consts]: "PROTO_UDP = 17"
definition PROTO_ICMPV6 :: u8 where [fw_consts]: "PROTO_ICMPV6 = 58"

definition MAX_IPV4_HASH_ENTRIES :: nat where [fw_consts]: "MAX_IPV4_HASH_ENTRIES = 4194304"
definition MAX_IPV6_HASH_ENTRIES :: nat where [fw_consts]: "MAX_IPV6_HASH_ENTRIES = 262144"
definition MAX_IPV4_LPM_ENTRIES :: nat where [fw_consts]: "MAX_IPV4_LPM_ENTRIES = 524288"
definition MAX_IPV6_LPM_ENTRIES :: nat where [fw_consts]: "MAX_IPV6_LPM_ENTRIES = 65536"
definition RING_BUF_SIZE_BYTES :: nat where [fw_consts]: "RING_BUF_SIZE_BYTES = 512 * 1024"

subsection \<open>Rule values and LPM keys\<close>

record rule_value =
  rv_rule_id :: u32
  rv_action :: u8
  rv_flags :: u8
  rv_pad :: bytes

definition rule_drop :: "u32 \<Rightarrow> rule_value" where
  "rule_drop i = \<lparr>rv_rule_id = i, rv_action = ACTION_DROP, rv_flags = 0, rv_pad = [0, 0]\<rparr>"

definition rule_accept :: "u32 \<Rightarrow> rule_value" where
  "rule_accept i = \<lparr>rv_rule_id = i, rv_action = ACTION_ACCEPT, rv_flags = 0, rv_pad = [0, 0]\<rparr>"

definition rule_pass :: "u32 \<Rightarrow> rule_value" where
  "rule_pass i = rule_accept i"

record lpm_key =
  lk_prefixlen :: u32
  lk_data :: bytes

definition lpm_key_new :: "u32 \<Rightarrow> bytes \<Rightarrow> lpm_key" where
  "lpm_key_new p d = \<lparr>lk_prefixlen = p, lk_data = d\<rparr>"

definition lpm_key_from_u32 :: "u32 \<Rightarrow> u32 \<Rightarrow> lpm_key" where
  "lpm_key_from_u32 p addr_be = \<lparr>lk_prefixlen = p, lk_data = to_be 4 addr_be\<rparr>"

subsection \<open>IP addresses\<close>

text \<open>\<open>std::net::IpAddr\<close>: the octets in network order, 4 or 16 of them.\<close>

datatype ip_addr = V4 (octets: bytes) | V6 (octets: bytes)

fun wf_ip :: "ip_addr \<Rightarrow> bool" where
  "wf_ip (V4 a) = (length a = 4)"
| "wf_ip (V6 a) = (length a = 16)"

subsection \<open>The telemetry event\<close>

record packet_log_event =
  ev_timestamp_ns :: u64
  ev_src_ip :: bytes
  ev_dst_ip :: bytes
  ev_rule_id :: u32
  ev_packet_len :: u32
  ev_ifindex :: u32
  ev_src_port :: u16
  ev_dst_port :: u16
  ev_protocol :: u8
  ev_ip_version :: u8
  ev_action :: u8
  ev_match_type :: u8
  ev_pad :: bytes

definition event_default :: packet_log_event where
  "event_default = \<lparr>ev_timestamp_ns = 0, ev_src_ip = replicate 16 0, ev_dst_ip = replicate 16 0,
     ev_rule_id = 0, ev_packet_len = 0, ev_ifindex = 0, ev_src_port = 0, ev_dst_port = 0,
     ev_protocol = 0, ev_ip_version = 4, ev_action = ACTION_DROP, ev_match_type = MATCH_NONE,
     ev_pad = replicate 4 0\<rparr>"

text \<open>The Rust type fixes the array lengths.\<close>

definition wf_event :: "packet_log_event \<Rightarrow> bool" where
  "wf_event e \<longleftrightarrow> length (ev_src_ip e) = 16 \<and> length (ev_dst_ip e) = 16 \<and> length (ev_pad e) = 4"

text \<open>The \<open>repr(C)\<close> memory image of an event: the fields in order, integers little-endian.\<close>

definition to_le :: "nat \<Rightarrow> 'a::len word \<Rightarrow> bytes" where
  "to_le n w = rev (to_be n w)"

definition from_le :: "bytes \<Rightarrow> 'a::len word" where
  "from_le bs = from_be (rev bs)"

definition event_bytes :: "packet_log_event \<Rightarrow> bytes" where
  "event_bytes e =
     to_le 8 (ev_timestamp_ns e) @ ev_src_ip e @ ev_dst_ip e @
     to_le 4 (ev_rule_id e) @ to_le 4 (ev_packet_len e) @ to_le 4 (ev_ifindex e) @
     to_le 2 (ev_src_port e) @ to_le 2 (ev_dst_port e) @
     [ev_protocol e, ev_ip_version e, ev_action e, ev_match_type e] @ ev_pad e"

definition event_of_bytes :: "bytes \<Rightarrow> packet_log_event" where
  "event_of_bytes b = \<lparr>
     ev_timestamp_ns = from_le (take 8 b),
     ev_src_ip = take 16 (drop 8 b), ev_dst_ip = take 16 (drop 24 b),
     ev_rule_id = from_le (take 4 (drop 40 b)), ev_packet_len = from_le (take 4 (drop 44 b)),
     ev_ifindex = from_le (take 4 (drop 48 b)),
     ev_src_port = from_le (take 2 (drop 52 b)), ev_dst_port = from_le (take 2 (drop 54 b)),
     ev_protocol = b ! 56, ev_ip_version = b ! 57, ev_action = b ! 58, ev_match_type = b ! 59,
     ev_pad = take 4 (drop 60 b)\<rparr>"

definition src_addr :: "packet_log_event \<Rightarrow> ip_addr" where
  "src_addr e = (if ev_ip_version e = 4 then V4 (take 4 (ev_src_ip e)) else V6 (ev_src_ip e))"

definition dst_addr :: "packet_log_event \<Rightarrow> ip_addr" where
  "dst_addr e = (if ev_ip_version e = 4 then V4 (take 4 (ev_dst_ip e)) else V6 (ev_dst_ip e))"

definition protocol_name :: "packet_log_event \<Rightarrow> string" where
  "protocol_name e =
     (if ev_protocol e = PROTO_TCP then ''TCP''
      else if ev_protocol e = PROTO_UDP then ''UDP''
      else if ev_protocol e = PROTO_ICMP then ''ICMP''
      else if ev_protocol e = PROTO_ICMPV6 then ''ICMPv6''
      else ''UNKNOWN'')"

definition action_name :: "packet_log_event \<Rightarrow> string" where
  "action_name e =
     (if ev_action e = ACTION_DROP then ''DROP''
      else if ev_action e = ACTION_ACCEPT then ''ACCEPT'' else ''OTHER'')"

definition match_type_name :: "packet_log_event \<Rightarrow> string" where
  "match_type_name e =
     (if ev_match_type e = MATCH_EXACT_HASH then ''Exact HashMap''
      else if ev_match_type e = MATCH_LPM_TRIE then ''LPM Trie CIDR'' else ''None'')"

subsection \<open>Statistics\<close>

record firewall_stats =
  rx_packets :: u64
  rx_bytes :: u64
  dropped_packets :: u64
  dropped_bytes :: u64
  accepted_packets :: u64
  accepted_bytes :: u64
  ringbuf_events :: u64
  ringbuf_drops :: u64

definition stats_default :: firewall_stats where
  "stats_default = \<lparr>rx_packets = 0, rx_bytes = 0, dropped_packets = 0, dropped_bytes = 0,
     accepted_packets = 0, accepted_bytes = 0, ringbuf_events = 0, ringbuf_drops = 0\<rparr>"

subsection \<open>Layout lemmas\<close>

lemma length_to_le [simp]: "length (to_le n w) = n"
  by (simp add: to_le_def)

lemma from_le_to_le [simp]: "LENGTH('a) \<le> 8 * n \<Longrightarrow> from_le (to_le n (w :: 'a::len word)) = w"
  by (simp add: from_le_def to_le_def from_be_to_be take_bit_word_eq_self)

lemma to_le_from_le:
  "length bs = n \<Longrightarrow> 8 * n \<le> LENGTH('a) \<Longrightarrow> to_le n (from_le bs :: 'a::len word) = bs"
  using to_be_from_be [of "rev bs", where 'a = 'a] by (simp add: from_le_def to_le_def)

lemma length_event_bytes: "wf_event e \<Longrightarrow> length (event_bytes e) = 64"
  by (simp add: wf_event_def event_bytes_def)

lemma event_of_event_bytes: "wf_event e \<Longrightarrow> event_of_bytes (event_bytes e) = e"
  by (simp add: event_of_bytes_def event_bytes_def wf_event_def numeral_eq_Suc nth_append
      del: take_Suc_conv_app_nth)

end
