(* ===== verification/Packet_Lib.thy ===== *)
theory Packet_Lib
  imports Fw_Common
begin

section \<open>The packet classification library\<close>

text \<open>
  Models \<open>firewall-ebpf/src/lib.rs\<close>: bounds-checked parsing of Ethernet (with up to two
  VLAN tags), IPv4, IPv6 and the transport ports, the end-to-end \<open>classify_packet\<close> and the
  exact-match simulation.  Every raw pointer read and every index expression of the source
  is a read that yields \<open>Fault\<close> outside the buffer, so the no-\<open>Fault\<close> theorem is the memory
  safety of the code.  Header integers are stored as the little-endian machine reads them;
  \<open>u16_from_be\<close> and \<open>u32_from_be\<close> are Rust's \<open>from_be\<close> on such a machine.
\<close>

subsection \<open>Constants and header types\<close>

definition ETH_P_IP :: u16 where [fw_consts]: "ETH_P_IP = 0x0800"
definition ETH_P_IPV6 :: u16 where [fw_consts]: "ETH_P_IPV6 = 0x86DD"
definition ETH_P_8021Q :: u16 where [fw_consts]: "ETH_P_8021Q = 0x8100"
definition ETH_P_8021AD :: u16 where [fw_consts]: "ETH_P_8021AD = 0x88A8"
definition ETH_HDR_LEN :: nat where [fw_consts]: "ETH_HDR_LEN = 14"
definition IPV4_MIN_HDR_LEN :: nat where [fw_consts]: "IPV4_MIN_HDR_LEN = 20"
definition IPV6_HDR_LEN :: nat where [fw_consts]: "IPV6_HDR_LEN = 40"

definition u16_from_be :: "u16 \<Rightarrow> u16" where
  "u16_from_be w = from_be (to_le 2 w)"

definition u32_from_be :: "u32 \<Rightarrow> u32" where
  "u32_from_be w = from_be (to_le 4 w)"

record ethernet_header =
  eth_dst_mac :: bytes
  eth_src_mac :: bytes
  eth_ether_type :: u16

record ipv4_header =
  ip4_vhl :: u8
  ip4_tos :: u8
  ip4_tot_len :: u16
  ip4_id :: u16
  ip4_frag_off :: u16
  ip4_ttl :: u8
  ip4_protocol :: u8
  ip4_check :: u16
  ip4_src_addr :: bytes
  ip4_dst_addr :: bytes

record ipv6_header =
  ip6_vtc_fl :: u32
  ip6_payload_len :: u16
  ip6_next_header :: u8
  ip6_hop_limit :: u8
  ip6_src_addr :: bytes
  ip6_dst_addr :: bytes

record transport_ports =
  tp_src_port :: u16
  tp_dst_port :: u16

text \<open>The packed \<open>repr(C)\<close> layouts: what \<open>read_unaligned\<close> makes of the bytes.\<close>

definition ethernet_of_bytes :: "bytes \<Rightarrow> ethernet_header" where
  "ethernet_of_bytes b = \<lparr>eth_dst_mac = take 6 b, eth_src_mac = take 6 (drop 6 b),
     eth_ether_type = from_le (take 2 (drop 12 b))\<rparr>"

definition ipv4_of_bytes :: "bytes \<Rightarrow> ipv4_header" where
  "ipv4_of_bytes b = \<lparr>ip4_vhl = b ! 0, ip4_tos = b ! 1, ip4_tot_len = from_le (take 2 (drop 2 b)),
     ip4_id = from_le (take 2 (drop 4 b)), ip4_frag_off = from_le (take 2 (drop 6 b)),
     ip4_ttl = b ! 8, ip4_protocol = b ! 9, ip4_check = from_le (take 2 (drop 10 b)),
     ip4_src_addr = take 4 (drop 12 b), ip4_dst_addr = take 4 (drop 16 b)\<rparr>"

definition ipv6_of_bytes :: "bytes \<Rightarrow> ipv6_header" where
  "ipv6_of_bytes b = \<lparr>ip6_vtc_fl = from_le (take 4 b), ip6_payload_len = from_le (take 2 (drop 4 b)),
     ip6_next_header = b ! 6, ip6_hop_limit = b ! 7,
     ip6_src_addr = take 16 (drop 8 b), ip6_dst_addr = take 16 (drop 24 b)\<rparr>"

definition ports_of_bytes :: "bytes \<Rightarrow> transport_ports" where
  "ports_of_bytes b = \<lparr>tp_src_port = from_le (take 2 b), tp_dst_port = from_le (take 2 (drop 2 b))\<rparr>"

record parsed_packet =
  pp_ip_version :: u8
  pp_src_ip :: bytes
  pp_dst_ip :: bytes
  pp_protocol :: u8
  pp_src_port :: u16
  pp_dst_port :: u16
  pp_packet_len :: nat
  pp_l4_offset :: nat

subsection \<open>Parsing\<close>

definition check_bounds :: "nat \<Rightarrow> nat \<Rightarrow> nat \<Rightarrow> bool" where
  "check_bounds total_len offset needed =
     (if offset + needed < usize_bound then offset + needed \<le> total_len else False)"

definition is_vlan :: "u16 \<Rightarrow> bool" where
  "is_vlan et \<longleftrightarrow> et = ETH_P_8021Q \<or> et = ETH_P_8021AD"

fun vlan_loop :: "nat \<Rightarrow> bytes \<Rightarrow> nat \<Rightarrow> u16 \<Rightarrow> (unit, nat \<times> u16) outcome" where
  "vlan_loop 0 data offset ether_type = Ok (offset, ether_type)"
| "vlan_loop (Suc n) data offset ether_type =
     (if is_vlan ether_type
      then if \<not> check_bounds (length data) offset 4 then Err ()
           else index_at data (offset + 2) (\<lambda>b0.
                index_at data (offset + 3) (\<lambda>b1.
                vlan_loop n data (offset + 4) (from_be [b0, b1])))
      else Ok (offset, ether_type))"

definition parse_ethernet :: "bytes \<Rightarrow> (unit, ethernet_header \<times> nat \<times> u16) outcome" where
  "parse_ethernet data =
     (if \<not> check_bounds (length data) 0 ETH_HDR_LEN then Err ()
      else read_at data 0 ETH_HDR_LEN (\<lambda>b.
        let eth_hdr = ethernet_of_bytes b in
        case vlan_loop 2 data ETH_HDR_LEN (u16_from_be (eth_ether_type eth_hdr)) of
          Ok (offset, ether_type) \<Rightarrow> Ok (eth_hdr, offset, ether_type)
        | Err e \<Rightarrow> Err e
        | Fault \<Rightarrow> Fault))"

definition parse_ipv4 :: "bytes \<Rightarrow> nat \<Rightarrow> (unit, ipv4_header \<times> nat) outcome" where
  "parse_ipv4 data offset =
     (if \<not> check_bounds (length data) offset IPV4_MIN_HDR_LEN then Err ()
      else read_at data offset IPV4_MIN_HDR_LEN (\<lambda>b.
        let ip_hdr = ipv4_of_bytes b in
        if drop_bit 4 (ip4_vhl ip_hdr) \<noteq> 4 then Err ()
        else let ihl = unat (ip4_vhl ip_hdr AND 0x0F) * 4 in
          if ihl < IPV4_MIN_HDR_LEN then Err ()
          else if \<not> check_bounds (length data) offset ihl then Err ()
          else Ok (ip_hdr, offset + ihl)))"

definition parse_ipv6 :: "bytes \<Rightarrow> nat \<Rightarrow> (unit, ipv6_header \<times> nat) outcome" where
  "parse_ipv6 data offset =
     (if \<not> check_bounds (length data) offset IPV6_HDR_LEN then Err ()
      else read_at data offset IPV6_HDR_LEN (\<lambda>b.
        let ip_hdr = ipv6_of_bytes b;
            version = (ucast (drop_bit 28 (u32_from_be (ip6_vtc_fl ip_hdr))) :: u8) in
        if version \<noteq> 6 then Err ()
        else Ok (ip_hdr, offset + IPV6_HDR_LEN)))"

definition extract_transport_ports :: "bytes \<Rightarrow> nat \<Rightarrow> u8 \<Rightarrow> (unit, u16 \<times> u16) outcome" where
  "extract_transport_ports data l4_offset protocol =
     (if protocol = PROTO_TCP \<or> protocol = PROTO_UDP
      then if check_bounds (length data) l4_offset 4
           then read_at data l4_offset 4 (\<lambda>b.
             let ports = ports_of_bytes b in
             Ok (u16_from_be (tp_src_port ports), u16_from_be (tp_dst_port ports)))
           else Ok (0, 0)
      else Ok (0, 0))"

definition classify_packet :: "bytes \<Rightarrow> (unit, parsed_packet) outcome" where
  "classify_packet data =
     (case parse_ethernet data of Err e \<Rightarrow> Err e | Fault \<Rightarrow> Fault
      | Ok (_, l3_offset, ether_type) \<Rightarrow>
        if ether_type = ETH_P_IP then
          (case parse_ipv4 data l3_offset of Err e \<Rightarrow> Err e | Fault \<Rightarrow> Fault
           | Ok (ip_hdr, l4_offset) \<Rightarrow>
             (case extract_transport_ports data l4_offset (ip4_protocol ip_hdr) of
                Err e \<Rightarrow> Err e | Fault \<Rightarrow> Fault
              | Ok (src_port, dst_port) \<Rightarrow>
                Ok \<lparr>pp_ip_version = 4,
                    pp_src_ip = ip4_src_addr ip_hdr @ replicate 12 0,
                    pp_dst_ip = ip4_dst_addr ip_hdr @ replicate 12 0,
                    pp_protocol = ip4_protocol ip_hdr,
                    pp_src_port = src_port, pp_dst_port = dst_port,
                    pp_packet_len = length data, pp_l4_offset = l4_offset\<rparr>))
        else if ether_type = ETH_P_IPV6 then
          (case parse_ipv6 data l3_offset of Err e \<Rightarrow> Err e | Fault \<Rightarrow> Fault
           | Ok (ip_hdr, l4_offset) \<Rightarrow>
             (case extract_transport_ports data l4_offset (ip6_next_header ip_hdr) of
                Err e \<Rightarrow> Err e | Fault \<Rightarrow> Fault
              | Ok (src_port, dst_port) \<Rightarrow>
                Ok \<lparr>pp_ip_version = 6,
                    pp_src_ip = ip6_src_addr ip_hdr, pp_dst_ip = ip6_dst_addr ip_hdr,
                    pp_protocol = ip6_next_header ip_hdr,
                    pp_src_port = src_port, pp_dst_port = dst_port,
                    pp_packet_len = length data, pp_l4_offset = l4_offset\<rparr>))
        else Err ())"

definition simulate_exact_match :: "parsed_packet \<Rightarrow> bytes list \<Rightarrow> bytes list \<Rightarrow> u8 \<times> u8" where
  "simulate_exact_match parsed exact_v4 exact_v6 =
     (if pp_ip_version parsed = 4 then
        if take 4 (pp_src_ip parsed) \<in> set exact_v4 then (ACTION_DROP, MATCH_EXACT_HASH)
        else (ACTION_ACCEPT, MATCH_NONE)
      else if pp_ip_version parsed = 6 then
        if pp_src_ip parsed \<in> set exact_v6 then (ACTION_DROP, MATCH_EXACT_HASH)
        else (ACTION_ACCEPT, MATCH_NONE)
      else (ACTION_ACCEPT, MATCH_NONE))"

subsection \<open>Bounds and memory safety\<close>

lemma check_boundsD: "check_bounds len off n \<Longrightarrow> off + n \<le> len"
  by (simp add: check_bounds_def split: if_splits)

lemma check_bounds_iff:
  "len < usize_bound \<Longrightarrow> check_bounds len off n \<longleftrightarrow> off + n \<le> len"
  by (auto simp: check_bounds_def)

lemma vlan_loop_no_fault: "vlan_loop n data off et \<noteq> Fault"
  by (induction n data off et rule: vlan_loop.induct) (auto simp: index_at_def dest: check_boundsD)

lemma vlan_loop_offset:
  "vlan_loop n data off et = Ok (off', et') \<Longrightarrow> off \<le> length data \<Longrightarrow>
   off \<le> off' \<and> off' \<le> off + 4 * n \<and> off' \<le> length data"
proof (induction n data off et rule: vlan_loop.induct)
  case (2 n data off et)
  then show ?case
    by (fastforce simp: index_at_def dest: check_boundsD split: if_splits)
qed simp

lemma parse_ethernet_no_fault: "parse_ethernet data \<noteq> Fault"
  by (auto simp: parse_ethernet_def read_at_def Let_def vlan_loop_no_fault
      dest: check_boundsD split: outcome.splits)

lemma parse_ethernet_offset:
  "parse_ethernet data = Ok (h, off, et) \<Longrightarrow> 14 \<le> off \<and> off \<le> 22 \<and> off \<le> length data"
  by (auto simp: parse_ethernet_def read_at_def Let_def fw_consts
      dest!: check_boundsD vlan_loop_offset split: outcome.splits if_splits)

lemma parse_ipv4_no_fault: "parse_ipv4 data off \<noteq> Fault"
  by (auto simp: parse_ipv4_def read_at_def Let_def dest: check_boundsD)

lemma parse_ipv6_no_fault: "parse_ipv6 data off \<noteq> Fault"
  by (auto simp: parse_ipv6_def read_at_def Let_def dest: check_boundsD)

lemma extract_transport_ports_Ok: "\<exists>s d. extract_transport_ports data off p = Ok (s, d)"
  by (auto simp: extract_transport_ports_def read_at_def Let_def dest: check_boundsD)

lemma parse_ipv4_Ok:
  assumes "parse_ipv4 data off = Ok (h, l4)"
  shows "off + 20 \<le> l4" "l4 \<le> off + 60" "l4 \<le> length data"
    "length (ip4_src_addr h) = 4" "length (ip4_dst_addr h) = 4"
    "h = ipv4_of_bytes (take 20 (drop off data))"
proof -
  have le: "unat (v AND 0x0F) \<le> 15" for v :: u8
    using word_and_le1 [of v 15] by (simp add: word_le_nat_alt)
  show "off + 20 \<le> l4" "l4 \<le> off + 60" "l4 \<le> length data"
    "length (ip4_src_addr h) = 4" "length (ip4_dst_addr h) = 4"
    "h = ipv4_of_bytes (take 20 (drop off data))"
    using assms le
    by (auto simp: parse_ipv4_def read_at_def Let_def fw_consts ipv4_of_bytes_def
        dest!: check_boundsD split: if_splits)
qed

lemma parse_ipv6_Ok:
  assumes "parse_ipv6 data off = Ok (h, l4)"
  shows "l4 = off + 40" "l4 \<le> length data"
    "length (ip6_src_addr h) = 16" "length (ip6_dst_addr h) = 16"
    "h = ipv6_of_bytes (take 40 (drop off data))"
  using assms
  by (auto simp: parse_ipv6_def read_at_def Let_def fw_consts ipv6_of_bytes_def
      dest!: check_boundsD split: if_splits)

lemma parse_ipv4_lengths:
  "parse_ipv4 data off = Ok (h, l4) \<Longrightarrow> length (ip4_src_addr h) = 4 \<and> length (ip4_dst_addr h) = 4"
  by (simp add: parse_ipv4_Ok)

lemma parse_ipv6_lengths:
  "parse_ipv6 data off = Ok (h, l4) \<Longrightarrow> length (ip6_src_addr h) = 16 \<and> length (ip6_dst_addr h) = 16"
  by (simp add: parse_ipv6_Ok)

lemma classify_packet_wf:
  "classify_packet data = Ok p \<Longrightarrow>
   length (pp_src_ip p) = 16 \<and> length (pp_dst_ip p) = 16 \<and> pp_packet_len p = length data"
  by (auto simp: classify_packet_def dest!: parse_ipv4_lengths parse_ipv6_lengths
      split: outcome.splits if_splits)

text \<open>
  \<^bold>\<open>C12\<close>. Memory safety of the classifier: on no byte buffer, of any length and content, does
  \<open>classify_packet\<close> read outside the buffer or panic.  When it succeeds, the transport
  offset lies inside the buffer, past at least an Ethernet and an IP header, the
  addresses have 16 bytes and the IP version is 4 or 6.
\<close>

theorem classify_packet_safe:
  "case classify_packet data of
     Fault \<Rightarrow> False
   | Err _ \<Rightarrow> True
   | Ok p \<Rightarrow> 34 \<le> pp_l4_offset p \<and> pp_l4_offset p \<le> length data \<and> pp_packet_len p = length data \<and>
      length (pp_src_ip p) = 16 \<and> length (pp_dst_ip p) = 16 \<and> pp_ip_version p \<in> {4, 6}"
proof -
  have ports: "extract_transport_ports data off pr \<noteq> Fault" for off pr
    using extract_transport_ports_Ok [of data off pr] by auto
  show ?thesis
    using ports
    by (auto simp: classify_packet_def parse_ethernet_no_fault parse_ipv4_no_fault
        parse_ipv6_no_fault split: outcome.splits if_splits
        dest!: parse_ethernet_offset dest: parse_ipv4_Ok parse_ipv6_Ok)
qed

subsection \<open>Specification of well-formed frames\<close>

text \<open>
  The wire layout the parser is meant to accept, written from the protocol side: an
  Ethernet header whose type field is followed by the VLAN tags (TPID, TCI), then the
  network packet.  \<open>ipv4_packet\<close> is an IPv4 header with options, \<open>ipv6_packet\<close> the fixed
  IPv6 header.
\<close>

fun tag_first :: "(u16 \<times> u16) list \<Rightarrow> u16 \<Rightarrow> u16" where
  "tag_first [] et = et"
| "tag_first ((tpid, tci) # ts) et = tpid"

fun tag_rest :: "(u16 \<times> u16) list \<Rightarrow> u16 \<Rightarrow> bytes" where
  "tag_rest [] et = []"
| "tag_rest ((tpid, tci) # ts) et = to_be 2 tci @ to_be 2 (tag_first ts et) @ tag_rest ts et"

definition eth_frame :: "bytes \<Rightarrow> bytes \<Rightarrow> (u16 \<times> u16) list \<Rightarrow> u16 \<Rightarrow> bytes \<Rightarrow> bytes" where
  "eth_frame dst src tags et payload =
     dst @ src @ to_be 2 (tag_first tags et) @ tag_rest tags et @ payload"

text \<open>
  The version and header-length byte, the 8 bytes from TOS to TTL, the protocol, the
  checksum, the addresses, the options and the payload.
\<close>

definition ipv4_packet :: "bytes \<Rightarrow> u8 \<Rightarrow> bytes \<Rightarrow> bytes \<Rightarrow> bytes \<Rightarrow> bytes \<Rightarrow> bytes \<Rightarrow> bytes" where
  "ipv4_packet tos_ttl proto check src dst opts l4 =
     [0x40 + of_nat (5 + length opts div 4)] @ tos_ttl @ [proto] @ check @ src @ dst @ opts @ l4"

definition ipv6_packet :: "bytes \<Rightarrow> bytes \<Rightarrow> u8 \<Rightarrow> u8 \<Rightarrow> bytes \<Rightarrow> bytes \<Rightarrow> bytes \<Rightarrow> bytes" where
  "ipv6_packet vtc plen nh hop src dst l4 = vtc @ plen @ [nh, hop] @ src @ dst @ l4"

definition l4_ports :: "u8 \<Rightarrow> bytes \<Rightarrow> u16 \<times> u16" where
  "l4_ports proto l4 =
     (if (proto = PROTO_TCP \<or> proto = PROTO_UDP) \<and> 4 \<le> length l4
      then (from_be (take 2 l4), from_be (take 2 (drop 2 l4))) else (0, 0))"

lemma u16_from_be_le: "length b = 2 \<Longrightarrow> u16_from_be (from_le b) = from_be b"
  using to_le_from_le [of b 2, where 'a = 16] by (simp add: u16_from_be_def)

lemma u32_from_be_le: "length b = 4 \<Longrightarrow> u32_from_be (from_le b) = from_be b"
  using to_le_from_le [of b 4, where 'a = 32] by (simp add: u32_from_be_def)

lemma from_be_to_be2 [simp]: "from_be (to_be 2 (w :: u16)) = w"
  by (simp add: from_be_to_be take_bit_word_eq_self)

lemma length_tag_rest [simp]: "length (tag_rest tags et) = 4 * length tags"
  by (induction tags et rule: tag_rest.induct) auto

lemma to_be2_list: "to_be 2 (w :: u16) = [to_be 2 w ! 0, to_be 2 w ! 1]"
  by (simp add: numeral_2_eq_2)

lemma vlan_loop_tags:
  assumes "length pre + 4 * length tags + length rest < usize_bound" "length tags \<le> n"
    "\<forall>t \<in> set tags. is_vlan (fst t)" "\<not> is_vlan et \<or> length tags = n"
  shows "vlan_loop n (pre @ tag_rest tags et @ rest) (length pre) (tag_first tags et) =
    Ok (length pre + 4 * length tags, et)"
  using assms
proof (induction tags arbitrary: n pre)
  case Nil
  then show ?case by (cases n) auto
next
  case (Cons t ts)
  obtain tpid tci m where t: "t = (tpid, tci)" and n: "n = Suc m"
    using Cons.prems(2) by (cases t; cases n) auto
  let ?p = "pre @ to_be 2 tci @ to_be 2 (tag_first ts et)"
  let ?d = "?p @ tag_rest ts et @ rest"
  have d: "pre @ tag_rest (t # ts) et @ rest = ?d" by (simp add: t)
  have "?d ! (length pre + 2) = to_be 2 (tag_first ts et) ! 0"
    and "?d ! (length pre + 3) = to_be 2 (tag_first ts et) ! 1"
    by (simp_all add: nth_append)
  moreover have "from_be [to_be 2 (tag_first ts et) ! 0, to_be 2 (tag_first ts et) ! 1] = tag_first ts et"
    by (metis from_be_to_be2 to_be2_list)
  moreover have "vlan_loop m ?d (length ?p) (tag_first ts et) = Ok (length ?p + 4 * length ts, et)"
    using Cons.prems t n by (intro Cons.IH) auto
  moreover have "is_vlan tpid" using Cons.prems(3) t by simp
  ultimately show ?case
    using Cons.prems(1) unfolding d
    by (simp add: t n index_at_def check_bounds_iff add.commute)
qed

lemma parse_ethernet_frame:
  assumes "length dst = 6" "length src = 6" "length tags \<le> 2"
    "\<forall>t \<in> set tags. is_vlan (fst t)" "\<not> is_vlan et \<or> length tags = 2"
    "length (eth_frame dst src tags et payload) < usize_bound"
  shows "\<exists>h. parse_ethernet (eth_frame dst src tags et payload) = Ok (h, 14 + 4 * length tags, et)"
proof -
  let ?pre = "dst @ src @ to_be 2 (tag_first tags et)"
  have fr: "eth_frame dst src tags et payload = ?pre @ tag_rest tags et @ payload"
    by (simp add: eth_frame_def)
  have len: "length ?pre = 14" using assms by simp
  have "u16_from_be (eth_ether_type (ethernet_of_bytes ?pre)) = tag_first tags et"
    using assms by (simp add: ethernet_of_bytes_def u16_from_be_le)
  moreover have "vlan_loop 2 (?pre @ tag_rest tags et @ payload) (length ?pre) (tag_first tags et) =
      Ok (length ?pre + 4 * length tags, et)"
    using assms by (intro vlan_loop_tags) (auto simp: eth_frame_def)
  ultimately show ?thesis
    using len assms(6) unfolding fr
    by (simp add: parse_ethernet_def check_bounds_iff read_at_def Let_def fw_consts)
qed

lemma extract_transport_ports_append:
  assumes "length (pre @ l4) < usize_bound"
  shows "extract_transport_ports (pre @ l4) (length pre) proto = Ok (l4_ports proto l4)"
  using assms
  by (auto simp: extract_transport_ports_def check_bounds_iff read_at_def Let_def l4_ports_def
      ports_of_bytes_def u16_from_be_le drop_take)

lemma vhl_byte:
  assumes "k \<le> 15"
  shows "drop_bit 4 (0x40 + of_nat k :: u8) = 4" "unat ((0x40 + of_nat k :: u8) AND 0x0F) = k"
proof -
  have "k \<in> set [0..<16]" using assms by auto
  then show "drop_bit 4 (0x40 + of_nat k :: u8) = 4" "unat ((0x40 + of_nat k :: u8) AND 0x0F) = k"
    by (auto simp: upt_rec)
qed

lemma ipv4_packet_hdr:
  assumes "length tos_ttl = 8" "length check = 2" "length src = 4" "length dst = 4"
    "length opts = 4 * k" "k \<le> 10" "length (pre @ ipv4_packet tos_ttl proto check src dst opts l4) < usize_bound"
  shows "\<exists>h. parse_ipv4 (pre @ ipv4_packet tos_ttl proto check src dst opts l4) (length pre) =
      Ok (h, length pre + 20 + length opts) \<and>
    ip4_protocol h = proto \<and> ip4_src_addr h = src \<and> ip4_dst_addr h = dst"
proof -
  let ?b = "[0x40 + of_nat (5 + k)] @ tos_ttl @ [proto] @ check @ src @ dst"
  have pk: "ipv4_packet tos_ttl proto check src dst opts l4 = ?b @ opts @ l4"
    using assms by (simp add: ipv4_packet_def)
  have lb: "length ?b = 20" using assms by simp
  then have rd: "take 20 (drop (length pre) (pre @ ?b @ opts @ l4)) = ?b" by (rule take_drop_append)
  have f: "ip4_vhl (ipv4_of_bytes ?b) = 0x40 + of_nat (5 + k)"
    "ip4_protocol (ipv4_of_bytes ?b) = proto" "ip4_src_addr (ipv4_of_bytes ?b) = src"
    "ip4_dst_addr (ipv4_of_bytes ?b) = dst"
    using assms by (simp_all add: ipv4_of_bytes_def nth_append nth_Cons')
  have v: "drop_bit 4 (0x40 + of_nat (5 + k) :: u8) = 4"
    "unat ((0x40 + of_nat (5 + k) :: u8) AND 0x0F) = 5 + k"
    using vhl_byte [of "5 + k"] assms by simp_all
  have c: "check_bounds (length (pre @ ?b @ opts @ l4)) (length pre) 20"
    "check_bounds (length (pre @ ?b @ opts @ l4)) (length pre) (20 + length opts)"
    using assms(7) lb unfolding pk by (simp_all add: check_bounds_iff)
  have ihl: "(5 + k) * 4 = 20 + length opts" using assms by simp
  show ?thesis
    unfolding pk parse_ipv4_def read_at_def IPV4_MIN_HDR_LEN_def rd Let_def f v ihl
    using c lb f by simp
qed

lemma ipv6_packet_hdr:
  assumes "length vtc = 4" "drop_bit 4 (vtc ! 0) = 6" "length plen = 2" "length src = 16"
    "length dst = 16" "length (pre @ ipv6_packet vtc plen nh hop src dst l4) < usize_bound"
  shows "\<exists>h. parse_ipv6 (pre @ ipv6_packet vtc plen nh hop src dst l4) (length pre) =
      Ok (h, length pre + 40) \<and>
    ip6_next_header h = nh \<and> ip6_src_addr h = src \<and> ip6_dst_addr h = dst"
proof -
  let ?b = "vtc @ plen @ [nh, hop] @ src @ dst"
  have pk: "ipv6_packet vtc plen nh hop src dst l4 = ?b @ l4" by (simp add: ipv6_packet_def)
  have lb: "length ?b = 40" using assms by simp
  then have rd: "take 40 (drop (length pre) (pre @ ?b @ l4)) = ?b" by (rule take_drop_append)
  have f: "u32_from_be (ip6_vtc_fl (ipv6_of_bytes ?b)) = from_be vtc"
    "ip6_next_header (ipv6_of_bytes ?b) = nh" "ip6_src_addr (ipv6_of_bytes ?b) = src"
    "ip6_dst_addr (ipv6_of_bytes ?b) = dst"
    using assms by (simp_all add: ipv6_of_bytes_def nth_append u32_from_be_le)
  have v: "(ucast (drop_bit 28 (from_be vtc :: u32)) :: u8) = 6"
  proof -
    have "(ucast (drop_bit 28 (from_be vtc :: u32)) :: u8) = drop_bit 4 (vtc ! 0)"
    proof (rule byte_eqI)
      fix j :: nat assume "j < 8"
      show "bit (ucast (drop_bit 28 (from_be vtc :: u32)) :: u8) j = bit (drop_bit 4 (vtc ! 0)) j"
      proof (cases "j < 4")
        case True
        then have "28 + j = 8 * 3 + (4 + j)" "4 + j < 8" by auto
        then have "(28 + j) div 8 = 3" "(28 + j) mod 8 = 4 + j"
          by (simp_all only: div_mult_self4 mod_mult_self4 div_less mod_less)
        then show ?thesis
          using True assms(1) \<open>j < 8\<close>
          by (simp add: bit_simps bit_from_be rev_nth add.commute)
      next
        case False
        then show ?thesis
          by (auto simp: bit_simps dest!: bit_imp_le_length)
      qed
    qed
    with assms(2) show ?thesis by simp
  qed
  have c: "check_bounds (length (pre @ ?b @ l4)) (length pre) 40"
    using assms(6) lb unfolding pk by (simp add: check_bounds_iff)
  show ?thesis
    unfolding pk parse_ipv6_def read_at_def IPV6_HDR_LEN_def rd Let_def f v
    using c lb f by simp
qed

lemma classify_ipv4:
  assumes "length dmac = 6" "length smac = 6" "length tags \<le> 2"
    and "\<forall>t \<in> set tags. is_vlan (fst t)"
    and "length tos_ttl = 8" "length check = 2" "length src = 4" "length dst = 4"
    and "length opts = 4 * k" "k \<le> 10"
    and "frame = eth_frame dmac smac tags ETH_P_IP (ipv4_packet tos_ttl proto check src dst opts l4)"
    and "length frame < usize_bound"
  shows "classify_packet frame =
    Ok \<lparr>pp_ip_version = 4, pp_src_ip = src @ replicate 12 0, pp_dst_ip = dst @ replicate 12 0,
        pp_protocol = proto, pp_src_port = fst (l4_ports proto l4),
        pp_dst_port = snd (l4_ports proto l4), pp_packet_len = length frame,
        pp_l4_offset = 34 + 4 * length tags + length opts\<rparr>"
proof -
  let ?pre = "dmac @ smac @ to_be 2 (tag_first tags ETH_P_IP) @ tag_rest tags ETH_P_IP"
  let ?ip = "ipv4_packet tos_ttl proto check src dst opts l4"
  have fr: "frame = ?pre @ ?ip" using assms(11) by (simp add: eth_frame_def)
  have lp: "length ?pre = 14 + 4 * length tags" using assms by simp
  have "\<not> is_vlan ETH_P_IP" by (simp add: is_vlan_def fw_consts)
  with assms obtain h where eth: "parse_ethernet frame = Ok (h, 14 + 4 * length tags, ETH_P_IP)"
    using parse_ethernet_frame [of dmac smac tags ETH_P_IP ?ip] by blast
  obtain h4 where ip: "parse_ipv4 frame (length ?pre) = Ok (h4, length ?pre + 20 + length opts)"
    and h4: "ip4_protocol h4 = proto" "ip4_src_addr h4 = src" "ip4_dst_addr h4 = dst"
    using ipv4_packet_hdr [of tos_ttl check src dst opts k ?pre proto l4] assms unfolding fr by blast
  let ?pre4 = "?pre @ [0x40 + of_nat (5 + length opts div 4)] @ tos_ttl @ [proto] @ check @ src @ dst @ opts"
  have fr4: "frame = ?pre4 @ l4" using fr by (simp add: ipv4_packet_def)
  have lp4: "length ?pre4 = length ?pre + 20 + length opts" using assms by simp
  have ports: "extract_transport_ports frame (length ?pre + 20 + length opts) proto = Ok (l4_ports proto l4)"
    using extract_transport_ports_append [of ?pre4 l4 proto] assms(12) unfolding fr4 lp4 by blast
  show ?thesis
    using eth ip [unfolded lp] ports [unfolded lp] h4
    by (simp add: classify_packet_def split: prod.splits)
qed

text \<open>
  \<^bold>\<open>C13\<close>. Every well-formed IPv4 frame, untagged or with one or two VLAN tags, with any IP
  options, is classified with exactly the addresses, protocol and ports it was built
  from, and the transport offset points behind the options.
\<close>

theorem classify_ipv4_frame:
  assumes "length dmac = 6" "length smac = 6" "length tags \<le> 2"
    and "\<forall>t \<in> set tags. is_vlan (fst t)"
    and "length tos_ttl = 8" "length check = 2" "length src = 4" "length dst = 4"
    and "length opts = 4 * k" "k \<le> 10"
    and "frame = eth_frame dmac smac tags ETH_P_IP (ipv4_packet tos_ttl proto check src dst opts l4)"
    and "length frame < usize_bound"
  shows "classify_packet frame =
    Ok \<lparr>pp_ip_version = 4, pp_src_ip = src @ replicate 12 0, pp_dst_ip = dst @ replicate 12 0,
        pp_protocol = proto, pp_src_port = fst (l4_ports proto l4),
        pp_dst_port = snd (l4_ports proto l4), pp_packet_len = length frame,
        pp_l4_offset = 34 + 4 * length tags + length opts\<rparr>"
  using assms by (rule classify_ipv4)

theorem classify_ipv4_frame_witness:
  "classify_packet (eth_frame (replicate 6 1) (replicate 6 2) [(ETH_P_8021AD, 7), (ETH_P_8021Q, 9)] ETH_P_IP
     (ipv4_packet (replicate 8 0) PROTO_UDP [0, 0] [198, 51, 100, 14] [10, 0, 0, 1] [1, 1, 1, 1]
        [20, 233, 0, 53])) =
   Ok \<lparr>pp_ip_version = 4, pp_src_ip = [198, 51, 100, 14] @ replicate 12 0,
      pp_dst_ip = [10, 0, 0, 1] @ replicate 12 0, pp_protocol = PROTO_UDP, pp_src_port = 5353,
      pp_dst_port = 53, pp_packet_len = 50, pp_l4_offset = 46\<rparr>"
proof -
  let ?l4 = "[20, 233, 0, 53] :: bytes"
  have p: "l4_ports PROTO_UDP ?l4 = (5353, 53)"
    by (simp add: l4_ports_def from_be_def push_bit_eq_mult fw_consts)
  show ?thesis
    using classify_ipv4_frame [of "replicate 6 1" "replicate 6 2" "[(ETH_P_8021AD, 7), (ETH_P_8021Q, 9)]"
        "replicate 8 0" "[0, 0]" "[198, 51, 100, 14]" "[10, 0, 0, 1]" "[1, 1, 1, 1]" 1 _ PROTO_UDP ?l4, OF _ _ _ _ _ _ _ _ _ _ refl]
    by (simp add: p is_vlan_def usize_bound_def) (simp add: eth_frame_def ipv4_packet_def)
qed

lemma classify_ipv6:
  assumes "length dmac = 6" "length smac = 6" "length tags \<le> 2"
    and "\<forall>t \<in> set tags. is_vlan (fst t)"
    and "length vtc = 4" "drop_bit 4 (vtc ! 0) = 6" "length plen = 2"
    and "length src = 16" "length dst = 16"
    and "frame = eth_frame dmac smac tags ETH_P_IPV6 (ipv6_packet vtc plen nh hop src dst l4)"
    and "length frame < usize_bound"
  shows "classify_packet frame =
    Ok \<lparr>pp_ip_version = 6, pp_src_ip = src, pp_dst_ip = dst, pp_protocol = nh,
        pp_src_port = fst (l4_ports nh l4), pp_dst_port = snd (l4_ports nh l4),
        pp_packet_len = length frame, pp_l4_offset = 54 + 4 * length tags\<rparr>"
proof -
  let ?pre = "dmac @ smac @ to_be 2 (tag_first tags ETH_P_IPV6) @ tag_rest tags ETH_P_IPV6"
  let ?ip = "ipv6_packet vtc plen nh hop src dst l4"
  have fr: "frame = ?pre @ ?ip" using assms(10) by (simp add: eth_frame_def)
  have lp: "length ?pre = 14 + 4 * length tags" using assms by simp
  have "\<not> is_vlan ETH_P_IPV6" by (simp add: is_vlan_def fw_consts)
  with assms obtain h where eth: "parse_ethernet frame = Ok (h, 14 + 4 * length tags, ETH_P_IPV6)"
    using parse_ethernet_frame [of dmac smac tags ETH_P_IPV6 ?ip] by blast
  obtain h6 where ip: "parse_ipv6 frame (length ?pre) = Ok (h6, length ?pre + 40)"
    and h6: "ip6_next_header h6 = nh" "ip6_src_addr h6 = src" "ip6_dst_addr h6 = dst"
    using ipv6_packet_hdr [of vtc plen src dst ?pre nh hop l4] assms unfolding fr by blast
  let ?pre4 = "?pre @ vtc @ plen @ [nh, hop] @ src @ dst"
  have fr4: "frame = ?pre4 @ l4" using fr by (simp add: ipv6_packet_def)
  have lp4: "length ?pre + 40 = length ?pre4" using assms by simp
  have ports: "extract_transport_ports frame (length ?pre + 40) nh = Ok (l4_ports nh l4)"
    using extract_transport_ports_append [of ?pre4 l4 nh] assms(11) unfolding fr4 lp4 by blast
  have "ETH_P_IPV6 \<noteq> ETH_P_IP" by (simp add: fw_consts)
  then show ?thesis
    using eth ip [unfolded lp] ports [unfolded lp] h6
    by (simp add: classify_packet_def split: prod.splits)
qed

text \<open>
  \<^bold>\<open>C14\<close>. The same for IPv6: a frame with at most two VLAN tags, a version-6 first nibble and
  the fixed 40-byte header is classified with exactly its addresses, next header and
  ports.
\<close>

theorem classify_ipv6_frame:
  assumes "length dmac = 6" "length smac = 6" "length tags \<le> 2"
    and "\<forall>t \<in> set tags. is_vlan (fst t)"
    and "length vtc = 4" "drop_bit 4 (vtc ! 0) = 6" "length plen = 2"
    and "length src = 16" "length dst = 16"
    and "frame = eth_frame dmac smac tags ETH_P_IPV6 (ipv6_packet vtc plen nh hop src dst l4)"
    and "length frame < usize_bound"
  shows "classify_packet frame =
    Ok \<lparr>pp_ip_version = 6, pp_src_ip = src, pp_dst_ip = dst, pp_protocol = nh,
        pp_src_port = fst (l4_ports nh l4), pp_dst_port = snd (l4_ports nh l4),
        pp_packet_len = length frame, pp_l4_offset = 54 + 4 * length tags\<rparr>"
  using assms by (rule classify_ipv6)

theorem classify_ipv6_frame_witness:
  "classify_packet (eth_frame (replicate 6 1) (replicate 6 2) [] ETH_P_IPV6
     (ipv6_packet [0x60, 0, 0, 0] [0, 20] PROTO_TCP 64 (replicate 16 3) (replicate 16 4) [0, 80, 1])) =
   Ok \<lparr>pp_ip_version = 6, pp_src_ip = replicate 16 3, pp_dst_ip = replicate 16 4,
      pp_protocol = PROTO_TCP, pp_src_port = 0, pp_dst_port = 0, pp_packet_len = 57,
      pp_l4_offset = 54\<rparr>"
  using classify_ipv6_frame [of "replicate 6 1" "replicate 6 2" "[]" "[0x60, 0, 0, 0]" "[0, 20]"
      "replicate 16 3" "replicate 16 4" _ PROTO_TCP 64 "[0, 80, 1]", OF _ _ _ _ _ _ _ _ _ refl]
  by (simp add: usize_bound_def l4_ports_def) (simp add: eth_frame_def ipv6_packet_def)

end
