(* ===== verification/Xdp_Firewall.thy ===== *)
theory Xdp_Firewall
  imports Packet_Lib
begin

section \<open>The XDP ingress hook\<close>

text \<open>
  Models \<open>firewall-ebpf/src/main.rs\<close>.  A context is the address of the packet and its
  bytes; \<open>ptr_at\<close> computes an address, and dereferencing an address outside
  \<open>[data, data_end)\<close> is \<open>Fault\<close>.  The kernel's maps, ring buffer and clock are not part of
  the repository: their operations are the fields of \<open>xdp_env\<close>, an argument of every
  definition.  The state the hook changes is the \<open>STATS\<close> array element and the ring buffer.
  Addresses are natural numbers: a packet buffer never reaches the last page of the
  address space, so \<open>start + offset + len\<close> does not wrap.
\<close>

subsection \<open>Context, environment and state\<close>

record xdp_ctx =
  cx_data :: nat
  cx_pkt :: bytes
  cx_ifindex :: u32

definition cx_data_end :: "xdp_ctx \<Rightarrow> nat" where
  "cx_data_end ctx = cx_data ctx + length (cx_pkt ctx)"

record 'rb xdp_env =
  ipv4_exact_get :: "bytes \<Rightarrow> rule_value option"
  ipv6_exact_get :: "bytes \<Rightarrow> rule_value option"
  ipv4_lpm_get :: "u32 \<Rightarrow> bytes \<Rightarrow> rule_value option"
  ipv6_lpm_get :: "u32 \<Rightarrow> bytes \<Rightarrow> rule_value option"
  events_output :: "'rb \<Rightarrow> packet_log_event \<Rightarrow> 'rb \<times> bool"
  ktime_get_ns :: u64

record 'rb kstate =
  ks_stats :: "firewall_stats option"
  ks_ring :: 'rb

datatype xdp_action = XDP_DROP | XDP_PASS

type_synonym 'rb verdict = "(unit, xdp_action) outcome \<times> 'rb kstate"

subsection \<open>Helpers\<close>

definition ptr_at :: "xdp_ctx \<Rightarrow> nat \<Rightarrow> nat \<Rightarrow> (unit, nat) outcome" where
  "ptr_at ctx len offset =
     (if cx_data ctx + offset + len > cx_data_end ctx then Err () else Ok (cx_data ctx + offset))"

definition deref :: "xdp_ctx \<Rightarrow> nat \<Rightarrow> nat \<Rightarrow> bytes option" where
  "deref ctx ptr n =
     (if cx_data ctx \<le> ptr \<and> ptr + n \<le> cx_data_end ctx
      then Some (take n (drop (ptr - cx_data ctx) (cx_pkt ctx))) else None)"

text \<open>\<open>ptr_at::<T>(ctx, offset)?\<close> followed by \<open>read_unaligned\<close>.\<close>

definition load_at :: "xdp_ctx \<Rightarrow> nat \<Rightarrow> nat \<Rightarrow> (unit, bytes) outcome" where
  "load_at ctx len offset =
     (case ptr_at ctx len offset of Err e \<Rightarrow> Err e | Fault \<Rightarrow> Fault
      | Ok ptr \<Rightarrow> (case deref ctx ptr len of None \<Rightarrow> Fault | Some b \<Rightarrow> Ok b))"

definition bump_stats :: "u64 \<Rightarrow> bool \<Rightarrow> u64 \<Rightarrow> bool \<Rightarrow> firewall_stats \<Rightarrow> firewall_stats" where
  "bump_stats rx dropped dbytes emitted s =
     (let s = s\<lparr>rx_packets := rx_packets s + 1\<rparr>;
          s = s\<lparr>rx_bytes := rx_bytes s + rx\<rparr>;
          s = (if dropped
               then s\<lparr>dropped_packets := dropped_packets s + 1,
                      dropped_bytes := dropped_bytes s + dbytes\<rparr>
               else s\<lparr>accepted_packets := accepted_packets s + 1,
                      accepted_bytes := accepted_bytes s + rx\<rparr>)
      in if emitted then s\<lparr>ringbuf_events := ringbuf_events s + 1\<rparr> else s)"

definition update_stats :: "u64 \<Rightarrow> bool \<Rightarrow> u64 \<Rightarrow> bool \<Rightarrow> 'rb kstate \<Rightarrow> 'rb kstate" where
  "update_stats rx dropped dbytes emitted st =
     (case ks_stats st of None \<Rightarrow> st
      | Some s \<Rightarrow> st\<lparr>ks_stats := Some (bump_stats rx dropped dbytes emitted s)\<rparr>)"

definition is_github_ipv4 :: "bytes \<Rightarrow> bool" where
  "is_github_ipv4 ip =
     (if ip ! 0 = 140 \<and> ip ! 1 = 82 \<and> (ip ! 2) AND 0xF0 = 112 then True
      else if ip ! 0 = 192 \<and> ip ! 1 = 30 \<and> (ip ! 2) AND 0xFC = 252 then True
      else if ip ! 0 = 185 \<and> ip ! 1 = 199 \<and> (ip ! 2) AND 0xFC = 108 then True
      else if ip ! 0 = 143 \<and> ip ! 1 = 55 \<and> (ip ! 2) AND 0xF0 = 64 then True
      else if (ip ! 0 = 20 \<and> ip ! 1 = 201 \<and> ip ! 2 = 28 \<and> ip ! 3 = 151) \<or>
              (ip ! 0 = 20 \<and> ip ! 1 = 205 \<and> ip ! 2 = 243 \<and> ip ! 3 = 166) \<or>
              (ip ! 0 = 4 \<and> ip ! 1 = 237 \<and> (ip ! 2 = 22 \<or> ip ! 2 = 23)) then True
      else False)"

definition extract_ports :: "xdp_ctx \<Rightarrow> nat \<Rightarrow> u8 \<Rightarrow> (unit, u16 \<times> u16) outcome" where
  "extract_ports ctx l4_offset protocol =
     (if protocol = PROTO_TCP \<or> protocol = PROTO_UDP then
        (case load_at ctx 4 l4_offset of
           Ok b \<Rightarrow> let ports = ports_of_bytes b in
             Ok (u16_from_be (tp_src_port ports), u16_from_be (tp_dst_port ports))
         | Err _ \<Rightarrow> Ok (0, 0)
         | Fault \<Rightarrow> Fault)
      else Ok (0, 0))"

subsection \<open>Reputation lookup and enforcement\<close>

text \<open>The two-level lookup: exact hash map first, LPM trie on a miss.\<close>

definition reputation_lookup ::
  "(bytes \<Rightarrow> rule_value option) \<Rightarrow> (u32 \<Rightarrow> bytes \<Rightarrow> rule_value option) \<Rightarrow> u32 \<Rightarrow> bytes \<Rightarrow>
   rule_value option \<times> u8" where
  "reputation_lookup exact lpm plen src =
     (let (matched, mt) = (case exact src of Some r \<Rightarrow> (Some r, MATCH_EXACT_HASH)
                           | None \<Rightarrow> (None, MATCH_NONE))
      in if matched = None
         then (case lpm plen src of Some r \<Rightarrow> (Some r, MATCH_LPM_TRIE) | None \<Rightarrow> (matched, mt))
         else (matched, mt))"

definition drop_event ::
  "'rb xdp_env \<Rightarrow> xdp_ctx \<Rightarrow> u8 \<Rightarrow> bytes \<Rightarrow> bytes \<Rightarrow> u8 \<Rightarrow> u16 \<Rightarrow> u16 \<Rightarrow> u32 \<Rightarrow> rule_value \<Rightarrow> u8 \<Rightarrow>
   packet_log_event" where
  "drop_event env ctx ver src16 dst16 protocol sport dport packet_len rule mt =
     \<lparr>ev_timestamp_ns = ktime_get_ns env, ev_src_ip = src16, ev_dst_ip = dst16,
      ev_rule_id = rv_rule_id rule, ev_packet_len = packet_len, ev_ifindex = cx_ifindex ctx,
      ev_src_port = sport, ev_dst_port = dport, ev_protocol = protocol, ev_ip_version = ver,
      ev_action = ACTION_DROP, ev_match_type = mt, ev_pad = replicate 4 0\<rparr>"

definition enforce ::
  "'rb xdp_env \<Rightarrow> xdp_ctx \<Rightarrow> u8 \<Rightarrow> bytes \<Rightarrow> bytes \<Rightarrow> u8 \<Rightarrow> u16 \<Rightarrow> u16 \<Rightarrow> u32 \<Rightarrow>
   rule_value option \<times> u8 \<Rightarrow> 'rb kstate \<Rightarrow> 'rb verdict" where
  "enforce env ctx ver src16 dst16 protocol sport dport packet_len m st =
     (case m of
        (Some rule, mt) \<Rightarrow>
          if rv_action rule = ACTION_DROP then
            let event = drop_event env ctx ver src16 dst16 protocol sport dport packet_len rule mt;
                (ring, success) = events_output env (ks_ring st) event;
                st = st\<lparr>ks_ring := ring\<rparr>;
                st = update_stats (ucast packet_len) True (ucast packet_len) success st
            in (Ok XDP_DROP, st)
          else (Ok XDP_PASS, update_stats (ucast packet_len) False 0 False st)
      | (None, mt) \<Rightarrow> (Ok XDP_PASS, update_stats (ucast packet_len) False 0 False st))"

definition process_ipv4 :: "'rb xdp_env \<Rightarrow> xdp_ctx \<Rightarrow> nat \<Rightarrow> u32 \<Rightarrow> 'rb kstate \<Rightarrow> 'rb verdict" where
  "process_ipv4 env ctx offset packet_len st =
     (case load_at ctx 20 offset of Err e \<Rightarrow> (Err e, st) | Fault \<Rightarrow> (Fault, st)
      | Ok b \<Rightarrow>
        let ip_hdr = ipv4_of_bytes b; ihl = unat (ip4_vhl ip_hdr AND 0x0F) * 4 in
        if ihl < 20 then (Err (), st)
        else let l4_offset = offset + ihl in
          if cx_data ctx + l4_offset > cx_data_end ctx then (Err (), st)
          else let src_ip = ip4_src_addr ip_hdr; dst_ip = ip4_dst_addr ip_hdr;
                   protocol = ip4_protocol ip_hdr in
            (case extract_ports ctx l4_offset protocol of
               Err e \<Rightarrow> (Err e, st) | Fault \<Rightarrow> (Fault, st)
             | Ok (src_port, dst_port) \<Rightarrow>
               if (protocol = PROTO_UDP \<or> protocol = PROTO_TCP) \<and> src_port = 53
               then (Ok XDP_PASS, update_stats (ucast packet_len) False 0 False st)
               else if protocol = PROTO_TCP \<and> src_port = 443 \<and> is_github_ipv4 src_ip
               then (Ok XDP_PASS, update_stats (ucast packet_len) False 0 False st)
               else enforce env ctx 4 (src_ip @ replicate 12 0) (dst_ip @ replicate 12 0)
                      protocol src_port dst_port packet_len
                      (reputation_lookup (ipv4_exact_get env) (ipv4_lpm_get env) 32 src_ip) st))"

definition process_ipv6 :: "'rb xdp_env \<Rightarrow> xdp_ctx \<Rightarrow> nat \<Rightarrow> u32 \<Rightarrow> 'rb kstate \<Rightarrow> 'rb verdict" where
  "process_ipv6 env ctx offset packet_len st =
     (case load_at ctx 40 offset of Err e \<Rightarrow> (Err e, st) | Fault \<Rightarrow> (Fault, st)
      | Ok b \<Rightarrow>
        let ip_hdr = ipv6_of_bytes b; l4_offset = offset + 40 in
        if cx_data ctx + l4_offset > cx_data_end ctx then (Err (), st)
        else let src_ip = ip6_src_addr ip_hdr; dst_ip = ip6_dst_addr ip_hdr;
                 protocol = ip6_next_header ip_hdr in
          (case extract_ports ctx l4_offset protocol of
             Err e \<Rightarrow> (Err e, st) | Fault \<Rightarrow> (Fault, st)
           | Ok (src_port, dst_port) \<Rightarrow>
             enforce env ctx 6 src_ip dst_ip protocol src_port dst_port packet_len
               (reputation_lookup (ipv6_exact_get env) (ipv6_lpm_get env) 128 src_ip) st))"

definition try_firewall :: "'rb xdp_env \<Rightarrow> xdp_ctx \<Rightarrow> 'rb kstate \<Rightarrow> 'rb verdict" where
  "try_firewall env ctx st =
     (let packet_len = of_nat (cx_data_end ctx - cx_data ctx) :: u32 in
      case load_at ctx 14 0 of Err e \<Rightarrow> (Err e, st) | Fault \<Rightarrow> (Fault, st)
      | Ok b \<Rightarrow>
        let ether_type = u16_from_be (eth_ether_type (ethernet_of_bytes b)); offset = ETH_HDR_LEN in
        (case (if ether_type = ETH_P_8021Q \<or> ether_type = ETH_P_8021AD
               then (case load_at ctx 4 offset of Err e \<Rightarrow> Err e | Fault \<Rightarrow> Fault
                     | Ok v \<Rightarrow> Ok (from_be [v ! 2, v ! 3], offset + 4))
               else Ok (ether_type, offset)) of
           Err e \<Rightarrow> (Err e, st) | Fault \<Rightarrow> (Fault, st)
         | Ok (ether_type, offset) \<Rightarrow>
           if ether_type = ETH_P_IP then process_ipv4 env ctx offset packet_len st
           else if ether_type = ETH_P_IPV6 then process_ipv6 env ctx offset packet_len st
           else (Ok XDP_PASS, update_stats (ucast packet_len) False 0 False st)))"

definition firewall :: "'rb xdp_env \<Rightarrow> xdp_ctx \<Rightarrow> 'rb kstate \<Rightarrow> 'rb verdict" where
  "firewall env ctx st =
     (case try_firewall env ctx st of
        (Ok action, st') \<Rightarrow> (Ok action, st')
      | (Err _, st') \<Rightarrow> (Ok XDP_PASS, st')
      | (Fault, st') \<Rightarrow> (Fault, st'))"

subsection \<open>Memory safety\<close>

lemma load_at_eq:
  "load_at ctx n off =
     (if off + n \<le> length (cx_pkt ctx) then Ok (take n (drop off (cx_pkt ctx))) else Err ())"
  by (auto simp: load_at_def ptr_at_def deref_def cx_data_end_def)

lemma extract_ports_Ok: "\<exists>s d. extract_ports ctx off p = Ok (s, d)"
  by (simp add: extract_ports_def load_at_eq Let_def)

lemma extract_ports_no_fault [simp]: "extract_ports ctx off p \<noteq> Fault"
  using extract_ports_Ok [of ctx off p] by auto

lemma enforce_no_fault [simp]: "fst (enforce env ctx v s d p sp dp len m st) \<noteq> Fault"
  by (auto simp: enforce_def Let_def split: prod.splits option.splits)

lemma process_ipv4_no_fault: "fst (process_ipv4 env ctx off len st) \<noteq> Fault"
  by (auto simp: process_ipv4_def load_at_eq Let_def split: outcome.splits)

lemma process_ipv6_no_fault: "fst (process_ipv6 env ctx off len st) \<noteq> Fault"
  by (auto simp: process_ipv6_def load_at_eq Let_def split: outcome.splits)

lemma try_firewall_no_fault: "fst (try_firewall env ctx st) \<noteq> Fault"
  by (auto simp: try_firewall_def load_at_eq Let_def process_ipv4_no_fault process_ipv6_no_fault
      split: outcome.splits)

lemma firewall_returns: "\<exists>action st'. firewall env ctx st = (Ok action, st')"
  using try_firewall_no_fault [of env ctx st]
  by (auto simp: firewall_def split: prod.splits outcome.splits)

text \<open>
  \<^bold>\<open>C9\<close>. Memory safety and totality of the hook: whatever the packet bytes, maps and
  state, \<open>firewall\<close> dereferences no address outside the packet and returns an action.
\<close>

theorem firewall_total: "\<exists>action st'. firewall env ctx st = (Ok action, st')"
  by (rule firewall_returns)

subsection \<open>The decision on a classified packet\<close>

text \<open>
  What the hook decides, as a function of the fields of a classified packet: the IPv4
  management bypasses first, then the reputation lookup of the source address.
\<close>

definition bypassed :: "parsed_packet \<Rightarrow> bool" where
  "bypassed p \<longleftrightarrow> pp_ip_version p = 4 \<and>
     ((pp_protocol p = PROTO_UDP \<or> pp_protocol p = PROTO_TCP) \<and> pp_src_port p = 53 \<or>
      pp_protocol p = PROTO_TCP \<and> pp_src_port p = 443 \<and> is_github_ipv4 (take 4 (pp_src_ip p)))"

text \<open>The exact map decides where it has the address; the prefix trie is asked only otherwise.\<close>

definition source_lookup :: "'rb xdp_env \<Rightarrow> parsed_packet \<Rightarrow> rule_value option \<times> u8" where
  "source_lookup env p =
     (let src = (if pp_ip_version p = 4 then take 4 (pp_src_ip p) else pp_src_ip p);
          exact = (if pp_ip_version p = 4 then ipv4_exact_get env src else ipv6_exact_get env src);
          lpm = (if pp_ip_version p = 4 then ipv4_lpm_get env 32 src else ipv6_lpm_get env 128 src)
      in (if exact \<noteq> None then exact else lpm,
          if exact \<noteq> None then MATCH_EXACT_HASH else if lpm \<noteq> None then MATCH_LPM_TRIE else MATCH_NONE))"

lemma source_lookup_reputation:
  "source_lookup env p =
     (if pp_ip_version p = 4
      then reputation_lookup (ipv4_exact_get env) (ipv4_lpm_get env) 32 (take 4 (pp_src_ip p))
      else reputation_lookup (ipv6_exact_get env) (ipv6_lpm_get env) 128 (pp_src_ip p))"
  by (auto simp: source_lookup_def reputation_lookup_def Let_def split: option.splits)

definition decide :: "'rb xdp_env \<Rightarrow> xdp_ctx \<Rightarrow> parsed_packet \<Rightarrow> 'rb kstate \<Rightarrow> 'rb verdict" where
  "decide env ctx p st =
     (let len = of_nat (pp_packet_len p) :: u32 in
      if bypassed p then (Ok XDP_PASS, update_stats (ucast len) False 0 False st)
      else enforce env ctx (pp_ip_version p) (pp_src_ip p) (pp_dst_ip p) (pp_protocol p)
             (pp_src_port p) (pp_dst_port p) len (source_lookup env p) st)"

lemma extract_ports_lib:
  "length (cx_pkt ctx) < usize_bound \<Longrightarrow>
   extract_ports ctx off pr = extract_transport_ports (cx_pkt ctx) off pr"
  by (simp add: extract_ports_def extract_transport_ports_def load_at_eq check_bounds_iff read_at_def Let_def)

lemma packet_len_eq: "cx_data_end ctx - cx_data ctx = length (cx_pkt ctx)"
  by (simp add: cx_data_end_def)

lemma process_ipv4_lib:
  assumes "length (cx_pkt ctx) < usize_bound" "parse_ipv4 (cx_pkt ctx) off = Ok (h, l4)"
    "extract_transport_ports (cx_pkt ctx) l4 (ip4_protocol h) = Ok (sp, dp)"
  shows "process_ipv4 env ctx off (of_nat (length (cx_pkt ctx))) st =
    decide env ctx \<lparr>pp_ip_version = 4, pp_src_ip = ip4_src_addr h @ replicate 12 0,
      pp_dst_ip = ip4_dst_addr h @ replicate 12 0, pp_protocol = ip4_protocol h,
      pp_src_port = sp, pp_dst_port = dp, pp_packet_len = length (cx_pkt ctx), pp_l4_offset = l4\<rparr> st"
proof -
  note h = parse_ipv4_Ok [OF assms(2)]
  from assms(2) have ihl: "l4 = off + unat (ip4_vhl h AND 0x0F) * 4"
    "\<not> unat (ip4_vhl h AND 0x0F) * 4 < 20" "off + 20 \<le> length (cx_pkt ctx)"
    by (auto simp: parse_ipv4_def read_at_def Let_def fw_consts dest!: check_boundsD split: if_splits)
  have ports: "extract_ports ctx l4 (ip4_protocol h) = Ok (sp, dp)"
    using assms by (simp add: extract_ports_lib)
  show ?thesis
    using ihl h(3-6) ports
    by (auto simp: process_ipv4_def load_at_eq Let_def cx_data_end_def decide_def bypassed_def
        source_lookup_reputation)
qed

lemma process_ipv6_lib:
  assumes "length (cx_pkt ctx) < usize_bound" "parse_ipv6 (cx_pkt ctx) off = Ok (h, l4)"
    "extract_transport_ports (cx_pkt ctx) l4 (ip6_next_header h) = Ok (sp, dp)"
  shows "process_ipv6 env ctx off (of_nat (length (cx_pkt ctx))) st =
    decide env ctx \<lparr>pp_ip_version = 6, pp_src_ip = ip6_src_addr h, pp_dst_ip = ip6_dst_addr h,
      pp_protocol = ip6_next_header h, pp_src_port = sp, pp_dst_port = dp,
      pp_packet_len = length (cx_pkt ctx), pp_l4_offset = l4\<rparr> st"
proof -
  note h = parse_ipv6_Ok [OF assms(2)]
  have ports: "extract_ports ctx l4 (ip6_next_header h) = Ok (sp, dp)"
    using assms by (simp add: extract_ports_lib)
  show ?thesis
    using h ports
    by (simp add: process_ipv6_def load_at_eq Let_def cx_data_end_def decide_def bypassed_def
        source_lookup_reputation)
qed

text \<open>The hook strips one VLAN tag; the library strips two.\<close>

lemma try_firewall_ethernet:
  assumes "length (cx_pkt ctx) < usize_bound" "parse_ethernet (cx_pkt ctx) = Ok (h, off, et)" "off \<le> 18"
  shows "try_firewall env ctx st =
    (if et = ETH_P_IP then process_ipv4 env ctx off (of_nat (length (cx_pkt ctx))) st
     else if et = ETH_P_IPV6 then process_ipv6 env ctx off (of_nat (length (cx_pkt ctx))) st
     else (Ok XDP_PASS, update_stats (ucast (of_nat (length (cx_pkt ctx)) :: u32)) False 0 False st))"
proof -
  let ?d = "cx_pkt ctx" and ?et0 = "u16_from_be (eth_ether_type (ethernet_of_bytes (take 14 (cx_pkt ctx))))"
  from assms(1,2) have len: "14 \<le> length ?d" and vl: "vlan_loop 2 ?d 14 ?et0 = Ok (off, et)"
    by (auto simp: parse_ethernet_def read_at_def Let_def fw_consts check_bounds_iff
        split: if_splits outcome.splits)
  show ?thesis
  proof (cases "is_vlan ?et0")
    case False
    with vl have "off = 14" "et = ?et0" by (simp_all add: numeral_2_eq_2)
    with False len show ?thesis
      by (simp add: try_firewall_def load_at_eq Let_def is_vlan_def packet_len_eq ETH_HDR_LEN_def)
  next
    case True
    with vl assms(1) have len18: "18 \<le> length ?d"
      and vl': "vlan_loop 1 ?d 18 (from_be [?d ! 16, ?d ! 17]) = Ok (off, et)"
      by (auto simp: numeral_2_eq_2 check_bounds_iff index_at_def split: if_splits)
    with assms(3) have "off = 18" "et = from_be [?d ! 16, ?d ! 17]"
      by (auto simp: index_at_def split: if_splits)
    with True len18 show ?thesis
      by (simp add: try_firewall_def load_at_eq Let_def is_vlan_def packet_len_eq ETH_HDR_LEN_def)
  qed
qed

lemma firewall_decide:
  assumes "length (cx_pkt ctx) < usize_bound"
    and "classify_packet (cx_pkt ctx) = Ok p"
    and "parse_ethernet (cx_pkt ctx) = Ok (h, off, et)" "off \<le> 18"
  shows "firewall env ctx st = decide env ctx p st"
proof -
  have ok: "fst (decide env ctx p st) \<noteq> Fault" "\<And>e. fst (decide env ctx p st) \<noteq> Err e"
    by (auto simp: decide_def enforce_def Let_def split: prod.splits option.splits)
  have "try_firewall env ctx st = decide env ctx p st"
  proof (cases "et = ETH_P_IP")
    case True
    with assms(2,3) show ?thesis
      by (auto simp: classify_packet_def try_firewall_ethernet [OF assms(1,3,4)]
          process_ipv4_lib [OF assms(1)] split: outcome.splits)
  next
    case False
    with assms(2,3) show ?thesis
      by (auto simp: classify_packet_def try_firewall_ethernet [OF assms(1,3,4)]
          process_ipv6_lib [OF assms(1)] split: outcome.splits if_splits)
  qed
  with ok show ?thesis
    by (cases "decide env ctx p st"; cases "fst (decide env ctx p st)") (auto simp: firewall_def)
qed

lemma decide_drop_iff:
  "fst (decide env ctx p st) = Ok XDP_DROP \<longleftrightarrow>
   \<not> bypassed p \<and> (\<exists>r. fst (source_lookup env p) = Some r \<and> rv_action r = ACTION_DROP)"
  by (auto simp: decide_def enforce_def Let_def split: prod.splits option.splits)

text \<open>
  A concrete setting for the witnesses: one blocked source address, a ring buffer that
  collects the events, and a plain or VLAN-tagged UDP packet.
\<close>

definition demo_env :: "packet_log_event list xdp_env" where
  "demo_env = \<lparr>ipv4_exact_get = [[198, 51, 100, 14] \<mapsto> rule_drop 7], ipv6_exact_get = Map.empty,
     ipv4_lpm_get = (\<lambda>_ _. None), ipv6_lpm_get = (\<lambda>_ _. None),
     events_output = (\<lambda>r e. (r @ [e], True)), ktime_get_ns = 5\<rparr>"

definition demo_frame :: "(u16 \<times> u16) list \<Rightarrow> bytes" where
  "demo_frame tags = eth_frame (replicate 6 1) (replicate 6 2) tags ETH_P_IP
     (ipv4_packet (replicate 8 0) PROTO_UDP [0, 0] [198, 51, 100, 14] [10, 0, 0, 1] [] [20, 233, 0, 80])"

definition demo_ctx :: "(u16 \<times> u16) list \<Rightarrow> xdp_ctx" where
  "demo_ctx tags = \<lparr>cx_data = 4096, cx_pkt = demo_frame tags, cx_ifindex = 2\<rparr>"

definition demo_parsed :: "nat \<Rightarrow> parsed_packet" where
  "demo_parsed n = \<lparr>pp_ip_version = 4, pp_src_ip = [198, 51, 100, 14] @ replicate 12 0,
     pp_dst_ip = [10, 0, 0, 1] @ replicate 12 0, pp_protocol = PROTO_UDP, pp_src_port = 5353,
     pp_dst_port = 80, pp_packet_len = 38 + 4 * n, pp_l4_offset = 34 + 4 * n\<rparr>"

lemma demo_length: "length (demo_frame tags) = 38 + 4 * length tags"
  by (simp add: demo_frame_def eth_frame_def ipv4_packet_def)

lemma demo_ports: "l4_ports PROTO_UDP [20, 233, 0, 80] = (5353, 80)"
  by (simp add: l4_ports_def from_be_def push_bit_eq_mult fw_consts)

lemma demo_classify:
  assumes "length tags \<le> 2" "\<forall>t \<in> set tags. is_vlan (fst t)"
  shows "classify_packet (demo_frame tags) = Ok (demo_parsed (length tags))"
  using classify_ipv4 [of "replicate 6 1" "replicate 6 2" tags "replicate 8 0" "[0, 0]"
      "[198, 51, 100, 14]" "[10, 0, 0, 1]" "[]" 0 "demo_frame tags" PROTO_UDP "[20, 233, 0, 80]", OF _ _ _ _ _ _ _ _ _ _ demo_frame_def] assms
  by (simp add: demo_parsed_def demo_length demo_ports usize_bound_def)

lemma demo_ethernet:
  assumes "length tags \<le> 2" "\<forall>t \<in> set tags. is_vlan (fst t)"
  shows "\<exists>h. parse_ethernet (demo_frame tags) = Ok (h, 14 + 4 * length tags, ETH_P_IP)"
  unfolding demo_frame_def
  by (rule parse_ethernet_frame)
    (use assms demo_length [of tags] in \<open>simp_all add: demo_frame_def usize_bound_def is_vlan_def fw_consts\<close>)

text \<open>
  \<^bold>\<open>C7\<close>. The hook agrees with the library.  Whenever \<open>classify_packet\<close> accepts a buffer with
  at most one VLAN tag, the hook computes exactly \<open>decide\<close> on the classified fields: it
  passes the management bypasses, otherwise looks the source address up (exact map
  first, LPM trie on a miss) and drops, reports and counts the packet if the matched rule
  says so.
\<close>

theorem firewall_refines_classifier:
  assumes "length (cx_pkt ctx) < usize_bound"
    and "classify_packet (cx_pkt ctx) = Ok p"
    and "parse_ethernet (cx_pkt ctx) = Ok (h, off, et)" "off \<le> 18"
  shows "firewall env ctx st = decide env ctx p st"
  using assms by (rule firewall_decide)

theorem firewall_refines_classifier_witness:
  "firewall demo_env (demo_ctx [(ETH_P_8021Q, 9)]) \<lparr>ks_stats = Some stats_default, ks_ring = []\<rparr> =
   decide demo_env (demo_ctx [(ETH_P_8021Q, 9)]) (demo_parsed 1) \<lparr>ks_stats = Some stats_default, ks_ring = []\<rparr>"
proof -
  have v: "\<forall>t \<in> set [(ETH_P_8021Q, 9 :: u16)]. is_vlan (fst t)" by (simp add: is_vlan_def)
  obtain h where "parse_ethernet (demo_frame [(ETH_P_8021Q, 9)]) = Ok (h, 18, ETH_P_IP)"
    using demo_ethernet [OF _ v] by auto
  then show ?thesis
    using firewall_refines_classifier [of "demo_ctx [(ETH_P_8021Q, 9)]" "demo_parsed 1" h 18 ETH_P_IP]
      demo_classify [OF _ v]
    by (simp add: demo_ctx_def demo_length usize_bound_def)
qed

text \<open>
  The filtering decision.  A classified packet with at most one VLAN tag is dropped
  if and only if it is not one of the management bypasses and the two-level lookup of its
  source address yields a rule with the drop action; otherwise it is passed.
\<close>

lemma firewall_drop_iff:
  assumes "length (cx_pkt ctx) < usize_bound"
    and "classify_packet (cx_pkt ctx) = Ok p"
    and "parse_ethernet (cx_pkt ctx) = Ok (h, off, et)" "off \<le> 18"
  shows "fst (firewall env ctx st) =
    Ok (if \<not> bypassed p \<and> (\<exists>r. fst (source_lookup env p) = Some r \<and> rv_action r = ACTION_DROP)
        then XDP_DROP else XDP_PASS)"
  unfolding firewall_decide [OF assms]
  by (auto simp: decide_def enforce_def Let_def split: prod.splits option.splits)

lemma firewall_drop_iff_example:
  "fst (firewall demo_env (demo_ctx []) \<lparr>ks_stats = Some stats_default, ks_ring = []\<rparr>) = Ok XDP_DROP"
proof -
  obtain h where "parse_ethernet (demo_frame []) = Ok (h, 14, ETH_P_IP)"
    using demo_ethernet [of "[]"] by auto
  then show ?thesis
    using firewall_drop_iff [of "demo_ctx []" "demo_parsed 0" h 14 ETH_P_IP demo_env] demo_classify [of "[]"]
    by (simp add: demo_ctx_def demo_length usize_bound_def demo_parsed_def bypassed_def
        source_lookup_def Let_def demo_env_def rule_drop_def fw_consts)
qed

subsection \<open>Telemetry\<close>

abbreviation packet_event ::
  "'rb xdp_env \<Rightarrow> xdp_ctx \<Rightarrow> parsed_packet \<Rightarrow> rule_value \<Rightarrow> u8 \<Rightarrow> packet_log_event" where
  "packet_event env ctx p r mt \<equiv> drop_event env ctx (pp_ip_version p) (pp_src_ip p) (pp_dst_ip p)
     (pp_protocol p) (pp_src_port p) (pp_dst_port p) (of_nat (pp_packet_len p)) r mt"

lemma packet_event_fields:
  assumes "length (pp_src_ip p) = 16 \<and> length (pp_dst_ip p) = 16 \<and> pp_packet_len p = n"
  shows "wf_event (packet_event env ctx p r mt)"
    "ev_src_ip (packet_event env ctx p r mt) = pp_src_ip p"
    "ev_dst_ip (packet_event env ctx p r mt) = pp_dst_ip p"
    "ev_protocol (packet_event env ctx p r mt) = pp_protocol p"
    "ev_src_port (packet_event env ctx p r mt) = pp_src_port p"
    "ev_dst_port (packet_event env ctx p r mt) = pp_dst_port p"
    "ev_ip_version (packet_event env ctx p r mt) = pp_ip_version p"
    "ev_packet_len (packet_event env ctx p r mt) = of_nat n"
    "ev_rule_id (packet_event env ctx p r mt) = rv_rule_id r"
    "ev_match_type (packet_event env ctx p r mt) = mt"
    "ev_action (packet_event env ctx p r mt) = ACTION_DROP"
  using assms by (simp_all add: drop_event_def wf_event_def)

lemma update_stats_ring [simp]: "ks_ring (update_stats rx d db e st) = ks_ring st"
  by (simp add: update_stats_def split: option.splits)

lemma decide_drop_ring:
  "decide env ctx p st = (Ok XDP_DROP, st') \<Longrightarrow>
   \<exists>r mt. source_lookup env p = (Some r, mt) \<and> rv_action r = ACTION_DROP \<and>
     ks_ring st' = fst (events_output env (ks_ring st) (packet_event env ctx p r mt))"
  by (auto simp: decide_def enforce_def Let_def split: if_splits prod.splits option.splits)

lemma decide_pass_ring: "decide env ctx p st = (Ok XDP_PASS, st') \<Longrightarrow> ks_ring st' = ks_ring st"
  by (auto simp: decide_def enforce_def Let_def split: if_splits prod.splits option.splits)

text \<open>
  \<^bold>\<open>C8\<close>. Telemetry is faithful.  A dropped packet is offered to the ring buffer exactly
  once, as a well-formed event that carries the packet's source and destination
  address, protocol, ports and length, the identifier of the rule that matched and the
  level (hash map or trie) that matched it; a packet that is passed leaves the ring
  buffer untouched.
\<close>

theorem firewall_telemetry:
  assumes "length (cx_pkt ctx) < usize_bound"
    and "classify_packet (cx_pkt ctx) = Ok p"
    and "parse_ethernet (cx_pkt ctx) = Ok (h, off, et)" "off \<le> 18"
    and "firewall env ctx st = (Ok action, st')"
  shows "if action = XDP_DROP
    then (\<exists>r mt ev. source_lookup env p = (Some r, mt) \<and> rv_action r = ACTION_DROP \<and>
           ks_ring st' = fst (events_output env (ks_ring st) ev) \<and> wf_event ev \<and>
           ev_src_ip ev = pp_src_ip p \<and> ev_dst_ip ev = pp_dst_ip p \<and>
           ev_protocol ev = pp_protocol p \<and> ev_src_port ev = pp_src_port p \<and>
           ev_dst_port ev = pp_dst_port p \<and> ev_ip_version ev = pp_ip_version p \<and>
           ev_packet_len ev = of_nat (length (cx_pkt ctx)) \<and>
           ev_rule_id ev = rv_rule_id r \<and> ev_match_type ev = mt \<and> ev_action ev = ACTION_DROP)
    else ks_ring st' = ks_ring st"
proof -
  note wf = classify_packet_wf [OF assms(2)]
  have d: "decide env ctx p st = (Ok action, st')"
    using assms(5) firewall_decide [OF assms(1-4), of env st] by simp
  show ?thesis
  proof (cases action)
    case XDP_DROP
    with decide_drop_ring [of env ctx p st st'] d obtain r mt where
      "source_lookup env p = (Some r, mt)" "rv_action r = ACTION_DROP"
      "ks_ring st' = fst (events_output env (ks_ring st) (packet_event env ctx p r mt))"
      by auto
    with XDP_DROP show ?thesis
      using packet_event_fields [OF wf, of env ctx r mt] by auto
  next
    case XDP_PASS
    with decide_pass_ring [of env ctx p st st'] d show ?thesis by simp
  qed
qed

theorem firewall_telemetry_witness:
  "\<exists>ev. ks_ring (snd (firewall demo_env (demo_ctx []) \<lparr>ks_stats = Some stats_default, ks_ring = []\<rparr>)) = [ev] \<and>
     ev_rule_id ev = 7 \<and> ev_match_type ev = MATCH_EXACT_HASH"
proof -
  let ?st = "\<lparr>ks_stats = Some stats_default, ks_ring = [] :: packet_log_event list\<rparr>"
  obtain h where h: "parse_ethernet (cx_pkt (demo_ctx [])) = Ok (h, 14, ETH_P_IP)"
    using demo_ethernet [of "[]"] by (auto simp: demo_ctx_def)
  have c: "classify_packet (cx_pkt (demo_ctx [])) = Ok (demo_parsed 0)"
    using demo_classify [of "[]"] by (simp add: demo_ctx_def)
  have l: "length (cx_pkt (demo_ctx [])) < usize_bound"
    by (simp add: demo_ctx_def demo_length usize_bound_def)
  have sl: "source_lookup demo_env (demo_parsed 0) = (Some (rule_drop 7), MATCH_EXACT_HASH)"
    "\<not> bypassed (demo_parsed 0)"
    by (simp_all add: source_lookup_def demo_env_def demo_parsed_def bypassed_def)
  obtain a st' where f: "firewall demo_env (demo_ctx []) ?st = (Ok a, st')"
    using firewall_returns by blast
  have "a = XDP_DROP"
    using decide_drop_iff [of demo_env "demo_ctx []" "demo_parsed 0" ?st] sl f
      firewall_decide [OF l c h, of demo_env ?st]
    by (simp add: rule_drop_def)
  with firewall_telemetry [OF l c h _ f] sl f show ?thesis
    by (auto simp: demo_env_def rule_drop_def)
qed

subsection \<open>Statistics over a run\<close>

text \<open>A run: a sequence of packets, each seen under the maps of its moment.\<close>

fun xdp_run :: "('rb xdp_env \<times> xdp_ctx) list \<Rightarrow> 'rb kstate \<Rightarrow> xdp_action list \<times> 'rb kstate" where
  "xdp_run [] st = ([], st)"
| "xdp_run ((env, ctx) # ps) st =
     (case firewall env ctx st of
        (Ok a, st') \<Rightarrow> (let (as, st'') = xdp_run ps st' in (a # as, st''))
      | (_, st') \<Rightarrow> xdp_run ps st')"

text \<open>
  One packet either leaves the counters alone (malformed, passed) or bumps them once, as
  a drop or as an accept.
\<close>

definition stats_step :: "xdp_action \<Rightarrow> firewall_stats \<Rightarrow> firewall_stats \<Rightarrow> bool" where
  "stats_step a s s' \<longleftrightarrow>
     (a = XDP_PASS \<and> s' = s) \<or>
     (a = XDP_PASS \<and> (\<exists>n. s' = bump_stats n False 0 False s)) \<or>
     (a = XDP_DROP \<and> (\<exists>n ok. s' = bump_stats n True n ok s))"

definition step_ok :: "'rb kstate \<Rightarrow> 'rb verdict \<Rightarrow> bool" where
  "step_ok st v \<longleftrightarrow> (\<forall>s. ks_stats st = Some s \<longrightarrow>
     (\<exists>s'. ks_stats (snd v) = Some s' \<and>
        stats_step (case fst v of Ok a \<Rightarrow> a | _ \<Rightarrow> XDP_PASS) s s'))"

lemma step_ok_id: "step_ok st (Err e, st)"
  by (simp add: step_ok_def stats_step_def)

lemma step_ok_fault: "step_ok st (Fault, st)"
  by (simp add: step_ok_def stats_step_def)

lemma step_ok_pass: "step_ok st (Ok XDP_PASS, update_stats n False 0 False st)"
  by (auto simp: step_ok_def stats_step_def update_stats_def)

lemma step_ok_enforce: "step_ok st (enforce env ctx v s d p sp dp len m st)"
  by (auto simp: step_ok_def stats_step_def enforce_def update_stats_def Let_def
      split: prod.splits option.splits)

lemmas step_ok_intros = step_ok_id step_ok_fault step_ok_pass step_ok_enforce

lemma step_ok_process_ipv4: "step_ok st (process_ipv4 env ctx off len st)"
  by (auto simp: process_ipv4_def Let_def intro: step_ok_intros split: outcome.splits)

lemma step_ok_process_ipv6: "step_ok st (process_ipv6 env ctx off len st)"
  by (auto simp: process_ipv6_def Let_def intro: step_ok_intros split: outcome.splits)

lemma step_ok_try: "step_ok st (try_firewall env ctx st)"
  by (auto simp: try_firewall_def Let_def
      intro: step_ok_intros step_ok_process_ipv4 step_ok_process_ipv6 split: outcome.splits)

lemma firewall_step:
  assumes "firewall env ctx st = (Ok a, st')" "ks_stats st = Some s"
  shows "\<exists>s'. ks_stats st' = Some s' \<and> stats_step a s s'"
  using assms step_ok_try [of st env ctx]
  by (auto simp: firewall_def step_ok_def split: prod.splits outcome.splits)

text \<open>The accounting invariant, relative to the list of verdicts so far.\<close>

definition accounted :: "xdp_action list \<Rightarrow> firewall_stats \<Rightarrow> firewall_stats \<Rightarrow> bool" where
  "accounted as s s' \<longleftrightarrow>
     dropped_packets s' = dropped_packets s + of_nat (count_list as XDP_DROP) \<and>
     rx_packets s' - (dropped_packets s' + accepted_packets s') =
       rx_packets s - (dropped_packets s + accepted_packets s) \<and>
     rx_bytes s' - (dropped_bytes s' + accepted_bytes s') =
       rx_bytes s - (dropped_bytes s + accepted_bytes s) \<and>
     (\<exists>k \<le> count_list as XDP_DROP. ringbuf_events s' = ringbuf_events s + of_nat k) \<and>
     ringbuf_drops s' = ringbuf_drops s"

lemma exists_le_one: "(\<exists>k \<le> Suc 0. P k) \<longleftrightarrow> P 0 \<or> P 1"
  by (auto simp: le_Suc_eq)

lemma accounted_step: "stats_step a s s' \<Longrightarrow> accounted [a] s s'"
  by (cases a)
    (auto simp: accounted_def stats_step_def bump_stats_def Let_def algebra_simps exists_le_one)

lemma accounted_trans: "accounted as s s' \<Longrightarrow> accounted bs s' s'' \<Longrightarrow> accounted (as @ bs) s s''"
proof -
  assume a: "accounted as s s'" and b: "accounted bs s' s''"
  from a b obtain k l where "k \<le> count_list as XDP_DROP" "ringbuf_events s' = ringbuf_events s + of_nat k"
    "l \<le> count_list bs XDP_DROP" "ringbuf_events s'' = ringbuf_events s' + of_nat l"
    unfolding accounted_def by blast
  then have "k + l \<le> count_list (as @ bs) XDP_DROP \<and> ringbuf_events s'' = ringbuf_events s + of_nat (k + l)"
    by simp
  moreover have "dropped_packets s'' = dropped_packets s + of_nat (count_list (as @ bs) XDP_DROP)"
    using a b by (simp add: accounted_def)
  ultimately show ?thesis using a b unfolding accounted_def by metis
qed

lemma xdp_run_accounted:
  "xdp_run ps st = (as, st') \<Longrightarrow> ks_stats st = Some s \<Longrightarrow>
   \<exists>s'. ks_stats st' = Some s' \<and> accounted as s s' \<and> length as = length ps"
proof (induction ps st arbitrary: as s rule: xdp_run.induct)
  case (1 st)
  then show ?case by (auto simp: accounted_def)
next
  case (2 env ctx ps st)
  obtain a st1 where f: "firewall env ctx st = (Ok a, st1)" using firewall_returns by blast
  obtain as2 where r: "xdp_run ps st1 = (as2, st')" and as: "as = a # as2"
    using 2(4) f by (auto simp: Let_def split: prod.splits)
  obtain s1 where s1: "ks_stats st1 = Some s1" "stats_step a s s1"
    using firewall_step [OF f 2(5)] by blast
  obtain s' where "ks_stats st' = Some s'" "accounted as2 s1 s'" "length as2 = length ps"
    using 2(1) [OF f [symmetric] refl r s1(1)] by blast
  with accounted_trans [OF accounted_step [OF s1(2)]] as show ?case by fastforce
qed


lemma demo_drop: "fst (firewall demo_env (demo_ctx []) st) = Ok XDP_DROP"
proof -
  obtain h where h: "parse_ethernet (cx_pkt (demo_ctx [])) = Ok (h, 14, ETH_P_IP)"
    using demo_ethernet [of "[]"] by (auto simp: demo_ctx_def)
  have c: "classify_packet (cx_pkt (demo_ctx [])) = Ok (demo_parsed 0)"
    using demo_classify [of "[]"] by (simp add: demo_ctx_def)
  have l: "length (cx_pkt (demo_ctx [])) < usize_bound"
    by (simp add: demo_ctx_def demo_length usize_bound_def)
  show ?thesis
    by (simp add: firewall_decide [OF l c h] decide_drop_iff source_lookup_def Let_def
        demo_env_def demo_parsed_def bypassed_def rule_drop_def fw_consts)
qed


subsection \<open>Double-tagged frames\<close>

lemma from_be_nths2: "from_be [to_be 2 w ! 0, to_be 2 w ! Suc 0] = (w :: u16)"
proof -
  have "[to_be 2 w ! 0, to_be 2 w ! Suc 0] = to_be 2 w"
    by (rule nth_equalityI) (auto simp: less_Suc_eq numeral_2_eq_2)
  then show ?thesis by (simp add: from_be_to_be take_bit_word_eq_self)
qed

text \<open>
  \<^bold>\<open>C11\<close>. The hook does not look behind a second VLAN tag: a frame with two tags is passed
  and counted as accepted whatever its source address and whatever the maps hold,
  although the library classifies the same frame.
\<close>

theorem firewall_passes_qinq:
  assumes "length dmac = 6" "length smac = 6" "length tags = 2"
    and "\<forall>t \<in> set tags. is_vlan (fst t)"
    and "cx_pkt ctx = eth_frame dmac smac tags et payload"
  shows "firewall env ctx st =
    (Ok XDP_PASS, update_stats (ucast (of_nat (length (cx_pkt ctx)) :: u32)) False 0 False st)"
proof -
  obtain t1 c1 t2 c2 where tags: "tags = [(t1, c1), (t2, c2)]"
    using assms(3) by (auto simp: numeral_2_eq_2 length_Suc_conv)
  let ?d = "cx_pkt ctx"
  have d: "?d = (dmac @ smac @ to_be 2 t1) @ (to_be 2 c1 @ to_be 2 t2) @ to_be 2 c2 @ to_be 2 et @ payload"
    using assms(5) by (simp add: tags eth_frame_def)
  have l14: "length (dmac @ smac @ to_be 2 t1) = 14" using assms by simp
  have e1: "take 14 ?d = dmac @ smac @ to_be 2 t1"
    using l14 unfolding d by (metis append_eq_conv_conj)
  have e2: "take 4 (drop 14 ?d) = to_be 2 c1 @ to_be 2 t2"
    using take_drop_append [of "to_be 2 c1 @ to_be 2 t2" 4 "dmac @ smac @ to_be 2 t1"] l14
    unfolding d by simp
  have x1: "u16_from_be (eth_ether_type (ethernet_of_bytes (take 14 ?d))) = t1"
    unfolding e1 using assms by (simp add: ethernet_of_bytes_def u16_from_be_le)
  have x2: "from_be [take 4 (drop 14 ?d) ! 2, take 4 (drop 14 ?d) ! 3] = t2"
    unfolding e2 by (simp add: nth_append from_be_nths2)
  have v: "is_vlan t1" "is_vlan t2" using assms(4) by (auto simp: tags)
  then have n: "t2 \<noteq> ETH_P_IP" "t2 \<noteq> ETH_P_IPV6" by (auto simp: is_vlan_def fw_consts)
  have "18 \<le> length ?d" unfolding d using assms(1,2) by simp
  then show ?thesis
    using v n x1 x2
    by (simp add: firewall_def try_firewall_def load_at_eq Let_def is_vlan_def packet_len_eq ETH_HDR_LEN_def)
qed

lemma demo_ctx_pkt:
  "cx_pkt (demo_ctx tags) = eth_frame (replicate 6 1) (replicate 6 2) tags ETH_P_IP
     (ipv4_packet (replicate 8 0) PROTO_UDP [0, 0] [198, 51, 100, 14] [10, 0, 0, 1] [] [20, 233, 0, 80])"
  by (simp add: demo_ctx_def demo_frame_def)

theorem firewall_passes_qinq_witness:
  "fst (firewall demo_env (demo_ctx [(ETH_P_8021AD, 1), (ETH_P_8021Q, 2)])
     \<lparr>ks_stats = None, ks_ring = []\<rparr>) = Ok XDP_PASS"
  using firewall_passes_qinq [of "replicate 6 1" "replicate 6 2" "[(ETH_P_8021AD, 1), (ETH_P_8021Q, 2)]"
      "demo_ctx [(ETH_P_8021AD, 1), (ETH_P_8021Q, 2)]" ETH_P_IP, OF _ _ _ _ demo_ctx_pkt,
      of demo_env "\<lparr>ks_stats = None, ks_ring = []\<rparr>"]
  by (simp add: is_vlan_def)

end
