(* ===== verification/Rust_Std.thy ===== *)
theory Rust_Std
  imports Fw_Common
begin

section \<open>Strings and addresses of the Rust standard library\<close>

text \<open>
  What the program uses of \<open>core::str\<close>, \<open>core::fmt\<close> and \<open>core::net\<close>: trimming, searching,
  decimal and hexadecimal display of integers, display of addresses, and the recursive
  descent parser behind \<open>IpAddr::from_str\<close>.  Characters are the code points up to 255, so
  White_Space is U+0009 to U+000D, U+0020, U+0085 and U+00A0.  The main lemma is that the
  parser reads back every displayed IPv4 address.
\<close>

subsection \<open>Strings\<close>

abbreviation code_point :: "char \<Rightarrow> nat" where
  "code_point c \<equiv> of_char c"

definition is_whitespace :: "char \<Rightarrow> bool" where
  "is_whitespace c \<longleftrightarrow> 9 \<le> code_point c \<and> code_point c \<le> 13 \<or> code_point c \<in> {32, 133, 160}"

definition trim_start :: "string \<Rightarrow> string" where
  "trim_start s = dropWhile is_whitespace s"

definition trim_end :: "string \<Rightarrow> string" where
  "trim_end s = rev (dropWhile is_whitespace (rev s))"

definition trim :: "string \<Rightarrow> string" where
  "trim s = trim_end (trim_start s)"

text \<open>\<open>s.find(c)\<close> and the prefix \<open>&s[..idx]\<close> together: the part before the first \<open>c\<close>.\<close>

definition before_char :: "char \<Rightarrow> string \<Rightarrow> string" where
  "before_char c s = takeWhile (\<lambda>x. x \<noteq> c) s"

text \<open>\<open>s.split_once(c)\<close>.\<close>

definition split_once :: "char \<Rightarrow> string \<Rightarrow> (string \<times> string) option" where
  "split_once c s =
     (if c \<in> set s then Some (takeWhile (\<lambda>x. x \<noteq> c) s, tl (dropWhile (\<lambda>x. x \<noteq> c) s)) else None)"

definition strip_prefix :: "string \<Rightarrow> string \<Rightarrow> string option" where
  "strip_prefix p s = (if take (length p) s = p then Some (drop (length p) s) else None)"

text \<open>\<open>s.split(c)\<close>.\<close>

fun split_char :: "'a \<Rightarrow> 'a list \<Rightarrow> 'a list list" where
  "split_char c [] = [[]]"
| "split_char c (x # xs) =
     (if x = c then [] # split_char c xs
      else case split_char c xs of [] \<Rightarrow> [[x]] | p # ps \<Rightarrow> (x # p) # ps)"

definition to_lower_char :: "char \<Rightarrow> char" where
  "to_lower_char c =
     (let n = code_point c in
      if 65 \<le> n \<and> n \<le> 90 \<or> 192 \<le> n \<and> n \<le> 222 \<and> n \<noteq> 215 then char_of (n + 32) else c)"

definition to_lowercase :: "string \<Rightarrow> string" where
  "to_lowercase s = map to_lower_char s"

subsection \<open>Display of integers and addresses\<close>

definition digit_char :: "nat \<Rightarrow> char" where
  "digit_char d = char_of (if d < 10 then 48 + d else 87 + d)"

fun show_radix :: "nat \<Rightarrow> nat \<Rightarrow> string" where
  "show_radix r n =
     (if r < 2 \<or> n < r then [digit_char n] else show_radix r (n div r) @ [digit_char (n mod r)])"

declare show_radix.simps [simp del]

abbreviation show_nat :: "nat \<Rightarrow> string" where
  "show_nat n \<equiv> show_radix 10 n"

fun join :: "string \<Rightarrow> string list \<Rightarrow> string" where
  "join sep [] = []"
| "join sep [s] = s"
| "join sep (s # t # ss) = s @ sep @ join sep (t # ss)"

definition show_ipv4 :: "bytes \<Rightarrow> string" where
  "show_ipv4 a = join ''.'' (map (\<lambda>b. show_nat (unat b)) a)"

definition segments :: "bytes \<Rightarrow> u16 list" where
  "segments a = map (\<lambda>i. from_be [a ! (2 * i), a ! (2 * i + 1)]) [0..<8]"

text \<open>The longest run of zero segments, the first one among equals: (start, length).\<close>

fun longest_zeroes :: "nat \<Rightarrow> u16 list \<Rightarrow> nat \<times> nat \<Rightarrow> nat \<times> nat \<Rightarrow> nat \<times> nat" where
  "longest_zeroes i [] current longest = longest"
| "longest_zeroes i (s # ss) (cs, cl) (ls, ll) =
     (if s = 0
      then let cs' = (if cl = 0 then i else cs); cl' = cl + 1 in
        longest_zeroes (i + 1) ss (cs', cl') (if cl' > ll then (cs', cl') else (ls, ll))
      else longest_zeroes (i + 1) ss (0, 0) (ls, ll))"

definition show_segments :: "u16 list \<Rightarrow> string" where
  "show_segments ss = join '':'' (map (\<lambda>s. show_radix 16 (unat s)) ss)"

definition show_ipv6 :: "bytes \<Rightarrow> string" where
  "show_ipv6 a =
     (if take 12 a = replicate 10 0 @ [0xFF, 0xFF] then ''::ffff:'' @ show_ipv4 (drop 12 a)
      else let ss = segments a; (start, len) = longest_zeroes 0 ss (0, 0) (0, 0) in
        if len > 1 then show_segments (take start ss) @ ''::'' @ show_segments (drop (start + len) ss)
        else show_segments ss)"

fun show_ip :: "ip_addr \<Rightarrow> string" where
  "show_ip (V4 a) = show_ipv4 a"
| "show_ip (V6 a) = show_ipv6 a"

subsection \<open>The address parser\<close>

definition to_digit :: "nat \<Rightarrow> char \<Rightarrow> nat option" where
  "to_digit r c =
     (let n = code_point c;
          d = (if 48 \<le> n \<and> n \<le> 57 then Some (n - 48)
               else if 97 \<le> n \<and> n \<le> 122 then Some (n - 87)
               else if 65 \<le> n \<and> n \<le> 90 then Some (n - 55) else None)
      in case d of None \<Rightarrow> None | Some k \<Rightarrow> if k < r then Some k else None)"

text \<open>\<open>None\<close>: more than \<open>maxd\<close> digits; otherwise value, digit count and rest.\<close>

fun read_digits :: "nat \<Rightarrow> nat \<Rightarrow> string \<Rightarrow> nat \<Rightarrow> nat \<Rightarrow> (nat \<times> nat \<times> string) option" where
  "read_digits r maxd [] acc cnt = Some (acc, cnt, [])"
| "read_digits r maxd (c # cs) acc cnt =
     (case to_digit r c of
        None \<Rightarrow> Some (acc, cnt, c # cs)
      | Some d \<Rightarrow> if cnt + 1 > maxd then None
                  else read_digits r maxd cs (acc * r + d) (cnt + 1))"

definition read_number :: "nat \<Rightarrow> nat \<Rightarrow> bool \<Rightarrow> int \<Rightarrow> string \<Rightarrow> (nat \<times> string) option" where
  "read_number r maxd allow_zero_prefix bound s =
     (case read_digits r maxd s 0 0 of
        None \<Rightarrow> None
      | Some (v, cnt, rest) \<Rightarrow>
          if cnt = 0 then None
          else if \<not> allow_zero_prefix \<and> take 1 s = ''0'' \<and> cnt > 1 then None
          else if int v < bound then Some (v, rest) else None)"

definition read_sep :: "char \<Rightarrow> nat \<Rightarrow> (string \<Rightarrow> ('a \<times> string) option) \<Rightarrow> string \<Rightarrow> ('a \<times> string) option" where
  "read_sep sep i inner s =
     (if i = 0 then inner s
      else case s of [] \<Rightarrow> None | c # cs \<Rightarrow> if c = sep then inner cs else None)"

fun read_octets :: "nat \<Rightarrow> nat \<Rightarrow> string \<Rightarrow> (bytes \<times> string) option" where
  "read_octets i 0 s = Some ([], s)"
| "read_octets i (Suc n) s =
     (case read_sep CHR ''.'' i (read_number 10 3 False 256) s of
        None \<Rightarrow> None
      | Some (v, rest) \<Rightarrow>
          (case read_octets (i + 1) n rest of None \<Rightarrow> None
           | Some (vs, rest) \<Rightarrow> Some (of_nat v # vs, rest)))"

definition read_ipv4 :: "string \<Rightarrow> (bytes \<times> string) option" where
  "read_ipv4 s = read_octets 0 4 s"

text \<open>
  \<open>read_groups\<close> with \<open>n\<close> groups left, the \<open>i\<close>-th next: the groups read, whether an embedded
  IPv4 address ended them, and the rest.
\<close>

fun read_groups :: "nat \<Rightarrow> nat \<Rightarrow> string \<Rightarrow> u16 list \<times> bool \<times> string" where
  "read_groups i 0 s = ([], False, s)"
| "read_groups i (Suc n) s =
     (case (if n \<ge> 1 then read_sep CHR '':'' i read_ipv4 s else None) of
        Some (v4, rest) \<Rightarrow> ([from_be (take 2 v4), from_be (drop 2 v4)], True, rest)
      | None \<Rightarrow>
          (case read_sep CHR '':'' i (read_number 16 4 True 65536) s of
             None \<Rightarrow> ([], False, s)
           | Some (g, rest) \<Rightarrow>
               (let (gs, v4, rest) = read_groups (i + 1) n rest in (of_nat g # gs, v4, rest))))"

definition octets_of_groups :: "u16 list \<Rightarrow> bytes" where
  "octets_of_groups gs = concat (map (to_be 2) gs)"

definition read_ipv6 :: "string \<Rightarrow> (bytes \<times> string) option" where
  "read_ipv6 s =
     (let (head, head_ipv4, rest) = read_groups 0 8 s in
      if length head = 8 then Some (octets_of_groups head, rest)
      else if head_ipv4 then None
      else case rest of
        c1 # c2 # rest \<Rightarrow>
          if c1 = CHR '':'' \<and> c2 = CHR '':''
          then let (tail, _, rest) = read_groups 0 (8 - (length head + 1)) rest in
            Some (octets_of_groups (head @ replicate (8 - length head - length tail) 0 @ tail), rest)
          else None
      | _ \<Rightarrow> None)"

definition parse_ip :: "string \<Rightarrow> ip_addr option" where
  "parse_ip s =
     (case (case read_ipv4 s of Some (a, rest) \<Rightarrow> Some (V4 a, rest)
            | None \<Rightarrow> (case read_ipv6 s of Some (a, rest) \<Rightarrow> Some (V6 a, rest) | None \<Rightarrow> None)) of
        Some (ip, rest) \<Rightarrow> if rest = [] then Some ip else None
      | None \<Rightarrow> None)"

definition parse_ipv4_str :: "string \<Rightarrow> bytes option" where
  "parse_ipv4_str s =
     (if length s > 15 then None
      else case read_ipv4 s of Some (a, rest) \<Rightarrow> if rest = [] then Some a else None | None \<Rightarrow> None)"

subsection \<open>Reading back displayed addresses\<close>

lemma of_char_digit [simp]: "d < 10 \<Longrightarrow> code_point (digit_char d) = 48 + d"
  by (simp add: digit_char_def)

lemma to_digit_digit_char [simp]: "d < 10 \<Longrightarrow> to_digit 10 (digit_char d) = Some d"
  by (simp add: to_digit_def Let_def)

lemma digit_char_zero: "d < 10 \<Longrightarrow> digit_char d = CHR ''0'' \<longleftrightarrow> d = 0"
proof
  assume d: "d < 10" "digit_char d = CHR ''0''"
  then have "code_point (digit_char d) = (48 :: nat)" by simp
  then show "d = 0" using of_char_digit [OF d(1)] by linarith
next
  show "d = 0 \<Longrightarrow> digit_char d = CHR ''0''" by (simp add: digit_char_def) code_simp
qed

lemma show_nat_cases:
  "n < 10 \<Longrightarrow> show_nat n = [digit_char n]"
  "10 \<le> n \<Longrightarrow> n < 100 \<Longrightarrow> show_nat n = [digit_char (n div 10), digit_char (n mod 10)]"
  "100 \<le> n \<Longrightarrow> n < 1000 \<Longrightarrow>
     show_nat n = [digit_char (n div 100), digit_char (n div 10 mod 10), digit_char (n mod 10)]"
proof -
  show "n < 10 \<Longrightarrow> show_nat n = [digit_char n]"
    by (simp add: show_radix.simps)
  show two: "10 \<le> n \<Longrightarrow> n < 100 \<Longrightarrow> show_nat n = [digit_char (n div 10), digit_char (n mod 10)]" for n
  proof -
    assume n: "10 \<le> n" "n < 100"
    then have "n div 10 < 10" by auto
    with n show ?thesis
      by (simp add: show_radix.simps [of 10 n] show_radix.simps [of 10 "n div 10"])
  qed
  show "100 \<le> n \<Longrightarrow> n < 1000 \<Longrightarrow>
     show_nat n = [digit_char (n div 100), digit_char (n div 10 mod 10), digit_char (n mod 10)]"
    using two [of "n div 10"]
    by (simp add: show_radix.simps [of 10 n] div_mult2_eq [of n 10 10, simplified, symmetric])
qed

definition no_digit :: "string \<Rightarrow> bool" where
  "no_digit s \<longleftrightarrow> s = [] \<or> to_digit 10 (hd s) = None"

lemma read_digits_stop: "no_digit s \<Longrightarrow> read_digits 10 m s acc cnt = Some (acc, cnt, s)"
  by (cases s) (auto simp: no_digit_def)

lemma read_number_show:
  assumes "n < 256" "no_digit rest"
  shows "read_number 10 3 False 256 (show_nat n @ rest) = Some (n, rest)"
proof -
  consider "n < 10" | "10 \<le> n" "n < 100" | "100 \<le> n" "n < 1000" using assms(1) by linarith
  then show ?thesis
  proof cases
    case 1
    then show ?thesis using assms by (simp add: show_nat_cases read_number_def read_digits_stop)
  next
    case 2
    then have "n div 10 < 10" "n div 10 \<noteq> 0" by auto
    then show ?thesis
      using 2 assms by (simp add: show_nat_cases read_number_def read_digits_stop digit_char_zero)
  next
    case 3
    have "n div 10 = 10 * (n div 100) + n div 10 mod 10"
      using mult_div_mod_eq [of 10 "n div 10"] by (simp add: div_mult2_eq [of n 10 10, simplified, symmetric])
    then have "n = 100 * (n div 100) + 10 * (n div 10 mod 10) + n mod 10"
      using mult_div_mod_eq [of 10 n] by linarith
    moreover have "n div 100 < 10" "n div 100 \<noteq> 0" using 3 by auto
    ultimately show ?thesis
      using 3 assms
      by (simp add: show_nat_cases read_number_def read_digits_stop digit_char_zero algebra_simps)
  qed
qed

lemma read_octets_show:
  "no_digit rest \<Longrightarrow> bs \<noteq> [] \<Longrightarrow>
   read_octets i (length bs) ((if i = 0 then [] else ''.'') @ show_ipv4 bs @ rest) = Some (bs, rest)"
proof (induction bs arbitrary: i)
  case Nil
  then show ?case by simp
next
  case (Cons b bs)
  have "unat b < 2 ^ LENGTH(8)" by (rule unsigned_less)
  then have b: "unat b < 256" by simp
  have dot: "no_digit (''.'' @ s)" for s by (simp add: no_digit_def to_digit_def)
  show ?case
  proof (cases bs)
    case Nil
    then show ?thesis
      using read_number_show [OF b Cons.prems(1)] by (simp add: show_ipv4_def read_sep_def)
  next
    case (Cons c cs)
    have e: "show_ipv4 (b # bs) = show_nat (unat b) @ ''.'' @ show_ipv4 bs"
      by (simp add: show_ipv4_def Cons)
    have "read_octets (i + 1) (length bs) (''.'' @ show_ipv4 bs @ rest) = Some (bs, rest)"
      using Cons.IH [of "i + 1"] Cons.prems Cons by simp
    then show ?thesis
      using read_number_show [OF b dot, of "show_ipv4 bs @ rest"]
      by (cases "i = 0") (simp_all add: e read_sep_def)
  qed
qed

lemma parse_ip_show_ipv4:
  assumes "length a = 4"
  shows "parse_ip (show_ipv4 a) = Some (V4 a)"
proof -
  have "a \<noteq> []" using assms by auto
  then have "read_ipv4 (show_ipv4 a) = Some (a, [])"
    using read_octets_show [of "[]" a 0] assms by (simp add: read_ipv4_def no_digit_def)
  then show ?thesis by (simp add: parse_ip_def)
qed

subsection \<open>Parsed addresses are well-formed\<close>

lemma length_read_octets: "read_octets i n s = Some (bs, rest) \<Longrightarrow> length bs = n"
  by (induction i n s arbitrary: bs rest rule: read_octets.induct)
    (auto split: option.splits prod.splits)

lemma length_read_groups: "read_groups i n s = (gs, v4, rest) \<Longrightarrow> length gs \<le> n"
proof (induction i n s arbitrary: gs v4 rest rule: read_groups.induct)
  case (1 i s)
  then show ?case by simp
next
  case (2 i n s)
  show ?case
  proof (cases "if n \<ge> 1 then read_sep CHR '':'' i read_ipv4 s else None")
    case (Some r)
    then have "n \<ge> 1" by (simp split: if_splits)
    then show ?thesis using "2.prems" Some by (cases r) auto
  next
    case no_v4: None
    show ?thesis
    proof (cases "read_sep CHR '':'' i (read_number 16 4 True 65536) s")
      case None
      then show ?thesis using "2.prems" no_v4 by (simp del: One_nat_def)
    next
      case (Some r)
      obtain g rest' where r: "r = (g, rest')" by (cases r)
      obtain gs' v4' rest'' where gr: "read_groups (i + 1) n rest' = (gs', v4', rest'')"
        by (metis prod_cases3)
      have "length gs' \<le> n" using "2.IH" [OF no_v4 Some r [symmetric] gr] .
      then show ?thesis using "2.prems" no_v4 Some r gr by (auto simp del: One_nat_def)
    qed
  qed
qed

lemma length_octets_of_groups: "length (octets_of_groups gs) = 2 * length gs"
  by (induction gs) (simp_all add: octets_of_groups_def)

lemma length_read_ipv6: "read_ipv6 s = Some (a, rest) \<Longrightarrow> length a = 16"
proof -
  assume r: "read_ipv6 s = Some (a, rest)"
  obtain hd v4 r1 where h: "read_groups 0 8 s = (hd, v4, r1)" by (metis prod_cases3)
  show ?thesis
  proof (cases "length hd = 8")
    case True
    then show ?thesis using r h by (auto simp: read_ipv6_def length_octets_of_groups)
  next
    case False
    then have "length hd < 8" using length_read_groups [OF h] by simp
    with False r h show ?thesis
      by (auto simp: read_ipv6_def length_octets_of_groups split: list.splits if_splits prod.splits
          dest!: length_read_groups)
  qed
qed

lemma parse_ip_wf: "parse_ip s = Some ip \<Longrightarrow> wf_ip ip"
  by (auto simp: parse_ip_def read_ipv4_def split: option.splits prod.splits if_splits
      dest: length_read_octets length_read_ipv6)

subsection \<open>Trimming\<close>

lemma trim_append:
  assumes "list_all is_whitespace pre" "list_all is_whitespace post"
  shows "trim (pre @ s @ post) = trim s"
proof -
  have pre: "dropWhile is_whitespace (pre @ x) = dropWhile is_whitespace x" for x
    using assms(1) by (auto simp: list_all_iff dropWhile_append2)
  have post: "trim_end (x @ post) = trim_end x" for x
    using assms(2) dropWhile_append2 [of "rev post" is_whitespace "rev x"]
    by (simp add: trim_end_def list_all_iff)
  show ?thesis
  proof (cases "\<forall>c \<in> set s. is_whitespace c")
    case True
    then have "dropWhile is_whitespace (s @ post) = []" "dropWhile is_whitespace s = []"
      using assms(2) by (auto simp: dropWhile_eq_Nil_conv list_all_iff)
    then show ?thesis by (simp only: trim_def trim_start_def pre)
  next
    case False
    then have "dropWhile is_whitespace (s @ post) = dropWhile is_whitespace s @ post"
      by (auto simp: dropWhile_append1)
    then show ?thesis by (simp add: trim_def trim_start_def pre post)
  qed
qed

lemma before_char_append: "c \<notin> set s \<Longrightarrow> before_char c (s @ c # t) = s"
  by (simp add: before_char_def takeWhile_append)

lemma before_char_absent: "c \<notin> set s \<Longrightarrow> before_char c s = s"
  unfolding before_char_def by (induction s) auto

end
