(* ===== verification/Ip_Prefix.thy ===== *)
theory Ip_Prefix
  imports Fw_Common
begin

section \<open>Prefix tests and masks of the FireHOL index\<close>

text \<open>
  Models the bit-twiddling helpers of \<open>src/firehol/metadata.rs\<close>: \<open>prefix_contains_v4\<close>,
  \<open>prefix_contains_v6\<close>, \<open>mask_v4\<close> and \<open>mask_v6\<close>.  Each is compared with the specification of
  the prelude: \<open>same_prefix\<close> for the tests, \<open>net_addr\<close> for the masks.
\<close>

definition v4_mask :: "u8 \<Rightarrow> u32" where
  "v4_mask prefix = (if prefix = 0 then 0 else if prefix \<ge> 32 then - 1
                     else push_bit (unat (32 - prefix)) (- 1))"

definition prefix_contains_v4 :: "u8 \<Rightarrow> bytes \<Rightarrow> bytes \<Rightarrow> bool" where
  "prefix_contains_v4 prefix net ip =
     (from_be net AND v4_mask prefix = from_be ip AND v4_mask prefix)"

text \<open>The loop over the full bytes; an index past the array panics.\<close>

fun v6_bytes_equal :: "nat \<Rightarrow> nat \<Rightarrow> bytes \<Rightarrow> bytes \<Rightarrow> (unit, bool) outcome" where
  "v6_bytes_equal i 0 net ip = Ok True"
| "v6_bytes_equal i (Suc n) net ip =
     index_at net i (\<lambda>a. index_at ip i (\<lambda>b.
       if a \<noteq> b then Ok False else v6_bytes_equal (Suc i) n net ip))"

definition prefix_contains_v6 :: "u8 \<Rightarrow> bytes \<Rightarrow> bytes \<Rightarrow> (unit, bool) outcome" where
  "prefix_contains_v6 prefix net ip =
     (let full_bytes = unat (prefix div 8); rem_bits = prefix mod 8 in
      case v6_bytes_equal 0 full_bytes net ip of
        Ok True \<Rightarrow>
          if rem_bits > 0 \<and> full_bytes < 16
          then let mask = push_bit (unat (8 - rem_bits)) (0xFF :: u8) in
            index_at net full_bytes (\<lambda>a. index_at ip full_bytes (\<lambda>b.
              Ok (a AND mask = b AND mask)))
          else Ok True
      | r \<Rightarrow> r)"

definition mask_v4 :: "u8 \<Rightarrow> bytes \<Rightarrow> bytes" where
  "mask_v4 prefix ip = to_be 4 ((from_be ip :: u32) AND v4_mask prefix)"

definition mask_v6 :: "u8 \<Rightarrow> bytes \<Rightarrow> bytes" where
  "mask_v6 prefix ip =
     (let full = unat (prefix div 8); rem = prefix mod 8 in
      if full < 16
      then let out = (if rem > 0
                      then ip[full := (ip ! full) AND push_bit (unat (8 - rem)) (0xFF :: u8)]
                      else ip)
           in take (full + 1) out @ replicate (16 - (full + 1)) 0
      else ip)"

subsection \<open>IPv4\<close>

lemma bit_v4_mask: "unat p \<le> 32 \<Longrightarrow> bit (v4_mask p) j \<longleftrightarrow> j < 32 \<and> 32 - unat p \<le> j"
proof -
  assume p: "unat p \<le> 32"
  show ?thesis
  proof (cases "p = 0 \<or> p \<ge> 32")
    case True
    then show ?thesis
    proof
      assume "p = 0"
      then show ?thesis by (auto simp: v4_mask_def)
    next
      assume "p \<ge> 32"
      with p have "unat p = 32" by (simp add: word_le_nat_alt)
      then show ?thesis
        using \<open>p \<ge> 32\<close> by (auto simp: v4_mask_def)
    qed
  next
    case False
    then have "unat (32 - p) = 32 - unat p"
      by (subst unat_sub) (auto simp: word_le_nat_alt)
    with False show ?thesis by (auto simp: v4_mask_def bit_simps)
  qed
qed

lemma and_eq_iff_bits:
  "(x AND m = y AND m) \<longleftrightarrow> (\<forall>j. bit m j \<longrightarrow> bit x j = bit (y :: 'a::len word) j)"
proof
  assume "x AND m = y AND m"
  then have "bit (x AND m) j = bit (y AND m) j" for j by simp
  then show "\<forall>j. bit m j \<longrightarrow> bit x j = bit y j" by (auto simp: bit_and_iff)
next
  assume "\<forall>j. bit m j \<longrightarrow> bit x j = bit y j"
  then show "x AND m = y AND m" by (intro bit_eqI) (auto simp: bit_and_iff)
qed

lemma prefix_contains_v4_iff:
  assumes "unat p \<le> 32" "length net = 4" "length ip = 4"
  shows "prefix_contains_v4 p net ip \<longleftrightarrow> same_prefix (unat p) net ip"
  using assms same_prefix_from_be [where 'a = 32, of net ip "unat p"]
  by (auto simp: prefix_contains_v4_def and_eq_iff_bits bit_v4_mask)

lemma to_be_masked:
  assumes "p \<le> 32" "length ip = 4" "\<And>j. bit m j \<longleftrightarrow> j < 32 \<and> 32 - p \<le> j"
  shows "to_be 4 ((from_be ip :: u32) AND m) = net_addr p ip"
proof (rule addr_eqI)
  let ?c = "to_be 4 ((from_be ip :: u32) AND m)"
  show "length ?c = length (net_addr p ip)" using assms by simp
  fix i assume "i < 8 * length ?c"
  then have i: "i < 32" by simp
  have "from_be ?c = (from_be ip :: u32) AND m"
    by (simp add: from_be_to_be take_bit_word_eq_self)
  then have "addr_bit ?c i \<longleftrightarrow> bit ((from_be ip :: u32) AND m) (31 - i)"
    using bit_from_be_addr [where 'a = 32, of ?c i] i by simp
  also have "\<dots> \<longleftrightarrow> addr_bit ip i \<and> i < p"
    using bit_from_be_addr [where 'a = 32, of ip i] assms(1,2) i
    by (auto simp: bit_and_iff assms(3))
  finally show "addr_bit ?c i = addr_bit (net_addr p ip) i"
    using assms(2) i by (auto simp: addr_bit_net_addr)
qed

lemma mask_v4_net_addr:
  assumes "unat p \<le> 32" "length ip = 4"
  shows "mask_v4 p ip = net_addr (unat p) ip"
  unfolding mask_v4_def by (rule to_be_masked [OF assms bit_v4_mask [OF assms(1)]])

subsection \<open>IPv6\<close>

lemma v6_bytes_equal_Ok:
  "i + n \<le> length net \<Longrightarrow> length ip = length net \<Longrightarrow>
   v6_bytes_equal i n net ip = Ok (\<forall>k < n. net ! (i + k) = ip ! (i + k))"
proof (induction i n net ip rule: v6_bytes_equal.induct)
  case (2 i n net ip)
  have "(\<forall>k < Suc n. net ! (i + k) = ip ! (i + k)) \<longleftrightarrow>
        net ! i = ip ! i \<and> (\<forall>k < n. net ! (Suc i + k) = ip ! (Suc i + k))"
    by (auto simp: less_Suc_eq_0_disj)
  with 2 show ?case by (auto simp: index_at_def)
qed simp

lemma bytes_equal_iff:
  assumes "length a = length b" "q \<le> length a"
  shows "(\<forall>k < q. a ! k = b ! k) \<longleftrightarrow> same_prefix (8 * q) a b"
proof
  assume eq: "\<forall>k < q. a ! k = b ! k"
  show "same_prefix (8 * q) a b"
    unfolding same_prefix_def addr_bit_def using eq by (metis less_mult_imp_div_less mult.commute)
next
  assume sp: "same_prefix (8 * q) a b"
  show "\<forall>k < q. a ! k = b ! k"
  proof (intro allI impI byte_eqI)
    fix k j :: nat assume "k < q" "j < 8"
    then have "8 * k + (7 - j) < 8 * q" by linarith
    with sp \<open>j < 8\<close> show "bit (a ! k) j = bit (b ! k) j"
      by (simp add: nth_byte_addr_bit same_prefix_def)
  qed
qed

lemma masked_byte_iff:
  assumes "r < 8"
  shows "(x AND push_bit (8 - r) 0xFF = y AND push_bit (8 - r) 0xFF) \<longleftrightarrow>
    (\<forall>k < r. bit (x :: u8) (7 - k) = bit y (7 - k))"
proof -
  have bits: "bit (push_bit (8 - r) 0xFF :: u8) j \<longleftrightarrow> j < 8 \<and> 8 - r \<le> j" for j
    by (cases "j < 8") (auto simp: bit_byte_mask dest: bit_imp_le_length)
  show ?thesis
    unfolding and_eq_iff_bits bits
  proof (rule iffI; intro allI impI)
    fix k assume "\<forall>j. j < 8 \<and> 8 - r \<le> j \<longrightarrow> bit x j = bit y j" "k < r"
    then show "bit x (7 - k) = bit y (7 - k)" using assms by (auto dest!: spec [of _ "7 - k"])
  next
    fix j assume "\<forall>k < r. bit x (7 - k) = bit y (7 - k)" "j < 8 \<and> 8 - r \<le> j"
    then show "bit x j = bit y j" using assms by (auto dest!: spec [of _ "7 - j"])
  qed
qed

lemma same_prefix_split:
  assumes "r < 8"
  shows "same_prefix (8 * q + r) a b \<longleftrightarrow>
    same_prefix (8 * q) a b \<and> (\<forall>k < r. bit (a ! q) (7 - k) = bit (b ! q) (7 - k))"
proof -
  have "(8 * q + k) div 8 = q" "(8 * q + k) mod 8 = k" if "k < 8" for k
    using that by simp_all
  then have ab: "addr_bit x (8 * q + k) = bit (x ! q) (7 - k)" if "k < r" for x k
    using that assms by (simp add: addr_bit_def)
  have "same_prefix (8 * q + r) a b \<longleftrightarrow>
      same_prefix (8 * q) a b \<and> (\<forall>k < r. addr_bit a (8 * q + k) = addr_bit b (8 * q + k))"
    unfolding same_prefix_def by (rule all_less_add)
  with ab show ?thesis by auto
qed

lemma u8_div_mod:
  fixes p :: u8
  shows "unat p = 8 * unat (p div 8) + unat (p mod 8)" "unat (p mod 8) < 8"
    "p mod 8 > 0 \<Longrightarrow> unat (8 - p mod 8) = 8 - unat (p mod 8)"
proof -
  have m: "unat (p mod 8) = unat p mod 8" and d: "unat (p div 8) = unat p div 8"
    by (simp_all add: unat_mod unat_div)
  then show "unat p = 8 * unat (p div 8) + unat (p mod 8)" "unat (p mod 8) < 8"
    by simp_all
  then show "p mod 8 > 0 \<Longrightarrow> unat (8 - p mod 8) = 8 - unat (p mod 8)"
    by (subst unat_sub) (auto simp: word_le_nat_alt)
qed

lemma prefix_contains_v6_Ok:
  assumes "unat p \<le> 128" "length net = 16" "length ip = 16"
  shows "prefix_contains_v6 p net ip = Ok (same_prefix (unat p) net ip)"
proof -
  define q r where "q = unat (p div 8)" and "r = unat (p mod 8)"
  have p: "unat p = 8 * q + r" and r: "r < 8"
    using u8_div_mod(1,2) [of p] by (simp_all add: q_def r_def)
  have q: "q \<le> 16" using p assms(1) by linarith
  have r0: "p mod 8 > 0 \<longleftrightarrow> r > 0" by (simp add: r_def word_greater_zero_iff unat_gt_0)
  have loop: "v6_bytes_equal 0 q net ip = Ok (same_prefix (8 * q) net ip)"
    using v6_bytes_equal_Ok [of 0 q net ip] bytes_equal_iff [of net ip q] q assms by simp
  show ?thesis
  proof (cases "r > 0")
    case True
    then have "q < 16" using p assms(1) by linarith
    moreover have "unat (8 - p mod 8) = 8 - r"
      using u8_div_mod(3) [of p] r0 True by (simp add: r_def)
    ultimately show ?thesis
      using True loop assms(2,3)
      by (cases "same_prefix (8 * q) net ip")
        (simp_all add: prefix_contains_v6_def Let_def r0 index_at_def p same_prefix_split [OF r]
          masked_byte_iff [OF r] flip: q_def)
  next
    case False
    then show ?thesis
      using loop
      by (cases "same_prefix (8 * q) net ip") (simp_all add: prefix_contains_v6_def Let_def r0 p flip: q_def)
  qed
qed

text \<open>
  The prefix tests of the FireHOL index are right: for every prefix length in range
  and all addresses, \<open>prefix_contains_v4\<close> and \<open>prefix_contains_v6\<close> hold exactly when the
  first \<open>prefix\<close> bits of the two addresses agree, and the IPv6 test never indexes past the
  arrays.
\<close>

lemma prefix_contains_correct:
  assumes "unat p4 \<le> 32" "length net4 = 4" "length ip4 = 4"
    and "unat p6 \<le> 128" "length net6 = 16" "length ip6 = 16"
  shows "prefix_contains_v4 p4 net4 ip4 = same_prefix (unat p4) net4 ip4 \<and>
    prefix_contains_v6 p6 net6 ip6 = Ok (same_prefix (unat p6) net6 ip6)"
  using prefix_contains_v4_iff [OF assms(1-3)] prefix_contains_v6_Ok [OF assms(4-6)] by simp

lemma prefix_contains_correct_example:
  "prefix_contains_v4 8 [10, 0, 0, 0] [10, 9, 8, 7] = same_prefix 8 [10, 0, 0, 0] [10, 9, 8, 7] \<and>
   prefix_contains_v6 33 (replicate 16 7) (replicate 16 7) = Ok True"
  using prefix_contains_correct [of 8 "[10, 0, 0, 0]" "[10, 9, 8, 7]" 33 "replicate 16 7" "replicate 16 7"]
  by simp

lemma and_ff [simp]: "x AND 255 = (x :: u8)" "x AND 65280 = (0 :: u8)"
proof -
  have "(255 :: u8) = - 1" "(65280 :: u8) = 0" by (simp_all add: word_eq_iff_unsigned)
  then show "x AND 255 = x" "x AND 65280 = 0" by (metis and.right_neutral, metis and_zero_eq)
qed

lemma nth_net_addr:
  assumes "i < length a" "r < 8"
  shows "net_addr (8 * q + r) a ! i =
    (if i < q then a ! i else if i = q then a ! q AND push_bit (8 - r) 0xFF else 0)"
proof -
  have "8 - min 8 (8 * q + r - 8 * i) = (if i < q then 0 else if i = q then 8 - r else 8)"
    using assms(2) by (auto simp: min_def)
  then show ?thesis using assms(1) by (simp add: net_addr_def)
qed

lemma nth_mask_v6:
  assumes "i < 16" "length ip = 16"
  shows "mask_v6 p ip ! i =
    (if i < unat (p div 8) then ip ! i
     else if i = unat (p div 8)
     then if p mod 8 > 0 then ip ! i AND push_bit (unat (8 - p mod 8)) 0xFF else ip ! i
     else 0)"
  using assms by (auto simp: mask_v6_def Let_def nth_append min_def)

lemma length_mask_v6: "length ip = 16 \<Longrightarrow> length (mask_v6 p ip) = 16"
  by (auto simp: mask_v6_def Let_def min_def)

lemma mask_v6_net_addr_iff:
  assumes "unat p6 \<le> 128" "length ip6 = 16"
  shows "mask_v6 p6 ip6 = net_addr (unat p6) ip6 \<longleftrightarrow>
     p6 mod 8 \<noteq> 0 \<or> unat p6 = 128 \<or> ip6 ! unat (p6 div 8) = 0"
proof -
  define q r where "q = unat (p6 div 8)" and "r = unat (p6 mod 8)"
  have p: "unat p6 = 8 * q + r" and r: "r < 8"
    using u8_div_mod(1,2) [of p6] by (simp_all add: q_def r_def)
  have r0: "p6 mod 8 > 0 \<longleftrightarrow> r > 0" "p6 mod 8 \<noteq> 0 \<longleftrightarrow> r > 0"
    by (simp_all add: r_def word_greater_zero_iff unat_gt_0)
  have sub: "r > 0 \<Longrightarrow> unat (8 - p6 mod 8) = 8 - r"
    using u8_div_mod(3) [of p6] r0 by (simp add: r_def)
  have net: "net_addr (unat p6) ip6 ! i =
      (if i < q then ip6 ! i else if i = q then ip6 ! q AND push_bit (8 - r) 0xFF else 0)" if "i < 16" for i
    unfolding p using nth_net_addr [of i ip6 r q] that r assms(2) by simp
  have mask: "mask_v6 p6 ip6 ! i = (if i < q then ip6 ! i else if i = q
      then if r > 0 then ip6 ! i AND push_bit (8 - r) 0xFF else ip6 ! i else 0)" if "i < 16" for i
    using nth_mask_v6 [of i ip6 p6] that assms(2) r0 sub by (simp flip: q_def)
  have "mask_v6 p6 ip6 = net_addr (unat p6) ip6 \<longleftrightarrow>
      (\<forall>i < 16. mask_v6 p6 ip6 ! i = net_addr (unat p6) ip6 ! i)"
    using assms(2) by (simp add: list_eq_iff_nth_eq length_mask_v6)
  also have "\<dots> \<longleftrightarrow> r > 0 \<or> q \<ge> 16 \<or> ip6 ! q = 0"
    using net mask by (cases "r > 0"; cases "q < 16") auto
  also have "q \<ge> 16 \<longleftrightarrow> unat p6 = 128"
    using p assms(1) r by linarith
  finally show ?thesis using r0 by (simp flip: q_def)
qed

lemma mask_v6_canonical:
  assumes "unat p \<le> 128" "length ip = 16" "length a = 16" "net_addr (unat p) a = a"
  shows "mask_v6 p ip = a \<longleftrightarrow>
    net_addr (unat p) ip = a \<and> (p mod 8 \<noteq> 0 \<or> unat p = 128 \<or> ip ! unat (p div 8) = 0)"
proof (cases "p mod 8 \<noteq> 0 \<or> unat p = 128 \<or> ip ! unat (p div 8) = 0")
  case True
  then show ?thesis using mask_v6_net_addr_iff [OF assms(1,2)] by auto
next
  case False
  let ?q = "unat (p div 8)"
  have p: "unat p = 8 * ?q + 0" using False u8_div_mod(1) [of p] by simp
  then have q: "?q < 16" using assms(1) False by linarith
  have "net_addr (8 * ?q + 0) a ! ?q = a ! ?q AND push_bit (8 - 0) 0xFF"
    using nth_net_addr [of ?q a 0 ?q] q assms(3) by simp
  then have "a ! ?q = 0" using p assms(4) by (simp add: push_bit_eq_mult)
  moreover have "mask_v6 p ip ! ?q = ip ! ?q" using nth_mask_v6 [OF q assms(2), of p] False by simp
  ultimately show ?thesis using False by auto
qed

text \<open>
  \<^bold>\<open>C23\<close>. The masks of the FireHOL index.  \<open>mask_v4\<close> always computes the network address.
  \<open>mask_v6\<close> computes it exactly when the prefix length is not a multiple of 8 below 128, or
  the byte at the prefix boundary happens to be 0: for a byte-aligned prefix such as a /32,
  /48 or /64 that byte is left unmasked.
\<close>

theorem masks_correct_iff:
  assumes "unat p4 \<le> 32" "length ip4 = 4" "unat p6 \<le> 128" "length ip6 = 16"
  shows "mask_v4 p4 ip4 = net_addr (unat p4) ip4 \<and>
    (mask_v6 p6 ip6 = net_addr (unat p6) ip6 \<longleftrightarrow>
     p6 mod 8 \<noteq> 0 \<or> unat p6 = 128 \<or> ip6 ! unat (p6 div 8) = 0)"
  using mask_v4_net_addr [OF assms(1,2)] mask_v6_net_addr_iff [OF assms(3,4)] by simp

theorem masks_correct_iff_witness:
  "mask_v6 64 (replicate 16 1) \<noteq> net_addr 64 (replicate 16 1) \<and>
   mask_v6 63 (replicate 16 1) = net_addr 63 (replicate 16 1)"
  using masks_correct_iff [of 0 "replicate 4 0" 64 "replicate 16 1"]
    masks_correct_iff [of 0 "replicate 4 0" 63 "replicate 16 1"]
  by simp

end
