(* ===== verification/Bpf_Map.thy ===== *)
theory Bpf_Map
  imports Fw_Common "HOL-Library.AList"
begin

section \<open>The interface of the kernel maps\<close>

text \<open>
  The kernel's hash maps and LPM tries, reached through the \<open>aya\<close> bindings, are not part
  of the repository.  \<open>bpf_ops\<close> is the record of operations the program calls on one map;
  the locale \<open>bpf_map\<close> states what the documentation of those maps promises (an insert
  replaces or adds the key and can only be refused when a full map does not hold the key;
  a removal of a present key succeeds; the key iterator enumerates the keys), relative to
  an abstract content.  The locale \<open>lpm_trie\<close> adds the longest-prefix lookup the hook uses.
  Both are interpreted on a capacity-bounded association list, with the capacities the
  program declares.
\<close>

subsection \<open>Operations and laws\<close>

record ('m, 'k) bpf_ops =
  bpf_insert :: "'m \<Rightarrow> 'k \<Rightarrow> rule_value \<Rightarrow> 'm option"
  bpf_remove :: "'m \<Rightarrow> 'k \<Rightarrow> 'm option"
  bpf_keys :: "'m \<Rightarrow> 'k option list"

locale bpf_map =
  fixes ops :: "('m, 'k) bpf_ops"
    and invar :: "'m \<Rightarrow> bool"
    and content :: "'m \<Rightarrow> 'k \<Rightarrow> rule_value option"
    and valid_key :: "'k \<Rightarrow> bool"
    and cap :: nat
  assumes insert_ok: "invar m \<Longrightarrow> valid_key k \<Longrightarrow> bpf_insert ops m k v = Some m' \<Longrightarrow>
      invar m' \<and> content m' = (content m)(k \<mapsto> v)"
    and insert_room: "invar m \<Longrightarrow> valid_key k \<Longrightarrow>
      content m k \<noteq> None \<or> card (dom (content m)) < cap \<Longrightarrow> bpf_insert ops m k v \<noteq> None"
    and remove_ok: "invar m \<Longrightarrow> valid_key k \<Longrightarrow> bpf_remove ops m k = Some m' \<Longrightarrow>
      invar m' \<and> content m' = (content m)(k := None)"
    and remove_present: "invar m \<Longrightarrow> valid_key k \<Longrightarrow> content m k \<noteq> None \<Longrightarrow>
      bpf_remove ops m k \<noteq> None"
    and keys_dom: "invar m \<Longrightarrow> {k. Some k \<in> set (bpf_keys ops m)} = dom (content m)"
    and content_valid: "invar m \<Longrightarrow> content m k \<noteq> None \<Longrightarrow> valid_key k"
begin

lemma finite_content: "invar m \<Longrightarrow> finite (dom (content m))"
proof -
  assume "invar m"
  have "finite {k. Some k \<in> set (bpf_keys ops m)}"
    using finite_imageI [of "set (bpf_keys ops m)" the] by (rule rev_finite_subset) force+
  with \<open>invar m\<close> show ?thesis by (simp add: keys_dom)
qed

lemma set_keys: "invar m \<Longrightarrow> set (List.map_filter id (bpf_keys ops m)) = dom (content m)"
  using keys_dom by (force simp: List.map_filter_def)

text \<open>\<open>let _ = map.remove(&key)\<close>: a failed removal leaves the map as it was.\<close>

lemma remove_ignored:
  assumes "invar m" "valid_key k" "content m k \<noteq> None"
  shows "invar (case bpf_remove ops m k of None \<Rightarrow> m | Some m' \<Rightarrow> m')"
    "content (case bpf_remove ops m k of None \<Rightarrow> m | Some m' \<Rightarrow> m') = (content m)(k := None)"
  using remove_present [OF assms] remove_ok [OF assms(1,2)] by auto

end

subsection \<open>LPM keys\<close>

text \<open>
  A key of an LPM trie over \<open>n\<close>-byte addresses: the prefix length is in range and the
  address is the network address (its host bits are 0).
\<close>

definition net_key :: "nat \<Rightarrow> u32 \<times> bytes \<Rightarrow> bool" where
  "net_key n k \<longleftrightarrow> length (snd k) = n \<and> unat (fst k) \<le> 8 * n \<and>
     (\<forall>i < 8 * n. unat (fst k) \<le> i \<longrightarrow> \<not> addr_bit (snd k) i)"

definition lpm_matches :: "u32 \<Rightarrow> bytes \<Rightarrow> u32 \<times> bytes \<Rightarrow> bool" where
  "lpm_matches p a k \<longleftrightarrow> fst k \<le> p \<and> same_prefix (unat (fst k)) (snd k) a"

locale lpm_trie = bpf_map ops invar content valid_key cap
  for ops :: "('m, u32 \<times> bytes) bpf_ops" and invar content valid_key cap +
  fixes lookup :: "'m \<Rightarrow> u32 \<Rightarrow> bytes \<Rightarrow> rule_value option"
  assumes lookup_hit: "invar m \<Longrightarrow> lookup m p a = Some v \<Longrightarrow>
      \<exists>k. content m k = Some v \<and> lpm_matches p a k \<and>
        (\<forall>k'. content m k' \<noteq> None \<and> lpm_matches p a k' \<longrightarrow> fst k' \<le> fst k)"
    and lookup_miss: "invar m \<Longrightarrow> lookup m p a = None \<Longrightarrow> content m k \<noteq> None \<Longrightarrow>
      \<not> lpm_matches p a k"
begin

lemma lookup_covered:
  "invar m \<Longrightarrow> content m k \<noteq> None \<Longrightarrow> lpm_matches p a k \<Longrightarrow> \<exists>v. lookup m p a = Some v"
  using lookup_miss by (cases "lookup m p a") auto

lemma lookup_ran:
  "invar m \<Longrightarrow> lookup m p a = Some v \<Longrightarrow> v \<in> ran (content m)"
  using lookup_hit by (force simp: ran_def)

end

subsection \<open>A capacity-bounded map satisfies the laws\<close>

definition table_ops :: "('k \<Rightarrow> bool) \<Rightarrow> nat \<Rightarrow> (('k \<times> rule_value) list, 'k) bpf_ops" where
  "table_ops valid cap = \<lparr>
     bpf_insert = (\<lambda>m k v. if valid k \<and> (k \<in> fst ` set m \<or> length m < cap)
                           then Some (AList.update k v m) else None),
     bpf_remove = (\<lambda>m k. if k \<in> fst ` set m then Some (AList.delete k m) else None),
     bpf_keys = (\<lambda>m. map (Some \<circ> fst) m)\<rparr>"

definition table_invar :: "('k \<Rightarrow> bool) \<Rightarrow> ('k \<times> rule_value) list \<Rightarrow> bool" where
  "table_invar valid m \<longleftrightarrow> distinct (map fst m) \<and> list_all valid (map fst m)"

text \<open>The entry with the longest prefix among those seen so far.\<close>

definition longer :: "('a \<Rightarrow> u32) \<Rightarrow> 'a \<Rightarrow> 'a option \<Rightarrow> 'a option" where
  "longer len e best = (case best of None \<Rightarrow> Some e | Some b \<Rightarrow> if len b < len e then Some e else Some b)"

definition table_lookup ::
  "((u32 \<times> bytes) \<times> rule_value) list \<Rightarrow> u32 \<Rightarrow> bytes \<Rightarrow> rule_value option" where
  "table_lookup m p a =
     map_option snd (fold (longer (fst \<circ> fst)) (filter (\<lambda>e. lpm_matches p a (fst e)) m) None)"

lemma table_invar_update:
  "table_invar valid m \<Longrightarrow> valid k \<Longrightarrow> table_invar valid (AList.update k v m)"
  by (auto simp: table_invar_def distinct_update list_all_iff dom_update)

lemma table_invar_delete: "table_invar valid m \<Longrightarrow> table_invar valid (AList.delete k m)"
  using distinct_delete [of m k] by (auto simp: table_invar_def list_all_iff AList.delete_eq)

lemma card_dom_table: "distinct (map fst m) \<Longrightarrow> card (dom (map_of m)) = length m"
  by (metis dom_map_of_conv_image_fst length_map distinct_card set_map)

interpretation table: bpf_map "table_ops valid cap" "table_invar valid" map_of valid cap
  for valid :: "'k \<Rightarrow> bool" and cap
proof unfold_locales
  fix m :: "('k \<times> rule_value) list" and k v m'
  assume "table_invar valid m" "valid k" "bpf_insert (table_ops valid cap) m k v = Some m'"
  then show "table_invar valid m' \<and> map_of m' = (map_of m)(k \<mapsto> v)"
    by (auto simp: table_ops_def table_invar_update update_conv' split: if_splits)
next
  fix m :: "('k \<times> rule_value) list" and k v
  assume "table_invar valid m" "valid k" "map_of m k \<noteq> None \<or> card (dom (map_of m)) < cap"
  then show "bpf_insert (table_ops valid cap) m k v \<noteq> None"
    by (auto simp: table_ops_def card_dom_table table_invar_def map_of_eq_None_iff)
next
  fix m :: "('k \<times> rule_value) list" and k m'
  assume "table_invar valid m" "valid k" "bpf_remove (table_ops valid cap) m k = Some m'"
  then show "table_invar valid m' \<and> map_of m' = (map_of m)(k := None)"
    by (auto simp: table_ops_def table_invar_delete delete_conv' split: if_splits)
next
  fix m :: "('k \<times> rule_value) list" and k
  assume "map_of m k \<noteq> None"
  then show "bpf_remove (table_ops valid cap) m k \<noteq> None"
    by (auto simp: table_ops_def map_of_eq_None_iff)
next
  fix m :: "('k \<times> rule_value) list"
  show "{k. Some k \<in> set (bpf_keys (table_ops valid cap) m)} = dom (map_of m)"
    by (auto simp: table_ops_def dom_map_of_conv_image_fst)
next
  fix m :: "('k \<times> rule_value) list" and k
  assume "table_invar valid m" "map_of m k \<noteq> None"
  then show "valid k"
    by (auto simp: table_invar_def list_all_iff dest!: map_of_SomeD)
qed

text \<open>The running maximum of \<open>table_lookup\<close>.\<close>

lemma fold_longer:
  "\<exists>b. fold (longer len) es (Some b0) = Some b \<and> b \<in> insert b0 (set es) \<and>
     (\<forall>e \<in> insert b0 (set es). len e \<le> len b)"
proof (induction es arbitrary: b0)
  case Nil
  then show ?case by simp
next
  case (Cons e es)
  let ?b = "if len b0 < len e then e else b0"
  obtain b where b: "fold (longer len) es (Some ?b) = Some b" "b \<in> insert ?b (set es)"
    "\<forall>e \<in> insert ?b (set es). len e \<le> len b"
    using Cons.IH [of ?b] by blast
  have "longer len e (Some b0) = Some ?b" by (simp add: longer_def)
  moreover have "len b0 \<le> len ?b" "len e \<le> len ?b" by auto
  ultimately show ?case using b by (intro exI [of _ b]) (auto split: if_splits)
qed

lemma table_lookup_cases:
  "(table_lookup m p a = None \<and> (\<forall>e \<in> set m. \<not> lpm_matches p a (fst e))) \<or>
   (\<exists>e \<in> set m. table_lookup m p a = Some (snd e) \<and> lpm_matches p a (fst e) \<and>
      (\<forall>e' \<in> set m. lpm_matches p a (fst e') \<longrightarrow> fst (fst e') \<le> fst (fst e)))"
proof (cases "filter (\<lambda>e. lpm_matches p a (fst e)) m")
  case Nil
  then show ?thesis by (auto simp: table_lookup_def filter_empty_conv)
next
  case (Cons b0 es)
  then have set_eq: "insert b0 (set es) = {e \<in> set m. lpm_matches p a (fst e)}"
    by (metis list.set(2) set_filter)
  from fold_longer [of "fst \<circ> fst" es b0] obtain b where
    b: "fold (longer (fst \<circ> fst)) es (Some b0) = Some b" "b \<in> insert b0 (set es)"
    "\<forall>e \<in> insert b0 (set es). (fst \<circ> fst) e \<le> (fst \<circ> fst) b"
    by blast
  have "table_lookup m p a = Some (snd b)"
    using b(1) by (simp add: table_lookup_def Cons longer_def [of _ b0 None])
  with b(2,3) show ?thesis unfolding set_eq comp_def by blast
qed

interpretation trie: lpm_trie "table_ops (net_key n) cap" "table_invar (net_key n)" map_of "net_key n" cap
    table_lookup
  for n cap
proof unfold_locales
  fix m p a v
  assume inv: "table_invar (net_key n) m" and hit: "table_lookup m p a = Some v"
  have d: "distinct (map fst m)" using inv by (simp add: table_invar_def)
  from table_lookup_cases [of m p a] hit obtain e where
    e: "e \<in> set m" "v = snd e" "lpm_matches p a (fst e)"
    "\<forall>e' \<in> set m. lpm_matches p a (fst e') \<longrightarrow> fst (fst e') \<le> fst (fst e)"
    by auto
  have "map_of m (fst e) = Some v" using e d by (simp add: map_of_is_SomeI)
  moreover have "\<forall>k'. map_of m k' \<noteq> None \<and> lpm_matches p a k' \<longrightarrow> fst k' \<le> fst (fst e)"
    using e(4) by (force dest!: map_of_SomeD)
  ultimately show "\<exists>k. map_of m k = Some v \<and> lpm_matches p a k \<and>
      (\<forall>k'. map_of m k' \<noteq> None \<and> lpm_matches p a k' \<longrightarrow> fst k' \<le> fst k)"
    using e(3) by blast
next
  fix m p a k
  assume "table_lookup m p a = None" "map_of m k \<noteq> None"
  with table_lookup_cases [of m p a] show "\<not> lpm_matches p a k"
    by (force dest!: map_of_SomeD)
qed

end
