(* ===== verification/Firehol_Entry.thy ===== *)
theory Firehol_Entry
  imports Rust_Std Ip_Prefix Bpf_Map
begin

section \<open>FireHOL targets and entries\<close>

text \<open>
  Models \<open>src/firehol/entry.rs\<close> (targets, their queries, the 30-byte encoding of an entry)
  and the key builders of \<open>src/cache_rocksdb.rs\<close>.  The lemmas: decoding inverts encoding and
  accepts nothing else, the four kinds of context keys never collide, and \<open>contains_ip\<close> is
  the prefix test on network addresses.
\<close>

datatype firehol_ip_target = ExactV4 bytes | ExactV6 bytes | CidrV4 u32 bytes | CidrV6 u32 bytes

record firehol_entry =
  fe_target :: firehol_ip_target
  fe_rule_id :: u32
  fe_metadata_id :: u32
  fe_line :: u32

subsection \<open>Cache keys\<close>

definition metadata_key :: "u32 \<Rightarrow> bytes" where
  "metadata_key i = to_be 4 i"

definition ctx_key_v4_exact :: "bytes \<Rightarrow> bytes" where
  "ctx_key_v4_exact ip = 0x01 # ip"

definition ctx_key_v6_exact :: "bytes \<Rightarrow> bytes" where
  "ctx_key_v6_exact ip = 0x02 # ip"

definition ctx_key_v4_lpm :: "u8 \<Rightarrow> bytes \<Rightarrow> bytes" where
  "ctx_key_v4_lpm prefix net = 0x03 # prefix # net"

definition ctx_key_v6_lpm :: "u8 \<Rightarrow> bytes \<Rightarrow> bytes" where
  "ctx_key_v6_lpm prefix net = 0x04 # prefix # net"

fun context_key :: "firehol_ip_target \<Rightarrow> bytes" where
  "context_key (ExactV4 ip) = ctx_key_v4_exact ip"
| "context_key (ExactV6 ip) = ctx_key_v6_exact ip"
| "context_key (CidrV4 prefix ip) = ctx_key_v4_lpm (ucast prefix) ip"
| "context_key (CidrV6 prefix ip) = ctx_key_v6_lpm (ucast prefix) ip"

subsection \<open>Queries\<close>

text \<open>\<open>32 - p\<close> underflows for a prefix out of range; \<open>checked_shl\<close> of the full width is 0.\<close>

fun contains_ip :: "firehol_ip_target \<Rightarrow> ip_addr \<Rightarrow> (unit, bool) outcome" where
  "contains_ip (ExactV4 a) (V4 b) = Ok (a = b)"
| "contains_ip (ExactV6 a) (V6 b) = Ok (a = b)"
| "contains_ip (CidrV4 p a) (V4 b) =
     (if unat p > 32 then Fault
      else let mask = (if 32 - unat p < 32 then push_bit (32 - unat p) (- 1) else 0) :: u32
        in Ok (from_be b AND mask = from_be a))"
| "contains_ip (CidrV6 p a) (V6 b) =
     (if unat p > 128 then Fault
      else let mask = (if 128 - unat p < 128 then push_bit (128 - unat p) (- 1) else 0) :: u128
        in Ok (from_be b AND mask = from_be a))"
| "contains_ip _ _ = Ok False"

fun is_exact :: "firehol_ip_target \<Rightarrow> bool" where
  "is_exact (ExactV4 _) = True"
| "is_exact (ExactV6 _) = True"
| "is_exact _ = False"

fun ip_version :: "firehol_ip_target \<Rightarrow> u8" where
  "ip_version (ExactV4 _) = 4"
| "ip_version (CidrV4 _ _) = 4"
| "ip_version (ExactV6 _) = 6"
| "ip_version (CidrV6 _ _) = 6"

definition entry_type :: "firehol_ip_target \<Rightarrow> string" where
  "entry_type t = (if is_exact t then ''exact'' else ''cidr'')"

fun target_prefix_len :: "firehol_ip_target \<Rightarrow> u8" where
  "target_prefix_len (ExactV4 _) = 32"
| "target_prefix_len (ExactV6 _) = 128"
| "target_prefix_len (CidrV4 len _) = ucast len"
| "target_prefix_len (CidrV6 len _) = ucast len"

fun to_string_repr :: "firehol_ip_target \<Rightarrow> string" where
  "to_string_repr (ExactV4 a) = show_ipv4 a"
| "to_string_repr (ExactV6 a) = show_ipv6 a"
| "to_string_repr (CidrV4 len a) = show_ipv4 a @ ''/'' @ show_nat (unat len)"
| "to_string_repr (CidrV6 len a) = show_ipv6 a @ ''/'' @ show_nat (unat len)"

definition entry_new :: "firehol_ip_target \<Rightarrow> u32 \<Rightarrow> u32 \<Rightarrow> u32 \<Rightarrow> firehol_entry" where
  "entry_new target rule_id metadata_id line =
     \<lparr>fe_target = target, fe_rule_id = rule_id, fe_metadata_id = metadata_id, fe_line = line\<rparr>"

definition entry_is_exact :: "firehol_entry \<Rightarrow> bool" where
  "entry_is_exact e = is_exact (fe_target e)"

definition entry_ip_version :: "firehol_entry \<Rightarrow> u8" where
  "entry_ip_version e = ip_version (fe_target e)"

definition entry_prefix_len :: "firehol_entry \<Rightarrow> u8" where
  "entry_prefix_len e = target_prefix_len (fe_target e)"

subsection \<open>Encoding\<close>

text \<open>The first 18 bytes: tag, prefix, and the address zero-padded to 16 bytes.\<close>

fun encode_target :: "firehol_ip_target \<Rightarrow> bytes" where
  "encode_target (ExactV4 ip) = [1, 0] @ ip @ replicate 12 0"
| "encode_target (ExactV6 ip) = [2, 0] @ ip"
| "encode_target (CidrV4 p ip) = [3, ucast p] @ ip @ replicate 12 0"
| "encode_target (CidrV6 p ip) = [4, ucast p] @ ip"

definition encode :: "firehol_entry \<Rightarrow> bytes" where
  "encode e = encode_target (fe_target e) @ to_be 4 (fe_rule_id e) @ to_be 4 (fe_metadata_id e) @
     to_be 4 (fe_line e)"

datatype cache_error =
    InvalidLength | InvalidTarget | InvalidSpoolBlock | InvalidContribution | UnknownMetadata
  | ReadFailed | WriteFailed | ScanFailed | SerializeFailed

definition decode :: "bytes \<Rightarrow> cache_error + firehol_entry" where
  "decode b =
     (if length b \<noteq> 30 then Inl InvalidLength
      else case (if b ! 0 = 1 then Some (ExactV4 (take 4 (drop 2 b)))
                 else if b ! 0 = 2 then Some (ExactV6 (take 16 (drop 2 b)))
                 else if b ! 0 = 3 \<and> b ! 1 \<le> 32 then Some (CidrV4 (ucast (b ! 1)) (take 4 (drop 2 b)))
                 else if b ! 0 = 4 \<and> b ! 1 \<le> 128 then Some (CidrV6 (ucast (b ! 1)) (take 16 (drop 2 b)))
                 else None) of
        None \<Rightarrow> Inl InvalidTarget
      | Some target \<Rightarrow>
          Inr (entry_new target (from_be (take 4 (drop 18 b))) (from_be (take 4 (drop 22 b)))
                 (from_be (take 4 (drop 26 b)))))"

subsection \<open>Well-formed targets\<close>

text \<open>The array lengths of the Rust types, and prefix lengths in range.\<close>

fun wf_target :: "firehol_ip_target \<Rightarrow> bool" where
  "wf_target (ExactV4 a) \<longleftrightarrow> length a = 4"
| "wf_target (ExactV6 a) \<longleftrightarrow> length a = 16"
| "wf_target (CidrV4 p a) \<longleftrightarrow> length a = 4 \<and> unat p \<le> 32"
| "wf_target (CidrV6 p a) \<longleftrightarrow> length a = 16 \<and> unat p \<le> 128"

text \<open>The target's address is its network address.\<close>

fun canonical_target :: "firehol_ip_target \<Rightarrow> bool" where
  "canonical_target (CidrV4 p a) \<longleftrightarrow> net_addr (unat p) a = a"
| "canonical_target (CidrV6 p a) \<longleftrightarrow> net_addr (unat p) a = a"
| "canonical_target _ \<longleftrightarrow> True"

text \<open>The addresses a target covers.\<close>

fun covers :: "firehol_ip_target \<Rightarrow> ip_addr \<Rightarrow> bool" where
  "covers (ExactV4 a) (V4 b) \<longleftrightarrow> a = b"
| "covers (ExactV6 a) (V6 b) \<longleftrightarrow> a = b"
| "covers (CidrV4 p a) (V4 b) \<longleftrightarrow> same_prefix (unat p) a b"
| "covers (CidrV6 p a) (V6 b) \<longleftrightarrow> same_prefix (unat p) a b"
| "covers _ _ \<longleftrightarrow> False"

text \<open>No context key is a prefix of another one.\<close>

lemma context_key_prefix_free:
  assumes "wf_target s" "wf_target t" "context_key t = context_key s @ z"
  shows "s = t"
  using assms
  by (cases s; cases t)
    (auto simp: ctx_key_v4_exact_def ctx_key_v6_exact_def ctx_key_v4_lpm_def ctx_key_v6_lpm_def
      intro!: ucast_u8_inject)

text \<open>
  Cache keys of distinct targets are distinct: among well-formed targets of all four
  kinds, equal context keys mean equal targets.
\<close>

lemma context_key_injective:
  assumes "wf_target s" "wf_target t" "context_key s = context_key t"
  shows "s = t"
  using context_key_prefix_free [OF assms(1,2), of "[]"] assms(3) by simp

lemma context_key_injective_example:
  "CidrV4 8 [10, 0, 0, 0] = CidrV4 (4 + 4) [10, 0, 0, 0]"
  by (rule context_key_injective) simp_all

lemma encode_inverse:
  assumes "wf_target (fe_target e)"
  shows "length (encode e) = 30 \<and> decode (encode e) = Inr e"
proof -
  let ?w = "to_be 4 (fe_rule_id e) @ to_be 4 (fe_metadata_id e) @ to_be 4 (fe_line e)"
  have l: "length (encode_target (fe_target e)) = 18"
    using assms by (cases "fe_target e") auto
  have ids: "take 4 (drop 18 (encode e)) = to_be 4 (fe_rule_id e)"
    "take 4 (drop 22 (encode e)) = to_be 4 (fe_metadata_id e)"
    "take 4 (drop 26 (encode e)) = to_be 4 (fe_line e)"
    using l by (simp_all add: encode_def)
  have le: "unat p \<le> n \<Longrightarrow> n < 256 \<Longrightarrow> (ucast (p :: u32) :: u8) \<le> of_nat n" for p n
    by (simp add: word_le_nat_alt unat_ucast_small unat_of_nat take_bit_nat_eq_self)
  have "length (encode e) = 30" using l by (simp add: encode_def)
  then show ?thesis
    using assms le [of _ 32] le [of _ 128]
    by (cases e; cases "fe_target e")
      (auto simp: decode_def ids, auto simp: encode_def entry_new_def ucast_back from_be_to_be
        take_bit_word_eq_self)
qed

text \<open>
  \<^bold>\<open>C24\<close>. Round trip of the entry encoding: every well-formed entry encodes to exactly 30
  bytes and decodes to itself.
\<close>

theorem decode_encode:
  assumes "wf_target (fe_target e)"
  shows "length (encode e) = 30 \<and> decode (encode e) = Inr e"
  by (rule encode_inverse [OF assms])

theorem decode_encode_witness:
  "decode (encode (entry_new (CidrV6 32 (replicate 16 7)) 1 2 3)) =
   Inr (entry_new (CidrV6 32 (replicate 16 7)) 1 2 3)"
  using decode_encode [of "entry_new (CidrV6 32 (replicate 16 7)) 1 2 3"] by (simp add: entry_new_def)

text \<open>
  Decoding checks its input: it accepts exactly the 30-byte records with tag 1 or 2, or
  tag 3 with a prefix of at most 32, or tag 4 with a prefix of at most 128, and what it
  accepts is well-formed.  Everything else is an error value, never a panic.
\<close>

lemma decode_checked:
  "case decode b of
     Inr e \<Rightarrow> length b = 30 \<and> wf_target (fe_target e) \<and>
       (b ! 0 = 1 \<or> b ! 0 = 2 \<or> b ! 0 = 3 \<and> unat (b ! 1) \<le> 32 \<or> b ! 0 = 4 \<and> unat (b ! 1) \<le> 128)
   | Inl InvalidLength \<Rightarrow> length b \<noteq> 30
   | Inl InvalidTarget \<Rightarrow> length b = 30 \<and>
       \<not> (b ! 0 = 1 \<or> b ! 0 = 2 \<or> b ! 0 = 3 \<and> unat (b ! 1) \<le> 32 \<or> b ! 0 = 4 \<and> unat (b ! 1) \<le> 128)"
  by (auto simp: decode_def entry_new_def word_le_nat_alt unat_ucast_up)

subsection \<open>Membership\<close>

lemma from_be_masked:
  fixes m :: "'a::len word"
  assumes len: "8 * length a = LENGTH('a)" "8 * length b = LENGTH('a)" "p \<le> LENGTH('a)"
    and m: "\<And>j. bit m j \<longleftrightarrow> j < LENGTH('a) \<and> LENGTH('a) - p \<le> j"
    and canon: "net_addr p a = a"
  shows "from_be b AND m = from_be a \<longleftrightarrow> same_prefix p a b"
proof -
  have "from_be a AND m = (from_be a :: 'a word)"
  proof (rule bit_word_eqI)
    fix j assume j: "j < LENGTH('a)"
    have "\<not> bit (from_be a :: 'a word) j" if "\<not> LENGTH('a) - p \<le> j"
    proof -
      have i: "LENGTH('a) - 1 - j < LENGTH('a)" "p \<le> LENGTH('a) - 1 - j"
        "LENGTH('a) - 1 - (LENGTH('a) - 1 - j) = j"
        using j that len(3) by auto
      then have "\<not> addr_bit a (LENGTH('a) - 1 - j)"
        using canon len(1) by (simp add: net_addr_canonical)
      then show ?thesis using bit_from_be_addr [OF len(1) i(1)] i(3) by simp
    qed
    then show "bit (from_be a AND m) j = bit (from_be a :: 'a word) j"
      using j m by (auto simp: bit_and_iff)
  qed
  then have "from_be b AND m = from_be a \<longleftrightarrow> from_be a AND m = from_be b AND m" by auto
  also have "\<dots> \<longleftrightarrow> same_prefix p a b"
    using same_prefix_from_be [OF len] m by (auto simp: and_eq_iff_bits)
  finally show ?thesis .
qed

lemma bit_checked_shl:
  "p \<le> LENGTH('a) \<Longrightarrow>
   bit (if LENGTH('a) - p < LENGTH('a) then push_bit (LENGTH('a) - p) (- 1) else 0 :: 'a::len word) j \<longleftrightarrow>
     j < LENGTH('a) \<and> LENGTH('a) - p \<le> j"
  by (auto simp: bit_simps)

lemmas contains_masked = from_be_masked [OF _ _ _ bit_checked_shl]

lemma contains_ip_covers:
  assumes "wf_target t" "canonical_target t" "wf_ip ip"
  shows "contains_ip t ip = Ok (covers t ip)"
  using assms
proof (cases t; cases ip; simp only: contains_ip.simps covers.simps)
  fix p a b assume "t = CidrV4 p a" "ip = V4 b"
  with assms show "(if 32 < unat p then Fault
      else let mask = (if 32 - unat p < 32 then push_bit (32 - unat p) (- 1) else 0) :: u32
        in Ok (from_be b AND mask = from_be a)) = Ok (same_prefix (unat p) a b)"
    using contains_masked [where 'a = 32, of a b "unat p"]
    by (cases "32 - unat p < 32") (simp_all add: Let_def)
next
  fix p a b assume "t = CidrV6 p a" "ip = V6 b"
  with assms show "(if 128 < unat p then Fault
      else let mask = (if 128 - unat p < 128 then push_bit (128 - unat p) (- 1) else 0) :: u128
        in Ok (from_be b AND mask = from_be a)) = Ok (same_prefix (unat p) a b)"
    using contains_masked [where 'a = 128, of a b "unat p"]
    by (cases "128 - unat p < 128") (simp_all add: Let_def)
qed

text \<open>
  Membership is right: for a well-formed target whose address is its network address
  and any address, \<open>contains_ip\<close> returns (without panic) whether the target covers the
  address, families included.
\<close>

lemma contains_ip_correct:
  assumes "wf_target t" "canonical_target t" "wf_ip ip"
  shows "contains_ip t ip = Ok (covers t ip)"
  by (rule contains_ip_covers [OF assms])

lemma contains_ip_correct_example:
  "contains_ip (CidrV4 8 [10, 0, 0, 0]) (V4 [10, 1, 2, 3]) = Ok (same_prefix 8 [10, 0, 0, 0] [10, 1, 2, 3])"
proof -
  have "net_addr 8 [10, 0, 0, 0] = [10, 0, 0, 0]" by (simp add: net_addr_def upt_rec)
  then show ?thesis
    using contains_ip_correct [of "CidrV4 8 [10, 0, 0, 0]" "V4 [10, 1, 2, 3]"] by simp
qed

end
