(* ===== verification/Firehol_Metadata.thy ===== *)
theory Firehol_Metadata
  imports Rust_Std
begin

section \<open>Categories and list metadata\<close>

text \<open>
  Models the first part of \<open>src/firehol/metadata.rs\<close>: the threat categories with their labels
  and numeric identifiers, the normalisation of dates (the calendar crate \<open>chrono\<close> is a
  parameter: each field is one parse attempt followed by its RFC 3339 rendering), and the
  metadata record of a list.
\<close>

datatype firehol_category =
  Abuse | Attacks | Malware | Spam | Proxy | Botnet | Unroutable | Anonymizers | Other

fun cat_as_str :: "firehol_category \<Rightarrow> string" where
  "cat_as_str Abuse = ''abuse''"
| "cat_as_str Attacks = ''attacks''"
| "cat_as_str Malware = ''malware''"
| "cat_as_str Spam = ''spam''"
| "cat_as_str Proxy = ''proxy''"
| "cat_as_str Botnet = ''botnet''"
| "cat_as_str Unroutable = ''unroutable''"
| "cat_as_str Anonymizers = ''anonymizers''"
| "cat_as_str Other = ''other''"

definition parse_category :: "string \<Rightarrow> firehol_category" where
  "parse_category s =
     (let t = to_lowercase (trim s) in
      if t = ''abuse'' then Abuse
      else if t = ''attacks'' \<or> t = ''attack'' then Attacks
      else if t = ''malware'' then Malware
      else if t = ''spam'' \<or> t = ''spammer'' then Spam
      else if t = ''proxy'' \<or> t = ''proxies'' then Proxy
      else if t = ''botnet'' \<or> t = ''bots'' \<or> t = ''bot'' then Botnet
      else if t = ''unroutable'' \<or> t = ''unallocated'' then Unroutable
      else if t = ''anonymizers'' \<or> t = ''anonymous'' \<or> t = ''anonymizer'' then Anonymizers
      else Other)"

fun cat_id :: "firehol_category \<Rightarrow> u32" where
  "cat_id Abuse = 1"
| "cat_id Attacks = 2"
| "cat_id Malware = 3"
| "cat_id Spam = 4"
| "cat_id Proxy = 5"
| "cat_id Botnet = 6"
| "cat_id Unroutable = 7"
| "cat_id Anonymizers = 9"
| "cat_id Other = 8"

definition cat_from_id :: "u32 \<Rightarrow> firehol_category" where
  "cat_from_id i =
     (if i = 1 then Abuse else if i = 2 then Attacks else if i = 3 then Malware
      else if i = 4 then Spam else if i = 5 then Proxy else if i = 6 then Botnet
      else if i = 7 then Unroutable else if i = 9 then Anonymizers else Other)"

subsection \<open>Dates\<close>

function str_replace :: "string \<Rightarrow> string \<Rightarrow> string \<Rightarrow> string" where
  "str_replace pat rep s =
     (if pat = [] \<or> s = [] then s
      else case strip_prefix pat s of
        Some rest \<Rightarrow> rep @ str_replace pat rep rest
      | None \<Rightarrow> hd s # str_replace pat rep (tl s))"
  by pat_completeness auto
termination
  by (relation "measure (\<lambda>(pat, rep, s). length s)")
    (auto simp: strip_prefix_def split: if_splits intro: diff_less)

declare str_replace.simps [simp del]

record chrono =
  parse_from_rfc3339 :: "string \<Rightarrow> string option"
  parse_with_offset :: "string \<Rightarrow> string option"
  parse_naive :: "string \<Rightarrow> string option"
  parse_iso_datetime :: "string \<Rightarrow> string option"
  parse_iso_date :: "string \<Rightarrow> string option option"

definition normalize_firehol_date :: "chrono \<Rightarrow> string \<Rightarrow> string option" where
  "normalize_firehol_date C raw =
     (let trimmed = trim raw in
      if trimmed = [] then None
      else case parse_from_rfc3339 C trimmed of Some d \<Rightarrow> Some d
      | None \<Rightarrow> (case parse_with_offset C (str_replace '' UTC '' '' +0000 '' trimmed) of Some d \<Rightarrow> Some d
      | None \<Rightarrow> (case parse_naive C (str_replace '' UTC'' '''' trimmed) of Some d \<Rightarrow> Some d
      | None \<Rightarrow> (case parse_iso_datetime C trimmed of Some d \<Rightarrow> Some d
      | None \<Rightarrow> (case parse_iso_date C trimmed of Some midnight \<Rightarrow> midnight
      | None \<Rightarrow> Some trimmed)))))"

record firehol_metadata =
  md_id :: u32
  md_category :: firehol_category
  md_source_url :: "string option"
  md_maintainer :: "string option"
  md_maintainer_url :: "string option"
  md_source_file_date :: "string option"
  md_file_name :: string
  md_version :: "string option"
  md_update_frequency :: "string option"

subsection \<open>Round trips\<close>

text \<open>
  Categories survive both of their encodings: every category is recovered from its
  numeric identifier, and from its label in any mix of white space around it; distinct
  categories have distinct identifiers and labels.
\<close>

lemma category_roundtrip:
  assumes "list_all is_whitespace pre" "list_all is_whitespace post"
  shows "cat_from_id (cat_id c) = c \<and> parse_category (pre @ cat_as_str c @ post) = c \<and>
    inj cat_id \<and> inj cat_as_str"
proof -
  have "parse_category (pre @ cat_as_str c @ post) = parse_category (cat_as_str c)"
    unfolding parse_category_def trim_append [OF assms] ..
  also have "parse_category (cat_as_str c) = c"
    by (cases c; simp only: cat_as_str.simps; code_simp)
  finally have p: "parse_category (pre @ cat_as_str c @ post) = c" .
  have i: "cat_from_id (cat_id c) = c" for c by (cases c) (simp_all add: cat_from_id_def)
  have "inj cat_id" by (metis i injI)
  moreover have "inj cat_as_str"
  proof (rule injI)
    fix c d :: firehol_category assume "cat_as_str c = cat_as_str d"
    then show "c = d" by (cases c; cases d) simp_all
  qed
  ultimately show ?thesis using i p by simp
qed

lemma category_roundtrip_witness: "parse_category (''  '' @ ''malware'' @ '' '') = Malware"
  using category_roundtrip [of "''  ''" "'' ''" Malware] by (simp add: is_whitespace_def)

text \<open>A date is dropped only when it is blank (or the calendar has no such midnight).\<close>

lemma normalize_date_kept:
  "trim raw \<noteq> [] \<Longrightarrow> parse_iso_date C (trim raw) \<noteq> Some None \<Longrightarrow> normalize_firehol_date C raw \<noteq> None"
  by (auto simp: normalize_firehol_date_def Let_def split: option.splits)

end
