(* ===== verification/Rocks_Db.thy ===== *)
theory Rocks_Db
  imports Firehol_Entry Firehol_Metadata "HOL-Library.List_Lexorder" "HOL-Library.Countable"
begin

section \<open>The interface of the on-disk cache\<close>

text \<open>
  RocksDB and the serialiser \<open>rkyv\<close> are not part of the repository.  \<open>rocks_ops\<close> is the record
  of the operations \<open>src/cache_rocksdb.rs\<close> performs on the database: atomic batch writes, point
  reads and ordered scans of a column family, range deletion, and the two archive formats.
  The locale \<open>rocks_db\<close> states their documented behaviour against a content of byte strings;
  it is interpreted on sorted association lists.  The theory also models the bulk writer.
\<close>

subsection \<open>Operations and laws\<close>

datatype col_family = CONTRIBUTIONS | ENTRIES | METADATA | RULE_CONTEXT

record rule_block_context =
  rb_files :: "string list"
  rb_lines :: "u32 list"
  rb_categories :: "firehol_category list"

definition context_default :: rule_block_context where
  "context_default = \<lparr>rb_files = [], rb_lines = [], rb_categories = []\<rparr>"

text \<open>
  \<open>None\<close> is an I/O or archive error; \<open>db_scan\<close> returns what the cursor delivers and the final
  status of the cursor.
\<close>

record 'db rocks_ops =
  db_write :: "'db \<Rightarrow> (col_family \<times> bytes \<times> bytes) list \<Rightarrow> 'db option"
  db_get :: "'db \<Rightarrow> col_family \<Rightarrow> bytes \<Rightarrow> bytes option option"
  db_scan :: "'db \<Rightarrow> col_family \<Rightarrow> (bytes \<times> bytes) list \<times> bool"
  db_delete_range :: "'db \<Rightarrow> col_family \<Rightarrow> bytes \<Rightarrow> bytes \<Rightarrow> 'db option"
  db_batch_size :: "(col_family \<times> bytes \<times> bytes) list \<Rightarrow> nat"
  ser_context :: "rule_block_context \<Rightarrow> bytes option"
  de_context :: "bytes \<Rightarrow> rule_block_context option"
  ser_metadata :: "firehol_metadata \<Rightarrow> bytes option"
  de_metadata :: "bytes \<Rightarrow> firehol_metadata option"

definition put_content ::
  "col_family \<times> bytes \<times> bytes \<Rightarrow> (col_family \<Rightarrow> bytes \<Rightarrow> bytes option) \<Rightarrow> (col_family \<Rightarrow> bytes \<Rightarrow> bytes option)" where
  "put_content w ct = (case w of (c, k, v) \<Rightarrow> ct(c := (ct c)(k \<mapsto> v)))"

lemma alist_by_keys: "distinct (map fst xs) \<Longrightarrow> xs = map (\<lambda>k. (k, the (map_of xs k))) (map fst xs)"
  by (rule nth_equalityI) (auto intro!: prod_eqI, metis map_of_is_SomeI nth_mem option.sel prod.collapse)

subsection \<open>The bulk writer\<close>

definition MAX_IMPORT_BATCH_BYTES :: nat where
  "MAX_IMPORT_BATCH_BYTES = 300 * 1024 * 1024"

record 'db bulk_writer =
  bw_db :: 'db
  bw_batch :: "(col_family \<times> bytes \<times> bytes) list"
  bw_limit :: nat
  bw_written_bytes :: nat

definition bulk_new :: "'db \<Rightarrow> nat \<Rightarrow> 'db bulk_writer" where
  "bulk_new cache limit =
     \<lparr>bw_db = cache, bw_batch = [], bw_limit = min (max limit (1024 * 1024)) MAX_IMPORT_BATCH_BYTES,
      bw_written_bytes = 0\<rparr>"

definition bulk_commit :: "'db rocks_ops \<Rightarrow> 'db bulk_writer \<Rightarrow> cache_error + 'db bulk_writer" where
  "bulk_commit R w =
     (if bw_batch w = [] then Inr w
      else case db_write R (bw_db w) (bw_batch w) of
        None \<Rightarrow> Inl WriteFailed
      | Some db \<Rightarrow> Inr (w\<lparr>bw_db := db, bw_batch := [],
                           bw_written_bytes := bw_written_bytes w + db_batch_size R (bw_batch w)\<rparr>))"

definition bulk_full :: "'db rocks_ops \<Rightarrow> 'db bulk_writer \<Rightarrow> cache_error + 'db bulk_writer" where
  "bulk_full R w =
     (if db_batch_size R (bw_batch w) \<ge> bw_limit w then bulk_commit R w else Inr w)"

definition bulk_put ::
  "'db rocks_ops \<Rightarrow> col_family \<Rightarrow> bytes \<Rightarrow> bytes \<Rightarrow> 'db bulk_writer \<Rightarrow> cache_error + 'db bulk_writer" where
  "bulk_put R name key val w = bulk_full R (w\<lparr>bw_batch := bw_batch w @ [(name, key, val)]\<rparr>)"

text \<open>The compact contribution of one entry: target and sequence as key, metadata and line as value.\<close>

definition contribution :: "nat \<Rightarrow> firehol_entry \<Rightarrow> col_family \<times> bytes \<times> bytes" where
  "contribution seq e =
     (CONTRIBUTIONS, context_key (fe_target e) @ to_be 8 (of_nat seq :: u64), drop 22 (encode e))"

definition bulk_entries ::
  "'db rocks_ops \<Rightarrow> firehol_entry list \<Rightarrow> nat \<Rightarrow> bool \<Rightarrow> 'db bulk_writer \<Rightarrow> cache_error + 'db bulk_writer" where
  "bulk_entries R entries seq spool w =
     (let puts = map (\<lambda>(offset, e). contribution (seq + offset) e) (enumerate 0 entries);
          block = (if spool then [(ENTRIES, to_be 8 (of_nat seq :: u64), concat (map encode entries))] else [])
      in bulk_full R (w\<lparr>bw_batch := bw_batch w @ puts @ block\<rparr>))"

subsection \<open>Key order\<close>

text \<open>Byte strings of one length are ordered like the big-endian numbers they encode.\<close>

definition be_val :: "bytes \<Rightarrow> nat" where
  "be_val bs = foldl (\<lambda>acc b. acc * 256 + unat b) 0 bs"

lemma be_val_snoc: "be_val (bs @ [b]) = be_val bs * 256 + unat b"
  by (simp add: be_val_def)

lemma be_val_acc: "foldl (\<lambda>acc b. acc * 256 + unat (b :: u8)) n bs = n * 256 ^ length bs + be_val bs"
proof (induction bs rule: rev_induct)
  case (snoc b bs)
  then show ?case by (simp add: be_val_snoc algebra_simps)
qed (simp add: be_val_def)

lemma be_val_Cons: "be_val (b # bs) = unat b * 256 ^ length bs + be_val bs"
  using be_val_acc [of "unat b" bs] by (simp add: be_val_def)

lemma be_val_less: "be_val bs < 256 ^ length bs"
proof (induction bs rule: rev_induct)
  case (snoc b bs)
  have "unat b < 256" using unsigned_less [of b, where ?'a = nat] by simp
  then have "be_val bs * 256 + unat b < (be_val bs + 1) * 256" by simp
  also have "\<dots> \<le> 256 ^ length bs * 256" using snoc by (intro mult_right_mono) auto
  finally show ?case by (simp add: be_val_snoc)
qed (simp add: be_val_def)

lemma be_val_to_be: "be_val (to_be n (w :: 'a::len word)) = unat w mod 256 ^ n"
proof (induction n arbitrary: w)
  case 0
  then show ?case by (simp add: be_val_def)
next
  case (Suc n)
  have "unat (drop_bit 8 w) = drop_bit 8 (take_bit LENGTH('a) (unat w))" by (rule unsigned_drop_bit_eq)
  also have "take_bit LENGTH('a) (unat w) = unat w" by (rule take_bit_nat_eq_self) (rule unsigned_less)
  finally have d: "unat (drop_bit 8 w) = unat w div 256" by (simp only: drop_bit_eq_div) simp
  have u: "unat (ucast w :: u8) = unat w mod 256" by (simp add: unsigned_ucast_eq take_bit_eq_mod)
  show ?case using Suc [of "drop_bit 8 w"] by (simp add: be_val_snoc d u mod_mult2_eq)
qed

lemma lex_be_val:
  assumes "length a = length b"
  shows "a < b \<longleftrightarrow> be_val a < be_val b"
  using assms
proof (induction a b rule: list_induct2)
  case (Cons x xs y ys)
  have l: "be_val xs < 256 ^ length ys" "be_val ys < 256 ^ length ys"
    using be_val_less [of xs] be_val_less [of ys] Cons by simp_all
  consider "unat x < unat y" | "unat y < unat x" | "x = y" by (metis linorder_neqE_nat word_unat_eq_iff)
  then show ?case
  proof cases
    case 1
    have "(unat x + 1) * 256 ^ length ys \<le> unat y * 256 ^ length ys" using 1 by (intro mult_right_mono) auto
    then show ?thesis using 1 l Cons.hyps by (simp add: be_val_Cons word_less_nat_alt)
  next
    case 2
    have "(unat y + 1) * 256 ^ length ys \<le> unat x * 256 ^ length ys" using 2 by (intro mult_right_mono) auto
    then show ?thesis using 2 l Cons.hyps by (auto simp: be_val_Cons word_less_nat_alt)
  next
    case 3
    then show ?thesis using Cons by (simp add: be_val_Cons)
  qed
qed simp

lemma to_be_less:
  "m < n \<Longrightarrow> n < 2 ^ 64 \<Longrightarrow> to_be 8 (of_nat m :: u64) < to_be 8 (of_nat n :: u64)"
  by (simp add: lex_be_val be_val_to_be unsigned_of_nat take_bit_nat_eq_self)

text \<open>Comparing keys with a suffix attached.\<close>

lemma lex_append:
  fixes a b :: "'a::linorder list"
  assumes "\<And>z. b \<noteq> a @ z" "\<And>z. a \<noteq> b @ z"
  shows "a @ x < b @ y \<longleftrightarrow> a < b"
  using assms
proof (induction a arbitrary: b)
  case Nil
  then show ?case by (metis append_Nil)
next
  case (Cons c a)
  obtain d b' where b: "b = d # b'" using Cons.prems(2) by (metis append_Nil list.exhaust)
  show ?case
  proof (cases "c = d")
    case True
    then show ?thesis using Cons.IH [of b'] Cons.prems by (simp add: b)
  qed (simp add: b)
qed

lemma lex_same_prefix: "a @ x < a @ y \<longleftrightarrow> x < (y :: 'a::linorder list)"
  by (induction a) simp_all

lemma context_key_order:
  assumes "wf_target s" "wf_target t" "s \<noteq> t"
  shows "context_key s @ x < context_key t @ y \<longleftrightarrow> context_key s < context_key t"
  using context_key_prefix_free assms by (intro lex_append) metis+

subsection \<open>Laws\<close>

locale rocks_db =
  fixes R :: "'db rocks_ops"
    and invar :: "'db \<Rightarrow> bool"
    and content :: "'db \<Rightarrow> col_family \<Rightarrow> bytes \<Rightarrow> bytes option"
  assumes write_ok: "invar db \<Longrightarrow>
      \<exists>db'. db_write R db ws = Some db' \<and> invar db' \<and> content db' = fold put_content ws (content db)"
    and get_ok: "invar db \<Longrightarrow> db_get R db c k = Some (content db c k)"
    and scan_ok: "invar db \<Longrightarrow>
      \<exists>xs. db_scan R db c = (xs, True) \<and> sorted_wrt (<) (map fst xs) \<and> map_of xs = content db c"
    and delete_range_ok: "invar db \<Longrightarrow>
      \<exists>db'. db_delete_range R db c lo hi = Some db' \<and> invar db' \<and>
        content db' = (content db)(c := (\<lambda>k. if lo \<le> k \<and> k < hi then None else content db c k))"
    and codec_context: "\<exists>b. ser_context R ctx = Some b \<and> de_context R b = Some ctx"
    and codec_metadata: "\<exists>b. ser_metadata R m = Some b \<and> de_metadata R b = Some m"
begin

text \<open>A scan is determined by the content.\<close>

lemma scan_eq:
  assumes "invar db" "sorted_wrt (<) (map fst xs)" "map_of xs = content db c"
  shows "db_scan R db c = (xs, True)"
proof -
  obtain ys where y: "db_scan R db c = (ys, True)" "sorted_wrt (<) (map fst ys)" "map_of ys = content db c"
    using scan_ok [OF assms(1)] by blast
  have d: "distinct (map fst zs)" "sorted (map fst zs)" if "sorted_wrt (<) (map fst zs)"
    for zs :: "(bytes \<times> bytes) list"
    using that strict_sorted_iff by auto
  have "set xs = set ys"
    using map_of_inject_set [of xs ys] d [OF assms(2)] d [OF y(2)] assms(3) y(3) by metis
  then have "map fst xs = map fst ys"
    using sorted_distinct_set_unique d [OF assms(2)] d [OF y(2)] by (metis set_map)
  then have "xs = ys"
    using alist_by_keys [OF d(1) [OF assms(2)]] alist_by_keys [OF d(1) [OF y(2)]] assms(3) y(3) by metis
  then show ?thesis using y(1) by simp
qed

text \<open>What the writer's database will hold once everything pending is committed.\<close>

definition staged :: "'db bulk_writer \<Rightarrow> col_family \<Rightarrow> bytes \<Rightarrow> bytes option" where
  "staged w = fold put_content (bw_batch w) (content (bw_db w))"

lemma commit_ok:
  assumes "invar (bw_db w)"
  shows "\<exists>w'. bulk_commit R w = Inr w' \<and> invar (bw_db w') \<and> bw_batch w' = [] \<and>
    staged w' = staged w \<and> content (bw_db w') = staged w"
  using write_ok [OF assms, of "bw_batch w"] assms by (auto simp: bulk_commit_def staged_def)

lemma full_ok:
  assumes "invar (bw_db w)"
  shows "\<exists>w'. bulk_full R w = Inr w' \<and> invar (bw_db w') \<and> staged w' = staged w"
  using commit_ok [OF assms] assms by (auto simp: bulk_full_def)

lemma put_ok:
  assumes "invar (bw_db w)"
  shows "\<exists>w'. bulk_put R c k v w = Inr w' \<and> invar (bw_db w') \<and> staged w' = put_content (c, k, v) (staged w)"
  using full_ok [of "w\<lparr>bw_batch := bw_batch w @ [(c, k, v)]\<rparr>"] assms
  by (auto simp: bulk_put_def staged_def)

lemma entries_ok:
  assumes "invar (bw_db w)"
  shows "\<exists>w'. bulk_entries R es seq spool w = Inr w' \<and> invar (bw_db w') \<and>
    staged w' = fold put_content
      (map (\<lambda>(offset, e). contribution (seq + offset) e) (enumerate 0 es) @
       (if spool then [(ENTRIES, to_be 8 (of_nat seq :: u64), concat (map encode es))] else [])) (staged w)"
  unfolding bulk_entries_def Let_def
  using full_ok [of "w\<lparr>bw_batch := bw_batch w @
      map (\<lambda>(offset, e). contribution (seq + offset) e) (enumerate 0 es) @
      (if spool then [(ENTRIES, to_be 8 (of_nat seq :: u64), concat (map encode es))] else [])\<rparr>"] assms
  by (auto simp: staged_def)

end

subsection \<open>Sorted association lists satisfy the laws\<close>

fun sorted_put :: "'k::linorder \<Rightarrow> 'v \<Rightarrow> ('k \<times> 'v) list \<Rightarrow> ('k \<times> 'v) list" where
  "sorted_put k v [] = [(k, v)]"
| "sorted_put k v ((a, b) # xs) =
     (if k < a then (k, v) # (a, b) # xs else if k = a then (k, v) # xs else (a, b) # sorted_put k v xs)"

lemma map_of_sorted_put: "map_of (sorted_put k v xs) = (map_of xs)(k \<mapsto> v)"
  by (induction k v xs rule: sorted_put.induct) (auto simp: fun_eq_iff)

lemma set_sorted_put: "fst ` set (sorted_put k v xs) = insert k (fst ` set xs)"
  by (induction k v xs rule: sorted_put.induct) auto

lemma sorted_sorted_put:
  "sorted_wrt (<) (map fst xs) \<Longrightarrow> sorted_wrt (<) (map fst (sorted_put k v xs))"
proof (induction k v xs rule: sorted_put.induct)
  case (2 k v a b xs)
  then show ?case
    using set_sorted_put [of k v xs] by (fastforce simp: not_less simp flip: set_map)
qed simp

type_synonym sst_db = "col_family \<Rightarrow> (bytes \<times> bytes) list"

definition sst_put :: "col_family \<times> bytes \<times> bytes \<Rightarrow> sst_db \<Rightarrow> sst_db" where
  "sst_put w db = (case w of (c, k, v) \<Rightarrow> db(c := sorted_put k v (db c)))"

definition sst_invar :: "sst_db \<Rightarrow> bool" where
  "sst_invar db \<longleftrightarrow> (\<forall>c. sorted_wrt (<) (map fst (db c)))"

definition sst_content :: "sst_db \<Rightarrow> col_family \<Rightarrow> bytes \<Rightarrow> bytes option" where
  "sst_content db c = map_of (db c)"

instance firehol_category :: countable
  by countable_datatype

definition unary :: "'a::countable \<Rightarrow> bytes option" where
  "unary x = Some (replicate (to_nat x) 0)"

definition from_unary :: "bytes \<Rightarrow> 'a::countable" where
  "from_unary b = from_nat (length b)"

definition sst_ops :: "sst_db rocks_ops" where
  "sst_ops = \<lparr>
     db_write = (\<lambda>db ws. Some (fold sst_put ws db)),
     db_get = (\<lambda>db c k. Some (map_of (db c) k)),
     db_scan = (\<lambda>db c. (db c, True)),
     db_delete_range = (\<lambda>db c lo hi. Some (db(c := filter (\<lambda>(k, v). \<not> (lo \<le> k \<and> k < hi)) (db c)))),
     db_batch_size = length,
     ser_context = (\<lambda>x. unary (rb_files x, rb_lines x, rb_categories x)),
     de_context = (\<lambda>b. let (f, l, c) = from_unary b in Some \<lparr>rb_files = f, rb_lines = l, rb_categories = c\<rparr>),
     ser_metadata = (\<lambda>m. unary (md_id m, md_category m, md_source_url m, md_maintainer m, md_maintainer_url m,
       md_source_file_date m, md_file_name m, md_version m, md_update_frequency m)),
     de_metadata = (\<lambda>b. let (i, c, s, m, u, d, f, v, q) = from_unary b in
       Some \<lparr>md_id = i, md_category = c, md_source_url = s, md_maintainer = m, md_maintainer_url = u,
         md_source_file_date = d, md_file_name = f, md_version = v, md_update_frequency = q\<rparr>)\<rparr>"

lemma sst_put_content: "sst_content (sst_put w db) = put_content w (sst_content db)"
  by (cases w) (auto simp: sst_put_def sst_content_def put_content_def map_of_sorted_put fun_eq_iff)

lemma sst_write:
  "sst_invar db \<Longrightarrow> sst_invar (fold sst_put ws db) \<and>
   sst_content (fold sst_put ws db) = fold put_content ws (sst_content db)"
proof (induction ws arbitrary: db)
  case (Cons w ws)
  have "sst_invar (sst_put w db)"
    using Cons.prems by (cases w) (auto simp: sst_invar_def sst_put_def sorted_sorted_put)
  from Cons.IH [OF this] show ?case by (simp add: sst_put_content)
qed simp

lemma map_of_filter_keys: "map_of (filter (\<lambda>(k, v). P k) xs) = (\<lambda>k. if P k then map_of xs k else None)"
  by (induction xs) (auto simp: fun_eq_iff)

interpretation sst: rocks_db sst_ops sst_invar sst_content
proof unfold_locales
  fix db :: sst_db and c lo hi assume "sst_invar db"
  then show "\<exists>db'. db_delete_range sst_ops db c lo hi = Some db' \<and> sst_invar db' \<and>
      sst_content db' = (sst_content db)(c := (\<lambda>k. if lo \<le> k \<and> k < hi then None else sst_content db c k))"
    by (intro exI [of _ "db(c := filter (\<lambda>(k, v). \<not> (lo \<le> k \<and> k < hi)) (db c))"])
      (auto simp: sst_ops_def sst_invar_def sst_content_def map_of_filter_keys [of "\<lambda>k. lo \<le> k \<longrightarrow> \<not> k < hi"]
        fun_eq_iff sorted_wrt_map intro: sorted_wrt_filter)
qed (auto simp: sst_ops_def sst_write, auto simp: sst_invar_def sst_content_def unary_def from_unary_def)

end
