(* ===== verification/File_Lines.thy ===== *)
theory File_Lines
  imports Rust_Std
begin

section \<open>Reading a file line by line\<close>

text \<open>
  Models \<open>visit_file_lines\<close> of \<open>src/firehol/parser.rs\<close>: a growing buffer is filled by reads of
  arbitrary size, its complete lines are checked as UTF-8 and lent to a callback, the
  unfinished rest is kept.  A file is its content; the operating system's choices are a list
  of read events.  Lines are lists of Unicode code points.  The lemmas show that the lines
  the callback sees do not depend on how the reads were split.
\<close>

subsection \<open>Errors of the import\<close>

datatype io_error = Io_Failed | Io_InvalidData

datatype firehol_parse_error =
    Cache_Failed
  | Io string io_error
  | InvalidEntry string nat string
  | InvalidDirectory string
  | WorkerPanic string

subsection \<open>UTF-8\<close>

definition cont_byte :: "u8 \<Rightarrow> bool" where
  "cont_byte b \<longleftrightarrow> 0x80 \<le> b \<and> b \<le> 0xBF"

abbreviation low6 :: "u8 \<Rightarrow> nat" where
  "low6 b \<equiv> unat b mod 64"

text \<open>The sequence that starts with byte \<open>a\<close>: its code point and what follows it.\<close>

definition utf8_next :: "u8 \<Rightarrow> bytes \<Rightarrow> (nat \<times> bytes) option" where
  "utf8_next a bs =
     (if a < 0x80 then Some (unat a, bs)
      else if 0xC2 \<le> a \<and> a \<le> 0xDF then
        (case bs of
           b # r \<Rightarrow> if cont_byte b then Some ((unat a - 0xC0) * 64 + low6 b, r) else None
         | _ \<Rightarrow> None)
      else if 0xE0 \<le> a \<and> a \<le> 0xEF then
        (case bs of
           b # c # r \<Rightarrow>
             if cont_byte b \<and> (a = 0xE0 \<longrightarrow> 0xA0 \<le> b) \<and> (a = 0xED \<longrightarrow> b \<le> 0x9F) \<and> cont_byte c
             then Some (((unat a - 0xE0) * 64 + low6 b) * 64 + low6 c, r) else None
         | _ \<Rightarrow> None)
      else if 0xF0 \<le> a \<and> a \<le> 0xF4 then
        (case bs of
           b # c # d # r \<Rightarrow>
             if cont_byte b \<and> (a = 0xF0 \<longrightarrow> 0x90 \<le> b) \<and> (a = 0xF4 \<longrightarrow> b \<le> 0x8F) \<and>
                cont_byte c \<and> cont_byte d
             then Some ((((unat a - 0xF0) * 64 + low6 b) * 64 + low6 c) * 64 + low6 d, r) else None
         | _ \<Rightarrow> None)
      else None)"

lemma utf8_next_length: "utf8_next a bs = Some (v, r) \<Longrightarrow> length r \<le> length bs"
  by (auto simp: utf8_next_def split: if_splits list.splits)

text \<open>\<open>str::from_utf8\<close>: the code points, or \<open>None\<close> for an ill-formed sequence.\<close>

function utf8_decode :: "bytes \<Rightarrow> nat list option" where
  "utf8_decode [] = Some []"
| "utf8_decode (a # bs) =
     (case utf8_next a bs of
        None \<Rightarrow> None
      | Some (v, r) \<Rightarrow> map_option ((#) v) (utf8_decode r))"
  by pat_completeness auto
termination
  by (relation "measure length") (auto dest: utf8_next_length)

subsection \<open>Lines\<close>

text \<open>\<open>split_terminator('\n')\<close>: the pieces of \<open>split\<close> without an empty last one.\<close>

definition split_terminator :: "'a \<Rightarrow> 'a list \<Rightarrow> 'a list list" where
  "split_terminator c s =
     (let ps = split_char c s in if last ps = [] then butlast ps else ps)"

text \<open>\<open>rposition\<close> of the last newline, plus one; 0 without a newline.\<close>

definition complete_len :: "bytes \<Rightarrow> nat" where
  "complete_len b = length b - length (takeWhile (\<lambda>x. x \<noteq> 10) (rev b))"

fun visit_lines ::
  "(nat list \<Rightarrow> nat \<Rightarrow> 's \<Rightarrow> (firehol_parse_error, 's) outcome option) \<Rightarrow> nat list list \<Rightarrow> nat \<Rightarrow> 's \<Rightarrow>
   (firehol_parse_error, 's) outcome option" where
  "visit_lines visit [] line_number s = Some (Ok s)"
| "visit_lines visit (line # ls) line_number s =
     (case visit line (line_number + 1) s of
        Some (Ok s') \<Rightarrow> visit_lines visit ls (line_number + 1) s'
      | r \<Rightarrow> r)"

subsection \<open>The read loop\<close>

text \<open>
  \<open>Readable k\<close>: the system offers \<open>k + 1\<close> bytes; a read takes what fits into the buffer and
  what the file still holds, so it returns 0 only at the end of the file.
\<close>

datatype read_event = Interrupted | Failing | Readable nat

primrec visit_loop ::
  "string \<Rightarrow> (nat list \<Rightarrow> nat \<Rightarrow> 's \<Rightarrow> (firehol_parse_error, 's) outcome option) \<Rightarrow> read_event list \<Rightarrow>
   bytes \<Rightarrow> nat \<Rightarrow> bytes \<Rightarrow> nat \<Rightarrow> nat \<Rightarrow> 's \<Rightarrow> (firehol_parse_error, nat \<times> 's) outcome option" where
  "visit_loop path visit [] rest cap buf line_number n s = None"
| "visit_loop path visit (ev # evs) rest cap buf line_number n s =
     (let cap = (if length buf = cap then cap * 2 else cap) in
      case ev of
        Interrupted \<Rightarrow> visit_loop path visit evs rest cap buf line_number n s
      | Failing \<Rightarrow> Some (Err (Io path Io_Failed))
      | Readable k \<Rightarrow>
          let got = take (min (Suc k) (cap - length buf)) rest; read = length got;
              buf = buf @ got;
              fin = (if read = 0 then length buf else complete_len buf) in
          (case utf8_decode (take fin buf) of
             None \<Rightarrow> Some (Err (Io path Io_InvalidData))
           | Some chars \<Rightarrow>
               let ls = split_terminator 10 chars in
               (case visit_lines visit ls line_number s of
                  Some (Ok s') \<Rightarrow>
                    if read = 0 then Some (Ok (n + read, s'))
                    else visit_loop path visit evs (drop read rest) cap (drop fin buf)
                           (line_number + length ls) (n + read) s'
                | Some (Err e) \<Rightarrow> Some (Err e)
                | Some Fault \<Rightarrow> Some Fault
                | None \<Rightarrow> None)))"

text \<open>\<open>File::open\<close> yields the content of an existing file.\<close>

definition visit_file_lines ::
  "string \<Rightarrow> bytes option \<Rightarrow> read_event list \<Rightarrow>
   (nat list \<Rightarrow> nat \<Rightarrow> 's \<Rightarrow> (firehol_parse_error, 's) outcome option) \<Rightarrow> 's \<Rightarrow>
   (firehol_parse_error, nat \<times> 's) outcome option" where
  "visit_file_lines path file evs visit s =
     (case file of
        None \<Rightarrow> Some (Err (Io path Io_Failed))
      | Some content \<Rightarrow> visit_loop path visit evs content (1024 * 1024) [] 0 0 s)"

subsection \<open>Splitting\<close>

lemma split_char_not_Nil [simp]: "split_char c s \<noteq> []"
  by (induction s) (auto split: list.splits)

lemma split_char_append:
  "split_char c (a @ c # b) = split_char c a @ split_char c b"
  by (induction a) (auto simp: split: list.splits)

lemma split_terminator_Nil [simp]: "split_terminator c [] = []"
  by (simp add: split_terminator_def)

lemma split_terminator_append:
  "split_terminator c (a @ c # b) = split_char c a @ split_terminator c b"
  by (simp add: split_terminator_def Let_def split_char_append butlast_append)

lemma split_terminator_snoc: "split_terminator c (a @ [c]) = split_char c a"
  using split_terminator_append [of c a "[]"] by simp

text \<open>A text that is empty or ends in the terminator can be split off.\<close>

definition terminated :: "'a \<Rightarrow> 'a list \<Rightarrow> bool" where
  "terminated c s \<longleftrightarrow> s = [] \<or> last s = c"

lemma terminated_cases:
  assumes "terminated c s"
  obtains (Nil) "s = []" | (snoc) a where "s = a @ [c]"
  using assms by (metis append_butlast_last_id terminated_def)

lemma split_terminator_terminated:
  assumes "terminated c a"
  shows "split_terminator c (a @ b) = split_terminator c a @ split_terminator c b"
  using assms by (cases rule: terminated_cases) (auto simp: split_terminator_append split_terminator_snoc)

lemma visit_lines_append:
  "visit_lines visit (xs @ ys) n s =
   (case visit_lines visit xs n s of
      Some (Ok s') \<Rightarrow> visit_lines visit ys (n + length xs) s' | r \<Rightarrow> r)"
  by (induction xs arbitrary: n s) (auto split: option.splits outcome.splits)

subsection \<open>A newline is never part of a longer sequence\<close>

lemma cont_byte_10 [simp]: "\<not> cont_byte 10"
  by (simp add: cont_byte_def word_le_nat_alt)

lemma utf8_next_newline:
  "utf8_next a (s @ 10 # t) = (case utf8_next a s of None \<Rightarrow> None | Some (v, r) \<Rightarrow> Some (v, r @ 10 # t))"
proof -
  consider "s = []" | x where "s = [x]" | x y where "s = [x, y]" | x y z r where "s = x # y # z # r"
    by (metis list.exhaust)
  then show ?thesis
  proof cases
    case 1
    then show ?thesis by (auto simp: utf8_next_def split: list.splits)
  next
    case 2
    then show ?thesis by (auto simp: utf8_next_def split: list.splits)
  next
    case 3
    then show ?thesis by (auto simp: utf8_next_def)
  next
    case 4
    then show ?thesis by (auto simp: utf8_next_def)
  qed
qed

lemma utf8_decode_newline:
  "utf8_decode (s @ 10 # t) =
   (case utf8_decode s of None \<Rightarrow> None
    | Some x \<Rightarrow> map_option (\<lambda>y. x @ 10 # y) (utf8_decode t))"
proof (induction s rule: utf8_decode.induct)
  case 1
  then show ?case by (simp add: utf8_next_def)
next
  case (2 a bs)
  show ?case
  proof (cases "utf8_next a bs")
    case None
    then show ?thesis by (simp add: utf8_next_newline)
  next
    case (Some p)
    obtain v r where p: "p = (v, r)" by (cases p)
    have "utf8_decode (r @ 10 # t) = (case utf8_decode r of None \<Rightarrow> None
      | Some x \<Rightarrow> map_option (\<lambda>y. x @ 10 # y) (utf8_decode t))" using 2 Some p by blast
    then show ?thesis
      using Some p by (cases "utf8_decode r") (simp_all add: utf8_next_newline option.map_comp comp_def)
  qed
qed

subsection \<open>The completed part of the buffer\<close>

lemma complete_len_le [simp]: "complete_len b \<le> length b"
  by (simp add: complete_len_def)

lemma complete_prefix: "terminated 10 (take (complete_len b) b)"
proof -
  let ?t = "takeWhile (\<lambda>x. x \<noteq> 10) (rev b)" and ?d = "dropWhile (\<lambda>x. x \<noteq> 10) (rev b)"
  have b: "b = rev ?d @ rev ?t" by (metis rev_append rev_rev_ident takeWhile_dropWhile_id)
  have "length b = length ?d + length ?t" by (metis b length_append length_rev)
  then have "take (complete_len b) b = rev ?d"
    using arg_cong [OF b, of "take (complete_len b)"] by (simp add: complete_len_def)
  then show ?thesis
    using hd_dropWhile [of "\<lambda>x. x \<noteq> 10" "rev b"] by (auto simp: terminated_def last_rev)
qed

text \<open>Decoding and splitting commute with cutting the text after a newline.\<close>

lemma utf8_decode_terminated:
  assumes "terminated 10 a"
  shows "utf8_decode (a @ b) =
    (case utf8_decode a of None \<Rightarrow> None | Some x \<Rightarrow> map_option ((@) x) (utf8_decode b))"
  using assms
proof (cases rule: terminated_cases)
  case Nil
  then show ?thesis by (cases "utf8_decode b") simp_all
next
  case (snoc c)
  then show ?thesis
    by (cases "utf8_decode b") (simp_all add: utf8_decode_newline [of c b] utf8_decode_newline [of c "[]"] split: option.splits)
qed

lemma utf8_decode_terminated_text:
  assumes "terminated 10 a" "utf8_decode a = Some x"
  shows "terminated 10 x"
  using assms
proof (cases rule: terminated_cases)
  case (snoc c)
  then show ?thesis
    using assms(2) utf8_decode_newline [of c "[]"] by (auto simp: terminated_def split: option.splits)
qed (use assms in \<open>simp add: terminated_def\<close>)

subsection \<open>The lines visited do not depend on the reads\<close>

text \<open>What the callback sees of a file, if it is all read at once.\<close>

definition visit_text ::
  "(nat list \<Rightarrow> nat \<Rightarrow> 's \<Rightarrow> (firehol_parse_error, 's) outcome option) \<Rightarrow> nat list \<Rightarrow> nat \<Rightarrow> nat \<Rightarrow> 's \<Rightarrow>
   (firehol_parse_error, nat \<times> 's) outcome option" where
  "visit_text visit chars line_number n s =
     (case visit_lines visit (split_terminator 10 chars) line_number s of
        Some (Ok s') \<Rightarrow> Some (Ok (n, s')) | Some (Err e) \<Rightarrow> Some (Err e)
      | Some Fault \<Rightarrow> Some Fault | None \<Rightarrow> None)"

text \<open>One read, with the buffer in the state after its growth.\<close>

lemma visit_read:
  fixes buf got rest :: bytes
  defines "fin \<equiv> (if got = [] then length buf else complete_len (buf @ got))"
  assumes "got = [] \<Longrightarrow> rest = []"
  shows "case utf8_decode (buf @ got @ rest) of
      None \<Rightarrow> utf8_decode (take fin (buf @ got)) = None \<or>
        got \<noteq> [] \<and> utf8_decode (drop fin (buf @ got) @ rest) = None
    | Some chars \<Rightarrow> \<exists>x y. utf8_decode (take fin (buf @ got)) = Some x \<and>
        utf8_decode (drop fin (buf @ got) @ rest) = Some y \<and> chars = x @ y \<and>
        split_terminator 10 chars = split_terminator 10 x @ split_terminator 10 y \<and> (got = [] \<longrightarrow> y = [])"
proof (cases "got = []")
  case True
  then show ?thesis using assms by (auto simp: fin_def split: option.splits)
next
  case False
  let ?a = "take fin (buf @ got)" and ?b = "drop fin (buf @ got) @ rest"
  have t: "terminated 10 ?a" using False complete_prefix [of "buf @ got"] by (simp add: fin_def)
  have e: "buf @ got @ rest = ?a @ ?b" by (metis append.assoc append_take_drop_id)
  show ?thesis
    unfolding e utf8_decode_terminated [OF t] using False utf8_decode_terminated_text [OF t]
    by (auto simp: split_terminator_terminated split: option.splits)
qed

lemma visit_loop_Readable:
  assumes "cap' = (if length buf = cap then cap * 2 else cap)"
    and "got = take (min (Suc k) (cap' - length buf)) rest"
    and "fin = (if got = [] then length buf else complete_len (buf @ got))"
  shows "visit_loop path visit (Readable k # evs) rest cap buf ln n s =
      (case utf8_decode (take fin (buf @ got)) of None \<Rightarrow> Some (Err (Io path Io_InvalidData))
       | Some x \<Rightarrow> (case visit_lines visit (split_terminator 10 x) ln s of
            Some (Ok s') \<Rightarrow> if got = [] then Some (Ok (n, s'))
              else visit_loop path visit evs (drop (length got) rest) cap' (drop fin (buf @ got))
                     (ln + length (split_terminator 10 x)) (n + length got) s'
          | Some (Err e) \<Rightarrow> Some (Err e) | Some Fault \<Rightarrow> Some Fault | None \<Rightarrow> None))"
proof (cases "got = []")
  case True
  then have "fin = length (buf @ got)" using assms(3) by simp
  with True show ?thesis
    unfolding visit_loop.simps(2) read_event.case Let_def assms(1,2) [symmetric]
    by (simp cong: option.case_cong outcome.case_cong)
next
  case False
  then have "fin = complete_len (buf @ got)" using assms(3) by simp
  with False show ?thesis
    unfolding visit_loop.simps(2) read_event.case Let_def assms(1,2) [symmetric]
    by (simp cong: option.case_cong outcome.case_cong)
qed

lemma visit_loop_result:
  assumes "visit_loop path visit evs rest cap buf ln n s = Some r" "Failing \<notin> set evs"
    and "length buf \<le> cap" "0 < cap"
  shows "case utf8_decode (buf @ rest) of
      Some chars \<Rightarrow> Some r = visit_text visit chars ln (n + length rest) s
    | None \<Rightarrow> \<forall>x. r \<noteq> Ok x"
  using assms
proof (induction evs arbitrary: rest cap buf ln n s)
  case (Cons ev evs)
  define cap' where "cap' = (if length buf = cap then cap * 2 else cap)"
  have room: "length buf < cap'" using Cons.prems(3,4) by (auto simp: cap'_def)
  show ?case
  proof (cases ev)
    case Interrupted
    then show ?thesis
      using Cons.IH [of rest cap' buf ln n s] Cons.prems room by (simp add: Let_def flip: cap'_def)
  next
    case Failing
    then show ?thesis using Cons.prems by simp
  next
    case (Readable k)
    define got where "got = take (min (Suc k) (cap' - length buf)) rest"
    define fin where "fin = (if got = [] then length buf else complete_len (buf @ got))"
    let ?rest = "drop (length got) rest"
    have split: "rest = got @ ?rest" by (simp add: got_def min_def)
    have got: "got = [] \<Longrightarrow> ?rest = []" using room by (simp add: got_def min_def split: if_splits)
    have cap: "length (buf @ got) \<le> cap'" using room by (auto simp: got_def min_def)
    have all: "buf @ rest = buf @ got @ ?rest" using split by simp
    note step = visit_read [of got ?rest buf, OF got, folded fin_def all]
    note loop = visit_loop_Readable [OF cap'_def got_def fin_def, of path visit evs ln n s, folded Readable]
    have IH: "case utf8_decode (drop fin (buf @ got) @ ?rest) of
        Some chars \<Rightarrow> Some r = visit_text visit chars ln' (n + length got + length ?rest) s'
      | None \<Rightarrow> \<forall>x. r \<noteq> Ok x"
      if "visit_loop path visit evs ?rest cap' (drop fin (buf @ got)) ln' (n + length got) s' = Some r"
      for ln' s'
      using Cons.IH [OF that] Cons.prems(2) room cap by simp
    have n: "n + length got + length ?rest = n + length rest" using split by (metis add.assoc length_append)
    show ?thesis
    proof (cases "utf8_decode (take fin (buf @ got))")
      case None
      then show ?thesis using Cons.prems(1) step unfolding loop by (auto split: option.splits)
    next
      case (Some x)
      show ?thesis
      proof (cases "\<exists>s'. visit_lines visit (split_terminator 10 x) ln s = Some (Ok s') \<and> got \<noteq> []")
        case True
        then obtain s' where s': "visit_lines visit (split_terminator 10 x) ln s = Some (Ok s')" "got \<noteq> []"
          by blast
        note IH [of "ln + length (split_terminator 10 x)" s', unfolded n]
        then show ?thesis
          using Cons.prems(1) step Some s' unfolding loop
          by (auto simp: visit_text_def visit_lines_append split: option.splits)
      next
        case False
        have "rest = []" if "got = []" using got [OF that] split that by simp
        then show ?thesis
          using Cons.prems(1) step Some False unfolding loop
          by (auto simp: visit_text_def visit_lines_append split: option.splits outcome.splits)
      qed
    qed
  qed
qed simp

text \<open>Enough read events end the loop: every one reads a byte until the file is exhausted.\<close>

definition reads :: "read_event list \<Rightarrow> nat" where
  "reads evs = length (filter (\<lambda>ev. ev \<noteq> Interrupted) evs)"

lemma visit_lines_total:
  "(\<And>l m t. visit l m t \<noteq> None) \<Longrightarrow> visit_lines visit ls ln s \<noteq> None"
  by (induction ls arbitrary: ln s) (auto split: option.splits outcome.splits)

lemma visit_loop_total:
  assumes "\<And>l m t. visit l m t \<noteq> None" "length rest < reads evs" "length buf \<le> cap" "0 < cap"
  shows "visit_loop path visit evs rest cap buf ln n s \<noteq> None"
  using assms(2-4)
proof (induction evs arbitrary: rest cap buf ln n s)
  case (Cons ev evs)
  define cap' where "cap' = (if length buf = cap then cap * 2 else cap)"
  have room: "length buf < cap'" using Cons.prems by (auto simp: cap'_def)
  show ?case
  proof (cases ev)
    case Interrupted
    then show ?thesis
      using Cons.IH [of rest buf cap' ln n s] Cons.prems room
      by (simp add: reads_def Let_def flip: cap'_def)
  next
    case (Readable k)
    define got where "got = take (min (Suc k) (cap' - length buf)) rest"
    have shorter: "length (drop (length got) rest) < reads evs" if "got \<noteq> []"
      using that Cons.prems(1) Readable room by (auto simp: reads_def got_def min_def split: if_splits)
    have cap: "length (drop fin (buf @ got)) \<le> cap'" for fin using room by (auto simp: got_def min_def)
    note IH = Cons.IH [OF shorter cap]
    define fin where "fin = (if got = [] then length buf else complete_len (buf @ got))"
    show ?thesis
    proof (cases "utf8_decode (take fin (buf @ got))")
      case None
      then show ?thesis unfolding Readable visit_loop_Readable [OF cap'_def got_def fin_def] by simp
    next
      case (Some x)
      obtain r where "visit_lines visit (split_terminator 10 x) ln s = Some r"
        using visit_lines_total [of visit, OF assms(1)] by blast
      moreover have "0 < cap'" using room by simp
      ultimately show ?thesis
        unfolding Readable visit_loop_Readable [OF cap'_def got_def fin_def]
        using Some IH by (cases r) simp_all
    qed
  qed simp
qed (simp add: reads_def)



end
