(* ===== verification/Ip_Net.thy ===== *)
theory Ip_Net
  imports Rust_Std Bpf_Map
begin

section \<open>The interface of the network library\<close>

text \<open>
  CIDR networks come from the third-party crate \<open>ipnet\<close>, which is not part of the
  repository.  \<open>net_ops\<close> is the record of the operations the program calls on one address
  family, \<open>ipnet_lib\<close> the two families with the family-agnostic parser.  The locale
  \<open>ip_network\<close> states the documented behaviour over \<open>w\<close>-byte addresses: accessors of a
  constructed network, the network address with its host bits cleared, and membership as
  agreement on the prefix.  It is interpreted on pairs of prefix length and address.
\<close>

record 'n net_ops =
  net_from_str :: "string \<Rightarrow> 'n option"
  net_new :: "bytes \<Rightarrow> u8 \<Rightarrow> 'n option"
  net_ip :: "'n \<Rightarrow> bytes"
  net_prefix_len :: "'n \<Rightarrow> u8"
  net_network :: "'n \<Rightarrow> bytes"
  net_contains :: "'n \<Rightarrow> bytes \<Rightarrow> bool"

text \<open>\<open>IpNet::from_str\<close> yields an IPv4 network (\<open>Inl\<close>) or an IPv6 network (\<open>Inr\<close>).\<close>

record 'n ipnet_lib =
  lib_v4 :: "'n net_ops"
  lib_v6 :: "'n net_ops"
  lib_from_str :: "string \<Rightarrow> ('n + 'n) option"

abbreviation plen :: "'n net_ops \<Rightarrow> 'n \<Rightarrow> nat" where
  "plen N n \<equiv> unat (net_prefix_len N n)"

locale ip_network =
  fixes N :: "'n net_ops" and w :: nat and valid :: "'n \<Rightarrow> bool"
  assumes width: "8 * w < 256"
    and new_ok: "length a = w \<Longrightarrow> unat p \<le> 8 * w \<Longrightarrow>
      \<exists>n. net_new N a p = Some n \<and> valid n \<and> net_ip N n = a \<and> net_prefix_len N n = p"
    and valid_len: "valid n \<Longrightarrow> length (net_ip N n) = w \<and> plen N n \<le> 8 * w"
    and network: "valid n \<Longrightarrow> net_network N n = net_addr (plen N n) (net_ip N n)"
    and contains: "valid n \<Longrightarrow> length a = w \<Longrightarrow>
      net_contains N n a \<longleftrightarrow> same_prefix (plen N n) (net_ip N n) a"
    and from_str_valid: "net_from_str N s = Some n \<Longrightarrow> valid n"
begin

lemma length_network [simp]: "valid n \<Longrightarrow> length (net_network N n) = w"
  using valid_len by (simp add: network)

lemma network_key: "valid n \<Longrightarrow> net_key w (ucast (net_prefix_len N n), net_network N n)"
  using valid_len [of n] width net_addr_canonical [of "plen N n" "net_network N n"]
  by (auto simp: net_key_def network unat_ucast_up)

lemma contains_network:
  "valid n \<Longrightarrow> length a = w \<Longrightarrow> net_contains N n a \<longleftrightarrow> same_prefix (plen N n) (net_network N n) a"
proof -
  assume n: "valid n" "length a = w"
  have "same_prefix (plen N n) (net_network N n) (net_ip N n)"
    using net_addr_same_prefix [of "plen N n" "net_ip N n"] valid_len [OF n(1)] by (simp add: network n(1))
  then show ?thesis
    unfolding contains [OF n] by (blast intro: same_prefix_sym same_prefix_trans)
qed

end

text \<open>The laws of the two families and of the common parser.\<close>

locale ipnet =
  v4: ip_network "lib_v4 L" 4 valid4 + v6: ip_network "lib_v6 L" 16 valid6
  for L :: "'n ipnet_lib" and valid4 valid6 +
  assumes from_str_v4: "lib_from_str L s = Some (Inl n) \<Longrightarrow> valid4 n"
    and from_str_v6: "lib_from_str L s = Some (Inr n) \<Longrightarrow> valid6 n"

subsection \<open>Networks as pairs satisfy the laws\<close>

fun read_decimal :: "nat \<Rightarrow> string \<Rightarrow> nat option" where
  "read_decimal acc [] = Some acc"
| "read_decimal acc (c # cs) =
     (case to_digit 10 c of None \<Rightarrow> None | Some d \<Rightarrow> read_decimal (acc * 10 + d) cs)"

definition pair_valid :: "nat \<Rightarrow> u8 \<times> bytes \<Rightarrow> bool" where
  "pair_valid w n \<longleftrightarrow> length (snd n) = w \<and> unat (fst n) \<le> 8 * w"

definition pair_parse :: "string \<Rightarrow> (u8 \<times> bytes) option" where
  "pair_parse s =
     (case split_once CHR ''/'' s of None \<Rightarrow> None
      | Some (a, p) \<Rightarrow>
          (case (parse_ip a, if p = [] \<or> length p > 3 then None else read_decimal 0 p) of
             (Some ip, Some k) \<Rightarrow> if k \<le> 8 * length (octets ip) then Some (of_nat k, octets ip) else None
           | _ \<Rightarrow> None))"

definition pair_ops :: "nat \<Rightarrow> (u8 \<times> bytes) net_ops" where
  "pair_ops w = \<lparr>
     net_from_str = (\<lambda>s. case pair_parse s of None \<Rightarrow> None
                         | Some n \<Rightarrow> if pair_valid w n then Some n else None),
     net_new = (\<lambda>a p. if length a = w \<and> unat p \<le> 8 * w then Some (p, a) else None),
     net_ip = snd, net_prefix_len = fst,
     net_network = (\<lambda>n. net_addr (unat (fst n)) (snd n)),
     net_contains = (\<lambda>n a. net_addr (unat (fst n)) (snd n) = net_addr (unat (fst n)) a)\<rparr>"

definition pair_lib :: "(u8 \<times> bytes) ipnet_lib" where
  "pair_lib = \<lparr>lib_v4 = pair_ops 4, lib_v6 = pair_ops 16,
     lib_from_str = (\<lambda>s. case pair_parse s of None \<Rightarrow> None
       | Some n \<Rightarrow> if pair_valid 4 n then Some (Inl n) else if pair_valid 16 n then Some (Inr n) else None)\<rparr>"

lemma pair_network: "8 * w < 256 \<Longrightarrow> ip_network (pair_ops w) w (pair_valid w)"
  by unfold_locales
    (auto simp: pair_ops_def pair_valid_def same_prefix_net_addr split: option.splits if_splits)

interpretation pairs: ipnet pair_lib "pair_valid 4" "pair_valid 16"
  unfolding ipnet_def ipnet_axioms_def
  using pair_network [of 4] pair_network [of 16]
  by (auto simp: pair_lib_def split: option.splits if_splits)

end
