(* ===== verification/Cidr_Exclude.thy ===== *)
theory Cidr_Exclude
  imports Ip_Net
begin

section \<open>Punching one address out of a network\<close>

text \<open>
  Models \<open>exclude_v4_from_cidr\<close> and \<open>exclude_v6_from_cidr\<close> of \<open>src/firehol/parser.rs\<close>.  The loop
  halves the current network and keeps the half without the address; it is written with
  fuel (\<open>None\<close> when it runs out), an \<open>unwrap\<close> of a failed construction is \<open>Fault\<close>.  The fuel,
  one round per possible prefix length plus one, is shown to suffice.
\<close>

fun exclude_loop ::
  "nat \<Rightarrow> 'n net_ops \<Rightarrow> nat \<Rightarrow> (bytes \<Rightarrow> bytes) \<Rightarrow> (bytes \<Rightarrow> nat \<Rightarrow> bytes) \<Rightarrow> 'n \<Rightarrow> bytes \<Rightarrow> 'n list \<Rightarrow>
   (unit, 'n list) outcome option" where
  "exclude_loop 0 N limit base0 base1 current target_ip result = None"
| "exclude_loop (Suc fuel) N limit base0 base1 current target_ip result =
     (if plen N current < limit
      then let p = net_prefix_len N current; base = net_network N current in
        (case (net_new N (base0 base) (p + 1), net_new N (base1 base (unat p)) (p + 1)) of
           (Some half0, Some half1) \<Rightarrow>
             if net_contains N half0 target_ip
             then exclude_loop fuel N limit base0 base1 half0 target_ip (result @ [half1])
             else exclude_loop fuel N limit base0 base1 half1 target_ip (result @ [half0])
         | _ \<Rightarrow> Some Fault)
      else Some (Ok result))"

text \<open>The two half networks' addresses, computed on the integer value of the address.\<close>

definition v4_base0 :: "bytes \<Rightarrow> bytes" where
  "v4_base0 b = to_be 4 (from_be b :: u32)"

definition v4_base1 :: "bytes \<Rightarrow> nat \<Rightarrow> bytes" where
  "v4_base1 b p = to_be 4 ((from_be b :: u32) OR push_bit (31 - p) 1)"

definition v6_base0 :: "bytes \<Rightarrow> bytes" where
  "v6_base0 b = to_be 16 (from_be b :: u128)"

definition v6_base1 :: "bytes \<Rightarrow> nat \<Rightarrow> bytes" where
  "v6_base1 b p = to_be 16 ((from_be b :: u128) OR push_bit (127 - p) 1)"

definition exclude_v4_from_cidr ::
  "'n net_ops \<Rightarrow> 'n \<Rightarrow> bytes \<Rightarrow> (unit, 'n list) outcome option" where
  "exclude_v4_from_cidr N net target_ip =
     (if \<not> net_contains N net target_ip then Some (Ok [net])
      else exclude_loop 33 N 32 v4_base0 v4_base1 net target_ip [])"

definition exclude_v6_from_cidr ::
  "'n net_ops \<Rightarrow> 'n \<Rightarrow> bytes \<Rightarrow> (unit, 'n list) outcome option" where
  "exclude_v6_from_cidr N net target_ip =
     (if \<not> net_contains N net target_ip then Some (Ok [net])
      else exclude_loop 129 N 128 v6_base0 v6_base1 net target_ip [])"

subsection \<open>Halves\<close>

lemma word_or_bit_addr:
  fixes b :: bytes
  assumes "8 * length b = LENGTH('a::len)" "p < LENGTH('a)" "i < LENGTH('a)"
  shows "addr_bit (to_be (length b) ((from_be b :: 'a word) OR push_bit (LENGTH('a) - 1 - p) 1)) i \<longleftrightarrow>
    addr_bit b i \<or> i = p"
proof -
  let ?w = "(from_be b :: 'a word) OR push_bit (LENGTH('a) - 1 - p) 1"
  let ?c = "to_be (length b) ?w"
  have "from_be ?c = ?w" using assms(1) by (simp add: from_be_to_be take_bit_word_eq_self)
  then have "addr_bit ?c i \<longleftrightarrow> bit ?w (LENGTH('a) - 1 - i)"
    using bit_from_be_addr [where 'a = 'a, of ?c i] assms by simp
  also have "\<dots> \<longleftrightarrow> addr_bit b i \<or> LENGTH('a) - 1 - i = LENGTH('a) - 1 - p"
    using bit_from_be_addr [where 'a = 'a, of b i] assms
    by (auto simp: bit_simps simp flip: push_bit_of_1)
  also have "LENGTH('a) - 1 - i = LENGTH('a) - 1 - p \<longleftrightarrow> i = p" using assms by auto
  finally show ?thesis .
qed

text \<open>What the loop needs of the two base functions.\<close>

definition halves :: "nat \<Rightarrow> (bytes \<Rightarrow> bytes) \<Rightarrow> (bytes \<Rightarrow> nat \<Rightarrow> bytes) \<Rightarrow> bool" where
  "halves w base0 base1 \<longleftrightarrow> (\<forall>b p. length b = w \<and> p < 8 * w \<longrightarrow> base0 b = b \<and> length (base1 b p) = w \<and>
     (\<forall>i < 8 * w. addr_bit (base1 b p) i \<longleftrightarrow> addr_bit b i \<or> i = p))"

lemma v4_halves: "halves 4 v4_base0 v4_base1"
  unfolding halves_def v4_base0_def v4_base1_def
proof (intro allI impI)
  fix b :: bytes and p :: nat
  assume b: "length b = 4 \<and> p < 8 * 4"
  have "addr_bit (to_be 4 ((from_be b :: u32) OR push_bit (31 - p) 1)) i \<longleftrightarrow> addr_bit b i \<or> i = p"
    if "i < 32" for i
    using word_or_bit_addr [where 'a = 32, of b p i] b that by simp
  moreover have "to_be 4 (from_be b :: u32) = b"
    using to_be_from_be [where 'a = 32, of b] b by simp
  ultimately show "to_be 4 (from_be b :: u32) = b \<and>
      length (to_be 4 ((from_be b :: u32) OR push_bit (31 - p) 1)) = 4 \<and>
      (\<forall>i < 8 * 4. addr_bit (to_be 4 ((from_be b :: u32) OR push_bit (31 - p) 1)) i \<longleftrightarrow>
         addr_bit b i \<or> i = p)"
    by simp
qed

lemma v6_halves: "halves 16 v6_base0 v6_base1"
  unfolding halves_def v6_base0_def v6_base1_def
proof (intro allI impI)
  fix b :: bytes and p :: nat
  assume b: "length b = 16 \<and> p < 8 * 16"
  have "addr_bit (to_be 16 ((from_be b :: u128) OR push_bit (127 - p) 1)) i \<longleftrightarrow> addr_bit b i \<or> i = p"
    if "i < 128" for i
    using word_or_bit_addr [where 'a = 128, of b p i] b that by simp
  moreover have "to_be 16 (from_be b :: u128) = b"
    using to_be_from_be [where 'a = 128, of b] b by simp
  ultimately show "to_be 16 (from_be b :: u128) = b \<and>
      length (to_be 16 ((from_be b :: u128) OR push_bit (127 - p) 1)) = 16 \<and>
      (\<forall>i < 8 * 16. addr_bit (to_be 16 ((from_be b :: u128) OR push_bit (127 - p) 1)) i \<longleftrightarrow>
         addr_bit b i \<or> i = p)"
    by simp
qed

subsection \<open>Correctness of the loop\<close>

text \<open>No address is in two networks of the list.\<close>

definition disjoint_nets :: "'n net_ops \<Rightarrow> nat \<Rightarrow> 'n list \<Rightarrow> bool" where
  "disjoint_nets N w rs \<longleftrightarrow>
     sorted_wrt (\<lambda>s t. \<forall>b. length b = w \<longrightarrow> \<not> (net_contains N s b \<and> net_contains N t b)) rs"

context ip_network
begin

lemma halves_of:
  assumes "halves w base0 base1" "valid n" "plen N n < 8 * w"
  shows "\<exists>n0 n1.
    net_new N (base0 (net_network N n)) (net_prefix_len N n + 1) = Some n0 \<and>
    net_new N (base1 (net_network N n) (plen N n)) (net_prefix_len N n + 1) = Some n1 \<and>
    valid n0 \<and> valid n1 \<and> plen N n0 = plen N n + 1 \<and> plen N n1 = plen N n + 1 \<and>
    net_network N n0 = net_ip N n0 \<and> net_network N n1 = net_ip N n1 \<and>
    (\<forall>b. length b = w \<longrightarrow> (net_contains N n0 b \<longleftrightarrow> net_contains N n b \<and> \<not> addr_bit b (plen N n))) \<and>
    (\<forall>b. length b = w \<longrightarrow> (net_contains N n1 b \<longleftrightarrow> net_contains N n b \<and> addr_bit b (plen N n)))"
proof -
  let ?p = "plen N n" and ?b = "net_network N n"
  have p1: "unat (net_prefix_len N n + 1) = ?p + 1"
    using unat_plus_if' [of "net_prefix_len N n" 1] assms(3) width by simp
  have lb: "length ?b = w" using assms(2) by simp
  have h: "base0 ?b = ?b" "length (base1 ?b ?p) = w"
    "\<And>i. i < 8 * w \<Longrightarrow> addr_bit (base1 ?b ?p) i \<longleftrightarrow> addr_bit ?b i \<or> i = ?p"
    using assms(1,3) lb by (auto simp: halves_def)
  have base: "addr_bit ?b i \<longleftrightarrow> i < ?p \<and> addr_bit (net_ip N n) i" if "i < 8 * w" for i
    using that valid_len [OF assms(2)] by (simp add: network [OF assms(2)] addr_bit_net_addr)
  have le: "unat (net_prefix_len N n + 1) \<le> 8 * w" using p1 assms(3) by simp
  obtain n0 where n0: "net_new N (base0 ?b) (net_prefix_len N n + 1) = Some n0" "valid n0"
    "net_ip N n0 = ?b" "net_prefix_len N n0 = net_prefix_len N n + 1"
    using new_ok [of "base0 ?b", OF _ le] h(1) lb by auto
  obtain n1 where n1: "net_new N (base1 ?b ?p) (net_prefix_len N n + 1) = Some n1" "valid n1"
    "net_ip N n1 = base1 ?b ?p" "net_prefix_len N n1 = net_prefix_len N n + 1"
    using new_ok [OF h(2) le] by auto
  have cont: "net_contains N n b \<longleftrightarrow> same_prefix ?p ?b b" if "length b = w" for b
    using contains_network [OF assms(2) that] .
  have c0: "net_contains N n0 b \<longleftrightarrow> net_contains N n b \<and> \<not> addr_bit b ?p" if "length b = w" for b
    using contains [OF n0(2) that] base [OF assms(3)] cont [OF that] n0(3,4) p1
    by (simp add: same_prefix_Suc)
  have "same_prefix ?p (base1 ?b ?p) b \<longleftrightarrow> same_prefix ?p ?b b" for b
    using h(3) assms(3) by (auto simp: same_prefix_def)
  then have c1: "net_contains N n1 b \<longleftrightarrow> net_contains N n b \<and> addr_bit b ?p" if "length b = w" for b
    using contains [OF n1(2) that] h(3) [OF assms(3)] cont [OF that] n1(3,4) p1
    by (simp add: same_prefix_Suc)
  have "net_addr (?p + 1) ?b = ?b" "net_addr (?p + 1) (base1 ?b ?p) = base1 ?b ?p"
    using base h(2,3) lb by (auto simp: net_addr_canonical)
  then have "net_network N n0 = net_ip N n0" "net_network N n1 = net_ip N n1"
    using n0 n1 p1 by (simp_all add: network)
  then show ?thesis
    using n0 n1 p1 c0 c1 by simp
qed

lemma exclude_loop_spec:
  assumes "halves w base0 base1" "valid n" "length ip = w" "net_contains N n ip"
    and "8 * w - plen N n < fuel"
  shows "\<exists>rs. exclude_loop fuel N (8 * w) base0 base1 n ip acc = Some (Ok (acc @ rs)) \<and>
    length rs = 8 * w - plen N n \<and>
    (\<forall>s \<in> set rs. valid s \<and> net_network N s = net_ip N s \<and> plen N n < plen N s) \<and>
    (\<forall>b. length b = w \<longrightarrow> ((\<exists>s \<in> set rs. net_contains N s b) \<longleftrightarrow> net_contains N n b \<and> b \<noteq> ip)) \<and>
    disjoint_nets N w rs"
  using assms
proof (induction fuel arbitrary: n acc)
  case 0
  then show ?case by simp
next
  case (Suc fuel)
  show ?case
  proof (cases "plen N n < 8 * w")
    case False
    then have full: "plen N n = 8 * w" using valid_len [OF Suc.prems(2)] by simp
    have "b = ip" if "length b = w" "net_contains N n b" for b
    proof -
      have "same_prefix (8 * w) (net_ip N n) b" "same_prefix (8 * w) (net_ip N n) ip"
        using that Suc.prems contains [OF Suc.prems(2)] full by simp_all
      then show ?thesis
        using same_prefix_full [of "net_ip N n" b "8 * w"] same_prefix_full [of "net_ip N n" ip "8 * w"]
          valid_len [OF Suc.prems(2)] that(1) Suc.prems(3) by simp
    qed
    then show ?thesis using False full by (auto simp: disjoint_nets_def)
  next
    case True
    obtain n0 n1 where n01:
      "net_new N (base0 (net_network N n)) (net_prefix_len N n + 1) = Some n0"
      "net_new N (base1 (net_network N n) (plen N n)) (net_prefix_len N n + 1) = Some n1"
      "valid n0" "valid n1" "plen N n0 = plen N n + 1" "plen N n1 = plen N n + 1"
      "net_network N n0 = net_ip N n0" "net_network N n1 = net_ip N n1"
      and c0: "\<forall>b. length b = w \<longrightarrow> (net_contains N n0 b \<longleftrightarrow> net_contains N n b \<and> \<not> addr_bit b (plen N n))"
      and c1: "\<forall>b. length b = w \<longrightarrow> (net_contains N n1 b \<longleftrightarrow> net_contains N n b \<and> addr_bit b (plen N n))"
      using halves_of [OF Suc.prems(1,2) True] by blast
    define nx other where "nx = (if net_contains N n0 ip then n0 else n1)"
      and "other = (if net_contains N n0 ip then n1 else n0)"
    have nx: "valid nx" "net_contains N nx ip" "plen N nx = plen N n + 1"
      and other: "valid other" "net_network N other = net_ip N other" "plen N other = plen N n + 1"
        "\<not> net_contains N other ip"
      using n01 c0 c1 Suc.prems(3,4) by (auto simp: nx_def other_def)
    have split: "net_contains N n b \<longleftrightarrow> net_contains N nx b \<or> net_contains N other b"
      "\<not> (net_contains N nx b \<and> net_contains N other b)" if "length b = w" for b
      using c0 c1 that by (auto simp: nx_def other_def)
    have "8 * w - plen N nx < fuel" using nx(3) Suc.prems(5) True by simp
    from Suc.IH [OF Suc.prems(1) nx(1) Suc.prems(3) nx(2) this, of "acc @ [other]"] obtain rs where
      rs: "exclude_loop fuel N (8 * w) base0 base1 nx ip (acc @ [other]) = Some (Ok ((acc @ [other]) @ rs))"
      "length rs = 8 * w - plen N nx"
      "\<forall>s \<in> set rs. valid s \<and> net_network N s = net_ip N s \<and> plen N nx < plen N s"
      "\<forall>b. length b = w \<longrightarrow> ((\<exists>s \<in> set rs. net_contains N s b) \<longleftrightarrow> net_contains N nx b \<and> b \<noteq> ip)"
      "disjoint_nets N w rs" by blast
    have "exclude_loop (Suc fuel) N (8 * w) base0 base1 n ip acc = Some (Ok (acc @ other # rs))"
      using True n01 rs(1) by (simp add: Let_def nx_def other_def split: if_splits)
    moreover have "disjoint_nets N w (other # rs)"
      using rs(4,5) split(2) by (auto simp: disjoint_nets_def)
    moreover have "(\<exists>s \<in> set (other # rs). net_contains N s b) \<longleftrightarrow> net_contains N n b \<and> b \<noteq> ip"
      if "length b = w" for b
      using rs(4) split [OF that] other(4) that by auto
    ultimately show ?thesis
      using rs(2,3) nx(3) other True by (intro exI [of _ "other # rs"]) auto
  qed
qed

text \<open>What excluding an address yields, for networks that contain the address or do not.\<close>

lemma exclude_loop_result:
  assumes "halves w base0 base1" "valid n" "length ip = w"
  shows "\<exists>rs. (if \<not> net_contains N n ip then Some (Ok [n])
      else exclude_loop (8 * w + 1) N (8 * w) base0 base1 n ip []) = Some (Ok rs) \<and>
    (\<forall>s \<in> set rs. valid s \<and> plen N n \<le> plen N s) \<and>
    (\<forall>b. length b = w \<longrightarrow> ((\<exists>s \<in> set rs. net_contains N s b) \<longleftrightarrow> net_contains N n b \<and> b \<noteq> ip)) \<and>
    disjoint_nets N w rs \<and>
    length rs = (if net_contains N n ip then 8 * w - plen N n else 1)"
proof (cases "net_contains N n ip")
  case False
  then show ?thesis using assms by (auto simp: disjoint_nets_def)
next
  case True
  have "8 * w - plen N n < 8 * w + 1" by simp
  from exclude_loop_spec [OF assms(1-3) True this, of "[]"] True show ?thesis
    by (auto simp del: exclude_loop.simps intro: less_imp_le)
qed

end

lemma exclude_v4_result:
  assumes "ip_network N 4 valid" "valid n" "length ip = 4"
  shows "\<exists>rs. exclude_v4_from_cidr N n ip = Some (Ok rs) \<and>
    (\<forall>s \<in> set rs. valid s \<and> plen N n \<le> plen N s) \<and>
    (\<forall>b. length b = 4 \<longrightarrow> ((\<exists>s \<in> set rs. net_contains N s b) \<longleftrightarrow> net_contains N n b \<and> b \<noteq> ip)) \<and>
    disjoint_nets N 4 rs \<and>
    length rs = (if net_contains N n ip then 32 - plen N n else 1)"
proof -
  have n: "8 * 4 = (32 :: nat)" by simp
  have eq: "exclude_v4_from_cidr N n ip = (if \<not> net_contains N n ip then Some (Ok [n])
      else exclude_loop (8 * 4 + 1) N (8 * 4) v4_base0 v4_base1 n ip [])"
    by (simp add: exclude_v4_from_cidr_def del: exclude_loop.simps)
  show ?thesis
    using ip_network.exclude_loop_result [OF assms(1) v4_halves assms(2,3)] unfolding eq n .
qed

lemma exclude_v6_result:
  assumes "ip_network N 16 valid" "valid n" "length ip = 16"
  shows "\<exists>rs. exclude_v6_from_cidr N n ip = Some (Ok rs) \<and>
    (\<forall>s \<in> set rs. valid s \<and> plen N n \<le> plen N s) \<and>
    (\<forall>b. length b = 16 \<longrightarrow> ((\<exists>s \<in> set rs. net_contains N s b) \<longleftrightarrow> net_contains N n b \<and> b \<noteq> ip)) \<and>
    disjoint_nets N 16 rs \<and>
    length rs = (if net_contains N n ip then 128 - plen N n else 1)"
proof -
  have n: "8 * 16 = (128 :: nat)" by simp
  have eq: "exclude_v6_from_cidr N n ip = (if \<not> net_contains N n ip then Some (Ok [n])
      else exclude_loop (8 * 16 + 1) N (8 * 16) v6_base0 v6_base1 n ip [])"
    by (simp add: exclude_v6_from_cidr_def del: exclude_loop.simps)
  show ?thesis
    using ip_network.exclude_loop_result [OF assms(1) v6_halves assms(2,3)] unfolding eq n .
qed

text \<open>
  \<^bold>\<open>C25\<close>. Excluding an address is exact.  Over any network library with the documented
  behaviour, \<open>exclude_v4_from_cidr\<close> and \<open>exclude_v6_from_cidr\<close> return without panic and within
  their fuel; the returned networks are pairwise disjoint and together cover exactly the
  addresses of the network other than the excluded one, with one network per bit below
  the prefix when the address is inside.
\<close>

theorem exclude_exact:
  assumes "ip_network N4 4 valid4" "valid4 net4" "length ip4 = 4"
    and "ip_network N6 16 valid6" "valid6 net6" "length ip6 = 16"
  shows "(\<exists>rs. exclude_v4_from_cidr N4 net4 ip4 = Some (Ok rs) \<and> disjoint_nets N4 4 rs \<and>
      length rs = (if net_contains N4 net4 ip4 then 32 - plen N4 net4 else 1) \<and>
      (\<forall>b. length b = 4 \<longrightarrow>
         ((\<exists>s \<in> set rs. net_contains N4 s b) \<longleftrightarrow> net_contains N4 net4 b \<and> b \<noteq> ip4))) \<and>
    (\<exists>rs. exclude_v6_from_cidr N6 net6 ip6 = Some (Ok rs) \<and> disjoint_nets N6 16 rs \<and>
      length rs = (if net_contains N6 net6 ip6 then 128 - plen N6 net6 else 1) \<and>
      (\<forall>b. length b = 16 \<longrightarrow>
         ((\<exists>s \<in> set rs. net_contains N6 s b) \<longleftrightarrow> net_contains N6 net6 b \<and> b \<noteq> ip6)))"
  using exclude_v4_result [OF assms(1-3)] exclude_v6_result [OF assms(4-6)] by auto

theorem exclude_exact_witness:
  "\<exists>rs. exclude_v4_from_cidr (pair_ops 4) (8, [10, 0, 0, 0]) [10, 1, 2, 3] = Some (Ok rs) \<and> length rs = 24"
proof -
  have v: "pair_valid 4 (8, [10, 0, 0, 0])" "pair_valid 16 (0, replicate 16 0)"
    by (simp_all add: pair_valid_def)
  have c: "net_contains (pair_ops 4) (8, [10, 0, 0, 0]) [10, 1, 2, 3]"
    by (simp add: pair_ops_def net_addr_def upt_rec)
  show ?thesis
    using exclude_exact [OF pair_network v(1) _ pair_network v(2), of "[10, 1, 2, 3]" "replicate 16 0"] c
    by (auto simp: pair_ops_def)
qed

end
