(* ===== verification/Firehol_Parser.thy ===== *)
theory Firehol_Parser
  imports Cidr_Exclude Firehol_Entry Firehol_Metadata
begin

section \<open>Parsing FireHOL lists\<close>

text \<open>
  Models the token and file parsers of \<open>src/firehol/parser.rs\<close>: the hand-written IPv4 scanner,
  IP and CIDR tokens with and without ignored addresses, and the line loop of one file with
  its metadata comments.  The network library and the calendar are parameters.  Tokens and
  lines are strings; the reading of a file into lines is the parameter of the loop.
\<close>

subsection \<open>The IPv4 scanner\<close>

text \<open>The digit loop: value, digit count and rest; \<open>None\<close> on more than three digits or above 255.\<close>

fun scan_octet :: "string \<Rightarrow> nat \<Rightarrow> nat \<Rightarrow> (nat \<times> nat \<times> string) option" where
  "scan_octet [] v n = Some (v, n, [])"
| "scan_octet (c # cs) v n =
     (case to_digit 10 c of
        None \<Rightarrow> Some (v, n, c # cs)
      | Some d \<Rightarrow> if n + 1 > 3 \<or> v * 10 + d > 255 then None else scan_octet cs (v * 10 + d) (n + 1))"

text \<open>The octets with \<open>left\<close> more to come after this one: octets, whether one is zero-padded, rest.\<close>

fun scan_octets :: "nat \<Rightarrow> string \<Rightarrow> (bytes \<times> bool \<times> string) option" where
  "scan_octets left s =
     (case scan_octet s 0 0 of
        None \<Rightarrow> None
      | Some (v, n, rest) \<Rightarrow>
          if n = 0 then None
          else let padded = (n > 1 \<and> take 1 s = ''0'') in
            (case left of
               0 \<Rightarrow> Some ([of_nat v], padded, rest)
             | Suc l \<Rightarrow>
                 (case rest of
                    [] \<Rightarrow> None
                  | c # cs \<Rightarrow>
                      if c \<noteq> CHR ''.'' then None
                      else (case scan_octets l cs of None \<Rightarrow> None
                            | Some (os, pd, rest) \<Rightarrow> Some (of_nat v # os, padded \<or> pd, rest)))))"

declare scan_octets.simps [simp del]

fun scan_prefix :: "nat \<Rightarrow> string \<Rightarrow> nat option" where
  "scan_prefix acc [] = Some acc"
| "scan_prefix acc (c # cs) =
     (case to_digit 10 c of None \<Rightarrow> None | Some d \<Rightarrow> scan_prefix (acc * 10 + d) cs)"

definition parse_ipv4_target :: "string \<Rightarrow> firehol_ip_target option" where
  "parse_ipv4_target s =
     (case scan_octets 3 s of
        None \<Rightarrow> None
      | Some (os, padded, rest) \<Rightarrow>
          if rest = [] then (if \<not> padded then Some (ExactV4 os) else None)
          else if hd rest \<noteq> CHR ''/'' then None
          else let suffix = tl rest in
            if suffix = [] \<or> length suffix > 2 then None
            else case scan_prefix 0 suffix of
              None \<Rightarrow> None
            | Some prefix \<Rightarrow>
                if prefix = 32 then Some (ExactV4 os)
                else if prefix \<le> 31
                then let mask = (if 32 - prefix < 32 then push_bit (32 - prefix) (- 1) else 0) :: u32 in
                  Some (CidrV4 (of_nat prefix) (to_be 4 (from_be os AND mask)))
                else None)"

subsection \<open>Tokens\<close>

definition parse_ipv6_str :: "string \<Rightarrow> bytes option" where
  "parse_ipv6_str s =
     (case read_ipv6 s of Some (a, rest) \<Rightarrow> if rest = [] then Some a else None | None \<Rightarrow> None)"

definition parse_ip_or_cidr :: "'n ipnet_lib \<Rightarrow> string \<Rightarrow> firehol_ip_target option" where
  "parse_ip_or_cidr L token =
     (if CHR '':'' \<notin> set token then parse_ipv4_target token
      else if CHR ''/'' \<in> set token
      then (case net_from_str (lib_v6 L) token of
              None \<Rightarrow> None
            | Some net \<Rightarrow>
                if net_prefix_len (lib_v6 L) net = 128 then Some (ExactV6 (net_ip (lib_v6 L) net))
                else Some (CidrV6 (ucast (net_prefix_len (lib_v6 L) net)) (net_network (lib_v6 L) net)))
      else (case parse_ipv6_str token of None \<Rightarrow> None | Some a \<Rightarrow> Some (ExactV6 a)))"

text \<open>\<open>for sub in subnets { next.extend(exclude(sub, ip)) }\<close>\<close>

fun exclude_each ::
  "('n \<Rightarrow> bytes \<Rightarrow> (unit, 'n list) outcome option) \<Rightarrow> 'n list \<Rightarrow> bytes \<Rightarrow> (unit, 'n list) outcome option" where
  "exclude_each excl [] ip = Some (Ok [])"
| "exclude_each excl (sub # subs) ip =
     (case excl sub ip of
        Some (Ok rs) \<Rightarrow>
          (case exclude_each excl subs ip of Some (Ok rest) \<Rightarrow> Some (Ok (rs @ rest)) | r \<Rightarrow> r)
      | r \<Rightarrow> r)"

text \<open>
  The loop over the ignored addresses of one family: an ignored address of the original
  network is punched out of every current subnet.
\<close>

fun exclude_ignored ::
  "('n \<Rightarrow> bytes \<Rightarrow> (unit, 'n list) outcome option) \<Rightarrow> ('n \<Rightarrow> bytes \<Rightarrow> bool) \<Rightarrow> 'n \<Rightarrow> bytes list \<Rightarrow>
   bool \<Rightarrow> 'n list \<Rightarrow> (unit, bool \<times> 'n list) outcome option" where
  "exclude_ignored excl contains net [] matched subnets = Some (Ok (matched, subnets))"
| "exclude_ignored excl contains net (ip # ips) matched subnets =
     (if contains net ip
      then (case exclude_each excl subnets ip of
              Some (Ok subnets') \<Rightarrow> exclude_ignored excl contains net ips True subnets'
            | Some (Err e) \<Rightarrow> Some (Err e) | Some Fault \<Rightarrow> Some Fault | None \<Rightarrow> None)
      else exclude_ignored excl contains net ips matched subnets)"

definition v4_ignored :: "ip_addr list \<Rightarrow> bytes list" where
  "v4_ignored ips = List.map_filter (\<lambda>ip. case ip of V4 a \<Rightarrow> Some a | V6 _ \<Rightarrow> None) ips"

definition v6_ignored :: "ip_addr list \<Rightarrow> bytes list" where
  "v6_ignored ips = List.map_filter (\<lambda>ip. case ip of V6 a \<Rightarrow> Some a | V4 _ \<Rightarrow> None) ips"

definition net_target_v4 :: "'n net_ops \<Rightarrow> 'n \<Rightarrow> firehol_ip_target" where
  "net_target_v4 N sub =
     (if net_prefix_len N sub = 32 then ExactV4 (net_ip N sub)
      else CidrV4 (ucast (net_prefix_len N sub)) (net_network N sub))"

definition net_target_v6 :: "'n net_ops \<Rightarrow> 'n \<Rightarrow> firehol_ip_target" where
  "net_target_v6 N sub =
     (if net_prefix_len N sub = 128 then ExactV6 (net_ip N sub)
      else CidrV6 (ucast (net_prefix_len N sub)) (net_network N sub))"

definition ignore_v4_net :: "'n net_ops \<Rightarrow> ip_addr list \<Rightarrow> 'n \<Rightarrow> (unit, firehol_ip_target list) outcome option" where
  "ignore_v4_net N ignore_ips net =
     (let p = net_prefix_len N net in
      if p > 32 then Some (Err ())
      else if p = 32 then
        (if V4 (net_ip N net) \<in> set ignore_ips then Some (Ok []) else Some (Ok [ExactV4 (net_ip N net)]))
      else case exclude_ignored (exclude_v4_from_cidr N) (net_contains N) net (v4_ignored ignore_ips) False [net] of
        Some (Ok (matched_any, subnets)) \<Rightarrow>
          if \<not> matched_any then Some (Ok [CidrV4 (ucast p) (net_network N net)])
          else Some (Ok (map (net_target_v4 N) subnets))
      | Some (Err e) \<Rightarrow> Some (Err e) | Some Fault \<Rightarrow> Some Fault | None \<Rightarrow> None)"

definition ignore_v6_net :: "'n net_ops \<Rightarrow> ip_addr list \<Rightarrow> 'n \<Rightarrow> (unit, firehol_ip_target list) outcome option" where
  "ignore_v6_net N ignore_ips net =
     (let p = net_prefix_len N net in
      if p > 128 then Some (Err ())
      else if p = 128 then
        (if V6 (net_ip N net) \<in> set ignore_ips then Some (Ok []) else Some (Ok [ExactV6 (net_ip N net)]))
      else case exclude_ignored (exclude_v6_from_cidr N) (net_contains N) net (v6_ignored ignore_ips) False [net] of
        Some (Ok (matched_any, subnets)) \<Rightarrow>
          if \<not> matched_any then Some (Ok [CidrV6 (ucast p) (net_network N net)])
          else Some (Ok (map (net_target_v6 N) subnets))
      | Some (Err e) \<Rightarrow> Some (Err e) | Some Fault \<Rightarrow> Some Fault | None \<Rightarrow> None)"

text \<open>\<open>Err ()\<close> is the function's \<open>None\<close> (an invalid token); the outer \<open>None\<close> is lack of fuel.\<close>

definition parse_ip_or_cidr_with_ignore ::
  "'n ipnet_lib \<Rightarrow> string \<Rightarrow> ip_addr list \<Rightarrow> (unit, firehol_ip_target list) outcome option" where
  "parse_ip_or_cidr_with_ignore L token ignore_ips =
     (if CHR ''/'' \<in> set token
      then (case lib_from_str L token of
              Some (Inl net) \<Rightarrow> ignore_v4_net (lib_v4 L) ignore_ips net
            | Some (Inr net) \<Rightarrow> ignore_v6_net (lib_v6 L) ignore_ips net
            | None \<Rightarrow> Some (Err ()))
      else (case parse_ip token of
              Some addr \<Rightarrow>
                if addr \<in> set ignore_ips then Some (Ok [])
                else (case addr of V4 a \<Rightarrow> Some (Ok [ExactV4 a]) | V6 a \<Rightarrow> Some (Ok [ExactV6 a]))
            | None \<Rightarrow> Some (Err ())))"

text \<open>\<open>FIREHOL_IGNORE_IP\<close>: a comma-separated list; invalid items are skipped.\<close>

definition parse_ignore_ips :: "string \<Rightarrow> ip_addr list" where
  "parse_ignore_ips raw =
     List.map_filter parse_ip (filter (\<lambda>s. s \<noteq> []) (map trim (split_char CHR '','' raw)))"

subsection \<open>The scanner accepts what the standard library accepts\<close>

lemma read_digits_mono: "read_digits 10 m s acc c = Some (v, n, r) \<Longrightarrow> acc \<le> v"
proof (induction s arbitrary: acc c)
  case (Cons x xs)
  show ?case
  proof (cases "to_digit 10 x")
    case None
    then show ?thesis using Cons.prems by simp
  next
    case (Some d)
    then have "acc * 10 + d \<le> v" using Cons by (auto split: if_splits)
    then show ?thesis by simp
  qed
qed auto

lemma scan_octet_read:
  "v \<le> 255 \<Longrightarrow> scan_octet s v n =
   (case read_digits 10 3 s v n of None \<Rightarrow> None
    | Some (v', n', r) \<Rightarrow> if v' > 255 then None else Some (v', n', r))"
proof (induction s arbitrary: v n)
  case (Cons c cs)
  show ?case
  proof (cases "to_digit 10 c")
    case None
    then show ?thesis using Cons.prems by simp
  next
    case (Some d)
    show ?thesis
    proof (cases "n + 1 > 3 \<or> v * 10 + d \<le> 255")
      case True
      then show ?thesis using Some Cons.IH [of "v * 10 + d" "n + 1"] by auto
    next
      case False
      then show ?thesis
        using Some read_digits_mono [of 3 cs "v * 10 + d" "n + 1"]
        by (fastforce split: option.splits)
    qed
  qed
qed simp

lemma read_number_scan:
  "read_number 10 3 False 256 s =
   (case scan_octet s 0 0 of None \<Rightarrow> None
    | Some (v, n, rest) \<Rightarrow> if n = 0 \<or> take 1 s = ''0'' \<and> n > 1 then None else Some (v, rest))"
  by (auto simp: read_number_def scan_octet_read split: option.splits)

lemma read_octets_scan:
  "read_octets i (Suc left) ((if i = 0 then [] else ''.'') @ s) =
   (case scan_octets left s of Some (os, False, rest) \<Rightarrow> Some (os, rest) | _ \<Rightarrow> None)"
proof (induction left arbitrary: i s)
  case 0
  have "read_sep CHR ''.'' i (read_number 10 3 False 256) ((if i = 0 then [] else ''.'') @ s) =
      read_number 10 3 False 256 s" by (simp add: read_sep_def)
  then show ?case
    by (auto simp: read_number_scan scan_octets.simps [of 0] Let_def split: option.splits prod.splits bool.splits)
next
  case (Suc left)
  have sep: "read_sep CHR ''.'' i (read_number 10 3 False 256) ((if i = 0 then [] else ''.'') @ s) =
      read_number 10 3 False 256 s" by (simp add: read_sep_def)
  show ?case
  proof (cases "scan_octet s 0 0")
    case None
    then show ?thesis using sep by (simp add: read_number_scan scan_octets.simps [of "Suc left"])
  next
    case (Some r)
    obtain v n rest where r: "r = (v, n, rest)" by (cases r)
    show ?thesis
    proof (cases rest)
      case Nil
      then show ?thesis
        using sep Some r by (simp add: read_number_scan scan_octets.simps [of "Suc left"] read_sep_def Let_def)
    next
      case (Cons c cs)
      have IH: "read_octets (i + 1) (Suc left) (''.'' @ cs) =
          (case scan_octets left cs of Some (os, False, rest) \<Rightarrow> Some (os, rest) | _ \<Rightarrow> None)"
        using Suc.IH [of "i + 1" cs] by simp
      show ?thesis
      proof (cases "c = CHR ''.''")
        case True
        then show ?thesis
          using sep Some r Cons IH
          by (auto simp del: read_octets.simps(2) simp: read_octets.simps(2) [of i] read_number_scan
              scan_octets.simps [of "Suc left"] Let_def split: option.splits bool.splits)
      next
        case False
        then show ?thesis
          using sep Some r Cons
          by (simp add: read_number_scan scan_octets.simps [of "Suc left"] read_sep_def Let_def)
      qed
    qed
  qed
qed

lemma read_ipv4_scan:
  "read_ipv4 s = (case scan_octets 3 s of Some (os, False, rest) \<Rightarrow> Some (os, rest) | _ \<Rightarrow> None)"
  using read_octets_scan [of 0 3 s] by (simp add: read_ipv4_def eval_nat_numeral)

lemma read_digits_suffix:
  "read_digits 10 m s acc c = Some (v, n, rest) \<Longrightarrow> \<exists>pre. s = pre @ rest \<and> CHR '':'' \<notin> set pre"
proof (induction s arbitrary: acc c)
  case (Cons x xs)
  show ?case
  proof (cases "to_digit 10 x")
    case None
    then show ?thesis using Cons.prems by (intro exI [of _ "[]"]) auto
  next
    case (Some d)
    then obtain pre where "xs = pre @ rest" "CHR '':'' \<notin> set pre"
      using Cons by (auto split: if_splits)
    moreover have "x \<noteq> CHR '':''" using Some by (auto simp: to_digit_def)
    ultimately show ?thesis by (intro exI [of _ "x # pre"]) simp
  qed
qed auto

lemma read_octets_suffix:
  "read_octets i n s = Some (bs, rest) \<Longrightarrow> \<exists>pre. s = pre @ rest \<and> CHR '':'' \<notin> set pre"
proof (induction i n s arbitrary: bs rest rule: read_octets.induct)
  case (2 i n s)
  obtain v r1 bs' where o: "read_sep CHR ''.'' i (read_number 10 3 False 256) s = Some (v, r1)"
    "read_octets (i + 1) n r1 = Some (bs', rest)"
    using "2.prems" by (auto split: option.splits prod.splits)
  obtain pre2 where p2: "r1 = pre2 @ rest" "CHR '':'' \<notin> set pre2"
    using "2.IH" [OF o(1) refl o(2)] by blast
  have num: "\<exists>pre. t = pre @ r1 \<and> CHR '':'' \<notin> set pre"
    if "read_number 10 3 False 256 t = Some (v, r1)" for t
    using that read_digits_suffix [of 3 t 0 0] by (auto simp: read_number_def split: option.splits if_splits)
  have "\<exists>pre. s = pre @ r1 \<and> CHR '':'' \<notin> set pre"
  proof (cases "i = 0")
    case True
    then show ?thesis using num o(1) by (simp add: read_sep_def)
  next
    case False
    then obtain cs where "s = CHR ''.'' # cs" "read_number 10 3 False 256 cs = Some (v, r1)"
      using o(1) by (auto simp: read_sep_def split: list.splits if_splits)
    then obtain pre where "cs = pre @ r1" "CHR '':'' \<notin> set pre" using num by blast
    then show ?thesis using \<open>s = CHR ''.'' # cs\<close> by (intro exI [of _ "CHR ''.'' # pre"]) simp
  qed
  then show ?case using p2 by auto
qed auto

lemma read_ipv4_suffix: "read_ipv4 s = Some (a, rest) \<Longrightarrow> \<exists>pre. s = pre @ rest \<and> CHR '':'' \<notin> set pre"
  unfolding read_ipv4_def by (rule read_octets_suffix)

text \<open>An IPv6 read that starts with a full IPv4 address fails.\<close>

lemma read_ipv6_after_ipv4: "read_ipv4 s = Some (a, rest) \<Longrightarrow> read_ipv6 s = None"
proof -
  assume "read_ipv4 s = Some (a, rest)"
  then have "read_groups 0 8 s = ([from_be (take 2 a), from_be (drop 2 a)], True, rest)"
    by (simp add: eval_nat_numeral(2) [of "num.Bit0 (num.Bit0 num.One)"] read_sep_def numeral_eq_Suc)
  then show ?thesis by (simp add: read_ipv6_def)
qed

lemma scan_octet_set: "scan_octet s v n = Some (v', n', rest) \<Longrightarrow> set rest \<subseteq> set s"
  by (induction s v n rule: scan_octet.induct) (auto split: option.splits if_splits)

lemma scan_octets_set: "scan_octets left s = Some (os, p, rest) \<Longrightarrow> set rest \<subseteq> set s"
proof (induction left s arbitrary: os p rest rule: scan_octets.induct)
  case (1 left s)
  obtain v n r where sc: "scan_octet s 0 0 = Some (v, n, r)" "n \<noteq> 0"
    using "1.prems" by (subst (asm) scan_octets.simps) (auto split: option.splits if_splits)
  have sub: "set r \<subseteq> set s" using scan_octet_set [OF sc(1)] .
  show ?case
  proof (cases left)
    case 0
    then show ?thesis
      using "1.prems" sc sub by (subst (asm) scan_octets.simps) (auto simp: Let_def)
  next
    case (Suc l)
    then obtain cs os' p' where "r = CHR ''.'' # cs" "scan_octets l cs = Some (os', p', rest)"
      using "1.prems" sc
      by (subst (asm) scan_octets.simps) (auto simp: Let_def split: list.splits if_splits option.splits)
    then show ?thesis
      using "1.IH" [OF sc(1) refl refl sc(2) refl Suc] sub by fastforce
  qed
qed

lemma parse_ipv4_target_std:
  assumes "CHR ''/'' \<notin> set token"
  shows "parse_ipv4_target token =
    (case parse_ip token of Some (V4 a) \<Rightarrow> Some (ExactV4 a) | _ \<Rightarrow> None)"
proof (cases "scan_octets 3 token")
  case None
  then show ?thesis
    by (auto simp: parse_ipv4_target_def parse_ip_def read_ipv4_scan split: option.splits)
next
  case (Some r)
  obtain os p rest where r: "r = (os, p, rest)" by (cases r)
  have "rest \<noteq> [] \<Longrightarrow> hd rest \<noteq> CHR ''/''"
    using scan_octets_set [OF Some [unfolded r]] assms by (cases rest) auto
  then show ?thesis
    using Some r
    by (cases p) (auto simp: parse_ipv4_target_def parse_ip_def read_ipv4_scan split: option.splits)
qed

lemma read_digits_set: "read_digits r m s acc c = Some (v, n, rest) \<Longrightarrow> set rest \<subseteq> set s"
  by (induction r m s acc c rule: read_digits.induct) (auto split: option.splits if_splits)

lemma read_groups_no_colon:
  "CHR '':'' \<notin> set s \<Longrightarrow> i > 0 \<Longrightarrow> read_groups i n s = ([], False, s)"
  by (cases n) (auto simp: read_sep_def split: list.splits)

lemma read_ipv6_colon: "CHR '':'' \<notin> set s \<Longrightarrow> read_ipv6 s = None"
proof (cases "read_ipv4 s")
  case (Some r)
  then show ?thesis using read_ipv6_after_ipv4 by (cases r) auto
next
  case None
  assume colon: "CHR '':'' \<notin> set s"
  have g: "read_groups 0 8 s = (case read_number 16 4 True 65536 s of None \<Rightarrow> ([], False, s)
      | Some (g, rest) \<Rightarrow> (let (gs, v4, rest) = read_groups (0 + 1) 7 rest in (of_nat g # gs, v4, rest)))"
    using None read_groups.simps(2) [of 0 7 s] by (simp add: read_sep_def)
  show ?thesis
  proof (cases "read_number 16 4 True 65536 s")
    case None
    then show ?thesis using g colon by (auto simp: read_ipv6_def split: list.splits)
  next
    case (Some r)
    obtain v rest where r: "r = (v, rest)" by (cases r)
    then have "set rest \<subseteq> set s"
      using Some by (auto simp: read_number_def split: option.splits if_splits dest!: read_digits_set)
    then have nc: "CHR '':'' \<notin> set rest" using colon by blast
    then have "read_groups 0 8 s = ([of_nat v], False, rest)"
      using g Some r read_groups_no_colon [of rest "0 + 1" 7] by simp
    then show ?thesis using nc by (auto simp: read_ipv6_def split: list.splits)
  qed
qed

lemma parse_ipv6_token:
  assumes "CHR '':'' \<in> set token"
  shows "parse_ip token = (case parse_ipv6_str token of Some a \<Rightarrow> Some (V6 a) | None \<Rightarrow> None)"
proof (cases "read_ipv4 token")
  case None
  then show ?thesis by (auto simp: parse_ip_def parse_ipv6_str_def split: option.splits)
next
  case (Some r)
  obtain a rest where r: "r = (a, rest)" by (cases r)
  have "rest \<noteq> []" using read_ipv4_suffix [OF Some [unfolded r]] assms by auto
  then show ?thesis
    using Some r read_ipv6_after_ipv4 [OF Some [unfolded r]] by (simp add: parse_ip_def parse_ipv6_str_def)
qed


lemma demo_token: "parse_ip ''192.0.2.7'' = Some (V4 [192, 0, 2, 7])"
  by code_simp


subsection \<open>Printed targets\<close>

lemma scan_prefix_show: "n < 100 \<Longrightarrow> scan_prefix 0 (show_nat n) = Some n"
  by (cases "n < 10") (simp_all add: show_nat_cases)

lemma length_show_nat: "n < 100 \<Longrightarrow> length (show_nat n) \<le> 2 \<and> show_nat n \<noteq> []"
  by (cases "n < 10") (simp_all add: show_nat_cases)

lemma scan_octets_show:
  assumes "length a = 4" "no_digit rest"
  shows "scan_octets 3 (show_ipv4 a @ rest) = Some (a, False, rest)"
proof -
  have "a \<noteq> []" using assms by auto
  then have "read_ipv4 (show_ipv4 a @ rest) = Some (a, rest)"
    using read_octets_show [OF assms(2), of a 0] assms(1) by (simp add: read_ipv4_def)
  then show ?thesis by (auto simp: read_ipv4_scan split: option.splits bool.splits)
qed

lemma parse_ipv4_target_cidr:
  assumes "length a = 4" "p < 100"
  shows "parse_ipv4_target (show_ipv4 a @ ''/'' @ show_nat p) =
    (if p = 32 then Some (ExactV4 a) else if p < 32 then Some (CidrV4 (of_nat p) (net_addr p a)) else None)"
proof -
  have "no_digit (''/'' @ show_nat p)" by (simp add: no_digit_def to_digit_def)
  then have sc: "scan_octets 3 (show_ipv4 a @ ''/'' @ show_nat p) = Some (a, False, ''/'' @ show_nat p)"
    by (rule scan_octets_show [OF assms(1)])
  have m: "to_be 4 ((from_be a :: u32) AND (if 32 - p < 32 then push_bit (32 - p) (- 1) else 0)) = net_addr p a"
    if "p < 32"
    using that assms(1) by (intro to_be_masked) (auto simp: bit_simps)
  show ?thesis
    unfolding parse_ipv4_target_def sc
    using scan_prefix_show [OF assms(2)] length_show_nat [OF assms(2)] m
    by (auto simp: Let_def)
qed

lemma show_nat_no_colon: "CHR '':'' \<notin> set (show_nat n)"
proof (induction "10 :: nat" n rule: show_radix.induct)
  case (1 n)
  have d: "digit_char d \<noteq> CHR '':''" if "d < 10" for d
  proof
    assume "digit_char d = CHR '':''"
    then have "code_point (digit_char d) = (58 :: nat)" by simp
    then show False using of_char_digit [OF that] that by linarith
  qed
  show ?case
  proof (cases "n < 10")
    case True
    then show ?thesis using d [of n] by (simp add: show_nat_cases)
  next
    case False
    then show ?thesis using 1 d [of "n mod 10"] by (subst show_radix.simps) auto
  qed
qed

lemma join_no_char: "(\<And>s. s \<in> set ss \<Longrightarrow> c \<notin> set s) \<Longrightarrow> c \<notin> set sep \<Longrightarrow> c \<notin> set (join sep ss)"
  by (induction sep ss rule: join.induct) auto

lemma show_ipv4_no_colon: "CHR '':'' \<notin> set (show_ipv4 a)"
  unfolding show_ipv4_def by (rule join_no_char) (auto simp: show_nat_no_colon)

text \<open>
  Round trip of printed IPv4 targets: every exact IPv4 target, and every IPv4 network
  with a prefix shorter than 32 whose address is its network address, is read back from
  its printed form.
\<close>

lemma ipv4_target_roundtrip:
  assumes "wf_target t" "canonical_target t" "ip_version t = 4" "is_exact t \<or> target_prefix_len t \<noteq> 32"
  shows "parse_ip_or_cidr L (to_string_repr t) = Some t"
proof (cases t)
  case (ExactV4 a)
  then have "scan_octets 3 (show_ipv4 a) = Some (a, False, [])"
    using scan_octets_show [of a "[]"] assms(1) by (simp add: no_digit_def)
  then show ?thesis
    using ExactV4 show_ipv4_no_colon [of a] by (simp add: parse_ip_or_cidr_def parse_ipv4_target_def)
next
  case (CidrV4 p a)
  have "unat p \<noteq> 32" using assms(4) CidrV4 unat_ucast_small [of p] by (auto simp: word_unat_eq_iff)
  then have p: "unat p < 32" "length a = 4" "net_addr (unat p) a = a"
    using assms(1,2) CidrV4 by simp_all
  have "CHR '':'' \<notin> set (to_string_repr t)"
    using CidrV4 show_ipv4_no_colon [of a] show_nat_no_colon [of "unat p"] by simp
  then show ?thesis
    using CidrV4 parse_ipv4_target_cidr [OF p(2), of "unat p"] p by (simp add: parse_ip_or_cidr_def)
qed (use assms(3) in simp_all)

lemma ipv4_target_roundtrip_example:
  "parse_ip_or_cidr pair_lib (to_string_repr (CidrV4 8 [10, 0, 0, 0])) = Some (CidrV4 8 [10, 0, 0, 0])"
  by (rule ipv4_target_roundtrip) (simp_all add: net_addr_def upt_rec)

subsection \<open>Ignored addresses\<close>

context ip_network
begin

abbreviation in_nets :: "'n list \<Rightarrow> bytes \<Rightarrow> bool" where
  "in_nets ns b \<equiv> (\<exists>n \<in> set ns. net_contains N n b)"

lemma exclude_each_spec:
  assumes excl: "\<And>s. valid s \<Longrightarrow> \<exists>rs. excl s ip = Some (Ok rs) \<and> (\<forall>r \<in> set rs. valid r) \<and>
      (\<forall>b. length b = w \<longrightarrow> (in_nets rs b \<longleftrightarrow> net_contains N s b \<and> b \<noteq> ip))"
    and "\<forall>s \<in> set subs. valid s"
  shows "\<exists>rs. exclude_each excl subs ip = Some (Ok rs) \<and> (\<forall>r \<in> set rs. valid r) \<and>
    (\<forall>b. length b = w \<longrightarrow> (in_nets rs b \<longleftrightarrow> in_nets subs b \<and> b \<noteq> ip))"
  using assms(2)
proof (induction subs)
  case Nil
  then show ?case by simp
next
  case (Cons s subs)
  obtain rs1 where "excl s ip = Some (Ok rs1)" "\<forall>r \<in> set rs1. valid r"
    "\<forall>b. length b = w \<longrightarrow> (in_nets rs1 b \<longleftrightarrow> net_contains N s b \<and> b \<noteq> ip)"
    using excl [of s] Cons.prems by auto
  moreover obtain rs2 where "exclude_each excl subs ip = Some (Ok rs2)" "\<forall>r \<in> set rs2. valid r"
    "\<forall>b. length b = w \<longrightarrow> (in_nets rs2 b \<longleftrightarrow> in_nets subs b \<and> b \<noteq> ip)"
    using Cons by auto
  ultimately show ?case by (intro exI [of _ "rs1 @ rs2"]) (simp add: bex_Un, blast)
qed

lemma exclude_ignored_spec:
  assumes excl: "\<And>s ip. valid s \<Longrightarrow> length ip = w \<Longrightarrow>
      \<exists>rs. excl s ip = Some (Ok rs) \<and> (\<forall>r \<in> set rs. valid r) \<and>
        (\<forall>b. length b = w \<longrightarrow> (in_nets rs b \<longleftrightarrow> net_contains N s b \<and> b \<noteq> ip))"
    and "\<forall>ip \<in> set ips. length ip = w" "\<forall>s \<in> set subs. valid s"
  shows "\<exists>m rs. exclude_ignored excl (net_contains N) net ips matched subs = Some (Ok (m, rs)) \<and>
    (\<forall>r \<in> set rs. valid r) \<and> m = (matched \<or> (\<exists>ip \<in> set ips. net_contains N net ip)) \<and>
    (\<not> m \<longrightarrow> rs = subs) \<and>
    (\<forall>b. length b = w \<longrightarrow> (in_nets rs b \<longleftrightarrow> in_nets subs b \<and> \<not> (b \<in> set ips \<and> net_contains N net b)))"
  using assms(2,3)
proof (induction ips arbitrary: matched subs)
  case Nil
  then show ?case by simp
next
  case (Cons ip ips)
  show ?case
  proof (cases "net_contains N net ip")
    case False
    obtain m rs where
      "exclude_ignored excl (net_contains N) net ips matched subs = Some (Ok (m, rs))"
      "\<forall>r \<in> set rs. valid r" "m = (matched \<or> (\<exists>ip \<in> set ips. net_contains N net ip))" "\<not> m \<longrightarrow> rs = subs"
      "\<forall>b. length b = w \<longrightarrow> (in_nets rs b \<longleftrightarrow> in_nets subs b \<and> \<not> (b \<in> set ips \<and> net_contains N net b))"
      using Cons.IH [of subs matched] Cons.prems by auto
    with False show ?thesis by (intro exI [of _ m] exI [of _ rs]) (simp, blast)
  next
    case True
    have lip: "length ip = w" using Cons.prems(1) by simp
    obtain rs where rs: "exclude_each excl subs ip = Some (Ok rs)" "\<forall>r \<in> set rs. valid r"
      "\<forall>b. length b = w \<longrightarrow> (in_nets rs b \<longleftrightarrow> in_nets subs b \<and> b \<noteq> ip)"
      using exclude_each_spec [where excl = excl, OF excl [OF _ lip] Cons.prems(2)] by blast
    obtain m rs' where
      "exclude_ignored excl (net_contains N) net ips True rs = Some (Ok (m, rs'))"
      "\<forall>r \<in> set rs'. valid r" "m"
      "\<forall>b. length b = w \<longrightarrow> (in_nets rs' b \<longleftrightarrow> in_nets rs b \<and> \<not> (b \<in> set ips \<and> net_contains N net b))"
      using Cons.IH [of rs True] Cons.prems(1) rs(2) by auto
    with True rs show ?thesis by (intro exI [of _ m] exI [of _ rs']) auto
  qed
qed

end

lemma set_v4_ignored: "set (v4_ignored ips) = {a. V4 a \<in> set ips}"
  by (force simp: v4_ignored_def List.map_filter_def split: ip_addr.splits)

lemma set_v6_ignored: "set (v6_ignored ips) = {a. V6 a \<in> set ips}"
  by (force simp: v6_ignored_def List.map_filter_def split: ip_addr.splits)

lemma net_target_v4_covers:
  assumes "ip_network N 4 valid" "valid n" "length b = 4"
  shows "covers (net_target_v4 N n) (V4 b) \<longleftrightarrow> net_contains N n b" "\<not> covers (net_target_v4 N n) (V6 c)"
  using ip_network.contains [OF assms] ip_network.contains_network [OF assms]
    ip_network.valid_len [OF assms(1,2)] assms(3) same_prefix_full [of "net_ip N n" b 32]
  by (auto simp: net_target_v4_def unat_ucast_up)

lemma net_target_v6_covers:
  assumes "ip_network N 16 valid" "valid n" "length b = 16"
  shows "covers (net_target_v6 N n) (V6 b) \<longleftrightarrow> net_contains N n b" "\<not> covers (net_target_v6 N n) (V4 c)"
  using ip_network.contains [OF assms] ip_network.contains_network [OF assms]
    ip_network.valid_len [OF assms(1,2)] assms(3) same_prefix_full [of "net_ip N n" b 128]
  by (auto simp: net_target_v6_def unat_ucast_up)

lemma net_target_v4_wf:
  assumes "ip_network N 4 valid" "valid n"
  shows "(\<forall>c. \<not> covers (net_target_v4 N n) (V6 c)) \<and> wf_target (net_target_v4 N n) \<and> canonical_target (net_target_v4 N n)"
  using ip_network.valid_len [OF assms] ip_network.network [OF assms]
  by (auto simp: net_target_v4_def unat_ucast_up)

lemma ignore_v4_net_spec:
  assumes "ip_network N 4 valid" "valid net" "\<forall>ip \<in> set ips. wf_ip ip"
  shows "\<exists>ts. ignore_v4_net N ips net = Some (Ok ts) \<and>
    (\<forall>b. length b = 4 \<longrightarrow>
       ((\<exists>t \<in> set ts. covers t (V4 b)) \<longleftrightarrow> net_contains N net b \<and> V4 b \<notin> set ips)) \<and>
    (\<forall>t \<in> set ts. (\<forall>c. \<not> covers t (V6 c)) \<and> wf_target t \<and> canonical_target t)"
proof -
  let ?p = "net_prefix_len N net"
  have le: "unat ?p \<le> 32" and l: "length (net_ip N net) = 4"
    using ip_network.valid_len [OF assms(1,2)] by auto
  then have not_gt: "\<not> ?p > 32" by (simp add: word_less_nat_alt)
  have ex: "\<exists>rs. exclude_v4_from_cidr N s ip = Some (Ok rs) \<and> (\<forall>r \<in> set rs. valid r) \<and>
      (\<forall>b. length b = 4 \<longrightarrow> ((\<exists>n \<in> set rs. net_contains N n b) \<longleftrightarrow> net_contains N s b \<and> b \<noteq> ip))"
    if "valid s" "length ip = 4" for s ip
    using exclude_v4_result [OF assms(1) that] by auto
  have ips: "\<forall>ip \<in> set (v4_ignored ips). length ip = 4"
    using assms(3) by (fastforce simp: set_v4_ignored)
  have "\<forall>s \<in> set [net]. valid s" using assms(2) by simp
  note spec = ip_network.exclude_ignored_spec [OF assms(1) ex ips this, of net False]
  from spec obtain m rs where r0:
    "exclude_ignored (exclude_v4_from_cidr N) (net_contains N) net (v4_ignored ips) False [net] = Some (Ok (m, rs))"
    "\<forall>r \<in> set rs. valid r" "m = (False \<or> (\<exists>ip \<in> set (v4_ignored ips). net_contains N net ip))"
    "\<forall>b. length b = 4 \<longrightarrow> ((\<exists>n \<in> set rs. net_contains N n b) \<longleftrightarrow>
       (\<exists>n \<in> set [net]. net_contains N n b) \<and> \<not> (b \<in> set (v4_ignored ips) \<and> net_contains N net b))"
    by blast
  note r = r0 [simplified]
  have exact: "net_contains N net b \<longleftrightarrow> net_ip N net = b" if "?p = 32" "length b = 4" for b
    using ip_network.contains [OF assms(1,2) that(2)] same_prefix_full [of "net_ip N net" b 32] that l by simp
  show ?thesis
  proof (cases "?p = 32")
    case True
    have "ignore_v4_net N ips net =
        Some (Ok (if V4 (net_ip N net) \<in> set ips then [] else [ExactV4 (net_ip N net)]))"
      unfolding ignore_v4_net_def True by simp
    moreover have "net_contains N net b \<longleftrightarrow> net_ip N net = b" if "length b = 4" for b
      using exact [OF True that] .
    ultimately show ?thesis using l by auto
  next
    case False
    note cov = net_target_v4_covers [OF assms(1)]
    have tgt: "net_target_v4 N net = CidrV4 (ucast ?p) (net_network N net)"
      using False by (simp add: net_target_v4_def)
    show ?thesis
    proof (cases m)
      case True
      then have "ignore_v4_net N ips net = Some (Ok (map (net_target_v4 N) rs))"
        using not_gt False r(1) by (simp add: ignore_v4_net_def Let_def)
      moreover have "(\<exists>t \<in> set (map (net_target_v4 N) rs). covers t (V4 b)) \<longleftrightarrow>
          net_contains N net b \<and> V4 b \<notin> set ips" if "length b = 4" for b
        using r(2,4) cov(1) [OF _ that] that by (auto simp: set_v4_ignored)
      moreover have "\<forall>t \<in> set (map (net_target_v4 N) rs). (\<forall>c. \<not> covers t (V6 c)) \<and> wf_target t \<and> canonical_target t"
        using r(2) net_target_v4_wf [OF assms(1)] by auto
      ultimately show ?thesis by blast
    next
      case False
      then have "ignore_v4_net N ips net = Some (Ok [net_target_v4 N net])"
        using not_gt \<open>?p \<noteq> 32\<close> r(1) tgt by (simp add: ignore_v4_net_def Let_def)
      moreover have "(\<exists>t \<in> set [net_target_v4 N net]. covers t (V4 b)) \<longleftrightarrow>
          net_contains N net b \<and> V4 b \<notin> set ips" if "length b = 4" for b
        using r(3) False cov(1) [OF assms(2) that] by (auto simp: set_v4_ignored)
      moreover have "\<forall>t \<in> set [net_target_v4 N net]. (\<forall>c. \<not> covers t (V6 c)) \<and> wf_target t \<and> canonical_target t"
        using net_target_v4_wf [OF assms(1,2)] by auto
      ultimately show ?thesis by blast
    qed
  qed
qed

lemma net_target_v6_wf:
  assumes "ip_network N 16 valid" "valid n"
  shows "(\<forall>c. \<not> covers (net_target_v6 N n) (V4 c)) \<and> wf_target (net_target_v6 N n) \<and> canonical_target (net_target_v6 N n)"
  using ip_network.valid_len [OF assms] ip_network.network [OF assms]
  by (auto simp: net_target_v6_def unat_ucast_up)

lemma ignore_v6_net_spec:
  assumes "ip_network N 16 valid" "valid net" "\<forall>ip \<in> set ips. wf_ip ip"
  shows "\<exists>ts. ignore_v6_net N ips net = Some (Ok ts) \<and>
    (\<forall>b. length b = 16 \<longrightarrow>
       ((\<exists>t \<in> set ts. covers t (V6 b)) \<longleftrightarrow> net_contains N net b \<and> V6 b \<notin> set ips)) \<and>
    (\<forall>t \<in> set ts. (\<forall>c. \<not> covers t (V4 c)) \<and> wf_target t \<and> canonical_target t)"
proof -
  let ?p = "net_prefix_len N net"
  have le: "unat ?p \<le> 128" and l: "length (net_ip N net) = 16"
    using ip_network.valid_len [OF assms(1,2)] by auto
  then have not_gt: "\<not> ?p > 128" by (simp add: word_less_nat_alt)
  have ex: "\<exists>rs. exclude_v6_from_cidr N s ip = Some (Ok rs) \<and> (\<forall>r \<in> set rs. valid r) \<and>
      (\<forall>b. length b = 16 \<longrightarrow> ((\<exists>n \<in> set rs. net_contains N n b) \<longleftrightarrow> net_contains N s b \<and> b \<noteq> ip))"
    if "valid s" "length ip = 16" for s ip
    using exclude_v6_result [OF assms(1) that] by auto
  have ips: "\<forall>ip \<in> set (v6_ignored ips). length ip = 16"
    using assms(3) by (fastforce simp: set_v6_ignored)
  have "\<forall>s \<in> set [net]. valid s" using assms(2) by simp
  note spec = ip_network.exclude_ignored_spec [OF assms(1) ex ips this, of net False]
  from spec obtain m rs where r0:
    "exclude_ignored (exclude_v6_from_cidr N) (net_contains N) net (v6_ignored ips) False [net] = Some (Ok (m, rs))"
    "\<forall>r \<in> set rs. valid r" "m = (False \<or> (\<exists>ip \<in> set (v6_ignored ips). net_contains N net ip))"
    "\<forall>b. length b = 16 \<longrightarrow> ((\<exists>n \<in> set rs. net_contains N n b) \<longleftrightarrow>
       (\<exists>n \<in> set [net]. net_contains N n b) \<and> \<not> (b \<in> set (v6_ignored ips) \<and> net_contains N net b))"
    by blast
  note r = r0 [simplified]
  have exact: "net_contains N net b \<longleftrightarrow> net_ip N net = b" if "?p = 128" "length b = 16" for b
    using ip_network.contains [OF assms(1,2) that(2)] same_prefix_full [of "net_ip N net" b 128] that l by simp
  show ?thesis
  proof (cases "?p = 128")
    case True
    have "ignore_v6_net N ips net =
        Some (Ok (if V6 (net_ip N net) \<in> set ips then [] else [ExactV6 (net_ip N net)]))"
      unfolding ignore_v6_net_def True by simp
    moreover have "net_contains N net b \<longleftrightarrow> net_ip N net = b" if "length b = 16" for b
      using exact [OF True that] .
    ultimately show ?thesis using l by auto
  next
    case False
    note cov = net_target_v6_covers [OF assms(1)]
    have tgt: "net_target_v6 N net = CidrV6 (ucast ?p) (net_network N net)"
      using False by (simp add: net_target_v6_def)
    show ?thesis
    proof (cases m)
      case True
      then have "ignore_v6_net N ips net = Some (Ok (map (net_target_v6 N) rs))"
        using not_gt False r(1) by (simp add: ignore_v6_net_def Let_def)
      moreover have "(\<exists>t \<in> set (map (net_target_v6 N) rs). covers t (V6 b)) \<longleftrightarrow>
          net_contains N net b \<and> V6 b \<notin> set ips" if "length b = 16" for b
        using r(2,4) cov(1) [OF _ that] that by (auto simp: set_v6_ignored)
      moreover have "\<forall>t \<in> set (map (net_target_v6 N) rs). (\<forall>c. \<not> covers t (V4 c)) \<and> wf_target t \<and> canonical_target t"
        using r(2) net_target_v6_wf [OF assms(1)] by auto
      ultimately show ?thesis by blast
    next
      case False
      then have "ignore_v6_net N ips net = Some (Ok [net_target_v6 N net])"
        using not_gt \<open>?p \<noteq> 128\<close> r(1) tgt by (simp add: ignore_v6_net_def Let_def)
      moreover have "(\<exists>t \<in> set [net_target_v6 N net]. covers t (V6 b)) \<longleftrightarrow>
          net_contains N net b \<and> V6 b \<notin> set ips" if "length b = 16" for b
        using r(3) False cov(1) [OF assms(2) that] by (auto simp: set_v6_ignored)
      moreover have "\<forall>t \<in> set [net_target_v6 N net]. (\<forall>c. \<not> covers t (V4 c)) \<and> wf_target t \<and> canonical_target t"
        using net_target_v6_wf [OF assms(1,2)] by auto
      ultimately show ?thesis by blast
    qed
  qed
qed

subsection \<open>What a token denotes\<close>

definition token_covers :: "'n ipnet_lib \<Rightarrow> string \<Rightarrow> ip_addr \<Rightarrow> bool" where
  "token_covers L token ip =
     (if CHR ''/'' \<in> set token
      then (case (lib_from_str L token, ip) of
              (Some (Inl n), V4 a) \<Rightarrow> net_contains (lib_v4 L) n a
            | (Some (Inr n), V6 a) \<Rightarrow> net_contains (lib_v6 L) n a
            | _ \<Rightarrow> False)
      else parse_ip token = Some ip)"

lemma with_ignore_spec:
  assumes "ipnet L valid4 valid6" "\<forall>ip \<in> set ips. wf_ip ip" "wf_ip b"
    and "parse_ip_or_cidr_with_ignore L token ips \<noteq> Some (Err ())"
  shows "\<exists>ts. parse_ip_or_cidr_with_ignore L token ips = Some (Ok ts) \<and>
    ((\<exists>t \<in> set ts. covers t b) \<longleftrightarrow> token_covers L token b \<and> b \<notin> set ips)"
proof -
  have n4: "ip_network (lib_v4 L) 4 valid4" and n6: "ip_network (lib_v6 L) 16 valid6"
    using assms(1) by (simp_all add: ipnet_def)
  show ?thesis
  proof (cases "CHR ''/'' \<in> set token")
    case False
    then obtain addr where a: "parse_ip token = Some addr"
      using assms(4) by (auto simp: parse_ip_or_cidr_with_ignore_def split: option.splits)
    show ?thesis
      using False a by (cases addr; cases b)
        (auto simp: parse_ip_or_cidr_with_ignore_def token_covers_def)
  next
    case True
    then obtain r where r: "lib_from_str L token = Some r"
      using assms(4) by (auto simp: parse_ip_or_cidr_with_ignore_def split: option.splits)
    show ?thesis
    proof (cases r)
      case (Inl n)
      have "valid4 n" using ipnet.from_str_v4 [OF assms(1)] r Inl by simp
      from ignore_v4_net_spec [OF n4 this assms(2)] show ?thesis
        using True r Inl assms(3)
        by (cases b) (auto simp: parse_ip_or_cidr_with_ignore_def token_covers_def)
    next
      case (Inr n)
      have "valid6 n" using ipnet.from_str_v6 [OF assms(1)] r Inr by simp
      from ignore_v6_net_spec [OF n6 this assms(2)] show ?thesis
        using True r Inr assms(3)
        by (cases b) (auto simp: parse_ip_or_cidr_with_ignore_def token_covers_def)
    qed
  qed
qed

lemma with_ignore_wf:
  assumes "ipnet L valid4 valid6" "\<forall>ip \<in> set ips. wf_ip ip"
    and "parse_ip_or_cidr_with_ignore L token ips = Some (Ok ts)" "t \<in> set ts"
  shows "wf_target t \<and> canonical_target t"
proof (cases "CHR ''/'' \<in> set token")
  case False
  then obtain addr where a: "parse_ip token = Some addr"
    using assms(3) by (auto simp: parse_ip_or_cidr_with_ignore_def split: option.splits)
  then have "wf_ip addr" by (rule parse_ip_wf)
  then show ?thesis
    using False a assms(3,4) by (cases addr) (auto simp: parse_ip_or_cidr_with_ignore_def split: if_splits)
next
  case True
  then obtain r where r: "lib_from_str L token = Some r"
    using assms(3) by (auto simp: parse_ip_or_cidr_with_ignore_def split: option.splits)
  have n4: "ip_network (lib_v4 L) 4 valid4" and n6: "ip_network (lib_v6 L) 16 valid6"
    using assms(1) by (simp_all add: ipnet_def)
  show ?thesis
  proof (cases r)
    case (Inl n)
    have "valid4 n" using ipnet.from_str_v4 [OF assms(1)] r Inl by simp
    from ignore_v4_net_spec [OF n4 this assms(2)] show ?thesis
      using True r Inl assms(3,4) by (auto simp: parse_ip_or_cidr_with_ignore_def)
  next
    case (Inr n)
    have "valid6 n" using ipnet.from_str_v6 [OF assms(1)] r Inr by simp
    from ignore_v6_net_spec [OF n6 this assms(2)] show ?thesis
      using True r Inr assms(3,4) by (auto simp: parse_ip_or_cidr_with_ignore_def)
  qed
qed

lemma scan_octets_length: "scan_octets left s = Some (os, pd, rest) \<Longrightarrow> length os = Suc left"
proof (induction left s arbitrary: os pd rest rule: scan_octets.induct)
  case (1 left s)
  obtain v n r where sc: "scan_octet s 0 0 = Some (v, n, r)" "n \<noteq> 0"
    using "1.prems" by (subst (asm) scan_octets.simps) (auto split: option.splits if_splits)
  show ?case
  proof (cases left)
    case 0
    then show ?thesis using "1.prems" sc by (subst (asm) scan_octets.simps) (auto simp: Let_def)
  next
    case (Suc l)
    then obtain cs os' p' where o: "r = CHR ''.'' # cs" "scan_octets l cs = Some (os', p', rest)"
      "os = of_nat v # os'"
      using "1.prems" sc
      by (subst (asm) scan_octets.simps) (auto simp: Let_def split: list.splits if_splits option.splits)
    then show ?thesis using "1.IH" [OF sc(1) refl refl sc(2) refl Suc o(1) _ o(2)] Suc by auto
  qed
qed

text \<open>A parsed token is a well-formed target over its network address.\<close>

lemma parse_ip_or_cidr_wf:
  assumes "ipnet L valid4 valid6" "parse_ip_or_cidr L token = Some t"
  shows "wf_target t \<and> canonical_target t"
proof (cases "CHR '':'' \<in> set token")
  case False
  with assms(2) have p: "parse_ipv4_target token = Some t" by (simp add: parse_ip_or_cidr_def)
  then obtain os pd rest where sc: "scan_octets 3 token = Some (os, pd, rest)"
    by (auto simp: parse_ipv4_target_def split: option.splits)
  have l: "length os = 4" using scan_octets_length [OF sc] by simp
  have m: "to_be 4 ((from_be os :: u32) AND (if 32 - q < 32 then push_bit (32 - q) (- 1) else 0)) = net_addr q os"
    if "q \<le> 31" for q
    using that l by (intro to_be_masked) (auto simp: bit_simps)
  have u: "unat (of_nat q :: u32) = q" if "q \<le> 31" for q
    using that by (simp add: unsigned_of_nat take_bit_nat_eq_self)
  show ?thesis
    using p sc l by (auto simp: parse_ipv4_target_def Let_def m u split: if_splits option.splits)
next
  case True
  have n6: "ip_network (lib_v6 L) 16 valid6" using assms(1) by (simp add: ipnet_def)
  show ?thesis
  proof (cases "CHR ''/'' \<in> set token")
    case slash: True
    then obtain n where n: "net_from_str (lib_v6 L) token = Some n"
      using True assms(2) by (auto simp: parse_ip_or_cidr_def split: option.splits)
    have v: "valid6 n" by (rule ip_network.from_str_valid [OF n6 n])
    show ?thesis
      using ip_network.valid_len [OF n6 v] ip_network.length_network [OF n6 v] ip_network.network [OF n6 v]
        True slash n assms(2)
      by (auto simp: parse_ip_or_cidr_def unat_ucast_up split: if_splits)
  next
    case False
    then show ?thesis
      using True assms(2)
      by (auto simp: parse_ip_or_cidr_def parse_ipv6_str_def dest: length_read_ipv6 split: option.splits if_splits)
  qed
qed

text \<open>
  Ignored addresses are never blocked, and nothing else is lost.  For every valid token
  and every list of ignored addresses, the parser with ignores returns (without panic and
  within its fuel) targets that cover exactly the addresses the token denotes minus the
  ignored ones.
\<close>

lemma ignore_exact:
  assumes "ipnet L valid4 valid6" "\<forall>ip \<in> set ips. wf_ip ip" "wf_ip b"
    and "parse_ip_or_cidr_with_ignore L token ips \<noteq> Some (Err ())"
  shows "\<exists>ts. parse_ip_or_cidr_with_ignore L token ips = Some (Ok ts) \<and>
    ((\<exists>t \<in> set ts. covers t b) \<longleftrightarrow> token_covers L token b \<and> b \<notin> set ips)"
  by (rule with_ignore_spec [OF assms])

lemma ignore_exact_example:
  "\<exists>ts. parse_ip_or_cidr_with_ignore pair_lib ''10.0.0.0/8'' [V4 [10, 1, 2, 3]] = Some (Ok ts) \<and>
     \<not> (\<exists>t \<in> set ts. covers t (V4 [10, 1, 2, 3]))"
proof -
  have l: "lib_from_str pair_lib ''10.0.0.0/8'' = Some (Inl (8, [10, 0, 0, 0]))" by code_simp
  have v: "pair_valid 4 (8, [10, 0, 0, 0])" by (simp add: pair_valid_def)
  have "parse_ip_or_cidr_with_ignore pair_lib ''10.0.0.0/8'' [V4 [10, 1, 2, 3]] \<noteq> Some (Err ())"
    using ignore_v4_net_spec [OF pairs.v4.ip_network_axioms v, of "[V4 [10, 1, 2, 3]]"]
    by (auto simp: parse_ip_or_cidr_with_ignore_def l)
  from ignore_exact [OF pairs.ipnet_axioms _ _ this, of "V4 [10, 1, 2, 3]"] show ?thesis by auto
qed

end
