(* ===== verification/Firehol_File.thy ===== *)
theory Firehol_File
  imports File_Lines Firehol_Parser
begin

section \<open>Parsing one list file\<close>

text \<open>
  Models \<open>parse_single_file\<close> of \<open>src/firehol/parser.rs\<close> with the metadata under construction
  (\<open>ActiveFileMetadata\<close>) and the batches a worker sends (\<open>flush\<close>).  The shared counter of
  metadata identifiers is seen from one file: \<open>ids k\<close> is what its \<open>k\<close>-th \<open>fetch_add\<close> returns,
  so every interleaving with other workers is covered.  \<open>sends k\<close> says whether the \<open>k\<close>-th
  batch still finds a receiver.  Text is restricted to code points up to U+00FF.
\<close>

subsection \<open>State\<close>

definition WORKER_BATCH_SIZE :: nat where
  [fw_consts]: "WORKER_BATCH_SIZE = 32768"

record active_meta =
  am_file_name :: string
  am_category :: firehol_category
  am_source_url :: "string option"
  am_maintainer :: "string option"
  am_maintainer_url :: "string option"
  am_source_file_date :: "string option"
  am_version :: "string option"
  am_update_frequency :: "string option"
  am_current_metadata_id :: u32

definition active_new :: "string \<Rightarrow> u32 \<Rightarrow> active_meta" where
  "active_new file_name initial_id =
     \<lparr>am_file_name = file_name, am_category = Other, am_source_url = None, am_maintainer = None,
      am_maintainer_url = None, am_source_file_date = None, am_version = None,
      am_update_frequency = None, am_current_metadata_id = initial_id\<rparr>"

definition to_metadata :: "active_meta \<Rightarrow> firehol_metadata" where
  "to_metadata a =
     \<lparr>md_id = am_current_metadata_id a, md_category = am_category a, md_source_url = am_source_url a,
      md_maintainer = am_maintainer a, md_maintainer_url = am_maintainer_url a,
      md_source_file_date = am_source_file_date a, md_file_name = am_file_name a,
      md_version = am_version a, md_update_frequency = am_update_frequency a\<rparr>"

text \<open>
  The variables the callback captures: current metadata, whether it was emitted, identifiers
  allocated so far, the worker's pending entries and sent batches, the metadata list.
\<close>

record file_state =
  fs_meta :: active_meta
  fs_emitted :: bool
  fs_allocated :: nat
  fs_entries :: "firehol_entry list"
  fs_sent :: "firehol_entry list list"
  fs_metadata :: "firehol_metadata list"

subsection \<open>Operations\<close>

definition flush :: "(nat \<Rightarrow> bool) \<Rightarrow> file_state \<Rightarrow> (firehol_parse_error, file_state) outcome" where
  "flush sends s =
     (if fs_entries s = [] then Ok s
      else if sends (length (fs_sent s))
      then Ok (s\<lparr>fs_sent := fs_sent s @ [fs_entries s], fs_entries := []\<rparr>)
      else Err (WorkerPanic ''import writer stopped''))"

definition parse_comment :: "chrono \<Rightarrow> (nat \<Rightarrow> u32) \<Rightarrow> string \<Rightarrow> file_state \<Rightarrow> file_state" where
  "parse_comment C ids stripped s =
     (let comment_body = trim stripped in
      case split_once CHR '':'' comment_body of
        None \<Rightarrow> s
      | Some (k, v) \<Rightarrow>
          let key = to_lowercase (trim k); val = trim v; meta = fs_meta s in
          if key = ''category'' then
            let new_cat = parse_category val;
                s = (if new_cat \<noteq> am_category meta \<and> fs_emitted s
                     then s\<lparr>fs_meta := meta\<lparr>am_current_metadata_id := ids (fs_allocated s)\<rparr>,
                            fs_allocated := fs_allocated s + 1, fs_emitted := False\<rparr>
                     else s)
            in s\<lparr>fs_meta := (fs_meta s)\<lparr>am_category := new_cat\<rparr>\<rparr>
          else if key = ''maintainer'' then s\<lparr>fs_meta := meta\<lparr>am_maintainer := Some val\<rparr>\<rparr>
          else if key = ''maintainer url'' then s\<lparr>fs_meta := meta\<lparr>am_maintainer_url := Some val\<rparr>\<rparr>
          else if key = ''list source url'' then s\<lparr>fs_meta := meta\<lparr>am_source_url := Some val\<rparr>\<rparr>
          else if key = ''source file date''
          then s\<lparr>fs_meta := meta\<lparr>am_source_file_date := normalize_firehol_date C val\<rparr>\<rparr>
          else if key = ''version'' then s\<lparr>fs_meta := meta\<lparr>am_version := Some val\<rparr>\<rparr>
          else if key = ''update frequency''
          then s\<lparr>fs_meta := meta\<lparr>am_update_frequency := Some val\<rparr>\<rparr>
          else s)"

text \<open>\<open>ignore_ips.iter().any(|ip| single.contains_ip(ip))\<close>, stopping at the first hit.\<close>

fun any_contains :: "firehol_ip_target \<Rightarrow> ip_addr list \<Rightarrow> (unit, bool) outcome" where
  "any_contains single [] = Ok False"
| "any_contains single (ip # ips) =
     (case contains_ip single ip of
        Ok True \<Rightarrow> Ok True | Ok False \<Rightarrow> any_contains single ips | r \<Rightarrow> r)"

fun push_targets ::
  "(nat \<Rightarrow> bool) \<Rightarrow> u32 \<Rightarrow> u32 \<Rightarrow> firehol_ip_target list \<Rightarrow> file_state \<Rightarrow> (firehol_parse_error, file_state) outcome" where
  "push_targets sends mid line [] s = Ok s"
| "push_targets sends mid line (t # ts) s =
     (let s = s\<lparr>fs_entries := fs_entries s @ [entry_new t 0 mid line]\<rparr> in
      if length (fs_entries s) \<ge> WORKER_BATCH_SIZE
      then (case flush sends s of
              Ok s \<Rightarrow> push_targets sends mid line ts s | r \<Rightarrow> r)
      else push_targets sends mid line ts s)"

definition line_targets ::
  "'n ipnet_lib \<Rightarrow> ip_addr list \<Rightarrow> string \<Rightarrow> (unit, firehol_ip_target list) outcome option" where
  "line_targets L ignore_ips ip_part =
     (case parse_ip_or_cidr L ip_part of
        None \<Rightarrow> Some (Err ())
      | Some single \<Rightarrow>
          (case any_contains single ignore_ips of
             Ok hit \<Rightarrow> if hit then parse_ip_or_cidr_with_ignore L ip_part ignore_ips
                       else Some (Ok [single])
           | Err e \<Rightarrow> Some (Err e) | Fault \<Rightarrow> Some Fault))"

definition emit_metadata :: "file_state \<Rightarrow> file_state" where
  "emit_metadata s =
     (if \<not> fs_emitted s
      then s\<lparr>fs_metadata := fs_metadata s @ [to_metadata (fs_meta s)], fs_emitted := True\<rparr> else s)"

definition parse_file_line ::
  "'n ipnet_lib \<Rightarrow> chrono \<Rightarrow> (nat \<Rightarrow> u32) \<Rightarrow> (nat \<Rightarrow> bool) \<Rightarrow> ip_addr list \<Rightarrow> string \<Rightarrow> nat list \<Rightarrow> nat \<Rightarrow>
   file_state \<Rightarrow> (firehol_parse_error, file_state) outcome option" where
  "parse_file_line L C ids sends ignore_ips path line line_num s =
     (let trimmed = trim (map char_of line) in
      if trimmed = [] then Some (Ok s)
      else case strip_prefix ''#'' trimmed of
        Some stripped \<Rightarrow> Some (Ok (parse_comment C ids stripped s))
      | None \<Rightarrow>
          let ip_part = (case split_once CHR ''#'' trimmed of
                           Some (before_hash, _) \<Rightarrow> trim before_hash | None \<Rightarrow> trimmed) in
          if ip_part = [] then Some (Ok s)
          else let s = emit_metadata s in
            (case line_targets L ignore_ips ip_part of
               Some (Ok targets) \<Rightarrow>
                 Some (push_targets sends (am_current_metadata_id (fs_meta s)) (of_nat line_num) targets s)
             | Some (Err _) \<Rightarrow> Some (Err (InvalidEntry path line_num ip_part))
             | Some Fault \<Rightarrow> Some Fault
             | None \<Rightarrow> None))"

text \<open>
  \<open>file_name\<close> is the last path component when it is valid text.  The worker's pending entries
  and metadata are carried over from the files it parsed before.
\<close>

definition parse_single_file ::
  "'n ipnet_lib \<Rightarrow> chrono \<Rightarrow> (nat \<Rightarrow> u32) \<Rightarrow> (nat \<Rightarrow> bool) \<Rightarrow> string \<Rightarrow> string option \<Rightarrow> bytes option \<Rightarrow>
   read_event list \<Rightarrow> ip_addr list \<Rightarrow> firehol_entry list \<times> firehol_entry list list \<times> firehol_metadata list \<Rightarrow>
   (firehol_parse_error, nat \<times> file_state) outcome option" where
  "parse_single_file L C ids sends path file_name file evs ignore_ips worker =
     (let name = (case file_name of Some n \<Rightarrow> n | None \<Rightarrow> ''unknown'');
          (entries_out, sent, metadata_out) = worker;
          s = \<lparr>fs_meta = active_new name (ids 0), fs_emitted = False, fs_allocated = 1,
               fs_entries = entries_out, fs_sent = sent, fs_metadata = metadata_out\<rparr> in
      case visit_file_lines path file evs (parse_file_line L C ids sends ignore_ips path) s of
        Some (Ok (n, s)) \<Rightarrow>
          Some (Ok (n, if \<not> fs_emitted s
                       then s\<lparr>fs_metadata := fs_metadata s @ [to_metadata (fs_meta s)]\<rparr> else s))
      | r \<Rightarrow> r)"

subsection \<open>What a file says\<close>

text \<open>The reference reading of a file: its rule lines with their numbers and categories.\<close>

datatype file_line = Blank | Comment string | Rule string

definition classify_line :: "string \<Rightarrow> file_line" where
  "classify_line l =
     (let t = trim l in
      if t = [] then Blank
      else if hd t = CHR ''#'' then Comment (tl t)
      else let tok = trim (before_char CHR ''#'' t) in if tok = [] then Blank else Rule tok)"

definition comment_category :: "string \<Rightarrow> firehol_category \<Rightarrow> firehol_category" where
  "comment_category c cat =
     (case split_once CHR '':'' (trim c) of
        Some (k, v) \<Rightarrow> if to_lowercase (trim k) = ''category'' then parse_category (trim v) else cat
      | None \<Rightarrow> cat)"

fun file_records :: "firehol_category \<Rightarrow> nat \<Rightarrow> nat list list \<Rightarrow> (nat \<times> firehol_category \<times> string) list" where
  "file_records cat n [] = []"
| "file_records cat n (l # ls) =
     (case classify_line (map char_of l) of
        Blank \<Rightarrow> file_records cat (n + 1) ls
      | Comment c \<Rightarrow> file_records (comment_category c cat) (n + 1) ls
      | Rule tok \<Rightarrow> (n + 1, cat, tok) # file_records cat (n + 1) ls)"

lemma trim_Nil [simp]: "trim [] = []"
  by (simp add: trim_def trim_start_def trim_end_def)

lemma trim_idem [simp]: "trim (trim s) = trim s"
proof -
  have e: "trim_start (trim_end t) = trim_end t" if "trim_start t = t" for t
  proof (cases t)
    case (Cons x xs)
    then have x: "\<not> is_whitespace x" using that hd_dropWhile [of is_whitespace t]
      by (auto simp: trim_start_def)
    have "dropWhile is_whitespace (rs @ [x]) = dropWhile is_whitespace rs @ [x]" for rs
      using x by (induction rs) simp_all
    then show ?thesis using Cons x by (simp add: trim_start_def trim_end_def)
  qed (simp add: trim_start_def trim_end_def)
  have "trim_start (trim s) = trim s" unfolding trim_def by (rule e) (simp add: trim_start_def)
  then show ?thesis by (simp add: trim_def trim_end_def)
qed

lemma parse_file_line_eq:
  "parse_file_line L C ids sends ign path line n s =
   (case classify_line (map char_of line) of
      Blank \<Rightarrow> Some (Ok s)
    | Comment c \<Rightarrow> Some (Ok (parse_comment C ids c s))
    | Rule tok \<Rightarrow>
        (case line_targets L ign tok of
           Some (Ok ts) \<Rightarrow> Some (push_targets sends (am_current_metadata_id (fs_meta s)) (of_nat n) ts (emit_metadata s))
         | Some (Err _) \<Rightarrow> Some (Err (InvalidEntry path n tok))
         | Some Fault \<Rightarrow> Some Fault | None \<Rightarrow> None))"
proof -
  let ?t = "trim (map char_of line)"
  have s1: "strip_prefix ''#'' ?t = (if ?t \<noteq> [] \<and> hd ?t = CHR ''#'' then Some (tl ?t) else None)"
    by (cases ?t) (auto simp: strip_prefix_def)
  have s2: "(case split_once CHR ''#'' ?t of Some (b, _) \<Rightarrow> trim b | None \<Rightarrow> ?t) = trim (before_char CHR ''#'' ?t)"
  proof (cases "CHR ''#'' \<in> set ?t")
    case True
    then show ?thesis by (simp add: split_once_def before_char_def)
  next
    case False
    then show ?thesis by (simp add: split_once_def before_char_absent)
  qed
  have m: "am_current_metadata_id (fs_meta (emit_metadata s)) = am_current_metadata_id (fs_meta s)"
    by (simp add: emit_metadata_def)
  show ?thesis
    unfolding parse_file_line_def classify_line_def Let_def s1 s2 m by simp
qed

subsection \<open>Progress of the import\<close>

definition all_entries :: "file_state \<Rightarrow> firehol_entry list" where
  "all_entries s = concat (fs_sent s) @ fs_entries s"

text \<open>An entry stems from target \<open>t\<close> of a rule in line \<open>n\<close> of file \<open>name\<close>, under category \<open>c\<close>.\<close>

fun entry_from ::
  "string \<Rightarrow> firehol_metadata list \<Rightarrow> nat \<times> firehol_category \<times> firehol_ip_target \<Rightarrow> firehol_entry \<Rightarrow> bool" where
  "entry_from name M (n, c, t) e \<longleftrightarrow>
     fe_target e = t \<and> fe_line e = of_nat n \<and> fe_rule_id e = 0 \<and>
     (\<exists>m \<in> set M. md_id m = fe_metadata_id e \<and> md_category m = c \<and> md_file_name m = name)"

lemma entry_from_mono: "entry_from name M r e \<Longrightarrow> set M \<subseteq> set M' \<Longrightarrow> entry_from name M' r e"
  by (cases r) auto

definition file_step ::
  "string \<Rightarrow> (nat \<times> firehol_category \<times> firehol_ip_target) list \<Rightarrow> file_state \<Rightarrow> file_state \<Rightarrow> bool" where
  "file_step name T s s' \<longleftrightarrow>
     (\<exists>new bs ms. all_entries s' = all_entries s @ new \<and>
        list_all2 (entry_from name (fs_metadata s')) T new \<and>
        fs_sent s' = fs_sent s @ bs \<and> (\<forall>b \<in> set bs. length b = WORKER_BATCH_SIZE) \<and>
        fs_metadata s' = fs_metadata s @ ms \<and> length (fs_entries s') < WORKER_BATCH_SIZE)"

lemma file_step_trans:
  assumes "file_step name T s s'" "file_step name T' s' s''"
  shows "file_step name (T @ T') s s''"
proof -
  obtain new bs ms where a: "all_entries s' = all_entries s @ new"
      "list_all2 (entry_from name (fs_metadata s')) T new"
      "fs_sent s' = fs_sent s @ bs" "\<forall>b \<in> set bs. length b = WORKER_BATCH_SIZE"
      "fs_metadata s' = fs_metadata s @ ms"
    using assms(1) by (auto simp: file_step_def)
  obtain new' bs' ms' where b: "all_entries s'' = all_entries s' @ new'"
      "list_all2 (entry_from name (fs_metadata s'')) T' new'"
      "fs_sent s'' = fs_sent s' @ bs'" "\<forall>b \<in> set bs'. length b = WORKER_BATCH_SIZE"
      "fs_metadata s'' = fs_metadata s' @ ms'" "length (fs_entries s'') < WORKER_BATCH_SIZE"
    using assms(2) by (auto simp: file_step_def)
  have "list_all2 (entry_from name (fs_metadata s'')) T new"
    using a(2) by (rule list_all2_mono) (auto simp: b(5) intro: entry_from_mono)
  then have "list_all2 (entry_from name (fs_metadata s'')) (T @ T') (new @ new')"
    using b(2) by (rule list_all2_appendI)
  moreover have "\<forall>x \<in> set (bs @ bs'). length x = WORKER_BATCH_SIZE" using a(4) b(4) by auto
  ultimately show ?thesis
    unfolding file_step_def using a(1,3,5) b(1,3,5,6) by (metis append.assoc)
qed

text \<open>
  The metadata of a file: one record per allocated identifier, in order; the last one
  describes the current category once it is emitted.
\<close>

definition file_inv :: "string \<Rightarrow> (nat \<Rightarrow> u32) \<Rightarrow> firehol_metadata list \<Rightarrow> file_state \<Rightarrow> bool" where
  "file_inv name ids base s \<longleftrightarrow>
     (\<exists>new. fs_metadata s = base @ new \<and> map md_id new = map ids [0..<length new] \<and>
        (\<forall>m \<in> set new. md_file_name m = name) \<and> am_file_name (fs_meta s) = name \<and>
        fs_allocated s = length new + (if fs_emitted s then 0 else 1) \<and>
        am_current_metadata_id (fs_meta s) = ids (fs_allocated s - 1) \<and>
        (fs_emitted s \<longrightarrow> new \<noteq> [] \<and> md_category (last new) = am_category (fs_meta s)))"

lemma file_inv_comment:
  assumes "file_inv name ids base s"
  shows "file_inv name ids base (parse_comment C ids c s) \<and>
    am_category (fs_meta (parse_comment C ids c s)) = comment_category c (am_category (fs_meta s)) \<and>
    fs_entries (parse_comment C ids c s) = fs_entries s \<and> fs_sent (parse_comment C ids c s) = fs_sent s \<and>
    fs_metadata (parse_comment C ids c s) = fs_metadata s"
  using assms
  by (auto simp: file_inv_def parse_comment_def comment_category_def Let_def split: option.splits)

lemma file_inv_emit:
  assumes "file_inv name ids base s"
  shows "file_inv name ids base (emit_metadata s) \<and> fs_emitted (emit_metadata s) \<and>
    fs_meta (emit_metadata s) = fs_meta s \<and> fs_entries (emit_metadata s) = fs_entries s \<and>
    fs_sent (emit_metadata s) = fs_sent s \<and> (\<exists>ms. fs_metadata (emit_metadata s) = fs_metadata s @ ms)"
  using assms by (auto simp: file_inv_def emit_metadata_def to_metadata_def)

text \<open>Once emitted, the current identifier names metadata with the current category.\<close>

lemma file_inv_current:
  assumes "file_inv name ids base s" "fs_emitted s"
  shows "\<exists>m \<in> set (fs_metadata s). md_id m = am_current_metadata_id (fs_meta s) \<and>
    md_category m = am_category (fs_meta s) \<and> md_file_name m = name"
proof -
  obtain new where n: "fs_metadata s = base @ new" "map md_id new = map ids [0..<length new]"
      "\<forall>m \<in> set new. md_file_name m = name" "am_current_metadata_id (fs_meta s) = ids (length new - 1)"
      "new \<noteq> []" "md_category (last new) = am_category (fs_meta s)"
    using assms by (auto simp: file_inv_def)
  have "md_id (last new) = ids (length new - 1)"
    using arg_cong [OF n(2), of "\<lambda>l. l ! (length new - 1)"] n(5) by (simp add: last_conv_nth)
  then show ?thesis using n by (intro bexI [of _ "last new"]) auto
qed

lemma push_targets_ok:
  assumes "\<And>k. sends k" "length (fs_entries s) < WORKER_BATCH_SIZE"
  shows "\<exists>bs es. push_targets sends mid line ts s = Ok (s\<lparr>fs_sent := fs_sent s @ bs, fs_entries := es\<rparr>) \<and>
    concat bs @ es = fs_entries s @ map (\<lambda>t. entry_new t 0 mid line) ts \<and>
    (\<forall>b \<in> set bs. length b = WORKER_BATCH_SIZE) \<and> length es < WORKER_BATCH_SIZE"
  using assms(2)
proof (induction ts arbitrary: s)
  case Nil
  then show ?case by (intro exI [of _ "[]"] exI [of _ "fs_entries s"]) simp
next
  case (Cons t ts)
  let ?es = "fs_entries s @ [entry_new t 0 mid line]"
  show ?case
  proof (cases "length ?es \<ge> WORKER_BATCH_SIZE")
    case True
    then have full: "length ?es = WORKER_BATCH_SIZE" using Cons.prems by simp
    let ?s = "s\<lparr>fs_sent := fs_sent s @ [?es], fs_entries := []\<rparr>"
    have e: "push_targets sends mid line (t # ts) s = push_targets sends mid line ts ?s"
      using True assms(1) by (simp add: flush_def Let_def)
    have "length (fs_entries ?s) < WORKER_BATCH_SIZE" by (simp add: WORKER_BATCH_SIZE_def)
    from Cons.IH [OF this] obtain bs es where i:
      "push_targets sends mid line ts ?s = Ok (?s\<lparr>fs_sent := fs_sent ?s @ bs, fs_entries := es\<rparr>)"
      "concat bs @ es = map (\<lambda>t. entry_new t 0 mid line) ts"
      "\<forall>b \<in> set bs. length b = WORKER_BATCH_SIZE" "length es < WORKER_BATCH_SIZE" by auto
    then show ?thesis
      using full by (intro exI [of _ "?es # bs"] exI [of _ es]) (simp add: e del: push_targets.simps)
  next
    case False
    then have "length (fs_entries (s\<lparr>fs_entries := ?es\<rparr>)) < WORKER_BATCH_SIZE" by simp
    from Cons.IH [OF this] False show ?thesis by (auto simp: Let_def)
  qed
qed

subsection \<open>A whole file\<close>

definition targets_of :: "'n ipnet_lib \<Rightarrow> ip_addr list \<Rightarrow> string \<Rightarrow> firehol_ip_target list" where
  "targets_of L ign tok = (case line_targets L ign tok of Some (Ok ts) \<Rightarrow> ts | _ \<Rightarrow> [])"

definition record_targets ::
  "'n ipnet_lib \<Rightarrow> ip_addr list \<Rightarrow> (nat \<times> firehol_category \<times> string) list \<Rightarrow>
   (nat \<times> firehol_category \<times> firehol_ip_target) list" where
  "record_targets L ign recs =
     concat (map (\<lambda>(n, c, tok). map (\<lambda>t. (n, c, t)) (targets_of L ign tok)) recs)"

definition valid_token :: "'n ipnet_lib \<Rightarrow> ip_addr list \<Rightarrow> string \<Rightarrow> bool" where
  "valid_token L ign tok \<longleftrightarrow> (\<exists>ts. line_targets L ign tok = Some (Ok ts))"

lemma rule_line_step:
  assumes sends: "\<And>k. sends k" and inv: "file_inv name ids base s"
    and room: "length (fs_entries s) < WORKER_BATCH_SIZE"
  shows "\<exists>s'. push_targets sends (am_current_metadata_id (fs_meta s)) (of_nat n) ts (emit_metadata s) = Ok s' \<and>
    file_inv name ids base s' \<and> fs_meta s' = fs_meta s \<and>
    file_step name (map (\<lambda>t. (n, am_category (fs_meta s), t)) ts) s s'"
proof -
  let ?e = "emit_metadata s" and ?mid = "am_current_metadata_id (fs_meta s)"
  note em = file_inv_emit [OF inv]
  obtain ms where ms: "fs_metadata ?e = fs_metadata s @ ms" using em by blast
  have "length (fs_entries ?e) < WORKER_BATCH_SIZE" using em room by simp
  from push_targets_ok [where sends = sends, OF sends this, of ?mid "of_nat n" ts] obtain bs es where p:
    "push_targets sends ?mid (of_nat n) ts ?e = Ok (?e\<lparr>fs_sent := fs_sent ?e @ bs, fs_entries := es\<rparr>)"
    "concat bs @ es = fs_entries ?e @ map (\<lambda>t. entry_new t 0 ?mid (of_nat n)) ts"
    "\<forall>b \<in> set bs. length b = WORKER_BATCH_SIZE" "length es < WORKER_BATCH_SIZE" by blast
  let ?s' = "?e\<lparr>fs_sent := fs_sent ?e @ bs, fs_entries := es\<rparr>"
  have i: "file_inv name ids base ?s'" using conjunct1 [OF em] by (simp add: file_inv_def)
  have "\<exists>m \<in> set (fs_metadata ?s'). md_id m = ?mid \<and> md_category m = am_category (fs_meta s) \<and> md_file_name m = name"
    using file_inv_current [OF i] em by simp
  then have "list_all2 (entry_from name (fs_metadata ?s')) (map (\<lambda>t. (n, am_category (fs_meta s), t)) ts)
      (map (\<lambda>t. entry_new t 0 ?mid (of_nat n)) ts)"
    by (auto simp: list_all2_conv_all_nth entry_new_def)
  moreover have "all_entries ?s' = all_entries s @ map (\<lambda>t. entry_new t 0 ?mid (of_nat n)) ts"
    using p(2) em by (simp add: all_entries_def)
  ultimately have "file_step name (map (\<lambda>t. (n, am_category (fs_meta s), t)) ts) s ?s'"
    unfolding file_step_def using p(3,4) ms em by (intro exI conjI) auto
  then show ?thesis using p(1) i em by auto
qed

lemma file_step_refl: "length (fs_entries s) < WORKER_BATCH_SIZE \<Longrightarrow> file_step name [] s s"
  by (auto simp: file_step_def)

lemma visit_records_ok:
  assumes sends: "\<And>k. sends k"
    and "\<forall>(n, c, tok) \<in> set (file_records (am_category (fs_meta s)) n ls). valid_token L ign tok"
    and "file_inv name ids base s" "length (fs_entries s) < WORKER_BATCH_SIZE"
  shows "\<exists>s'. visit_lines (parse_file_line L C ids sends ign path) ls n s = Some (Ok s') \<and>
    file_inv name ids base s' \<and>
    file_step name (record_targets L ign (file_records (am_category (fs_meta s)) n ls)) s s'"
  using assms(2-4)
proof (induction ls arbitrary: n s)
  case Nil
  then show ?case by (simp add: record_targets_def file_step_refl)
next
  case (Cons l ls)
  show ?case
  proof (cases "classify_line (map char_of l)")
    case Blank
    then show ?thesis using Cons.IH [of s "n + 1"] Cons.prems by (simp add: parse_file_line_eq [of L C ids sends ign path l])
  next
    case (Comment c)
    let ?s = "parse_comment C ids c s"
    note pc = file_inv_comment [OF Cons.prems(2), of C c]
    have "file_step name [] s ?s"
      using pc Cons.prems(3) by (auto simp: file_step_def all_entries_def)
    moreover obtain s' where v: "visit_lines (parse_file_line L C ids sends ign path) ls (n + 1) ?s = Some (Ok s')"
        "file_inv name ids base s'"
      and "file_step name (record_targets L ign (file_records (am_category (fs_meta ?s)) (n + 1) ls)) ?s s'"
      using Cons.IH [of ?s "n + 1"] Cons.prems Comment pc by auto
    ultimately have "file_step name (record_targets L ign (file_records (am_category (fs_meta ?s)) (n + 1) ls)) s s'"
      using file_step_trans [of name "[]" s ?s _ s'] by simp
    then show ?thesis
      using Comment pc v by (simp add: parse_file_line_eq [of L C ids sends ign path l])
  next
    case (Rule tok)
    then obtain ts where ts: "line_targets L ign tok = Some (Ok ts)"
      using Cons.prems(1) by (auto simp: valid_token_def)
    from rule_line_step [where sends = sends, OF sends Cons.prems(2,3), of "n + 1" ts] obtain s1 where s1:
      "push_targets sends (am_current_metadata_id (fs_meta s)) (of_nat (n + 1)) ts (emit_metadata s) = Ok s1"
      "file_inv name ids base s1" "fs_meta s1 = fs_meta s"
      "file_step name (map (\<lambda>t. (n + 1, am_category (fs_meta s), t)) ts) s s1" by blast
    have "length (fs_entries s1) < WORKER_BATCH_SIZE" using s1(4) by (auto simp: file_step_def)
    then obtain s' where s': "visit_lines (parse_file_line L C ids sends ign path) ls (n + 1) s1 = Some (Ok s')"
      "file_inv name ids base s'"
      "file_step name (record_targets L ign (file_records (am_category (fs_meta s)) (n + 1) ls)) s1 s'"
      using Cons.IH [of s1 "n + 1"] Cons.prems(1) Rule s1 by auto
    show ?thesis
      using Rule ts s1(1) s'(1,2) file_step_trans [OF s1(4) s'(3)]
      by (simp add: parse_file_line_eq [of L C ids sends ign path l] record_targets_def targets_of_def)
  qed
qed

text \<open>The first invalid rule line ends the import of the file.\<close>

lemma visit_records_err:
  assumes sends: "\<And>k. sends k"
    and total: "\<And>tok. valid_token L ign tok \<or> line_targets L ign tok = Some (Err ())"
    and bad: "\<not> valid_token L ign tok"
    and "file_records (am_category (fs_meta s)) n ls = pre @ (m, c, tok) # post"
    and "\<forall>(n, c, tok) \<in> set pre. valid_token L ign tok"
    and "file_inv name ids base s" "length (fs_entries s) < WORKER_BATCH_SIZE"
  shows "visit_lines (parse_file_line L C ids sends ign path) ls n s = Some (Err (InvalidEntry path m tok))"
  using assms(4-7)
proof (induction ls arbitrary: n s pre)
  case (Cons l ls)
  show ?case
  proof (cases "classify_line (map char_of l)")
    case Blank
    then show ?thesis
      using Cons.IH [of s "n + 1" pre] Cons.prems by (simp add: parse_file_line_eq [of L C ids sends ign path l])
  next
    case (Comment c)
    then show ?thesis
      using Cons.IH [of "parse_comment C ids c s" "n + 1" pre] Cons.prems file_inv_comment [OF Cons.prems(3), of C c]
      by (simp add: parse_file_line_eq [of L C ids sends ign path l])
  next
    case (Rule tok')
    show ?thesis
    proof (cases pre)
      case Nil
      then have "line_targets L ign tok' = Some (Err ())" "m = n + 1" "tok' = tok"
        using Rule Cons.prems(1) total bad by auto
      then show ?thesis using Rule by (simp add: parse_file_line_eq [of L C ids sends ign path l])
    next
      case (Cons r pre')
      then obtain ts where ts: "line_targets L ign tok' = Some (Ok ts)"
        using Rule Cons.prems(1,2) by (auto simp: valid_token_def)
      from rule_line_step [where sends = sends, OF sends Cons.prems(3,4), of "n + 1" ts] obtain s1 where s1:
        "push_targets sends (am_current_metadata_id (fs_meta s)) (of_nat (n + 1)) ts (emit_metadata s) = Ok s1"
        "file_inv name ids base s1" "fs_meta s1 = fs_meta s"
        "file_step name (map (\<lambda>t. (n + 1, am_category (fs_meta s), t)) ts) s s1" by blast
      have "length (fs_entries s1) < WORKER_BATCH_SIZE" using s1(4) by (auto simp: file_step_def)
      then show ?thesis
        using Cons.IH [of s1 "n + 1" pre'] Cons.prems(1,2) Rule s1(1-3) ts Cons
        by (simp add: parse_file_line_eq [of L C ids sends ign path l])
    qed
  qed
qed simp

subsection \<open>Rule tokens\<close>

lemma any_contains_spec:
  assumes "wf_target t" "canonical_target t" "\<forall>ip \<in> set ips. wf_ip ip"
  shows "any_contains t ips = Ok (\<exists>ip \<in> set ips. covers t ip)"
  using assms(3)
proof (induction ips)
  case (Cons ip ips)
  then show ?case using contains_ip_covers [OF assms(1,2), of ip] by (cases "covers t ip") simp_all
qed simp

lemma line_targets_total:
  assumes "ipnet L valid4 valid6" "\<forall>ip \<in> set ign. wf_ip ip"
  shows "valid_token L ign tok \<or> line_targets L ign tok = Some (Err ())"
proof (cases "parse_ip_or_cidr L tok")
  case None
  then show ?thesis by (simp add: line_targets_def)
next
  case (Some t)
  have "any_contains t ign = Ok (\<exists>ip \<in> set ign. covers t ip)"
    using parse_ip_or_cidr_wf [OF assms(1) Some] assms(2) by (intro any_contains_spec) auto
  moreover have "parse_ip_or_cidr_with_ignore L tok ign = Some (Err ()) \<or>
      (\<exists>ts. parse_ip_or_cidr_with_ignore L tok ign = Some (Ok ts))"
    using with_ignore_spec [OF assms, of "V4 [0, 0, 0, 0]" tok] by auto
  ultimately show ?thesis using Some by (auto simp: line_targets_def valid_token_def)
qed

text \<open>
  The two token parsers of the program read the token alike.  This holds for every token
  without a prefix length; with one it is a property of the network library.
\<close>

definition consistent_token :: "'n ipnet_lib \<Rightarrow> string \<Rightarrow> bool" where
  "consistent_token L tok \<longleftrightarrow>
     (\<forall>t b. parse_ip_or_cidr L tok = Some t \<longrightarrow> wf_ip b \<longrightarrow> (covers t b \<longleftrightarrow> token_covers L tok b))"

lemma targets_of_covers:
  assumes L: "ipnet L valid4 valid6" and ign: "\<forall>ip \<in> set ign. wf_ip ip" and b: "wf_ip b"
    and tok: "valid_token L ign tok" "consistent_token L tok"
  shows "(\<exists>t \<in> set (targets_of L ign tok). covers t b) \<longleftrightarrow> token_covers L tok b \<and> b \<notin> set ign"
proof -
  obtain ts where ts: "line_targets L ign tok = Some (Ok ts)" using tok(1) by (auto simp: valid_token_def)
  then obtain t where t: "parse_ip_or_cidr L tok = Some t" by (auto simp: line_targets_def split: option.splits)
  have hit: "any_contains t ign = Ok (\<exists>ip \<in> set ign. covers t ip)"
    using parse_ip_or_cidr_wf [OF L t] ign by (intro any_contains_spec) auto
  show ?thesis
  proof (cases "\<exists>ip \<in> set ign. covers t ip")
    case True
    then have "parse_ip_or_cidr_with_ignore L tok ign = Some (Ok ts)"
      using ts t hit by (auto simp: line_targets_def)
    then show ?thesis
      using with_ignore_spec [OF L ign b, of tok] ts by (auto simp: targets_of_def)
  next
    case False
    then have "ts = [t]" using ts t hit by (auto simp: line_targets_def)
    then show ?thesis using ts t tok(2) b False by (auto simp: targets_of_def consistent_token_def)
  qed
qed

subsection \<open>The import of one file\<close>

abbreviation records_of :: "nat list \<Rightarrow> (nat \<times> firehol_category \<times> string) list" where
  "records_of chars \<equiv> file_records Other 0 (split_terminator 10 chars)"

abbreviation file_start ::
  "string option \<Rightarrow> (nat \<Rightarrow> u32) \<Rightarrow> firehol_entry list \<times> firehol_entry list list \<times> firehol_metadata list \<Rightarrow> file_state" where
  "file_start fname ids w \<equiv>
     \<lparr>fs_meta = active_new (case fname of Some n \<Rightarrow> n | None \<Rightarrow> ''unknown'') (ids 0), fs_emitted = False,
      fs_allocated = 1, fs_entries = fst w, fs_sent = fst (snd w), fs_metadata = snd (snd w)\<rparr>"

lemma file_inv_start:
  "file_inv (case fname of Some n \<Rightarrow> n | None \<Rightarrow> ''unknown'') ids (snd (snd w)) (file_start fname ids w)"
  by (simp add: file_inv_def active_new_def)

text \<open>The callbacks a worker makes on a readable file of valid text.\<close>

lemma parse_single_file_visit:
  assumes "ipnet L valid4 valid6" "\<forall>ip \<in> set ign. wf_ip ip"
    and "Failing \<notin> set evs" "length content < reads evs" "utf8_decode content = Some chars"
  shows "visit_file_lines path (Some content) evs (parse_file_line L C ids sends ign path) s =
    visit_text (parse_file_line L C ids sends ign path) chars 0 (length content) s"
proof -
  let ?v = "parse_file_line L C ids sends ign path"
  have "?v l m t \<noteq> None" for l m t
  proof (cases "classify_line (map char_of l)")
    case (Rule tok)
    then show ?thesis
      using line_targets_total [OF assms(1,2), of tok]
      by (auto simp: parse_file_line_eq [of L C ids sends ign path l] valid_token_def)
  qed (simp_all add: parse_file_line_eq [of L C ids sends ign path l])
  then have "visit_loop path ?v evs content (1024 * 1024) [] 0 0 s \<noteq> None"
    using visit_loop_total [of ?v content evs "[]" "1024 * 1024"] assms by simp
  then obtain r where r: "visit_loop path ?v evs content (1024 * 1024) [] 0 0 s = Some r" by blast
  then show ?thesis
    using visit_loop_result [OF r assms(3)] assms(5) by (simp add: visit_file_lines_def)
qed

lemma parse_single_file_run:
  assumes "ipnet L valid4 valid6" "\<forall>ip \<in> set ign. wf_ip ip" "\<And>k. sends k"
    and "Failing \<notin> set evs" "length content < reads evs" "utf8_decode content = Some chars"
    and "\<forall>(n, c, tok) \<in> set (records_of chars). valid_token L ign tok"
    and "length es < WORKER_BATCH_SIZE"
  shows "\<exists>s new bs ms.
    parse_single_file L C ids sends path (Some name) (Some content) evs ign (es, sent, meta) =
      Some (Ok (length content, s)) \<and>
    concat (fs_sent s) @ fs_entries s = concat sent @ es @ new \<and>
    list_all2 (entry_from name (fs_metadata s)) (record_targets L ign (records_of chars)) new \<and>
    fs_sent s = sent @ bs \<and> (\<forall>b \<in> set bs. length b = WORKER_BATCH_SIZE) \<and>
    length (fs_entries s) < WORKER_BATCH_SIZE \<and>
    fs_metadata s = meta @ ms \<and> ms \<noteq> [] \<and> map md_id ms = map ids [0..<length ms]"
proof -
  let ?s = "file_start (Some name) ids (es, sent, meta)"
  have inv: "file_inv name ids meta ?s" using file_inv_start [of "Some name" ids "(es, sent, meta)"] by simp
  have cat: "am_category (fs_meta ?s) = Other" by (simp add: active_new_def)
  obtain s1 where s1: "visit_lines (parse_file_line L C ids sends ign path) (split_terminator 10 chars) 0 ?s = Some (Ok s1)"
    "file_inv name ids meta s1" "file_step name (record_targets L ign (records_of chars)) ?s s1"
    using visit_records_ok [where sends = sends, OF assms(3) _ inv, of 0 "split_terminator 10 chars" L ign C path]
      assms(7,8) cat by auto
  let ?s2 = "if \<not> fs_emitted s1 then s1\<lparr>fs_metadata := fs_metadata s1 @ [to_metadata (fs_meta s1)]\<rparr> else s1"
  have r: "parse_single_file L C ids sends path (Some name) (Some content) evs ign (es, sent, meta) =
      Some (Ok (length content, ?s2))"
    using parse_single_file_visit [OF assms(1,2,4-6), of path C ids sends ?s] s1(1)
    by (simp add: parse_single_file_def visit_text_def)
  obtain ms where ms: "fs_metadata ?s2 = meta @ ms" "ms \<noteq> []" "map md_id ms = map ids [0..<length ms]"
    using s1(2) by (auto simp: file_inv_def to_metadata_def split: if_splits)
  have "file_step name [] s1 ?s2"
    using s1(3) by (auto simp: file_step_def all_entries_def)
  then have "file_step name (record_targets L ign (records_of chars)) ?s ?s2"
    using file_step_trans [OF s1(3)] by fastforce
  then obtain new bs where
    "concat (fs_sent ?s2) @ fs_entries ?s2 = concat sent @ es @ new"
    "list_all2 (entry_from name (fs_metadata ?s2)) (record_targets L ign (records_of chars)) new"
    "fs_sent ?s2 = sent @ bs" "\<forall>b \<in> set bs. length b = WORKER_BATCH_SIZE"
    "length (fs_entries ?s2) < WORKER_BATCH_SIZE"
    unfolding file_step_def all_entries_def by auto
  with r ms show ?thesis by blast
qed

text \<open>
  \<^bold>\<open>C28\<close>. A well-formed list file is imported completely and in order.  Whatever the read
  sizes, the worker's earlier state and the other workers' use of the identifier counter,
  if every rule line of the file is valid then the file yields one entry per target of each rule
  line, in file order, behind the entries the worker already had; each entry carries its line
  number and an identifier of metadata with the file's name and the category in force at
  that line; the metadata identifiers are the ones allocated for this file; every batch
  sent is full and nothing is lost between the batches and the pending entries.
\<close>

theorem parse_single_file_complete:
  assumes "ipnet L valid4 valid6" "\<forall>ip \<in> set ign. wf_ip ip" "\<And>k. sends k"
    and "Failing \<notin> set evs" "length content < reads evs" "utf8_decode content = Some chars"
    and "\<forall>(n, c, tok) \<in> set (records_of chars). valid_token L ign tok"
    and "length es < WORKER_BATCH_SIZE"
  shows "\<exists>s new bs ms.
    parse_single_file L C ids sends path (Some name) (Some content) evs ign (es, sent, meta) =
      Some (Ok (length content, s)) \<and>
    concat (fs_sent s) @ fs_entries s = concat sent @ es @ new \<and>
    list_all2 (entry_from name (fs_metadata s)) (record_targets L ign (records_of chars)) new \<and>
    fs_sent s = sent @ bs \<and> (\<forall>b \<in> set bs. length b = WORKER_BATCH_SIZE) \<and>
    length (fs_entries s) < WORKER_BATCH_SIZE \<and>
    fs_metadata s = meta @ ms \<and> ms \<noteq> [] \<and> map md_id ms = map ids [0..<length ms]"
  by (rule parse_single_file_run [OF assms])

text \<open>
  \<^bold>\<open>C29\<close>. The import is strict: the first rule line of a file that is no address and no network
  makes the whole file fail, with the error that names the file, the line and the text.
\<close>

theorem parse_single_file_strict:
  assumes "ipnet L valid4 valid6" "\<forall>ip \<in> set ign. wf_ip ip" "\<And>k. sends k"
    and "Failing \<notin> set evs" "length content < reads evs" "utf8_decode content = Some chars"
    and "records_of chars = pre @ (n, c, tok) # post"
    and "\<forall>(n, c, tok) \<in> set pre. valid_token L ign tok" "\<not> valid_token L ign tok"
    and "length es < WORKER_BATCH_SIZE"
  shows "parse_single_file L C ids sends path (Some name) (Some content) evs ign (es, sent, meta) =
    Some (Err (InvalidEntry path n tok))"
proof -
  let ?s = "file_start (Some name) ids (es, sent, meta)"
  have inv: "file_inv name ids meta ?s" using file_inv_start [of "Some name" ids "(es, sent, meta)"] by simp
  have "visit_lines (parse_file_line L C ids sends ign path) (split_terminator 10 chars) 0 ?s =
      Some (Err (InvalidEntry path n tok))"
    using assms(7,8,10)
    by (intro visit_records_err [where sends = sends, OF assms(3) line_targets_total [OF assms(1,2)] assms(9) _ _ inv])
      (auto simp: active_new_def)
  then show ?thesis
    using parse_single_file_visit [OF assms(1,2,4-6), of path C ids sends ?s]
    by (simp add: parse_single_file_def visit_text_def)
qed

text \<open>
  A list file blocks what it says.  For a file whose rule tokens are valid and read
  alike by both token parsers, the imported entries cover an address if and only if some
  rule line of the file denotes it and the operator did not ask to ignore it.
\<close>

lemma parse_single_file_blocks:
  assumes "ipnet L valid4 valid6" "\<forall>ip \<in> set ign. wf_ip ip" "\<And>k. sends k"
    and "Failing \<notin> set evs" "length content < reads evs" "utf8_decode content = Some chars"
    and "\<forall>(n, c, tok) \<in> set (records_of chars). valid_token L ign tok \<and> consistent_token L tok"
    and "wf_ip b"
  shows "\<exists>s. parse_single_file L C ids sends path (Some name) (Some content) evs ign ([], [], []) =
      Some (Ok (length content, s)) \<and>
    ((\<exists>e \<in> set (concat (fs_sent s) @ fs_entries s). covers (fe_target e) b) \<longleftrightarrow>
     (\<exists>(n, c, tok) \<in> set (records_of chars). token_covers L tok b) \<and> b \<notin> set ign)"
proof -
  have "\<forall>(n, c, tok) \<in> set (records_of chars). valid_token L ign tok" "length [] < WORKER_BATCH_SIZE"
    using assms(7) by (auto simp: WORKER_BATCH_SIZE_def)
  from parse_single_file_run [where sends = sends, OF assms(1-6) this, of C ids path name "[]" "[]"]
  obtain s new where s:
    "parse_single_file L C ids sends path (Some name) (Some content) evs ign ([], [], []) = Some (Ok (length content, s))"
    "concat (fs_sent s) @ fs_entries s = new"
    "list_all2 (entry_from name (fs_metadata s)) (record_targets L ign (records_of chars)) new" by auto
  have "(\<exists>e \<in> set new. covers (fe_target e) b) \<longleftrightarrow>
      (\<exists>(n, c, t) \<in> set (record_targets L ign (records_of chars)). covers t b)"
    using s(3) by (induction rule: list_all2_induct) auto
  also have "\<dots> \<longleftrightarrow> (\<exists>(n, c, tok) \<in> set (records_of chars). \<exists>t \<in> set (targets_of L ign tok). covers t b)"
    by (fastforce simp: record_targets_def)
  also have "\<dots> \<longleftrightarrow> (\<exists>(n, c, tok) \<in> set (records_of chars). token_covers L tok b \<and> b \<notin> set ign)"
    using assms(7) targets_of_covers [OF assms(1,2,8)] by fastforce
  finally show ?thesis using s(1,2) by fastforce
qed

subsection \<open>A concrete file\<close>

definition ascii :: "string \<Rightarrow> bytes" where
  "ascii s = map (\<lambda>c. of_nat (code_point c)) s"

definition demo_file :: string where
  "demo_file = ''# Category: malware'' @ [CHR 0x0A] @ ''10.0.0.1  # host'' @ [CHR 0x0A]"

definition demo_bad_file :: string where
  "demo_bad_file = ''10.0.0.1'' @ [CHR 0x0A] @ ''10.0.0'' @ [CHR 0x0A]"

lemma demo_decode:
  "utf8_decode (ascii demo_file) = Some (map code_point demo_file)"
  "utf8_decode (ascii demo_bad_file) = Some (map code_point demo_bad_file)"
  by code_simp+

lemma demo_records:
  "records_of (map code_point demo_file) = [(2, Malware, ''10.0.0.1'')]"
  "records_of (map code_point demo_bad_file) = [(1, Other, ''10.0.0.1''), (2, Other, ''10.0.0'')]"
  by code_simp+

lemma demo_targets:
  "line_targets pair_lib [] ''10.0.0.1'' = Some (Ok [ExactV4 [10, 0, 0, 1]])"
  "line_targets pair_lib [] ''10.0.0'' = Some (Err ())"
  "parse_ip ''10.0.0.1'' = Some (V4 [10, 0, 0, 1])"
  "parse_ip_or_cidr pair_lib ''10.0.0.1'' = Some (ExactV4 [10, 0, 0, 1])"
  by code_simp+

definition demo_reads :: "read_event list" where
  "demo_reads = Readable 6 # Interrupted # replicate 50 (Readable 0)"

lemma demo_reads_enough:
  "length (ascii demo_file) < reads demo_reads" "length (ascii demo_bad_file) < reads demo_reads"
  by code_simp+

lemma demo_reads_ok: "Failing \<notin> set demo_reads"
  by (simp add: demo_reads_def)

abbreviation demo_run :: "chrono \<Rightarrow> string \<Rightarrow> (firehol_parse_error, nat \<times> file_state) outcome option" where
  "demo_run C f \<equiv> parse_single_file pair_lib C of_nat (\<lambda>_. True) ''/l/a.ipset'' (Some ''a.ipset'') (Some (ascii f))
     demo_reads [] ([], [], [])"

lemma demo_valid:
  "\<forall>(n, c, tok) \<in> set (records_of (map code_point demo_file)). valid_token pair_lib [] tok \<and> consistent_token pair_lib tok"
  by (auto simp: demo_records valid_token_def demo_targets consistent_token_def token_covers_def elim: covers.elims)

theorem parse_single_file_complete_witness:
  "\<forall>C. \<exists>s e. demo_run C demo_file = Some (Ok (37, s)) \<and> concat (fs_sent s) @ fs_entries s = [e] \<and>
     fe_target e = ExactV4 [10, 0, 0, 1] \<and> fe_line e = 2 \<and>
     (\<exists>m \<in> set (fs_metadata s). md_id m = fe_metadata_id e \<and> md_category m = Malware)"
proof
  fix C
  have len: "length (ascii demo_file) = 37" by code_simp
  have v: "\<forall>(n, c, tok) \<in> set (records_of (map code_point demo_file)). valid_token pair_lib [] tok"
    using demo_valid by auto
  have t: "record_targets pair_lib [] (records_of (map code_point demo_file)) = [(2, Malware, ExactV4 [10, 0, 0, 1])]"
    by (simp add: demo_records record_targets_def targets_of_def demo_targets)
  from parse_single_file_complete [where sends = "\<lambda>_. True", OF pairs.ipnet_axioms _ _ demo_reads_ok demo_reads_enough(1)
      demo_decode(1) v, of "[]" C of_nat "''/l/a.ipset''" "''a.ipset''" "[]" "[]"]
  obtain s new where "demo_run C demo_file = Some (Ok (37, s))" "concat (fs_sent s) @ fs_entries s = new"
    "list_all2 (entry_from ''a.ipset'' (fs_metadata s)) [(2, Malware, ExactV4 [10, 0, 0, 1])] new"
    unfolding t len by (auto simp: WORKER_BATCH_SIZE_def)
  then show "\<exists>s e. demo_run C demo_file = Some (Ok (37, s)) \<and> concat (fs_sent s) @ fs_entries s = [e] \<and>
     fe_target e = ExactV4 [10, 0, 0, 1] \<and> fe_line e = 2 \<and>
     (\<exists>m \<in> set (fs_metadata s). md_id m = fe_metadata_id e \<and> md_category m = Malware)"
    by (auto simp: list_all2_Cons1)
qed

theorem parse_single_file_strict_witness:
  "\<forall>C. demo_run C demo_bad_file = Some (Err (InvalidEntry ''/l/a.ipset'' 2 ''10.0.0''))"
proof
  fix C
  have "records_of (map code_point demo_bad_file) = [(1, Other, ''10.0.0.1'')] @ (2, Other, ''10.0.0'') # []"
    by (simp add: demo_records)
  from parse_single_file_strict [where sends = "\<lambda>_. True", OF pairs.ipnet_axioms _ _ demo_reads_ok demo_reads_enough(2)
      demo_decode(2) this, of "[]" "[]" C of_nat "''/l/a.ipset''" "''a.ipset''" "[]" "[]"]
  show "demo_run C demo_bad_file = Some (Err (InvalidEntry ''/l/a.ipset'' 2 ''10.0.0''))"
    by (simp add: valid_token_def demo_targets WORKER_BATCH_SIZE_def)
qed

lemma parse_single_file_blocks_example:
  "\<forall>C. \<exists>s. demo_run C demo_file = Some (Ok (length (ascii demo_file), s)) \<and>
     (\<exists>e \<in> set (concat (fs_sent s) @ fs_entries s). covers (fe_target e) (V4 [10, 0, 0, 1]))"
proof
  fix C
  show "\<exists>s. demo_run C demo_file = Some (Ok (length (ascii demo_file), s)) \<and>
     (\<exists>e \<in> set (concat (fs_sent s) @ fs_entries s). covers (fe_target e) (V4 [10, 0, 0, 1]))"
    using parse_single_file_blocks [where sends = "\<lambda>_. True", OF pairs.ipnet_axioms _ _ demo_reads_ok demo_reads_enough(1)
      demo_decode(1) demo_valid, of "V4 [10, 0, 0, 1]" C of_nat "''/l/a.ipset''" "''a.ipset''"]
    by (auto simp: demo_records token_covers_def demo_targets)
qed

end
