(* ===== verification/Rule_Set.thy ===== *)
theory Rule_Set
  imports Fw_Common "HOL-Library.AList"
begin

section \<open>Parsed rule sets\<close>

text \<open>
  Models \<open>ParsedRuleSet\<close> of \<open>src/loader.rs\<close>, the rules partitioned by address family and by
  lookup structure.  A Rust \<open>HashMap\<close> is an association list with distinct keys: the order of
  the list is the (unspecified) iteration order, and \<open>insert\<close> is \<open>AList.update\<close>.  The lemmas
  give the content of a merge and keep the distinctness of the keys.
\<close>

record rule_set =
  exact_v4 :: "(bytes \<times> rule_value) list"
  exact_v6 :: "(bytes \<times> rule_value) list"
  lpm_v4 :: "(u32 \<times> bytes \<times> rule_value) list"
  lpm_v6 :: "(u32 \<times> bytes \<times> rule_value) list"
  total_rules :: nat
  skipped_rules :: nat

definition rs_new :: rule_set where
  "rs_new = \<lparr>exact_v4 = [], exact_v6 = [], lpm_v4 = [], lpm_v6 = [], total_rules = 0, skipped_rules = 0\<rparr>"

definition rs_is_empty :: "rule_set \<Rightarrow> bool" where
  "rs_is_empty r = (exact_v4 r = [] \<and> exact_v6 r = [] \<and> lpm_v4 r = [] \<and> lpm_v6 r = [])"

definition rs_count :: "rule_set \<Rightarrow> nat" where
  "rs_count r = length (exact_v4 r) + length (exact_v6 r) + length (lpm_v4 r) + length (lpm_v6 r)"

text \<open>\<open>for (k, v) in other { self.insert(k, v); }\<close>\<close>

definition hm_extend :: "('k \<times> 'v) list \<Rightarrow> ('k \<times> 'v) list \<Rightarrow> ('k \<times> 'v) list" where
  "hm_extend xs ys = fold (\<lambda>(k, v) m. AList.update k v m) ys xs"

definition rs_merge :: "rule_set \<Rightarrow> rule_set \<Rightarrow> rule_set" where
  "rs_merge self other =
     (let s = self\<lparr>exact_v4 := hm_extend (exact_v4 self) (exact_v4 other)\<rparr>;
          s = s\<lparr>exact_v6 := hm_extend (exact_v6 s) (exact_v6 other)\<rparr>;
          s = s\<lparr>lpm_v4 := lpm_v4 s @ lpm_v4 other\<rparr>;
          s = s\<lparr>lpm_v6 := lpm_v6 s @ lpm_v6 other\<rparr>;
          s = s\<lparr>total_rules := rs_count s\<rparr>
      in s\<lparr>skipped_rules := skipped_rules s + skipped_rules other\<rparr>)"

text \<open>The Rust types: the keys of a hash map are distinct and the addresses have their length.\<close>

definition lpm_entry :: "nat \<Rightarrow> u32 \<times> bytes \<times> rule_value \<Rightarrow> bool" where
  "lpm_entry n e \<longleftrightarrow> length (fst (snd e)) = n \<and> unat (fst e) \<le> 8 * n"

definition wf_rules :: "rule_set \<Rightarrow> bool" where
  "wf_rules r \<longleftrightarrow> distinct (map fst (exact_v4 r)) \<and> distinct (map fst (exact_v6 r)) \<and>
     list_all (\<lambda>k. length k = 4) (map fst (exact_v4 r)) \<and>
     list_all (\<lambda>k. length k = 16) (map fst (exact_v6 r)) \<and>
     list_all (lpm_entry 4) (lpm_v4 r) \<and> list_all (lpm_entry 16) (lpm_v6 r)"

text \<open>The addresses a rule set blocks.\<close>

fun rs_blocks :: "rule_set \<Rightarrow> ip_addr \<Rightarrow> bool" where
  "rs_blocks rs (V4 a) \<longleftrightarrow> a \<in> fst ` set (exact_v4 rs) \<or>
     (\<exists>r \<in> set (lpm_v4 rs). same_prefix (unat (fst r)) (fst (snd r)) a)"
| "rs_blocks rs (V6 a) \<longleftrightarrow> a \<in> fst ` set (exact_v6 rs) \<or>
     (\<exists>r \<in> set (lpm_v6 rs). same_prefix (unat (fst r)) (fst (snd r)) a)"

subsection \<open>Content of hash maps\<close>

lemma map_of_hm_extend:
  "map_of (hm_extend xs ys) k = (case map_of (rev ys) k of Some v \<Rightarrow> Some v | None \<Rightarrow> map_of xs k)"
  unfolding hm_extend_def
proof (induction ys arbitrary: xs)
  case Nil
  then show ?case by simp
next
  case (Cons y ys)
  obtain a b where y: "y = (a, b)" by (cases y)
  show ?case
    using Cons [of "AList.update a b xs"]
    by (simp add: y update_conv' map_add_def split: option.splits)
qed

lemma map_of_rev: "distinct (map fst xs) \<Longrightarrow> map_of (rev xs) = map_of xs"
  by (rule map_of_inject_set [THEN iffD2]) (auto simp flip: rev_map)

lemma distinct_hm_extend: "distinct (map fst xs) \<Longrightarrow> distinct (map fst (hm_extend xs ys))"
  unfolding hm_extend_def
proof (induction ys arbitrary: xs)
  case (Cons y ys)
  then show ?case by (cases y) (simp add: distinct_update)
qed simp

lemma set_hm_extend: "fst ` set (hm_extend xs ys) = fst ` set xs \<union> fst ` set ys"
  unfolding hm_extend_def
proof (induction ys arbitrary: xs)
  case (Cons y ys)
  obtain a b where "y = (a, b)" by (cases y)
  then show ?case using Cons [of "AList.update a b xs"] by (auto simp: dom_update)
qed simp

lemma list_all_hm_extend:
  "list_all P (map fst (hm_extend xs ys)) \<longleftrightarrow> list_all P (map fst xs) \<and> list_all P (map fst ys)"
  using set_hm_extend [of xs ys] by (auto simp: list_all_iff simp flip: set_map)

lemma list_all_update:
  "list_all P (map fst (AList.update k v m)) \<longleftrightarrow> P k \<and> list_all P (map fst m)"
  using dom_update [of k v m] by (auto simp: list_all_iff simp flip: set_map)

lemma length_distinct_keys: "distinct (map fst xs) \<Longrightarrow> length xs = card (fst ` set xs)"
  by (metis distinct_card length_map set_map)

lemma wf_rules_new [simp]: "wf_rules rs_new"
  by (simp add: wf_rules_def rs_new_def)

lemma wf_rules_merge: "wf_rules r \<Longrightarrow> wf_rules s \<Longrightarrow> wf_rules (rs_merge r s)"
  by (simp add: wf_rules_def rs_merge_def Let_def distinct_hm_extend list_all_hm_extend)

lemma rs_merge_exact:
  "wf_rules s \<Longrightarrow> map_of (exact_v4 (rs_merge r s)) = map_of (exact_v4 r) ++ map_of (exact_v4 s)"
  "wf_rules s \<Longrightarrow> map_of (exact_v6 (rs_merge r s)) = map_of (exact_v6 r) ++ map_of (exact_v6 s)"
  by (auto simp: rs_merge_def Let_def wf_rules_def map_of_hm_extend map_of_rev map_add_def
      split: option.splits)

text \<open>
  Merging rule sets.  The merged exact maps hold every rule of both sets, the rules
  of the second set winning on a common address; the prefix lists are concatenated; the
  recorded total is the actual number of rules, which is the sum of both counts less the
  addresses the two sets share; skipped counts add up.
\<close>

lemma rs_merge_correct:
  assumes "wf_rules r" "wf_rules s"
  shows "wf_rules (rs_merge r s) \<and>
    map_of (exact_v4 (rs_merge r s)) = map_of (exact_v4 r) ++ map_of (exact_v4 s) \<and>
    map_of (exact_v6 (rs_merge r s)) = map_of (exact_v6 r) ++ map_of (exact_v6 s) \<and>
    lpm_v4 (rs_merge r s) = lpm_v4 r @ lpm_v4 s \<and> lpm_v6 (rs_merge r s) = lpm_v6 r @ lpm_v6 s \<and>
    total_rules (rs_merge r s) = rs_count (rs_merge r s) \<and>
    rs_count (rs_merge r s) + card (fst ` set (exact_v4 r) \<inter> fst ` set (exact_v4 s)) +
      card (fst ` set (exact_v6 r) \<inter> fst ` set (exact_v6 s)) = rs_count r + rs_count s \<and>
    skipped_rules (rs_merge r s) = skipped_rules r + skipped_rules s"
proof -
  have len: "length (hm_extend xs ys) + card (fst ` set xs \<inter> fst ` set ys) = length xs + length ys"
    if "distinct (map fst xs)" "distinct (map fst ys)" for xs ys :: "(bytes \<times> rule_value) list"
    using that card_Un_Int [of "fst ` set xs" "fst ` set ys"]
    by (simp add: length_distinct_keys distinct_hm_extend set_hm_extend)
  have "rs_count (rs_merge r s) + card (fst ` set (exact_v4 r) \<inter> fst ` set (exact_v4 s)) +
      card (fst ` set (exact_v6 r) \<inter> fst ` set (exact_v6 s)) = rs_count r + rs_count s"
    using len [of "exact_v4 r" "exact_v4 s"] len [of "exact_v6 r" "exact_v6 s"] assms
    by (simp add: rs_count_def rs_merge_def Let_def wf_rules_def)
  moreover have "total_rules (rs_merge r s) = rs_count (rs_merge r s)"
    by (simp add: rs_merge_def rs_count_def Let_def)
  ultimately show ?thesis
    using wf_rules_merge [OF assms] rs_merge_exact [OF assms(2)]
    by (simp add: rs_merge_def Let_def)
qed

lemma rs_merge_correct_witness:
  "rs_count (rs_merge (rs_new\<lparr>exact_v4 := [([10, 0, 0, 1], rule_drop 1)]\<rparr>)
     (rs_new\<lparr>exact_v4 := [([10, 0, 0, 1], rule_drop 2), ([10, 0, 0, 2], rule_drop 3)]\<rparr>)) = 2"
  using rs_merge_correct [of "rs_new\<lparr>exact_v4 := [([10, 0, 0, 1], rule_drop 1)]\<rparr>"
      "rs_new\<lparr>exact_v4 := [([10, 0, 0, 1], rule_drop 2), ([10, 0, 0, 2], rule_drop 3)]\<rparr>"]
  by (simp add: wf_rules_def rs_new_def rs_count_def rs_merge_def hm_extend_def Let_def)

end
