(* ===== verification/Firehol_Dataset.thy ===== *)
theory Firehol_Dataset
  imports Rocks_Db Firehol_File Rule_Set
begin

section \<open>The imported data set\<close>

text \<open>
  Models the consumer side of the import in \<open>src/firehol/parser.rs\<close>: the batches of all workers
  arrive in some order, get consecutive rule identifiers, and are kept in memory or written
  to the spool of the on-disk cache; afterwards \<open>FireholDataSet\<close> visits the entries from
  either place.  The lemmas show that the identifiers are the numbers 1 to n in arrival order,
  that the spool gives back exactly the entries written, and how files are discovered.
\<close>

subsection \<open>Discovering the files\<close>

text \<open>A directory entry: path, whether it is a regular file, extension as text, size if known.\<close>

record dir_entry =
  de_path :: string
  de_is_file :: bool
  de_extension :: "string option"
  de_size :: "nat option"

text \<open>\<open>read_dir\<close> can fail, and so can each entry (\<open>None\<close>).\<close>

fun discover_entries :: "string \<Rightarrow> dir_entry option list \<Rightarrow> firehol_parse_error + (string \<times> nat) list" where
  "discover_entries dir [] = Inr []"
| "discover_entries dir (None # es) = Inl (Io dir Io_Failed)"
| "discover_entries dir (Some e # es) =
     (case discover_entries dir es of
        Inl err \<Rightarrow> Inl err
      | Inr files \<Rightarrow>
          if de_is_file e \<and> (de_extension e = Some ''ipset'' \<or> de_extension e = Some ''netset'')
          then Inr ((de_path e, case de_size e of Some n \<Rightarrow> n | None \<Rightarrow> 0) # files)
          else Inr files)"

definition discover_files :: "string \<Rightarrow> dir_entry option list option \<Rightarrow> firehol_parse_error + (string \<times> nat) list" where
  "discover_files dir listing =
     (case listing of None \<Rightarrow> Inl (Io dir Io_Failed) | Some es \<Rightarrow> discover_entries dir es)"

subsection \<open>The consumer\<close>

record 'db import_state =
  im_sequence :: nat
  im_writer :: "'db bulk_writer option"
  im_entries :: "firehol_entry list"

text \<open>\<open>u32::try_from(sequence + offset + 1)\<close> for every entry of a batch.\<close>

fun assign_ids :: "nat \<Rightarrow> firehol_entry list \<Rightarrow> firehol_parse_error + firehol_entry list" where
  "assign_ids seq [] = Inr []"
| "assign_ids seq (e # es) =
     (if int (seq + 1) \<ge> 2 ^ 32 then Inl (WorkerPanic ''FireHOL rule ID overflow'')
      else case assign_ids (seq + 1) es of
        Inl err \<Rightarrow> Inl err
      | Inr es' \<Rightarrow> Inr (e\<lparr>fe_rule_id := of_nat (seq + 1)\<rparr> # es'))"

definition consume_batch ::
  "'db rocks_ops \<Rightarrow> bool \<Rightarrow> firehol_entry list \<Rightarrow> 'db import_state \<Rightarrow> firehol_parse_error + 'db import_state" where
  "consume_batch R spool batch st =
     (case assign_ids (im_sequence st) batch of
        Inl err \<Rightarrow> Inl err
      | Inr entries \<Rightarrow>
          (case (case im_writer st of
                   None \<Rightarrow> Inr None
                 | Some w \<Rightarrow> map_sum id Some (bulk_entries R entries (im_sequence st) spool w)) of
             Inl err \<Rightarrow> Inl Cache_Failed
           | Inr w \<Rightarrow>
               Inr \<lparr>im_sequence = im_sequence st + length entries, im_writer = w,
                    im_entries = (if \<not> spool \<or> im_writer st = None then im_entries st @ entries
                                  else im_entries st)\<rparr>))"

fun consume_all ::
  "'db rocks_ops \<Rightarrow> bool \<Rightarrow> firehol_entry list list \<Rightarrow> 'db import_state \<Rightarrow> firehol_parse_error + 'db import_state" where
  "consume_all R spool [] st =
     (case im_writer st of
        None \<Rightarrow> Inr st
      | Some w \<Rightarrow> (case bulk_commit R w of
                     Inl err \<Rightarrow> Inl Cache_Failed | Inr w' \<Rightarrow> Inr (st\<lparr>im_writer := Some w'\<rparr>)))"
| "consume_all R spool (b # bs) st =
     (case consume_batch R spool b st of Inl err \<Rightarrow> Inl err | Inr st' \<Rightarrow> consume_all R spool bs st')"

text \<open>
  Joining the workers: the consumer's own failure wins, then the first failing worker in
  spawn order; \<open>None\<close> is a worker that panicked.  \<open>wo_\<close> is \<open>WorkerOutput\<close>.
\<close>

record worker_output =
  wo_metadata :: "firehol_metadata list"
  wo_files :: nat
  wo_bytes :: nat

record join_state =
  js_metadata :: "firehol_metadata list"
  js_files :: nat
  js_bytes :: nat
  js_failure :: "firehol_parse_error option"

definition join_worker :: "(firehol_parse_error + worker_output) option \<Rightarrow> join_state \<Rightarrow> join_state" where
  "join_worker h st =
     (case h of
        Some (Inr w) \<Rightarrow> st\<lparr>js_metadata := js_metadata st @ wo_metadata w, js_files := js_files st + wo_files w,
                           js_bytes := js_bytes st + wo_bytes w\<rparr>
      | Some (Inl e) \<Rightarrow> if js_failure st = None then st\<lparr>js_failure := Some e\<rparr> else st
      | None \<Rightarrow> if js_failure st = None then st\<lparr>js_failure := Some (WorkerPanic ''panic'')\<rparr> else st)"

definition join_workers ::
  "firehol_parse_error option \<Rightarrow> (firehol_parse_error + worker_output) option list \<Rightarrow>
   firehol_parse_error + join_state" where
  "join_workers consume_err handles =
     (let st = fold join_worker handles
                 \<lparr>js_metadata = [], js_files = 0, js_bytes = 0, js_failure = consume_err\<rparr>
      in case js_failure st of Some e \<Rightarrow> Inl e | None \<Rightarrow> Inr st)"

subsection \<open>The data set\<close>

text \<open>The spool as the cursor delivers it: the values in key order and the cursor's final status.\<close>

record firehol_dataset =
  ds_entries :: "firehol_entry list"
  ds_stored_entries :: "(bytes list \<times> bool) option"
  ds_total_files :: nat
  ds_total_bytes :: nat
  ds_exact_v4_count :: nat
  ds_exact_v6_count :: nat
  ds_lpm_v4_count :: nat
  ds_lpm_v6_count :: nat

definition total_hashmap_entries :: "firehol_dataset \<Rightarrow> nat" where
  "total_hashmap_entries d = ds_exact_v4_count d + ds_exact_v6_count d"

definition total_lpm_entries :: "firehol_dataset \<Rightarrow> nat" where
  "total_lpm_entries d = ds_lpm_v4_count d + ds_lpm_v6_count d"

definition total_entries :: "firehol_dataset \<Rightarrow> nat" where
  "total_entries d =
     (if ds_stored_entries d \<noteq> None then total_hashmap_entries d + total_lpm_entries d
      else length (ds_entries d))"

definition ds_is_empty :: "firehol_dataset \<Rightarrow> bool" where
  "ds_is_empty d = (total_entries d = 0)"

fun visit_each :: "('a \<Rightarrow> 's \<Rightarrow> 'e + 's) \<Rightarrow> 'a list \<Rightarrow> 's \<Rightarrow> 'e + 's" where
  "visit_each f [] s = Inr s"
| "visit_each f (x # xs) s = (case f x s of Inl e \<Rightarrow> Inl e | Inr s' \<Rightarrow> visit_each f xs s')"

text \<open>\<open>as_chunks::<30>().0\<close>: the full 30-byte pieces.\<close>

fun chunks30 :: "bytes \<Rightarrow> bytes list" where
  "chunks30 b = (if length b < 30 then [] else take 30 b # chunks30 (drop 30 b))"

declare chunks30.simps [simp del]

definition visit_block ::
  "(firehol_entry \<Rightarrow> 's \<Rightarrow> cache_error + 's) \<Rightarrow> bytes \<Rightarrow> 's \<Rightarrow> cache_error + 's" where
  "visit_block visitor b s =
     (if b = [] \<or> length b mod 30 \<noteq> 0 then Inl InvalidSpoolBlock
      else visit_each (\<lambda>encoded s. case decode encoded of Inl e \<Rightarrow> Inl e | Inr entry \<Rightarrow> visitor entry s)
             (chunks30 b) s)"

definition visit_values :: "(bytes \<Rightarrow> 's \<Rightarrow> cache_error + 's) \<Rightarrow> bytes list \<times> bool \<Rightarrow> 's \<Rightarrow> cache_error + 's" where
  "visit_values f vs s =
     (case visit_each f (fst vs) s of
        Inl e \<Rightarrow> Inl e | Inr s' \<Rightarrow> if snd vs then Inr s' else Inl ScanFailed)"

definition visit_entries ::
  "firehol_dataset \<Rightarrow> (firehol_entry \<Rightarrow> 's \<Rightarrow> cache_error + 's) \<Rightarrow> 's \<Rightarrow> cache_error + 's" where
  "visit_entries d visitor s =
     (case ds_stored_entries d of
        Some vs \<Rightarrow> visit_values (visit_block visitor) vs s
      | None \<Rightarrow> visit_each visitor (ds_entries d) s)"

text \<open>The counters over all entries: exact IPv4, exact IPv6, IPv4 networks, IPv6 networks.\<close>

fun count_entry :: "firehol_entry \<Rightarrow> nat \<times> nat \<times> nat \<times> nat \<Rightarrow> cache_error + nat \<times> nat \<times> nat \<times> nat" where
  "count_entry e (a, b, c, d) =
     Inr (case fe_target e of
            ExactV4 _ \<Rightarrow> (a + 1, b, c, d) | ExactV6 _ \<Rightarrow> (a, b + 1, c, d)
          | CidrV4 _ _ \<Rightarrow> (a, b, c + 1, d) | CidrV6 _ _ \<Rightarrow> (a, b, c, d + 1))"

text \<open>
  The part of \<open>parse_directory_impl\<close> after the pipeline that fills the data set: entries kept
  in memory or read from the spool, totals from the workers, counters from one visit.
\<close>

definition spool_values :: "'db rocks_ops \<Rightarrow> 'db \<Rightarrow> bytes list \<times> bool" where
  "spool_values R db = (let (xs, ok) = db_scan R db ENTRIES in (map snd xs, ok))"

definition build_dataset ::
  "'db rocks_ops \<Rightarrow> bool \<Rightarrow> 'db import_state \<Rightarrow> join_state \<Rightarrow> cache_error + firehol_dataset" where
  "build_dataset R spool st js =
     (let d = \<lparr>ds_entries = im_entries st,
               ds_stored_entries =
                 (if spool then map_option (\<lambda>w. spool_values R (bw_db w)) (im_writer st) else None),
               ds_total_files = js_files js, ds_total_bytes = js_bytes js,
               ds_exact_v4_count = 0, ds_exact_v6_count = 0, ds_lpm_v4_count = 0, ds_lpm_v6_count = 0\<rparr>
      in case visit_entries d count_entry (0, 0, 0, 0) of
        Inl e \<Rightarrow> Inl e
      | Inr (a, b, c, e) \<Rightarrow>
          Inr (d\<lparr>ds_exact_v4_count := a, ds_exact_v6_count := b, ds_lpm_v4_count := c, ds_lpm_v6_count := e\<rparr>))"

subsection \<open>Rule identifiers\<close>

definition number :: "nat \<Rightarrow> firehol_entry list \<Rightarrow> firehol_entry list" where
  "number seq es = map (\<lambda>(i, e). e\<lparr>fe_rule_id := of_nat (i + 1)\<rparr>) (enumerate seq es)"

lemma number_simps [simp]:
  "number seq [] = []" "number seq (e # es) = e\<lparr>fe_rule_id := of_nat (seq + 1)\<rparr> # number (Suc seq) es"
  by (simp_all add: number_def)

lemma length_number [simp]: "length (number seq es) = length es"
  by (simp add: number_def)

lemma number_append: "number seq (es @ fs) = number seq es @ number (seq + length es) fs"
  by (induction es arbitrary: seq) simp_all

lemma targets_number: "map fe_target (number seq es) = map fe_target es"
  by (induction es arbitrary: seq) simp_all

lemma unat_of_nat_u32: "n < 2 ^ 32 \<Longrightarrow> unat (of_nat n :: u32) = n"
  by (simp add: unsigned_of_nat take_bit_nat_eq_self)

lemma int_less_u32: "int n < 2 ^ 32 \<Longrightarrow> n < 2 ^ 32"
  by simp

lemma assign_ids_eq:
  "assign_ids seq es =
   (if es = [] \<or> int (seq + length es) < 2 ^ 32 then Inr (number seq es)
    else Inl (WorkerPanic ''FireHOL rule ID overflow''))"
  by (induction es arbitrary: seq) auto

lemma consume_memory:
  "consume_all R spool bs \<lparr>im_sequence = seq, im_writer = None, im_entries = es\<rparr> =
   (if concat bs = [] \<or> int (seq + length (concat bs)) < 2 ^ 32
    then Inr \<lparr>im_sequence = seq + length (concat bs), im_writer = None, im_entries = es @ number seq (concat bs)\<rparr>
    else Inl (WorkerPanic ''FireHOL rule ID overflow''))"
proof (induction bs arbitrary: seq es)
  case (Cons b bs)
  then show ?case
    by (cases "b = []"; cases "concat bs = []")
      (auto simp: consume_batch_def assign_ids_eq number_append algebra_simps simp del: concat_eq_Nil_conv)
qed simp

text \<open>
  \<^bold>\<open>C30\<close>. Rule identifiers are dense and never wrap.  In whatever order the batches of the
  concurrent workers arrive, the import either numbers all entries 1, 2, 3, ... in
  arrival order and keeps them all, changing nothing but the identifier, or, if there
  are more than 32 bits can number, fails with the overflow error.
\<close>

theorem consume_all_ids:
  "(case consume_all R spool batches \<lparr>im_sequence = 0, im_writer = None, im_entries = []\<rparr> of
      Inr st \<Rightarrow>
        map fe_rule_id (im_entries st) = map of_nat [1..<length (concat batches) + 1] \<and>
        distinct (map fe_rule_id (im_entries st)) \<and> 0 \<notin> set (map fe_rule_id (im_entries st)) \<and>
        map (fe_rule_id_update (\<lambda>_. 0)) (im_entries st) = map (fe_rule_id_update (\<lambda>_. 0)) (concat batches)
    | Inl e \<Rightarrow> e = WorkerPanic ''FireHOL rule ID overflow'' \<and> 2 ^ 32 \<le> int (length (concat batches)))"
proof (cases "concat batches = [] \<or> int (length (concat batches)) < 2 ^ 32")
  case True
  let ?es = "number 0 (concat batches)"
  have ids: "map fe_rule_id (number k es) = map of_nat [k + 1..<k + 1 + length es]" for k es
    by (induction es arbitrary: k) (simp_all add: upt_conv_Cons del: upt_Suc)
  have other: "map (fe_rule_id_update (\<lambda>_. 0)) (number k es) = map (fe_rule_id_update (\<lambda>_. 0)) es" for k es
    by (induction es arbitrary: k) simp_all
  have inj: "inj_on (of_nat :: nat \<Rightarrow> u32) {0..<2 ^ 32}"
    by (rule inj_on_inverseI [where g = unat]) (simp only: atLeastLessThan_iff unat_of_nat_u32)
  have n: "length (concat batches) < 2 ^ 32"
  proof (cases "concat batches = []")
    case False
    with True have "int (length (concat batches)) < 2 ^ 32" by blast
    then show ?thesis by (rule int_less_u32)
  qed (simp only: list.size, simp)
  have "distinct (map (of_nat :: nat \<Rightarrow> u32) [1..<length (concat batches) + 1])"
    using inj_on_subset [OF inj, of "{1..<length (concat batches) + 1}"] n by (simp add: distinct_map del: upt_Suc)
  moreover have "(0 :: u32) \<notin> set (map of_nat [1..<length (concat batches) + 1])"
  proof
    assume "(0 :: u32) \<in> set (map of_nat [1..<length (concat batches) + 1])"
    then obtain i where "(0 :: u32) = of_nat i" "i \<in> {1..<length (concat batches) + 1}"
      by (auto simp del: upt_Suc)
    then have "(0 :: u32) = of_nat i" "0 < i" "i < 2 ^ 32" using n by auto
    then show False using inj_onD [OF inj, of 0 i] by simp
  qed
  ultimately show ?thesis
    using True ids [of 0 "concat batches"] other [of 0 "concat batches"]
    by (simp add: consume_memory del: upt_Suc set_map)
next
  case False
  then show ?thesis by (simp add: consume_memory del: concat_eq_Nil_conv)
qed

subsection \<open>The spool\<close>

fun spool_blocks :: "nat \<Rightarrow> firehol_entry list list \<Rightarrow> (bytes \<times> bytes) list" where
  "spool_blocks seq [] = []"
| "spool_blocks seq (b # bs) =
     (to_be 8 (of_nat seq :: u64), concat (map encode (number seq b))) # spool_blocks (seq + length b) bs"

lemma spool_blocks_keys:
  "[] \<notin> set bs \<Longrightarrow> k \<in> set (map fst (spool_blocks seq bs)) \<Longrightarrow>
   \<exists>n. seq \<le> n \<and> n < seq + length (concat bs) \<and> k = to_be 8 (of_nat n :: u64)"
proof (induction bs arbitrary: seq)
  case (Cons b bs)
  show ?case
  proof (cases "k = to_be 8 (of_nat seq :: u64)")
    case True
    then show ?thesis using Cons.prems by (intro exI [of _ seq]) auto
  next
    case False
    then obtain n where "seq + length b \<le> n" "n < seq + length b + length (concat bs)" "k = to_be 8 (of_nat n :: u64)"
      using Cons.IH [of "seq + length b"] Cons.prems by auto
    then show ?thesis by (intro exI [of _ n]) simp
  qed
qed simp

lemma spool_blocks_sorted:
  "[] \<notin> set bs \<Longrightarrow> seq + length (concat bs) < 2 ^ 64 \<Longrightarrow> sorted_wrt (<) (map fst (spool_blocks seq bs))"
proof (induction bs arbitrary: seq)
  case (Cons b bs)
  have "to_be 8 (of_nat seq :: u64) < k" if k: "k \<in> set (map fst (spool_blocks (seq + length b) bs))" for k
  proof -
    have "[] \<notin> set bs" "0 < length b" using Cons.prems(1) by auto
    from spool_blocks_keys [OF this(1) k] obtain n where "seq + length b \<le> n"
      "n < seq + length b + length (concat bs)" "k = to_be 8 (of_nat n :: u64)" by blast
    moreover have "seq < n" using calculation(1) \<open>0 < length b\<close> by linarith
    moreover have "n < 2 ^ 64" using calculation(2) Cons.prems(2) by simp
    ultimately show ?thesis using to_be_less by blast
  qed
  then show ?case using Cons.IH [of "seq + length b"] Cons.prems by simp
qed simp

text \<open>The blocks written are the blocks the cursor delivers.\<close>

lemma fold_contributions:
  "fold put_content (map (\<lambda>(i, e). contribution (f i) e) xs) ct ENTRIES = ct ENTRIES"
  by (induction xs arbitrary: ct) (auto simp: contribution_def put_content_def)

context rocks_db
begin

lemma consume_spool:
  assumes "invar (bw_db w)" "int (seq + length (concat bs)) < 2 ^ 32" "[] \<notin> set bs"
  shows "\<exists>w'. consume_all R True bs \<lparr>im_sequence = seq, im_writer = Some w, im_entries = es\<rparr> =
      Inr \<lparr>im_sequence = seq + length (concat bs), im_writer = Some w', im_entries = es\<rparr> \<and>
    invar (bw_db w') \<and> content (bw_db w') ENTRIES = staged w ENTRIES ++ map_of (rev (spool_blocks seq bs))"
  using assms
proof (induction bs arbitrary: seq w)
  case Nil
  then show ?case using commit_ok [of w] by auto
next
  case (Cons b bs)
  obtain w1 where w1: "bulk_entries R (number seq b) seq True w = Inr w1" "invar (bw_db w1)"
    "staged w1 ENTRIES = (staged w ENTRIES)(to_be 8 (of_nat seq :: u64) \<mapsto> concat (map encode (number seq b)))"
    using entries_ok [OF Cons.prems(1), of "number seq b" seq True]
    by (auto simp: put_content_def fold_contributions)
  obtain w' where "consume_all R True bs \<lparr>im_sequence = seq + length b, im_writer = Some w1, im_entries = es\<rparr> =
      Inr \<lparr>im_sequence = seq + length b + length (concat bs), im_writer = Some w', im_entries = es\<rparr>"
    "invar (bw_db w')"
    "content (bw_db w') ENTRIES = staged w1 ENTRIES ++ map_of (rev (spool_blocks (seq + length b) bs))"
    using Cons.IH [OF w1(2), of "seq + length b"] Cons.prems by auto
  moreover have "assign_ids seq b = Inr (number seq b)"
    using Cons.prems(2) by (simp add: assign_ids_eq)
  ultimately show ?case
    using w1 by (simp add: consume_batch_def add.assoc map_add_def fun_eq_iff split: option.splits)
qed

lemma spool_scan:
  assumes "invar db" "content db ENTRIES = map_of (rev (spool_blocks seq bs))"
    and "[] \<notin> set bs" "seq + length (concat bs) < 2 ^ 64"
  shows "spool_values R db = (map snd (spool_blocks seq bs), True)"
proof -
  note s = spool_blocks_sorted [OF assms(3,4)]
  have "map_of (spool_blocks seq bs) = content db ENTRIES"
    using s assms(2) by (simp add: map_of_rev strict_sorted_iff)
  from scan_eq [OF assms(1) s this] show ?thesis by (simp add: spool_values_def)
qed

end

subsection \<open>Visiting the spool\<close>

lemma visit_each_append:
  "visit_each f (xs @ ys) s = (case visit_each f xs s of Inl e \<Rightarrow> Inl e | Inr s' \<Rightarrow> visit_each f ys s')"
  by (induction xs arbitrary: s) (auto split: sum.splits)

lemma chunks30_encode:
  assumes "\<forall>e \<in> set es. wf_target (fe_target e)"
  shows "chunks30 (concat (map encode es)) = map encode es \<and> length (concat (map encode es)) = 30 * length es"
  using assms
proof (induction es)
  case Nil
  then show ?case by (simp add: chunks30.simps)
next
  case (Cons e es)
  have "length (encode e) = 30" using encode_inverse Cons.prems by simp
  then show ?case using Cons by (simp add: chunks30.simps [of "encode e @ _"])
qed

lemma visit_block_encode:
  assumes "\<forall>e \<in> set es. wf_target (fe_target e)" "es \<noteq> []"
  shows "visit_block f (concat (map encode es)) s = visit_each f es s"
proof -
  have "concat (map encode es) \<noteq> []"
    using chunks30_encode [OF assms(1)] assms(2) by (metis length_0_conv mult_eq_0_iff zero_neq_numeral)
  moreover have "visit_each (\<lambda>b s. case decode b of Inl e \<Rightarrow> Inl e | Inr x \<Rightarrow> f x s) (map encode es) s = visit_each f es s"
    using assms(1) encode_inverse by (induction es arbitrary: s) (auto split: sum.splits)
  ultimately show ?thesis
    using chunks30_encode [OF assms(1)] by (simp add: visit_block_def del: concat_eq_Nil_conv)
qed

lemma visit_spool:
  assumes "\<forall>e \<in> set (concat bs). wf_target (fe_target e)" "[] \<notin> set bs"
  shows "visit_values (visit_block f) (map snd (spool_blocks seq bs), True) s = visit_each f (number seq (concat bs)) s"
proof -
  have wf: "\<forall>e \<in> set (number q es). wf_target (fe_target e)" if "\<forall>e \<in> set es. wf_target (fe_target e)" for q es
    using that targets_number [of q es] by (metis (no_types, lifting) imageE image_eqI set_map)
  have "visit_each (visit_block f) (map snd (spool_blocks seq bs)) s = visit_each f (number seq (concat bs)) s"
    using assms
  proof (induction bs arbitrary: seq s)
    case (Cons b bs)
    have "number seq b \<noteq> []" using Cons.prems by (metis length_0_conv length_number list.set_intros(1))
    then have "visit_block f (concat (map encode (number seq b))) s = visit_each f (number seq b) s"
      using Cons.prems by (intro visit_block_encode wf) auto
    then show ?case using Cons by (auto simp: number_append visit_each_append split: sum.splits)
  qed simp
  then show ?thesis by (auto simp: visit_values_def split: sum.splits)
qed

text \<open>The counters are right: their sum is the number of entries.\<close>

definition count_kinds :: "firehol_entry list \<Rightarrow> nat \<times> nat \<times> nat \<times> nat" where
  "count_kinds es =
     (length (filter (\<lambda>e. \<exists>a. fe_target e = ExactV4 a) es), length (filter (\<lambda>e. \<exists>a. fe_target e = ExactV6 a) es),
      length (filter (\<lambda>e. \<exists>p a. fe_target e = CidrV4 p a) es), length (filter (\<lambda>e. \<exists>p a. fe_target e = CidrV6 p a) es))"

lemma visit_count:
  "visit_each count_entry es (a, b, c, d) =
   (let (i, j, k, l) = count_kinds es in Inr (a + i, b + j, c + k, d + l))"
proof (induction es arbitrary: a b c d)
  case (Cons e es)
  then show ?case by (cases "fe_target e") (auto simp: count_kinds_def)
qed (simp add: count_kinds_def)

lemma count_kinds_sum:
  "(let (i, j, k, l) = count_kinds es in i + j + (k + l)) = length es"
proof (induction es)
  case (Cons e es)
  then show ?case by (cases "fe_target e") (auto simp: count_kinds_def)
qed (simp add: count_kinds_def)

lemma count_kinds_number: "count_kinds (number seq es) = count_kinds es"
proof -
  have "length (filter (\<lambda>e. P (fe_target e)) (number seq es)) = length (filter (\<lambda>e. P (fe_target e)) es)" for P
    by (induction es arbitrary: seq) auto
  from this [of "\<lambda>t. \<exists>a. t = ExactV4 a"] this [of "\<lambda>t. \<exists>a. t = ExactV6 a"]
    this [of "\<lambda>t. \<exists>p a. t = CidrV4 p a"] this [of "\<lambda>t. \<exists>p a. t = CidrV6 p a"]
  show ?thesis by (simp add: count_kinds_def)
qed

text \<open>
  The disk spool loses nothing.  For all well-formed batches in any arrival order, the
  import that spools its entries to the on-disk cache and the import that keeps them in memory
  produce data sets on which every visitor makes the same calls with the same result; the
  counters agree, and the total is the number of entries imported.
\<close>

lemma spool_equivalent:
  assumes "rocks_db R invar content" "invar db" "content db ENTRIES = Map.empty"
    and "int (length (concat batches)) < 2 ^ 32" "[] \<notin> set batches"
    and "\<forall>e \<in> set (concat batches). wf_target (fe_target e)"
  shows "\<exists>st1 d1 st2 d2.
    consume_all R True batches \<lparr>im_sequence = 0, im_writer = Some (bulk_new db limit), im_entries = []\<rparr> = Inr st1 \<and>
    build_dataset R True st1 js = Inr d1 \<and> ds_stored_entries d1 \<noteq> None \<and>
    consume_all R False batches \<lparr>im_sequence = 0, im_writer = None, im_entries = []\<rparr> = Inr st2 \<and>
    build_dataset R False st2 js = Inr d2 \<and> ds_stored_entries d2 = None \<and>
    visit_entries d1 f s = visit_entries d2 f s \<and>
    total_entries d1 = length (concat batches) \<and> total_entries d2 = length (concat batches) \<and>
    total_hashmap_entries d1 = total_hashmap_entries d2 \<and> total_lpm_entries d1 = total_lpm_entries d2"
proof -
  let ?es = "number 0 (concat batches)"
  have inv: "invar (bw_db (bulk_new db limit))" using assms(2) by (simp add: bulk_new_def)
  have staged: "rocks_db.staged content (bulk_new db limit) ENTRIES = Map.empty"
    using assms(3) by (simp add: rocks_db.staged_def [OF assms(1)] bulk_new_def)
  have "int (0 + length (concat batches)) < 2 ^ 32" using assms(4) by simp
  from rocks_db.consume_spool [OF assms(1) inv this assms(5), of "[]"] obtain w' where w':
    "consume_all R True batches \<lparr>im_sequence = 0, im_writer = Some (bulk_new db limit), im_entries = []\<rparr> =
       Inr \<lparr>im_sequence = length (concat batches), im_writer = Some w', im_entries = []\<rparr>"
    "invar (bw_db w')" "content (bw_db w') ENTRIES = map_of (rev (spool_blocks 0 batches))"
    by (auto simp: staged)
  have "0 + length (concat batches) < 2 ^ 64" using int_less_u32 [OF assms(4)] by simp
  note vals = rocks_db.spool_scan [OF assms(1) w'(2,3) assms(5) this]
  let ?st1 = "\<lparr>im_sequence = length (concat batches), im_writer = Some w', im_entries = []\<rparr>"
  let ?st2 = "\<lparr>im_sequence = length (concat batches), im_writer = None, im_entries = ?es\<rparr>"
  obtain i j k l where n: "count_kinds (concat batches) = (i, j, k, l)" "i + j + (k + l) = length (concat batches)"
    using count_kinds_sum [of "concat batches"] by (cases "count_kinds (concat batches)") auto
  define d where "d stored es = \<lparr>ds_entries = es, ds_stored_entries = stored, ds_total_files = js_files js,
      ds_total_bytes = js_bytes js, ds_exact_v4_count = i, ds_exact_v6_count = j, ds_lpm_v4_count = k,
      ds_lpm_v6_count = l\<rparr>" for stored es
  note visit = visit_spool [OF assms(6,5), of _ 0]
  have b1: "build_dataset R True ?st1 js = Inr (d (Some (map snd (spool_blocks 0 batches), True)) [])"
    by (simp add: build_dataset_def vals visit_entries_def visit visit_count count_kinds_number n(1) d_def)
  have b2: "build_dataset R False ?st2 js = Inr (d None ?es)"
    by (simp add: build_dataset_def visit_entries_def visit_count count_kinds_number n(1) d_def)
  have c2: "consume_all R False batches \<lparr>im_sequence = 0, im_writer = None, im_entries = []\<rparr> = Inr ?st2"
    using assms(4) by (simp add: consume_memory del: concat_eq_Nil_conv)
  have v: "visit_entries (d (Some (map snd (spool_blocks 0 batches), True)) []) f s = visit_entries (d None ?es) f s"
    by (simp add: visit_entries_def d_def visit)
  show ?thesis
    by (rule exI [of _ ?st1], rule exI [of _ "d (Some (map snd (spool_blocks 0 batches), True)) []"],
        rule exI [of _ ?st2], rule exI [of _ "d None ?es"])
      (use w'(1) b1 b2 c2 v n(2) in \<open>simp add: d_def total_entries_def total_hashmap_entries_def total_lpm_entries_def\<close>)
qed

definition demo_entry :: firehol_entry where
  "demo_entry = entry_new (ExactV4 [192, 0, 2, 1]) 0 1 7"

lemma spool_equivalent_example:
  "\<exists>st d. consume_all sst_ops True [[demo_entry]]
      \<lparr>im_sequence = 0, im_writer = Some (bulk_new (\<lambda>_. []) 0), im_entries = []\<rparr> = Inr st \<and>
    build_dataset sst_ops True st \<lparr>js_metadata = [], js_files = 1, js_bytes = 10, js_failure = None\<rparr> = Inr d \<and>
    ds_stored_entries d \<noteq> None \<and> total_entries d = 1"
  using spool_equivalent [OF sst.rocks_db_axioms, of "\<lambda>_. []" "[[demo_entry]]" 0
      "\<lparr>js_metadata = [], js_files = 1, js_bytes = 10, js_failure = None\<rparr>" "\<lambda>e s. Inr s" "()"]
  by (auto simp: sst_invar_def sst_content_def demo_entry_def entry_new_def)

end
