(* ===== verification/Firehol_Registry.thy ===== *)
theory Firehol_Registry
  imports Firehol_Dataset
begin

section \<open>The metadata registry\<close>

text \<open>
  Models \<open>FireholMetadataRegistry\<close> of \<open>src/firehol/metadata.rs\<close> in both of its modes: everything
  in memory, or the verbose data in the on-disk cache.  Hash maps are association lists
  whose order stands for the unspecified iteration order.  The database is the field
  \<open>rg_cache\<close>; operations that write to it return the updated registry.
\<close>

subsection \<open>State\<close>

record firehol_rule_info =
  ri_rule_id :: u32
  ri_metadata_id :: u32
  ri_category :: firehol_category
  ri_line :: u32

record rule_block_entry =
  be_metadata_id :: u32
  be_category :: firehol_category
  be_line :: u32
  be_block :: "rule_block_context option"

record 'db registry =
  rg_cache :: "'db option"
  rg_metadata_light :: "(u32 \<times> (firehol_category \<times> string)) list"
  rg_metadata_by_id :: "(u32 \<times> firehol_metadata) list"
  rg_rules :: "rule_block_entry list"
  rg_rules_cache :: "(u32 \<times> u32) list"
  rg_rule_count :: nat
  rg_category_counts :: "(firehol_category \<times> nat) list"
  rg_blocklist_counts :: "(string \<times> nat) list"
  rg_ip_index_v4_exact :: "(bytes \<times> rule_block_context) list"
  rg_ip_index_v6_exact :: "(bytes \<times> rule_block_context) list"
  rg_ip_index_v4_lpm :: "(u8 \<times> bytes \<times> rule_block_context) list"
  rg_ip_index_v6_lpm :: "(u8 \<times> bytes \<times> rule_block_context) list"

definition rg_new :: "'db registry" where
  "rg_new = \<lparr>rg_cache = None, rg_metadata_light = [], rg_metadata_by_id = [], rg_rules = [],
     rg_rules_cache = [], rg_rule_count = 0, rg_category_counts = [], rg_blocklist_counts = [],
     rg_ip_index_v4_exact = [], rg_ip_index_v6_exact = [], rg_ip_index_v4_lpm = [], rg_ip_index_v6_lpm = []\<rparr>"

definition rg_with_cache :: "'db \<Rightarrow> 'db registry" where
  "rg_with_cache cache = rg_new\<lparr>rg_cache := Some cache, rg_rules_cache := []\<rparr>"

subsection \<open>Metadata\<close>

definition file_name_for :: "'db registry \<Rightarrow> u32 \<Rightarrow> string option" where
  "file_name_for reg metadata_id =
     (if rg_cache reg \<noteq> None then map_option snd (map_of (rg_metadata_light reg) metadata_id)
      else map_option md_file_name (map_of (rg_metadata_by_id reg) metadata_id))"

definition category_for :: "'db registry \<Rightarrow> u32 \<Rightarrow> firehol_category option" where
  "category_for reg metadata_id =
     (if rg_cache reg \<noteq> None then map_option fst (map_of (rg_metadata_light reg) metadata_id)
      else map_option md_category (map_of (rg_metadata_by_id reg) metadata_id))"

text \<open>\<open>cache.put_metadata\<close>: serialise and write under the big-endian identifier.\<close>

definition put_metadata :: "'db rocks_ops \<Rightarrow> firehol_metadata \<Rightarrow> 'db \<Rightarrow> cache_error + 'db" where
  "put_metadata R m db =
     (case ser_metadata R m of
        None \<Rightarrow> Inl SerializeFailed
      | Some b \<Rightarrow> (case db_write R db [(METADATA, metadata_key (md_id m), b)] of
                     None \<Rightarrow> Inl WriteFailed | Some db' \<Rightarrow> Inr db'))"

definition get_metadata :: "'db rocks_ops \<Rightarrow> 'db \<Rightarrow> u32 \<Rightarrow> cache_error + firehol_metadata option" where
  "get_metadata R db i =
     (case db_get R db METADATA (metadata_key i) of
        None \<Rightarrow> Inl ReadFailed
      | Some None \<Rightarrow> Inr None
      | Some (Some b) \<Rightarrow> (case de_metadata R b of None \<Rightarrow> Inl ReadFailed | Some m \<Rightarrow> Inr (Some m)))"

definition try_register_metadata ::
  "'db rocks_ops \<Rightarrow> firehol_metadata \<Rightarrow> 'db registry \<Rightarrow> cache_error + u32 \<times> 'db registry" where
  "try_register_metadata R metadata reg =
     (let i = md_id metadata in
      case rg_cache reg of
        Some cache \<Rightarrow>
          (case put_metadata R metadata cache of
             Inl e \<Rightarrow> Inl e
           | Inr cache' \<Rightarrow>
               Inr (i, reg\<lparr>rg_cache := Some cache',
                           rg_metadata_light := AList.update i (md_category metadata, md_file_name metadata)
                             (rg_metadata_light reg)\<rparr>))
      | None \<Rightarrow> Inr (i, reg\<lparr>rg_metadata_by_id := AList.update i metadata (rg_metadata_by_id reg)\<rparr>))"

text \<open>A failure is only logged.\<close>

definition register_metadata ::
  "'db rocks_ops \<Rightarrow> firehol_metadata \<Rightarrow> 'db registry \<Rightarrow> u32 \<times> 'db registry" where
  "register_metadata R metadata reg =
     (case try_register_metadata R metadata reg of
        Inl _ \<Rightarrow> (md_id metadata, reg) | Inr (_, reg') \<Rightarrow> (md_id metadata, reg'))"

definition resolve_metadata :: "'db rocks_ops \<Rightarrow> 'db registry \<Rightarrow> u32 \<Rightarrow> firehol_metadata option" where
  "resolve_metadata R reg metadata_id =
     (case rg_cache reg of
        Some cache \<Rightarrow> (case get_metadata R cache metadata_id of Inl _ \<Rightarrow> None | Inr m \<Rightarrow> m)
      | None \<Rightarrow> map_of (rg_metadata_by_id reg) metadata_id)"

subsection \<open>Rules\<close>

definition empty_block_entry :: rule_block_entry where
  "empty_block_entry = \<lparr>be_metadata_id = 0, be_category = Other, be_line = 0, be_block = None\<rparr>"

text \<open>\<open>Vec::resize\<close> upwards.\<close>

definition grow :: "'a \<Rightarrow> nat \<Rightarrow> 'a list \<Rightarrow> 'a list" where
  "grow x idx xs = (if length xs \<le> idx then xs @ replicate (idx + 1 - length xs) x else xs)"

definition ensure_capacity :: "u32 \<Rightarrow> 'db registry \<Rightarrow> 'db registry" where
  "ensure_capacity rule_id reg = reg\<lparr>rg_rules := grow empty_block_entry (unat rule_id) (rg_rules reg)\<rparr>"

text \<open>\<open>*counts.entry(k).or_insert(0) += n\<close>.\<close>

definition bump :: "'k \<Rightarrow> nat \<Rightarrow> ('k \<times> nat) list \<Rightarrow> ('k \<times> nat) list" where
  "bump k n m = AList.update k ((case map_of m k of Some c \<Rightarrow> c | None \<Rightarrow> 0) + n) m"

definition register_rule :: "firehol_rule_info \<Rightarrow> 'db registry \<Rightarrow> 'db registry" where
  "register_rule rule reg =
     (let file_name = file_name_for reg (ri_metadata_id rule);
          reg = reg\<lparr>rg_category_counts := bump (ri_category rule) 1 (rg_category_counts reg)\<rparr>;
          reg = (case file_name of
                   Some name \<Rightarrow> reg\<lparr>rg_blocklist_counts := bump name 1 (rg_blocklist_counts reg)\<rparr>
                 | None \<Rightarrow> reg);
          reg = (if rg_cache reg \<noteq> None
                 then let idx = unat (ri_rule_id rule) in
                   reg\<lparr>rg_rules_cache :=
                         (grow (0, 0) idx (rg_rules_cache reg))[idx := (ri_metadata_id rule, ri_line rule)]\<rparr>
                 else let reg = ensure_capacity (ri_rule_id rule) reg in
                   reg\<lparr>rg_rules := (rg_rules reg)[unat (ri_rule_id rule) :=
                     \<lparr>be_metadata_id = ri_metadata_id rule, be_category = ri_category rule,
                      be_line = ri_line rule, be_block = None\<rparr>]\<rparr>)
      in reg\<lparr>rg_rule_count := rg_rule_count reg + 1\<rparr>)"

definition register_cached_entry :: "firehol_entry \<Rightarrow> 'db registry \<Rightarrow> 'db registry" where
  "register_cached_entry entry reg =
     (let idx = unat (fe_rule_id entry);
          reg = reg\<lparr>rg_rules_cache :=
                      (grow (0, 0) idx (rg_rules_cache reg))[idx := (fe_metadata_id entry, fe_line entry)]\<rparr>
      in reg\<lparr>rg_rule_count := rg_rule_count reg + 1\<rparr>)"

definition count_cached_metadata :: "u32 \<Rightarrow> nat \<Rightarrow> 'db registry \<Rightarrow> 'db registry" where
  "count_cached_metadata i count reg =
     (case map_of (rg_metadata_light reg) i of
        Some (category, file) \<Rightarrow>
          reg\<lparr>rg_category_counts := bump category count (rg_category_counts reg),
              rg_blocklist_counts := bump file count (rg_blocklist_counts reg)\<rparr>
      | None \<Rightarrow> reg)"

text \<open>\<open>slice.get(i)\<close>.\<close>

definition nth_opt :: "'a list \<Rightarrow> nat \<Rightarrow> 'a option" where
  "nth_opt xs i = (if i < length xs then Some (xs ! i) else None)"

definition resolve_rule :: "'db registry \<Rightarrow> u32 \<Rightarrow> rule_block_entry option" where
  "resolve_rule reg rule_id =
     (if rg_cache reg \<noteq> None
      then (case nth_opt (rg_rules_cache reg) (unat rule_id) of
              None \<Rightarrow> None
            | Some (metadata_id, line) \<Rightarrow>
                if metadata_id = 0 then None
                else let category = (case category_for reg metadata_id of Some c \<Rightarrow> c | None \<Rightarrow> Other) in
                  Some \<lparr>be_metadata_id = metadata_id, be_category = category, be_line = line, be_block = None\<rparr>)
      else nth_opt (rg_rules reg) (unat rule_id))"

definition resolve_rule_block :: "'db registry \<Rightarrow> u32 \<Rightarrow> rule_block_context option" where
  "resolve_rule_block reg rule_id =
     (if rg_cache reg \<noteq> None
      then (case nth_opt (rg_rules_cache reg) (unat rule_id) of
              None \<Rightarrow> None
            | Some (metadata_id, line) \<Rightarrow>
                if metadata_id = 0 then None
                else (case file_name_for reg metadata_id of
                        None \<Rightarrow> None
                      | Some file_name \<Rightarrow>
                          let category = (case category_for reg metadata_id of Some c \<Rightarrow> c | None \<Rightarrow> Other) in
                          Some \<lparr>rb_files = [file_name], rb_lines = [line], rb_categories = [category]\<rparr>))
      else (case nth_opt (rg_rules reg) (unat rule_id) of
              None \<Rightarrow> None
            | Some entry \<Rightarrow>
                (case be_block entry of
                   Some block \<Rightarrow> Some block
                 | None \<Rightarrow>
                     (case map_of (rg_metadata_by_id reg) (be_metadata_id entry) of
                        None \<Rightarrow> None
                      | Some meta \<Rightarrow>
                          Some \<lparr>rb_files = [md_file_name meta], rb_lines = [be_line entry],
                                rb_categories = [be_category entry]\<rparr>))))"

subsection \<open>Contexts\<close>

text \<open>Files with their lines are added once; so are categories.\<close>

definition push_file :: "string \<Rightarrow> u32 \<Rightarrow> rule_block_context \<Rightarrow> rule_block_context" where
  "push_file file line ctx =
     (if (file, line) \<in> set (zip (rb_files ctx) (rb_lines ctx)) then ctx
      else ctx\<lparr>rb_files := rb_files ctx @ [file], rb_lines := rb_lines ctx @ [line]\<rparr>)"

definition push_category :: "firehol_category \<Rightarrow> rule_block_context \<Rightarrow> rule_block_context" where
  "push_category category ctx =
     (if category \<in> set (rb_categories ctx) then ctx
      else ctx\<lparr>rb_categories := rb_categories ctx @ [category]\<rparr>)"

text \<open>\<open>by_target.entry(target).or_default().push(x)\<close>.\<close>

definition group_push :: "'k \<Rightarrow> 'v \<Rightarrow> ('k \<times> 'v list) list \<Rightarrow> ('k \<times> 'v list) list" where
  "group_push k v m = AList.update k ((case map_of m k of Some vs \<Rightarrow> vs | None \<Rightarrow> []) @ [v]) m"

definition add_rule_source :: "'db registry \<Rightarrow> u32 \<Rightarrow> rule_block_context \<Rightarrow> rule_block_context" where
  "add_rule_source reg rid ctx =
     (case nth_opt (rg_rules reg) (unat rid) of
        None \<Rightarrow> ctx
      | Some entry \<Rightarrow>
          let ctx = (case map_of (rg_metadata_by_id reg) (be_metadata_id entry) of
                       Some meta \<Rightarrow> push_file (md_file_name meta) (be_line entry) ctx | None \<Rightarrow> ctx)
          in push_category (be_category entry) ctx)"

definition set_block :: "rule_block_context \<Rightarrow> u32 \<Rightarrow> rule_block_entry list \<Rightarrow> rule_block_entry list" where
  "set_block context rid rules =
     (case nth_opt rules (unat rid) of
        None \<Rightarrow> rules | Some entry \<Rightarrow> rules[unat rid := entry\<lparr>be_block := Some context\<rparr>])"

definition build_rule_block_index :: "firehol_entry list \<Rightarrow> 'db registry \<Rightarrow> 'db registry" where
  "build_rule_block_index entries reg =
     (if rg_cache reg \<noteq> None then reg
      else let by_target = fold (\<lambda>e. group_push (fe_target e) (fe_rule_id e)) entries [] in
        fold (\<lambda>(t, rule_ids) reg.
                if length rule_ids \<le> 1 then reg
                else let context = fold (add_rule_source reg) rule_ids context_default in
                  reg\<lparr>rg_rules := fold (set_block context) rule_ids (rg_rules reg)\<rparr>)
             by_target reg)"

subsection \<open>The index of addresses\<close>

text \<open>One entry's contribution to the two maps keyed by its target.\<close>

definition index_entry ::
  "'db registry \<Rightarrow> firehol_entry \<Rightarrow>
   (firehol_ip_target \<times> (string \<times> u32) list) list \<times> (firehol_ip_target \<times> firehol_category list) list \<Rightarrow>
   (firehol_ip_target \<times> (string \<times> u32) list) list \<times> (firehol_ip_target \<times> firehol_category list) list" where
  "index_entry reg entry maps =
     (let (files_by_target, cats_by_target) = maps; target = fe_target entry in
      case map_of (rg_metadata_by_id reg) (fe_metadata_id entry) of
        None \<Rightarrow> maps
      | Some meta \<Rightarrow>
          let files = (case map_of files_by_target target of Some fs \<Rightarrow> fs | None \<Rightarrow> []);
              files = (if (md_file_name meta, fe_line entry) \<in> set files then files
                       else files @ [(md_file_name meta, fe_line entry)]);
              cats = (case map_of cats_by_target target of Some cs \<Rightarrow> cs | None \<Rightarrow> []);
              cats = (if md_category meta \<in> set cats then cats else cats @ [md_category meta])
          in (AList.update target files files_by_target, AList.update target cats cats_by_target))"

definition store_context :: "firehol_ip_target \<Rightarrow> rule_block_context \<Rightarrow> 'db registry \<Rightarrow> 'db registry" where
  "store_context target context reg =
     (case target of
        ExactV4 a \<Rightarrow> reg\<lparr>rg_ip_index_v4_exact := AList.update a context (rg_ip_index_v4_exact reg)\<rparr>
      | ExactV6 a \<Rightarrow> reg\<lparr>rg_ip_index_v6_exact := AList.update a context (rg_ip_index_v6_exact reg)\<rparr>
      | CidrV4 prefix net \<Rightarrow> reg\<lparr>rg_ip_index_v4_lpm := rg_ip_index_v4_lpm reg @ [(ucast prefix, net, context)]\<rparr>
      | CidrV6 prefix net \<Rightarrow> reg\<lparr>rg_ip_index_v6_lpm := rg_ip_index_v6_lpm reg @ [(ucast prefix, net, context)]\<rparr>)"

definition get_rule_context :: "'db rocks_ops \<Rightarrow> 'db \<Rightarrow> bytes \<Rightarrow> cache_error + rule_block_context option" where
  "get_rule_context R db key =
     (case db_get R db RULE_CONTEXT key of
        None \<Rightarrow> Inl ReadFailed
      | Some None \<Rightarrow> Inr None
      | Some (Some b) \<Rightarrow> (case de_context R b of None \<Rightarrow> Inl ReadFailed | Some c \<Rightarrow> Inr (Some c)))"

text \<open>Merging a batch of entries with the contexts already on disk.\<close>

fun merge_contexts ::
  "'db rocks_ops \<Rightarrow> 'db \<Rightarrow> (u32 \<Rightarrow> (firehol_category \<times> string) option) \<Rightarrow> firehol_entry list \<Rightarrow>
   (firehol_ip_target \<times> rule_block_context) list \<Rightarrow>
   cache_error + (firehol_ip_target \<times> rule_block_context) list" where
  "merge_contexts R db light [] contexts = Inr contexts"
| "merge_contexts R db light (entry # es) contexts =
     (case light (fe_metadata_id entry) of
        None \<Rightarrow> merge_contexts R db light es contexts
      | Some (category, file) \<Rightarrow>
          (case (case map_of contexts (fe_target entry) of
                   Some ctx \<Rightarrow> Inr ctx
                 | None \<Rightarrow> (case get_rule_context R db (context_key (fe_target entry)) of
                              Inl e \<Rightarrow> Inl e
                            | Inr c \<Rightarrow> Inr (case c of Some ctx \<Rightarrow> ctx | None \<Rightarrow> context_default))) of
             Inl e \<Rightarrow> Inl e
           | Inr ctx \<Rightarrow>
               merge_contexts R db light es
                 (AList.update (fe_target entry)
                    (push_category category (push_file file (fe_line entry) ctx)) contexts)))"

fun serialize_contexts ::
  "'db rocks_ops \<Rightarrow> (bytes \<times> rule_block_context) list \<Rightarrow> cache_error + (col_family \<times> bytes \<times> bytes) list" where
  "serialize_contexts R [] = Inr []"
| "serialize_contexts R ((key, ctx) # cs) =
     (case ser_context R ctx of
        None \<Rightarrow> Inl SerializeFailed
      | Some b \<Rightarrow> (case serialize_contexts R cs of
                     Inl e \<Rightarrow> Inl e | Inr ws \<Rightarrow> Inr ((RULE_CONTEXT, key, b) # ws)))"

definition cache_entry_contexts ::
  "'db rocks_ops \<Rightarrow> (u32 \<Rightarrow> (firehol_category \<times> string) option) \<Rightarrow> firehol_entry list \<Rightarrow> 'db \<Rightarrow> cache_error + 'db" where
  "cache_entry_contexts R light entries db =
     (case merge_contexts R db light entries [] of
        Inl e \<Rightarrow> Inl e
      | Inr contexts \<Rightarrow>
          (case serialize_contexts R (map (\<lambda>(t, c). (context_key t, c)) contexts) of
             Inl e \<Rightarrow> Inl e
           | Inr batch \<Rightarrow> (case db_write R db batch of None \<Rightarrow> Inl WriteFailed | Some db' \<Rightarrow> Inr db')))"

text \<open>The loop over chunks stops (with a warning) at the first error.\<close>

fun cache_chunks ::
  "'db rocks_ops \<Rightarrow> (u32 \<Rightarrow> (firehol_category \<times> string) option) \<Rightarrow> firehol_entry list list \<Rightarrow> 'db \<Rightarrow> 'db" where
  "cache_chunks R light [] db = db"
| "cache_chunks R light (batch # batches) db =
     (case cache_entry_contexts R light batch db of
        Inl _ \<Rightarrow> db | Inr db' \<Rightarrow> cache_chunks R light batches db')"

fun chunks_of :: "nat \<Rightarrow> 'a list \<Rightarrow> 'a list list" where
  "chunks_of n xs = (if xs = [] \<or> n = 0 then [] else take n xs # chunks_of n (drop n xs))"

declare chunks_of.simps [simp del]

definition build_ip_index :: "'db rocks_ops \<Rightarrow> firehol_entry list \<Rightarrow> 'db registry \<Rightarrow> 'db registry" where
  "build_ip_index R entries reg =
     (case rg_cache reg of
        Some cache \<Rightarrow>
          reg\<lparr>rg_cache := Some (cache_chunks R (map_of (rg_metadata_light reg))
                                  (chunks_of WORKER_BATCH_SIZE entries) cache)\<rparr>
      | None \<Rightarrow>
          let reg = reg\<lparr>rg_ip_index_v4_exact := [], rg_ip_index_v6_exact := [],
                        rg_ip_index_v4_lpm := [], rg_ip_index_v6_lpm := []\<rparr>;
              (files_by_target, cats_by_target) = fold (index_entry reg) entries ([], [])
          in fold (\<lambda>(target, files) reg.
                     let cats = (case map_of cats_by_target target of Some cs \<Rightarrow> cs | None \<Rightarrow> []);
                         context = \<lparr>rb_files = map fst files, rb_lines = map snd files, rb_categories = cats\<rparr>
                     in store_context target context reg)
                  files_by_target reg)"

text \<open>The pass over the sorted contributions: the current target, its context, and the writer.\<close>

record 'db ordered_state =
  os_current :: bytes
  os_context :: rule_block_context
  os_writer :: "'db bulk_writer"

definition emit_context ::
  "'db rocks_ops \<Rightarrow> 'db ordered_state \<Rightarrow> cache_error + 'db ordered_state" where
  "emit_context R st =
     (case ser_context R (os_context st) of
        None \<Rightarrow> Inl SerializeFailed
      | Some b \<Rightarrow> (case bulk_put R RULE_CONTEXT (os_current st) b (os_writer st) of
                     Inl e \<Rightarrow> Inl e | Inr w \<Rightarrow> Inr (st\<lparr>os_writer := w\<rparr>)))"

definition valid_contribution :: "bytes \<Rightarrow> bytes \<Rightarrow> bool" where
  "valid_contribution key val \<longleftrightarrow>
     (let len = length key - 8 in
      length val = 8 \<and> key \<noteq> [] \<and>
      (hd key, len) \<in> {(1, 5), (2, 17), (3, 6), (4, 18)})"

definition ordered_step ::
  "'db rocks_ops \<Rightarrow> (u32 \<Rightarrow> (firehol_category \<times> string) option) \<Rightarrow> bytes \<times> bytes \<Rightarrow> 'db ordered_state \<Rightarrow>
   cache_error + 'db ordered_state" where
  "ordered_step R light kv st =
     (let (key, val) = kv; len = length key - 8 in
      if \<not> valid_contribution key val then Inl InvalidContribution
      else let target = take len key in
        (case (if os_current st \<noteq> target
               then (case (if os_current st \<noteq> [] then emit_context R st else Inr st) of
                       Inl e \<Rightarrow> Inl e
                     | Inr st \<Rightarrow> Inr (st\<lparr>os_context := context_default, os_current := target\<rparr>))
               else Inr st) of
           Inl e \<Rightarrow> Inl e
         | Inr st \<Rightarrow>
             let metadata_id = from_be (take 4 val); line = from_be (take 4 (drop 4 val)) in
             (case light metadata_id of
                None \<Rightarrow> Inl UnknownMetadata
              | Some (category, file) \<Rightarrow>
                  Inr (st\<lparr>os_context := push_category category (push_file file line (os_context st))\<rparr>))))"

definition build_ordered_contexts ::
  "'db rocks_ops \<Rightarrow> 'db registry \<Rightarrow> 'db bulk_writer \<Rightarrow> cache_error + 'db bulk_writer" where
  "build_ordered_contexts R reg writer =
     (let (pairs, ok) = db_scan R (bw_db writer) CONTRIBUTIONS in
      case visit_each (ordered_step R (map_of (rg_metadata_light reg))) pairs
             \<lparr>os_current = [], os_context = context_default, os_writer = writer\<rparr> of
        Inl e \<Rightarrow> Inl e
      | Inr st \<Rightarrow>
          if \<not> ok then Inl ScanFailed
          else if os_current st \<noteq> [] then map_sum id os_writer (emit_context R st)
          else Inr (os_writer st))"

subsection \<open>Lookup by address\<close>

definition cached_contexts :: "'db rocks_ops \<Rightarrow> 'db \<Rightarrow> bytes list \<Rightarrow> rule_block_context list" where
  "cached_contexts R db keys =
     List.map_filter (\<lambda>key. case get_rule_context R db key of Inr c \<Rightarrow> c | Inl _ \<Rightarrow> None) keys"

definition lookup_ip_v4 :: "'db rocks_ops \<Rightarrow> 'db registry \<Rightarrow> bytes \<Rightarrow> rule_block_context list" where
  "lookup_ip_v4 R reg ip =
     (if length ip \<noteq> 4 then []
      else case rg_cache reg of
        Some cache \<Rightarrow>
          cached_contexts R cache
            (ctx_key_v4_exact ip #
             map (\<lambda>n. let prefix = of_nat n in ctx_key_v4_lpm prefix (mask_v4 prefix ip)) (rev [0..<33]))
      | None \<Rightarrow>
          (case map_of (rg_ip_index_v4_exact reg) ip of Some ctx \<Rightarrow> [ctx] | None \<Rightarrow> []) @
          List.map_filter (\<lambda>(prefix, net, ctx). if prefix_contains_v4 prefix net ip then Some ctx else None)
            (rg_ip_index_v4_lpm reg))"

text \<open>The IPv6 prefix test can panic on a prefix out of range.\<close>

fun filter_v6 ::
  "bytes \<Rightarrow> (u8 \<times> bytes \<times> rule_block_context) list \<Rightarrow> (unit, rule_block_context list) outcome" where
  "filter_v6 ip [] = Ok []"
| "filter_v6 ip ((prefix, net, ctx) # xs) =
     (case prefix_contains_v6 prefix net ip of
        Ok hit \<Rightarrow> (case filter_v6 ip xs of Ok cs \<Rightarrow> Ok (if hit then ctx # cs else cs) | r \<Rightarrow> r)
      | Err e \<Rightarrow> Err e | Fault \<Rightarrow> Fault)"

definition lookup_ip_v6 :: "'db rocks_ops \<Rightarrow> 'db registry \<Rightarrow> bytes \<Rightarrow> (unit, rule_block_context list) outcome" where
  "lookup_ip_v6 R reg ip =
     (if length ip \<noteq> 16 then Ok []
      else case rg_cache reg of
        Some cache \<Rightarrow>
          Ok (cached_contexts R cache
            (ctx_key_v6_exact ip #
             map (\<lambda>n. let prefix = of_nat n in ctx_key_v6_lpm prefix (mask_v6 prefix ip)) (rev [0..<129])))
      | None \<Rightarrow>
          (case filter_v6 ip (rg_ip_index_v6_lpm reg) of
             Ok cs \<Rightarrow> Ok ((case map_of (rg_ip_index_v6_exact reg) ip of Some ctx \<Rightarrow> [ctx] | None \<Rightarrow> []) @ cs)
           | r \<Rightarrow> r))"

definition lookup_ip :: "'db rocks_ops \<Rightarrow> 'db registry \<Rightarrow> u8 \<Rightarrow> bytes \<Rightarrow> (unit, rule_block_context list) outcome" where
  "lookup_ip R reg version ip =
     (if version = 4 then Ok (lookup_ip_v4 R reg ip)
      else if version = 6 then lookup_ip_v6 R reg ip
      else Ok [])"

definition rg_is_empty :: "'db registry \<Rightarrow> bool" where
  "rg_is_empty reg = (rg_rule_count reg = 0)"

definition rg_total_rules :: "'db registry \<Rightarrow> nat" where
  "rg_total_rules reg = rg_rule_count reg"

definition rg_total_blocklists :: "'db registry \<Rightarrow> nat" where
  "rg_total_blocklists reg = length (rg_blocklist_counts reg)"

end
