(* ===== verification/Firehol_Index.thy ===== *)
theory Firehol_Index
  imports Firehol_Registry
begin

section \<open>The address index\<close>

text \<open>
  The specification of the index of \<open>Firehol_Registry\<close>, and the proof that both modes implement
  it.  \<open>context_of\<close> is what is known about one target: the files and lines that list it, each
  once and in order, and the categories.  The in-memory index and the pass over the sorted
  contributions on disk both store this context for every target, so lookups by address agree,
  except for the IPv6 networks \<open>mask_v6\<close> misses.
\<close>

subsection \<open>Contexts of targets\<close>

type_synonym light = "u32 \<Rightarrow> (firehol_category \<times> string) option"

definition add_source :: "light \<Rightarrow> firehol_entry \<Rightarrow> rule_block_context \<Rightarrow> rule_block_context" where
  "add_source light e ctx =
     (case light (fe_metadata_id e) of
        None \<Rightarrow> ctx | Some (category, file) \<Rightarrow> push_category category (push_file file (fe_line e) ctx))"

definition context_of :: "light \<Rightarrow> firehol_entry list \<Rightarrow> firehol_ip_target \<Rightarrow> rule_block_context" where
  "context_of light es t = fold (add_source light) (filter (\<lambda>e. fe_target e = t) es) context_default"

definition indexed :: "light \<Rightarrow> firehol_entry list \<Rightarrow> firehol_ip_target set" where
  "indexed light es = fe_target ` {e \<in> set es. light (fe_metadata_id e) \<noteq> None}"

lemma context_of_Nil [simp]: "context_of light [] t = context_default"
  by (simp add: context_of_def)

lemma context_of_snoc [simp]:
  "context_of light (es @ [e]) t =
   (if fe_target e = t then add_source light e (context_of light es t) else context_of light es t)"
  by (simp add: context_of_def)

lemma indexed_Nil [simp]: "indexed light [] = {}"
  by (simp add: indexed_def)

lemma indexed_snoc [simp]:
  "indexed light (es @ [e]) =
   (if light (fe_metadata_id e) = None then indexed light es else insert (fe_target e) (indexed light es))"
  by (auto simp: indexed_def)

lemma context_of_unindexed: "t \<notin> indexed light es \<Longrightarrow> context_of light es t = context_default"
  by (induction es rule: rev_induct) (auto simp: add_source_def split: if_splits)

text \<open>A context lists exactly the sources of its target, each once.\<close>

definition sources :: "rule_block_context \<Rightarrow> (string \<times> u32) list" where
  "sources ctx = zip (rb_files ctx) (rb_lines ctx)"

lemma context_of_spec:
  "length (rb_files (context_of light es t)) = length (rb_lines (context_of light es t)) \<and>
   distinct (sources (context_of light es t)) \<and>
   set (sources (context_of light es t)) =
     {(f, fe_line e) |f e c. e \<in> set es \<and> fe_target e = t \<and> light (fe_metadata_id e) = Some (c, f)} \<and>
   distinct (rb_categories (context_of light es t)) \<and>
   set (rb_categories (context_of light es t)) =
     {c |c e f. e \<in> set es \<and> fe_target e = t \<and> light (fe_metadata_id e) = Some (c, f)}"
proof (induction es rule: rev_induct)
  case Nil
  then show ?case by (simp add: context_default_def sources_def)
next
  case (snoc e es)
  show ?case
  proof (cases "fe_target e = t \<and> light (fe_metadata_id e) \<noteq> None")
    case False
    then have "context_of light (es @ [e]) t = context_of light es t"
      by (auto simp: add_source_def split: option.splits)
    moreover have "{(f, fe_line e') |f e' c. e' \<in> set (es @ [e]) \<and> fe_target e' = t \<and> light (fe_metadata_id e') = Some (c, f)} =
        {(f, fe_line e') |f e' c. e' \<in> set es \<and> fe_target e' = t \<and> light (fe_metadata_id e') = Some (c, f)}"
      using False by auto
    moreover have "{c |c e' f. e' \<in> set (es @ [e]) \<and> fe_target e' = t \<and> light (fe_metadata_id e') = Some (c, f)} =
        {c |c e' f. e' \<in> set es \<and> fe_target e' = t \<and> light (fe_metadata_id e') = Some (c, f)}"
      using False by auto
    ultimately show ?thesis using snoc by simp
  next
    case True
    then obtain c f where l: "light (fe_metadata_id e) = Some (c, f)" "fe_target e = t" by auto
    have "{(f, fe_line e') |f e' c. e' \<in> set (es @ [e]) \<and> fe_target e' = t \<and> light (fe_metadata_id e') = Some (c, f)} =
        insert (f, fe_line e) {(f, fe_line e') |f e' c. e' \<in> set es \<and> fe_target e' = t \<and> light (fe_metadata_id e') = Some (c, f)}"
      using l by auto
    moreover have "{c |c e' f. e' \<in> set (es @ [e]) \<and> fe_target e' = t \<and> light (fe_metadata_id e') = Some (c, f)} =
        insert c {c |c e' f. e' \<in> set es \<and> fe_target e' = t \<and> light (fe_metadata_id e') = Some (c, f)}"
      using l by auto
    ultimately show ?thesis
      using snoc l by (auto simp: add_source_def push_category_def push_file_def sources_def)
  qed
qed

subsection \<open>The index in memory\<close>

definition light_of :: "'db registry \<Rightarrow> light" where
  "light_of reg i = map_option (\<lambda>m. (md_category m, md_file_name m)) (map_of (rg_metadata_by_id reg) i)"

definition grouped ::
  "light \<Rightarrow> firehol_entry list \<Rightarrow>
   (firehol_ip_target \<times> (string \<times> u32) list) list \<times> (firehol_ip_target \<times> firehol_category list) list \<Rightarrow> bool" where
  "grouped light es = (\<lambda>(F, C).
     distinct (map fst F) \<and>
     map_of F = (\<lambda>t. if t \<in> indexed light es then Some (sources (context_of light es t)) else None) \<and>
     map_of C = (\<lambda>t. if t \<in> indexed light es then Some (rb_categories (context_of light es t)) else None))"

lemma index_entry_grouped: "grouped (light_of reg) es (fold (index_entry reg) es ([], []))"
proof (induction es rule: rev_induct)
  case Nil
  then show ?case by (simp add: grouped_def)
next
  case (snoc e es)
  let ?L = "light_of reg" and ?t = "fe_target e"
  obtain F C where FC: "fold (index_entry reg) es ([], []) = (F, C)" by fastforce
  with snoc have g: "grouped ?L es (F, C)" by simp
  show ?case
  proof (cases "map_of (rg_metadata_by_id reg) (fe_metadata_id e)")
    case None
    then have l: "?L (fe_metadata_id e) = None" by (simp add: light_of_def)
    then have c: "context_of ?L (es @ [e]) = context_of ?L es"
      by (intro ext) (simp add: add_source_def)
    have "index_entry reg e (F, C) = (F, C)" using None by (simp add: index_entry_def)
    then show ?thesis using g l by (simp add: FC grouped_def c del: context_of_snoc cong: if_cong)
  next
    case (Some m)
    then have l: "?L (fe_metadata_id e) = Some (md_category m, md_file_name m)" by (simp add: light_of_def)
    let ?ctx = "context_of ?L es ?t"
    have d: "sources ?ctx = []" "rb_categories ?ctx = []" if "?t \<notin> indexed ?L es"
      using context_of_unindexed [OF that] by (simp_all add: context_default_def sources_def)
    have prev: "(case map_of F ?t of Some fs \<Rightarrow> fs | None \<Rightarrow> []) = sources ?ctx"
      "(case map_of C ?t of Some cs \<Rightarrow> cs | None \<Rightarrow> []) = rb_categories ?ctx"
      using g d by (simp_all add: grouped_def)
    have src: "sources (push_category c (push_file f l ctx)) =
        (if (f, l) \<in> set (sources ctx) then sources ctx else sources ctx @ [(f, l)])"
      if "length (rb_files ctx) = length (rb_lines ctx)" for c f l ctx
      using that by (simp add: push_category_def push_file_def sources_def)
    have cat: "rb_categories (push_category c (push_file f l ctx)) =
        (if c \<in> set (rb_categories ctx) then rb_categories ctx else rb_categories ctx @ [c])" for c f l ctx
      by (simp add: push_category_def push_file_def)
    have len: "length (rb_files ?ctx) = length (rb_lines ?ctx)"
      using context_of_spec by blast
    have "index_entry reg e (F, C) =
        (AList.update ?t (sources (context_of ?L (es @ [e]) ?t)) F,
         AList.update ?t (rb_categories (context_of ?L (es @ [e]) ?t)) C)"
      unfolding index_entry_def Let_def prod.case Some option.case(2) prev
      by (simp add: add_source_def l src [OF len] cat)
    then show ?thesis
      using g l by (auto simp: FC grouped_def update_conv' distinct_update fun_eq_iff)
  qed
qed

definition store_all :: "(firehol_ip_target \<times> rule_block_context) list \<Rightarrow> 'db registry \<Rightarrow> 'db registry" where
  "store_all ts reg = fold (\<lambda>(t, c). store_context t c) ts reg"

lemma store_all_same [simp]:
  "rg_cache (store_all ts reg) = rg_cache reg" "rg_rules (store_all ts reg) = rg_rules reg"
  "rg_rule_count (store_all ts reg) = rg_rule_count reg"
  "rg_metadata_by_id (store_all ts reg) = rg_metadata_by_id reg"
  unfolding store_all_def
  by (induction ts arbitrary: reg) (auto simp: store_context_def split: firehol_ip_target.splits)

lemma store_all_fields:
  assumes "rg_ip_index_v4_exact reg = []" "rg_ip_index_v6_exact reg = []"
    and "rg_ip_index_v4_lpm reg = []" "rg_ip_index_v6_lpm reg = []" "distinct (map fst ts)"
  shows "rg_cache (store_all ts reg) = rg_cache reg \<and> rg_rules (store_all ts reg) = rg_rules reg \<and>
    rg_rule_count (store_all ts reg) = rg_rule_count reg \<and>
    rg_metadata_by_id (store_all ts reg) = rg_metadata_by_id reg \<and>
    map_of (rg_ip_index_v4_exact (store_all ts reg)) = (\<lambda>a. map_of ts (ExactV4 a)) \<and>
    map_of (rg_ip_index_v6_exact (store_all ts reg)) = (\<lambda>a. map_of ts (ExactV6 a)) \<and>
    set (rg_ip_index_v4_lpm (store_all ts reg)) = {(ucast p, net, c) |p net c. (CidrV4 p net, c) \<in> set ts} \<and>
    set (rg_ip_index_v6_lpm (store_all ts reg)) = {(ucast p, net, c) |p net c. (CidrV6 p net, c) \<in> set ts}"
  using assms
proof (induction ts rule: rev_induct)
  case Nil
  then show ?case by (simp add: store_all_def)
next
  case (snoc x ts)
  obtain t c where x: "x = (t, c)" by fastforce
  have "map_of ts t = None" using snoc.prems(5) x by (simp add: map_of_eq_None_iff)
  then have m: "map_of (ts @ [(t, c)]) = (map_of ts)(t \<mapsto> c)"
    by (auto simp: fun_eq_iff map_add_def split: option.splits)
  have s: "store_all (ts @ [(t, c)]) reg = store_context t c (store_all ts reg)" by (simp add: store_all_def)
  from snoc show ?case
    unfolding x s m by (cases t) (auto simp: store_context_def update_conv' fun_eq_iff)
qed


text \<open>The stored contexts of all indexed targets, as \<open>build_ip_index\<close> computes them.\<close>

lemma build_ip_index_store:
  assumes "rg_cache reg = None"
  shows "\<exists>ts. build_ip_index R es reg =
      store_all ts (reg\<lparr>rg_ip_index_v4_exact := [], rg_ip_index_v6_exact := [],
        rg_ip_index_v4_lpm := [], rg_ip_index_v6_lpm := []\<rparr>) \<and>
    distinct (map fst ts) \<and>
    map_of ts = (\<lambda>t. if t \<in> indexed (light_of reg) es then Some (context_of (light_of reg) es t) else None)"
proof -
  let ?r = "reg\<lparr>rg_ip_index_v4_exact := [], rg_ip_index_v6_exact := [], rg_ip_index_v4_lpm := [], rg_ip_index_v6_lpm := []\<rparr>"
  let ?L = "light_of reg"
  obtain F C where FC: "fold (index_entry ?r) es ([], []) = (F, C)" by fastforce
  have "light_of ?r = ?L" by (rule ext) (simp add: light_of_def)
  then have g: "grouped ?L es (F, C)" using index_entry_grouped [of ?r es] FC by simp
  define mk where "mk t fs = \<lparr>rb_files = map fst fs, rb_lines = map snd fs,
      rb_categories = (case map_of C t of Some cs \<Rightarrow> cs | None \<Rightarrow> [])\<rparr>" for t and fs :: "(string \<times> u32) list"
  let ?ts = "map (\<lambda>(t, fs). (t, mk t fs)) F"
  have "build_ip_index R es reg = store_all ?ts ?r"
    using assms by (simp add: build_ip_index_def FC store_all_def fold_map mk_def o_def case_prod_unfold)
  moreover have "distinct (map fst ?ts)" using g by (simp add: grouped_def o_def case_prod_unfold)
  moreover have "map_of ?ts t = (if t \<in> indexed ?L es then Some (context_of ?L es t) else None)" for t
  proof -
    have "map_of ?ts t = map_option (mk t) (map_of F t)" by (induction F) auto
    moreover have "mk t (sources (context_of ?L es t)) = context_of ?L es t" if "t \<in> indexed ?L es"
      using g that context_of_spec [of ?L es t] by (simp add: mk_def grouped_def sources_def)
    ultimately show ?thesis using g by (simp add: grouped_def)
  qed
  ultimately show ?thesis by (intro exI [of _ ?ts]) blast
qed

lemma filter_v6_Ok:
  assumes "\<forall>(p, net, c) \<in> set xs. unat p \<le> 128 \<and> length net = 16" "length ip = 16"
  shows "\<exists>cs. filter_v6 ip xs = Ok cs \<and> set cs = {c |p net c. (p, net, c) \<in> set xs \<and> same_prefix (unat p) net ip}"
  using assms
proof (induction xs)
  case (Cons x xs)
  obtain p net c where x: "x = (p, net, c)" by (metis prod_cases3)
  have "\<forall>(p, net, c) \<in> set xs. unat p \<le> 128 \<and> length net = 16"
    using Cons.prems(1) by simp
  from Cons.IH [OF this Cons.prems(2)] obtain cs where "filter_v6 ip xs = Ok cs"
    "set cs = {c |p net c. (p, net, c) \<in> set xs \<and> same_prefix (unat p) net ip}" by blast
  moreover have "prefix_contains_v6 p net ip = Ok (same_prefix (unat p) net ip)"
    using Cons.prems x by (intro prefix_contains_v6_Ok) auto
  ultimately show ?case by (auto simp: x)
qed simp

text \<open>What a lookup should return.\<close>

definition found :: "light \<Rightarrow> firehol_entry list \<Rightarrow> ip_addr \<Rightarrow> rule_block_context set" where
  "found light es ip = context_of light es ` {t \<in> indexed light es. covers t ip}"

lemma set_map_filter_if:
  "set (List.map_filter (\<lambda>(p, n, c). if P p n then Some c else None) xs) = {c |p n c. (p, n, c) \<in> set xs \<and> P p n}"
proof (induction xs)
  case (Cons x xs)
  obtain p n c where x: "x = (p, n, c)" by (metis prod_cases3)
  show ?case unfolding x map_filter_simps prod.case using Cons by (cases "P p n") (simp_all, blast+)
qed (simp add: map_filter_simps)

lemma unat_ucast_prefix: "unat (p :: u32) \<le> 128 \<Longrightarrow> unat (ucast p :: u8) = unat p"
  by (rule unat_ucast_small) simp

lemma ram_lookup:
  assumes "rg_cache reg = None" "\<forall>e \<in> set es. wf_target (fe_target e)"
  shows "length ip4 = 4 \<Longrightarrow> set (lookup_ip_v4 R (build_ip_index R es reg) ip4) = found (light_of reg) es (V4 ip4)"
    and "length ip6 = 16 \<Longrightarrow> \<exists>cs. lookup_ip_v6 R (build_ip_index R es reg) ip6 = Ok cs \<and>
      set cs = found (light_of reg) es (V6 ip6)"
proof -
  let ?L = "light_of reg" and ?r = "build_ip_index R es reg"
  obtain ts where ts: "?r = store_all ts (reg\<lparr>rg_ip_index_v4_exact := [], rg_ip_index_v6_exact := [],
        rg_ip_index_v4_lpm := [], rg_ip_index_v6_lpm := []\<rparr>)" "distinct (map fst ts)"
    "map_of ts = (\<lambda>t. if t \<in> indexed ?L es then Some (context_of ?L es t) else None)"
    using build_ip_index_store [OF assms(1)] by blast
  have f: "rg_cache ?r = None" "map_of (rg_ip_index_v4_exact ?r) a4 = map_of ts (ExactV4 a4)"
    "map_of (rg_ip_index_v6_exact ?r) a6 = map_of ts (ExactV6 a6)"
    "set (rg_ip_index_v4_lpm ?r) = {(ucast p, net, c) |p net c. (CidrV4 p net, c) \<in> set ts}"
    "set (rg_ip_index_v6_lpm ?r) = {(ucast p, net, c) |p net c. (CidrV6 p net, c) \<in> set ts}" for a4 a6
    using store_all_fields [of "reg\<lparr>rg_ip_index_v4_exact := [], rg_ip_index_v6_exact := [],
        rg_ip_index_v4_lpm := [], rg_ip_index_v6_lpm := []\<rparr>" ts] assms(1) ts(1,2) by simp_all
  have mem: "(t, c) \<in> set ts \<longleftrightarrow> t \<in> indexed ?L es \<and> c = context_of ?L es t" for t c
    using ts(2,3) by (simp flip: map_of_eq_Some_iff [OF ts(2)]) auto
  have wf: "wf_target t" if "t \<in> indexed ?L es" for t using assms(2) that by (auto simp: indexed_def)
  show "set (lookup_ip_v4 R ?r ip4) = found ?L es (V4 ip4)" if len: "length ip4 = 4"
  proof -
    have "(\<exists>p net. (p, net, c) \<in> set (rg_ip_index_v4_lpm ?r) \<and> prefix_contains_v4 p net ip4) \<longleftrightarrow>
        (\<exists>p net. CidrV4 p net \<in> indexed ?L es \<and> c = context_of ?L es (CidrV4 p net) \<and> same_prefix (unat p) net ip4)" for c
    proof -
      have "prefix_contains_v4 (ucast p) net ip4 = same_prefix (unat p) net ip4" if "CidrV4 p net \<in> indexed ?L es" for p net
        using wf [OF that] len prefix_contains_v4_iff [of "ucast p" net ip4] by (simp add: unat_ucast_prefix)
      then show ?thesis unfolding f(4) mem by blast
    qed
    moreover have "found ?L es (V4 ip4) =
        {c. ExactV4 ip4 \<in> indexed ?L es \<and> c = context_of ?L es (ExactV4 ip4)} \<union>
        {c. \<exists>p net. CidrV4 p net \<in> indexed ?L es \<and> c = context_of ?L es (CidrV4 p net) \<and> same_prefix (unat p) net ip4}"
      unfolding found_def by (auto simp: image_iff elim!: covers.elims)
    ultimately show ?thesis
      using len by (auto simp: lookup_ip_v4_def f(1,2) ts(3) set_map_filter_if)
  qed
  show "\<exists>cs. lookup_ip_v6 R ?r ip6 = Ok cs \<and> set cs = found ?L es (V6 ip6)" if len: "length ip6 = 16"
  proof -
    have "\<forall>(p, net, c) \<in> set (rg_ip_index_v6_lpm ?r). unat p \<le> 128 \<and> length net = 16"
      unfolding f(5) mem by (auto simp: unat_ucast_prefix dest!: wf)
    from filter_v6_Ok [OF this len] obtain cs where cs: "filter_v6 ip6 (rg_ip_index_v6_lpm ?r) = Ok cs"
      "set cs = {c |p net c. (p, net, c) \<in> set (rg_ip_index_v6_lpm ?r) \<and> same_prefix (unat p) net ip6}" by blast
    have "set cs = {c. \<exists>p net. CidrV6 p net \<in> indexed ?L es \<and> c = context_of ?L es (CidrV6 p net) \<and> same_prefix (unat p) net ip6}"
    proof -
      have "unat (ucast p :: u8) = unat p" if "CidrV6 p net \<in> indexed ?L es" for p net
        using wf [OF that] by (simp add: unat_ucast_prefix)
      then show ?thesis unfolding cs(2) f(5) mem by force
    qed
    moreover have "found ?L es (V6 ip6) =
        {c. ExactV6 ip6 \<in> indexed ?L es \<and> c = context_of ?L es (ExactV6 ip6)} \<union>
        {c. \<exists>p net. CidrV6 p net \<in> indexed ?L es \<and> c = context_of ?L es (CidrV6 p net) \<and> same_prefix (unat p) net ip6}"
      unfolding found_def by (auto simp: image_iff elim!: covers.elims)
    ultimately show ?thesis
      using len cs(1) by (auto simp: lookup_ip_v6_def f(1,3) ts(3))
  qed
qed

subsection \<open>Sorted contributions\<close>

abbreviation tkey :: "nat \<times> firehol_entry \<Rightarrow> bytes" where
  "tkey x \<equiv> context_key (fe_target (snd x))"

definition ckey :: "nat \<times> firehol_entry \<Rightarrow> bytes" where
  "ckey x = tkey x @ to_be 8 (of_nat (fst x) :: u64)"

definition ckv :: "nat \<times> firehol_entry \<Rightarrow> bytes \<times> bytes" where
  "ckv x = (ckey x, drop 22 (encode (snd x)))"

definition by_target :: "firehol_entry list \<Rightarrow> (nat \<times> firehol_entry) list" where
  "by_target es = sort_key ckey (enumerate 0 es)"

lemma contribution_ckv: "contribution i e = (CONTRIBUTIONS, ckv (i, e))"
  by (simp add: contribution_def ckv_def ckey_def)

lemma to_be_inject:
  assumes "m < 2 ^ 64" "n < 2 ^ 64" "to_be 8 (of_nat m :: u64) = to_be 8 (of_nat n :: u64)"
  shows "m = n"
  using assms to_be_less [of m n] to_be_less [of n m] by (metis less_irrefl linorder_neqE_nat)

lemma ckey_inject:
  assumes "fst x < 2 ^ 64" "fst y < 2 ^ 64" "ckey x = ckey y"
  shows "fst x = fst y"
  using assms to_be_inject [of "fst x" "fst y"] by (simp add: ckey_def append_eq_append_conv)

lemma distinct_ckeys:
  assumes "length es < 2 ^ 64"
  shows "distinct (map ckey (enumerate 0 es))"
proof -
  have "inj_on ckey (set (enumerate 0 es))"
  proof (rule inj_onI)
    fix x y assume xy: "x \<in> set (enumerate 0 es)" "y \<in> set (enumerate 0 es)" "ckey x = ckey y"
    then have "fst x < length es" "fst y < length es" "snd x = es ! fst x" "snd y = es ! fst y"
      by (auto simp: in_set_enumerate_eq)
    moreover from this assms have "fst x = fst y" using xy(3) by (intro ckey_inject) auto
    ultimately show "x = y" by (simp add: prod_eq_iff)
  qed
  then show ?thesis by (simp add: distinct_map)
qed

lemma by_target_scan:
  assumes "length es < 2 ^ 64"
  shows "sorted_wrt (<) (map fst (map ckv (by_target es)))"
    and "map_of (map ckv (by_target es)) = map_of (map ckv (enumerate 0 es))"
proof -
  have f: "map fst (map ckv xs) = map ckey xs" for xs by (simp add: ckv_def)
  have "distinct (map ckey (by_target es))"
    using distinct_ckeys [OF assms] by (simp add: by_target_def distinct_map)
  then show s: "sorted_wrt (<) (map fst (map ckv (by_target es)))"
    unfolding f by (simp add: strict_sorted_iff by_target_def)
  show "map_of (map ckv (by_target es)) = map_of (map ckv (enumerate 0 es))"
    using distinct_ckeys [OF assms] \<open>distinct (map ckey (by_target es))\<close>
    by (subst map_of_inject_set) (simp_all only: f, simp add: by_target_def)
qed

lemma ckey_mono:
  assumes "wf_target (fe_target (snd x))" "wf_target (fe_target (snd y))" "ckey x \<le> ckey y"
  shows "tkey x \<le> tkey y"
proof (cases "fe_target (snd x) = fe_target (snd y)")
  case False
  then show ?thesis
    using context_key_order [OF assms(1,2), of "to_be 8 (of_nat (fst x) :: u64)" "to_be 8 (of_nat (fst y) :: u64)"]
      context_key_order [OF assms(2,1), of "to_be 8 (of_nat (fst y) :: u64)" "to_be 8 (of_nat (fst x) :: u64)"]
      assms(3) by (auto simp: ckey_def not_less)
qed simp

lemma by_target_sorted:
  assumes "\<forall>e \<in> set es. wf_target (fe_target e)"
  shows "sorted (map tkey (by_target es))"
proof -
  have "sorted_wrt (\<lambda>x y. ckey x \<le> ckey y) (by_target es)"
    unfolding by_target_def using sorted_sort_key [of ckey "enumerate 0 es"] by (simp only: sorted_map)
  then have "sorted_wrt (\<lambda>x y. tkey x \<le> tkey y) (by_target es)"
  proof (rule sorted_wrt_mono_rel [rotated])
    fix x y assume "x \<in> set (by_target es)" "y \<in> set (by_target es)" "ckey x \<le> ckey y"
    then show "tkey x \<le> tkey y"
      using assms by (intro ckey_mono) (simp_all add: by_target_def in_set_enumerate_eq, (metis nth_mem)+)
  qed
  then show ?thesis by (simp only: sorted_map)
qed

lemma by_target_context:
  assumes "length es < 2 ^ 64"
  shows "context_of light (map snd (by_target es)) t = context_of light es t"
proof -
  let ?P = "\<lambda>x :: nat \<times> firehol_entry. fe_target (snd x) = t"
  have "sorted (map ckey (filter ?P (enumerate 0 es)))"
  proof -
    have "sorted_wrt (\<lambda>x y. fst x < fst y) (filter ?P (enumerate 0 es))"
      by (rule sorted_wrt_filter) (simp add: sorted_wrt_map [symmetric] del: sorted_wrt_map)
    then have "sorted_wrt (\<lambda>x y. ckey x \<le> ckey y) (filter ?P (enumerate 0 es))"
    proof (rule sorted_wrt_mono_rel [rotated])
      fix x y assume xy: "x \<in> set (filter ?P (enumerate 0 es))" "y \<in> set (filter ?P (enumerate 0 es))" "fst x < fst y"
      then have "fst y < 2 ^ 64" using assms by (auto simp: in_set_enumerate_eq)
      then have "to_be 8 (of_nat (fst x) :: u64) < to_be 8 (of_nat (fst y) :: u64)" using xy(3) by (rule to_be_less [rotated])
      then show "ckey x \<le> ckey y" using xy(1,2) by (simp add: ckey_def lex_same_prefix less_imp_le)
    qed
    then show ?thesis by (simp only: sorted_map)
  qed
  then have "filter ?P (by_target es) = filter ?P (enumerate 0 es)"
    by (simp add: by_target_def filter_sort sort_key_id_if_sorted)
  moreover have "filter (\<lambda>e. fe_target e = t) (map snd xs) = map snd (filter ?P xs)" for xs :: "(nat \<times> firehol_entry) list"
    by (induction xs) auto
  ultimately have "filter (\<lambda>e. fe_target e = t) (map snd (by_target es)) = filter (\<lambda>e. fe_target e = t) es"
    by (metis map_snd_enumerate)
  then show ?thesis by (simp add: context_of_def)
qed

subsection \<open>The pass over the contributions\<close>

lemma ordered_step_ckv:
  assumes "wf_target (fe_target (snd x))" "light (fe_metadata_id (snd x)) \<noteq> None"
  shows "ordered_step R light (ckv x) st =
    (if os_current st = tkey x then Inr (st\<lparr>os_context := add_source light (snd x) (os_context st)\<rparr>)
     else case (if os_current st \<noteq> [] then emit_context R st else Inr st) of
       Inl e \<Rightarrow> Inl e
     | Inr st \<Rightarrow> Inr (st\<lparr>os_context := add_source light (snd x) context_default, os_current := tkey x\<rparr>))"
proof -
  obtain i e where x: "x = (i, e)" by fastforce
  have l: "length (encode_target (fe_target e)) = 18" using assms(1) x by (cases "fe_target e") auto
  have val: "drop 22 (encode e) = to_be 4 (fe_metadata_id e) @ to_be 4 (fe_line e)" by (simp add: encode_def l)
  have dec: "from_be (take 4 (drop 22 (encode e))) = fe_metadata_id e"
    "from_be (take 4 (drop 4 (drop 22 (encode e)))) = fe_line e"
    unfolding val by (simp_all add: from_be_to_be take_bit_word_eq_self)
  have len: "length (ckey x) - 8 = length (tkey x)" "take (length (ckey x) - 8) (ckey x) = tkey x"
    by (simp_all add: ckey_def)
  have "valid_contribution (ckey x) (drop 22 (encode e))"
    using assms(1) l unfolding valid_contribution_def Let_def len
    by (cases "fe_target e")
      (auto simp: x ckey_def encode_def ctx_key_v4_exact_def ctx_key_v6_exact_def ctx_key_v4_lpm_def ctx_key_v6_lpm_def)
  moreover obtain c f where "light (fe_metadata_id e) = Some (c, f)" using assms(2) x by auto
  ultimately show ?thesis
    unfolding ordered_step_def ckv_def Let_def prod.case len(2) x snd_conv dec
    by (auto simp: len(2) [unfolded x] add_source_def split: sum.splits)
qed

lemma sorted_le_last: "sorted xs \<Longrightarrow> y \<in> set xs \<Longrightarrow> y \<le> last xs" for xs :: "'a::linorder list"
  by (induction xs rule: rev_induct) (auto simp: sorted_append)

context rocks_db
begin

definition stored :: "bytes option \<Rightarrow> rule_block_context \<Rightarrow> bool" where
  "stored v ctx \<longleftrightarrow> (\<exists>b. v = Some b \<and> de_context R b = Some ctx)"

lemma emit_ok:
  assumes "invar (bw_db (os_writer st))"
  shows "\<exists>b w. emit_context R st = Inr (st\<lparr>os_writer := w\<rparr>) \<and> invar (bw_db w) \<and>
    de_context R b = Some (os_context st) \<and>
    staged w = put_content (RULE_CONTEXT, os_current st, b) (staged (os_writer st))"
proof -
  obtain b where "ser_context R (os_context st) = Some b" "de_context R b = Some (os_context st)"
    using codec_context by blast
  moreover obtain w where "bulk_put R RULE_CONTEXT (os_current st) b (os_writer st) = Inr w" "invar (bw_db w)"
    "staged w = put_content (RULE_CONTEXT, os_current st, b) (staged (os_writer st))"
    using put_ok [OF assms] by blast
  ultimately show ?thesis by (auto simp: emit_context_def)
qed

text \<open>
  The state of the pass after a prefix of the sorted contributions: all targets but the last
  are written with their full contexts, the last one is being collected.
\<close>

definition ordered_inv ::
  "light \<Rightarrow> 'db bulk_writer \<Rightarrow> firehol_entry list \<Rightarrow> 'db ordered_state \<Rightarrow> bool" where
  "ordered_inv light w0 es st \<longleftrightarrow>
     invar (bw_db (os_writer st)) \<and>
     (if es = [] then os_current st = [] \<and> os_context st = context_default
      else os_current st = context_key (fe_target (last es)) \<and>
        os_context st = context_of light es (fe_target (last es))) \<and>
     (\<forall>t \<in> fe_target ` set es. es \<noteq> [] \<and> t \<noteq> fe_target (last es) \<longrightarrow>
        stored (staged (os_writer st) RULE_CONTEXT (context_key t)) (context_of light es t)) \<and>
     (\<forall>k. k \<notin> context_key ` fe_target ` set es \<longrightarrow> staged (os_writer st) RULE_CONTEXT k = staged w0 RULE_CONTEXT k) \<and>
     (\<forall>c. c \<noteq> RULE_CONTEXT \<longrightarrow> staged (os_writer st) c = staged w0 c)"

lemma ordered_inv_same:
  assumes "ordered_inv light w0 es st" "es \<noteq> []" "fe_target e = fe_target (last es)"
  shows "ordered_inv light w0 (es @ [e]) (st\<lparr>os_context := add_source light e (os_context st)\<rparr>)"
  using assms by (auto simp: ordered_inv_def insert_absorb)

lemma ordered_inv_new:
  assumes "ordered_inv light w0 es st" "fe_target e \<notin> fe_target ` set es"
    and "\<forall>x \<in> set (es @ [e]). wf_target (fe_target x)"
    and "if es = [] then w = os_writer st \<and> b = b
         else invar (bw_db w) \<and> de_context R b = Some (os_context st) \<and>
           staged w = put_content (RULE_CONTEXT, os_current st, b) (staged (os_writer st))"
  shows "ordered_inv light w0 (es @ [e])
    (st\<lparr>os_writer := w, os_context := add_source light e context_default, os_current := context_key (fe_target e)\<rparr>)"
proof (cases "es = []")
  case True
  then show ?thesis using assms context_of_snoc [of light "[]" e] by (auto simp: ordered_inv_def)
next
  case False
  have inj: "fe_target x = fe_target (last es)"
    if "x \<in> set es" "context_key (fe_target x) = context_key (fe_target (last es))" for x
    using that assms(3) False context_key_prefix_free [of "fe_target x" "fe_target (last es)" "[]"] by auto
  have "context_of light es (fe_target e) = context_default"
    using assms(2) by (intro context_of_unindexed) (auto simp: indexed_def)
  then show ?thesis
    using assms(1,2,4) False by (auto simp: ordered_inv_def put_content_def stored_def dest: inj)
qed

lemma ordered_run:
  assumes "invar (bw_db w0)"
    and "\<forall>x \<in> set xs. wf_target (fe_target (snd x)) \<and> light (fe_metadata_id (snd x)) \<noteq> None"
    and "sorted (map tkey xs)"
  shows "\<exists>st. visit_each (ordered_step R light) (map ckv xs)
      \<lparr>os_current = [], os_context = context_default, os_writer = w0\<rparr> = Inr st \<and>
    ordered_inv light w0 (map snd xs) st"
  using assms(2,3)
proof (induction xs rule: rev_induct)
  case Nil
  then show ?case using assms(1) by (simp add: ordered_inv_def)
next
  case (snoc x xs)
  let ?es = "map snd xs" and ?t = "fe_target (snd x)"
  obtain st where st: "visit_each (ordered_step R light) (map ckv xs)
      \<lparr>os_current = [], os_context = context_default, os_writer = w0\<rparr> = Inr st" "ordered_inv light w0 ?es st"
    using snoc by (auto simp: sorted_append)
  have wf: "\<forall>y \<in> set (?es @ [snd x]). wf_target (fe_target y)" using snoc.prems by auto
  have key: "tkey x \<noteq> []" "\<And>y. tkey y \<noteq> []" by (metis context_key.elims ctx_key_v4_exact_def ctx_key_v4_lpm_def
        ctx_key_v6_exact_def ctx_key_v6_lpm_def list.distinct(1))+
  have cur: "os_current st = (if ?es = [] then [] else context_key (fe_target (last ?es)))"
    using st(2) by (simp add: ordered_inv_def)
  show ?case
  proof (cases "os_current st = tkey x")
    case True
    have "?es \<noteq> []"
    proof
      assume "?es = []"
      then have "os_current st = []" using cur by simp
      then show False using True key(1) by simp
    qed
    moreover from this have "context_key ?t = context_key (fe_target (last ?es))" using cur True by simp
    ultimately have "?t = fe_target (last ?es)"
      using context_key_prefix_free [of ?t "fe_target (last ?es)" "[]"] wf by (metis append_Nil2 last_in_set UnI1 UnI2 list.set_intros(1) set_append)
    then have "ordered_inv light w0 (?es @ [snd x]) (st\<lparr>os_context := add_source light (snd x) (os_context st)\<rparr>)"
      using ordered_inv_same [OF st(2) \<open>?es \<noteq> []\<close>] by simp
    then show ?thesis
      using True snoc.prems by (simp add: visit_each_append st(1) ordered_step_ckv)
  next
    case False
    have new: "?t \<notin> fe_target ` set ?es"
    proof
      assume "?t \<in> fe_target ` set ?es"
      then obtain y where y: "y \<in> set xs" "fe_target (snd y) = ?t" by auto
      then have ne: "xs \<noteq> []" by auto
      have "tkey y \<le> tkey (last xs)"
        using sorted_le_last [of "map tkey xs" "tkey y"] y(1) snoc.prems(2) ne by (simp add: sorted_append last_map)
      moreover have "tkey (last xs) \<le> tkey x" using snoc.prems(2) ne by (simp add: sorted_append)
      ultimately have "tkey (last xs) = tkey x" using y(2) by simp
      then show False using False cur ne by (simp add: last_map)
    qed
    have wfx: "wf_target ?t" "light (fe_metadata_id (snd x)) \<noteq> None" using snoc.prems(1) by auto
    have inv: "invar (bw_db (os_writer st))" using st(2) by (simp add: ordered_inv_def)
    obtain b w where w: "emit_context R st = Inr (st\<lparr>os_writer := w\<rparr>)" "invar (bw_db w)"
      "de_context R b = Some (os_context st)"
      "staged w = put_content (RULE_CONTEXT, os_current st, b) (staged (os_writer st))"
      using emit_ok [OF inv] by blast
    show ?thesis
    proof (cases "?es = []")
      case True
      then show ?thesis
        using ordered_inv_new [OF st(2) new wf, of "os_writer st"] cur False key
        st(1) key(1) [symmetric] by (simp add: ordered_step_ckv wfx)
    next
      case ne: False
      then have "os_current st \<noteq> []" using cur key(2) by (simp add: last_map)
      then show ?thesis
        using ordered_inv_new [OF st(2) new wf, of w b] w ne False
        by (simp add: visit_each_append st(1) ordered_step_ckv wfx)
    qed
  qed
qed

lemma build_ordered_ok:
  assumes "invar (bw_db w)" "bw_batch w = []" "length es < 2 ^ 64"
    and "content (bw_db w) CONTRIBUTIONS = map_of (map ckv (enumerate 0 es))"
    and "\<forall>e \<in> set es. wf_target (fe_target e) \<and> map_of (rg_metadata_light reg) (fe_metadata_id e) \<noteq> None"
  shows "\<exists>w'. build_ordered_contexts R reg w = Inr w' \<and> invar (bw_db w') \<and>
    (\<forall>t \<in> fe_target ` set es. stored (staged w' RULE_CONTEXT (context_key t))
       (context_of (map_of (rg_metadata_light reg)) es t)) \<and>
    (\<forall>k. k \<notin> context_key ` fe_target ` set es \<longrightarrow> staged w' RULE_CONTEXT k = staged w RULE_CONTEXT k) \<and>
    (\<forall>c. c \<noteq> RULE_CONTEXT \<longrightarrow> staged w' c = staged w c)"
proof -
  let ?light = "map_of (rg_metadata_light reg)" and ?xs = "by_target es"
  have set: "set (map snd ?xs) = set es"
    unfolding by_target_def set_map set_sort by (metis map_snd_enumerate set_map)
  have scan: "db_scan R (bw_db w) CONTRIBUTIONS = (map ckv ?xs, True)"
    using by_target_scan [OF assms(3)] assms(4) by (intro scan_eq [OF assms(1)]) simp_all
  have ok: "wf_target (fe_target (snd x)) \<and> ?light (fe_metadata_id (snd x)) \<noteq> None" if "x \<in> set ?xs" for x
    using assms(5) that set by (metis image_eqI set_map)
  moreover have "sorted (map tkey ?xs)" using assms(5) by (intro by_target_sorted) blast
  ultimately obtain st where st: "visit_each (ordered_step R ?light) (map ckv ?xs)
      \<lparr>os_current = [], os_context = context_default, os_writer = w\<rparr> = Inr st" "ordered_inv ?light w (map snd ?xs) st"
    using ordered_run [OF assms(1), of ?xs ?light] by blast
  have ctx: "context_of ?light (map snd ?xs) = context_of ?light es"
    by (rule ext) (rule by_target_context [OF assms(3)])
  show ?thesis
  proof (cases "es = []")
    case True
    then have "map snd ?xs = []" using set by (metis set_empty)
    then show ?thesis
      using st by (simp add: True build_ordered_contexts_def scan ordered_inv_def)
  next
    case False
    then have ne: "map snd ?xs \<noteq> []" using set by (metis set_empty)
    let ?l = "last (map snd ?xs)"
    have cur: "os_current st = context_key (fe_target ?l)" "os_context st = context_of ?light es (fe_target ?l)"
      using st(2) ne ctx by (auto simp: ordered_inv_def)
    then have "os_current st \<noteq> []"
      by (cases "fe_target ?l") (auto simp: ctx_key_v4_exact_def ctx_key_v4_lpm_def ctx_key_v6_exact_def ctx_key_v6_lpm_def)
    moreover have "invar (bw_db (os_writer st))" using st(2) by (simp add: ordered_inv_def)
    from emit_ok [OF this] obtain b w' where w': "emit_context R st = Inr (st\<lparr>os_writer := w'\<rparr>)" "invar (bw_db w')"
      "de_context R b = Some (os_context st)"
      "staged w' = put_content (RULE_CONTEXT, os_current st, b) (staged (os_writer st))" by blast
    ultimately have run: "build_ordered_contexts R reg w = Inr w'"
      by (simp add: build_ordered_contexts_def scan st(1))
    have l: "?l \<in> set es" using ne set by (metis last_in_set)
    have inj: "t = fe_target ?l" if "t \<in> fe_target ` set es" "context_key t = context_key (fe_target ?l)" for t
      using that l assms(5) context_key_prefix_free [of t "fe_target ?l" "[]"] by auto
    have "stored (staged w' RULE_CONTEXT (context_key t)) (context_of ?light es t)" if t: "t \<in> fe_target ` set es" for t
    proof (cases "t = fe_target ?l")
      case True
      then show ?thesis using w'(3,4) cur by (simp add: stored_def put_content_def)
    next
      case False
      then have "stored (staged (os_writer st) RULE_CONTEXT (context_key t)) (context_of ?light es t)"
        using st(2) t ne set ctx unfolding ordered_inv_def by (metis (no_types, lifting))
      then show ?thesis using w'(4) cur(1) inj [OF t] False by (auto simp: put_content_def)
    qed
    moreover have "staged w' RULE_CONTEXT k = staged w RULE_CONTEXT k" if "k \<notin> context_key ` fe_target ` set es" for k
      using that st(2) l set w'(4) cur(1) unfolding ordered_inv_def by (auto simp: put_content_def)
    moreover have "staged w' c = staged w c" if "c \<noteq> RULE_CONTEXT" for c
      using that st(2) w'(4) by (simp add: put_content_def ordered_inv_def)
    ultimately show ?thesis using run w'(2) by blast
  qed
qed

lemma cached_lookup:
  assumes "invar db" "\<forall>t \<in> T. stored (content db RULE_CONTEXT (context_key t)) (ctx t)"
    and "\<forall>k. k \<notin> context_key ` T \<longrightarrow> content db RULE_CONTEXT k = None"
  shows "set (cached_contexts R db ks) = ctx ` {t \<in> T. context_key t \<in> set ks}"
proof (induction ks)
  case Nil
  then show ?case by (simp add: cached_contexts_def map_filter_simps)
next
  case (Cons k ks)
  have get: "get_rule_context R db k =
      (case content db RULE_CONTEXT k of None \<Rightarrow> Inr None | Some b \<Rightarrow>
        (case de_context R b of None \<Rightarrow> Inl ReadFailed | Some c \<Rightarrow> Inr (Some c)))"
    by (simp add: get_rule_context_def get_ok [OF assms(1)] split: option.splits)
  show ?case
  proof (cases "k \<in> context_key ` T")
    case True
    have "\<forall>t \<in> T. context_key t = k \<longrightarrow> get_rule_context R db k = Inr (Some (ctx t))"
      using assms(2) unfolding get stored_def by auto
    with True show ?thesis
      using Cons by (auto simp: cached_contexts_def map_filter_simps split: option.splits sum.splits) 
  next
    case False
    then have "get_rule_context R db k = Inr None" using assms(3) unfolding get by auto
    moreover have "{t \<in> T. context_key t \<in> set (k # ks)} = {t \<in> T. context_key t \<in> set ks}" using False by auto
    ultimately show ?thesis using Cons by (simp add: cached_contexts_def map_filter_simps)
  qed
qed

end

subsection \<open>Lookups\<close>

text \<open>The keys of the point reads.\<close>

definition v4_keys :: "bytes \<Rightarrow> bytes list" where
  "v4_keys ip = ctx_key_v4_exact ip #
     map (\<lambda>n. let prefix = of_nat n in ctx_key_v4_lpm prefix (mask_v4 prefix ip)) (rev [0..<33])"

definition v6_keys :: "bytes \<Rightarrow> bytes list" where
  "v6_keys ip = ctx_key_v6_exact ip #
     map (\<lambda>n. let prefix = of_nat n in ctx_key_v6_lpm prefix (mask_v6 prefix ip)) (rev [0..<129])"

fun missed_v6 :: "firehol_ip_target \<Rightarrow> bytes \<Rightarrow> bool" where
  "missed_v6 (CidrV6 p a) ip \<longleftrightarrow> 8 dvd unat p \<and> unat p < 128 \<and> ip ! (unat p div 8) \<noteq> 0"
| "missed_v6 _ ip \<longleftrightarrow> False"

lemma v4_key_covers:
  assumes "wf_target t" "canonical_target t" "length ip = 4"
  shows "context_key t \<in> set (v4_keys ip) \<longleftrightarrow> covers t (V4 ip)"
proof (cases t)
  case (CidrV4 p a)
  then have p: "unat p \<le> 32" "length a = 4" "net_addr (unat p) a = a" using assms by auto
  have "context_key t \<in> set (v4_keys ip) \<longleftrightarrow>
      (\<exists>n < 33. ucast p = (of_nat n :: u8) \<and> a = mask_v4 (of_nat n) ip)"
    by (auto simp: v4_keys_def CidrV4 ctx_key_v4_exact_def ctx_key_v4_lpm_def Let_def)
  also have "\<dots> \<longleftrightarrow> a = mask_v4 (ucast p) ip"
  proof
    assume "a = mask_v4 (ucast p) ip"
    then show "\<exists>n < 33. ucast p = (of_nat n :: u8) \<and> a = mask_v4 (of_nat n) ip"
      using p(1) by (intro exI [of _ "unat p"]) auto
  qed auto
  also have "\<dots> \<longleftrightarrow> a = net_addr (unat p) ip"
    using mask_v4_net_addr [of "ucast p" ip] p(1) assms(3) by (simp add: unat_ucast_prefix)
  also have "\<dots> \<longleftrightarrow> same_prefix (unat p) a ip"
    using same_prefix_net_addr [of a ip "unat p"] p assms(3) by simp
  finally show ?thesis by (simp add: CidrV4)
qed (auto simp: v4_keys_def ctx_key_v4_exact_def ctx_key_v4_lpm_def ctx_key_v6_exact_def ctx_key_v6_lpm_def Let_def)

lemma v6_key_covers:
  assumes "wf_target t" "canonical_target t" "length ip = 16"
  shows "context_key t \<in> set (v6_keys ip) \<longleftrightarrow> covers t (V6 ip) \<and> \<not> missed_v6 t ip"
proof (cases t)
  case (CidrV6 p a)
  let ?p = "ucast p :: u8"
  have p: "unat p \<le> 128" "length a = 16" "net_addr (unat p) a = a" using assms CidrV6 by auto
  have u: "unat ?p = unat p" using p(1) by (rule unat_ucast_prefix)
  have "context_key t \<in> set (v6_keys ip) \<longleftrightarrow>
      (\<exists>n < 129. ?p = of_nat n \<and> a = mask_v6 (of_nat n) ip)"
    by (auto simp: v6_keys_def CidrV6 ctx_key_v6_exact_def ctx_key_v6_lpm_def Let_def)
  also have "\<dots> \<longleftrightarrow> mask_v6 ?p ip = a"
  proof
    assume "mask_v6 ?p ip = a"
    then show "\<exists>n < 129. ?p = of_nat n \<and> a = mask_v6 (of_nat n) ip"
      using p(1) by (intro exI [of _ "unat p"]) auto
  qed auto
  also have "\<dots> \<longleftrightarrow> net_addr (unat p) ip = a \<and> (?p mod 8 \<noteq> 0 \<or> unat p = 128 \<or> ip ! unat (?p div 8) = 0)"
    using mask_v6_canonical [of ?p ip a] p assms(3) by (simp add: u)
  also have "net_addr (unat p) ip = a \<longleftrightarrow> same_prefix (unat p) a ip"
    using same_prefix_net_addr [of a ip "unat p"] p assms(3) by auto
  also have "?p mod 8 \<noteq> 0 \<longleftrightarrow> \<not> 8 dvd unat p"
    using u by (simp add: word_eq_iff_unsigned [where 'a = nat] unat_mod dvd_eq_mod_eq_0 flip: unat_0_iff) 
  also have "unat (?p div 8) = unat p div 8" using u by (simp add: unat_div)
  finally show ?thesis using p(1) by (auto simp: CidrV6)
qed (auto simp: v6_keys_def ctx_key_v4_exact_def ctx_key_v4_lpm_def ctx_key_v6_exact_def ctx_key_v6_lpm_def Let_def)

context rocks_db
begin

lemma disk_lookup:
  assumes "rg_cache reg = Some db" "invar db"
    and "\<forall>t \<in> indexed light es. stored (content db RULE_CONTEXT (context_key t)) (context_of light es t)"
    and "\<forall>k. k \<notin> context_key ` indexed light es \<longrightarrow> content db RULE_CONTEXT k = None"
    and "\<forall>t \<in> indexed light es. wf_target t \<and> canonical_target t"
  shows "length ip4 = 4 \<Longrightarrow> set (lookup_ip_v4 R reg ip4) = found light es (V4 ip4)"
    and "length ip6 = 16 \<Longrightarrow> \<exists>cs. lookup_ip_v6 R reg ip6 = Ok cs \<and>
      set cs = context_of light es ` {t \<in> indexed light es. covers t (V6 ip6) \<and> \<not> missed_v6 t ip6}"
proof -
  note look = cached_lookup [OF assms(2-4)]
  show "set (lookup_ip_v4 R reg ip4) = found light es (V4 ip4)" if len: "length ip4 = 4"
  proof -
    have "set (lookup_ip_v4 R reg ip4) = set (cached_contexts R db (v4_keys ip4))"
      using len assms(1) by (simp add: lookup_ip_v4_def v4_keys_def)
    also have "\<dots> = found light es (V4 ip4)"
      unfolding look found_def using v4_key_covers len assms(5) by (intro image_cong) blast+
    finally show ?thesis .
  qed
  show "\<exists>cs. lookup_ip_v6 R reg ip6 = Ok cs \<and>
      set cs = context_of light es ` {t \<in> indexed light es. covers t (V6 ip6) \<and> \<not> missed_v6 t ip6}"
    if len: "length ip6 = 16"
  proof -
    have "lookup_ip_v6 R reg ip6 = Ok (cached_contexts R db (v6_keys ip6))"
      using len assms(1) by (simp add: lookup_ip_v6_def v6_keys_def)
    moreover have "set (cached_contexts R db (v6_keys ip6)) =
        context_of light es ` {t \<in> indexed light es. covers t (V6 ip6) \<and> \<not> missed_v6 t ip6}"
      unfolding look using v6_key_covers len assms(5) by (intro image_cong) blast+
    ultimately show ?thesis by blast
  qed
qed

end

end
