(* ===== verification/Map_Manager.thy ===== *)
theory Map_Manager
  imports Bpf_Map Rule_Set
begin

section \<open>Synchronising rule sets into the kernel maps\<close>

text \<open>
  Models \<open>src/maps.rs\<close>.  A \<open>HashSet\<close> is a duplicate-free list (its order is the unspecified
  iteration order).  The four sections of \<open>sync_rules\<close> and of \<open>sync_firehol_rules\<close> are the same
  code at four maps; \<open>insert_rules\<close>, \<open>remove_static\<close> and \<open>remove_firehol\<close> are their loops.  The
  lemmas are proved once in the locale \<open>bpf_map\<close> and used at the four maps through the locale
  \<open>aya_env\<close>, the environment of a manager.
\<close>

subsection \<open>State\<close>

record sync_report =
  ipv4_exact_inserted :: nat
  ipv6_exact_inserted :: nat
  ipv4_lpm_inserted :: nat
  ipv6_lpm_inserted :: nat
  entries_removed :: nat

definition report_default :: sync_report where
  "report_default = \<lparr>ipv4_exact_inserted = 0, ipv6_exact_inserted = 0, ipv4_lpm_inserted = 0,
     ipv6_lpm_inserted = 0, entries_removed = 0\<rparr>"

text \<open>
  The bindings a manager calls: the operations of its four maps and of the statistics
  array, and the conversions of a loaded map object to a typed map.
\<close>

record ('o, 'e, 'l, 's) aya =
  ops_exact_v4 :: "('e, bytes) bpf_ops"
  ops_exact_v6 :: "('e, bytes) bpf_ops"
  ops_lpm_v4 :: "('l, u32 \<times> bytes) bpf_ops"
  ops_lpm_v6 :: "('l, u32 \<times> bytes) bpf_ops"
  stats_get :: "'s \<Rightarrow> firewall_stats option"
  stats_set :: "'s \<Rightarrow> firewall_stats \<Rightarrow> 's option"
  into_exact_v4 :: "'o \<Rightarrow> 'e option"
  into_exact_v6 :: "'o \<Rightarrow> 'e option"
  into_lpm_v4 :: "'o \<Rightarrow> 'l option"
  into_lpm_v6 :: "'o \<Rightarrow> 'l option"
  into_stats :: "'o \<Rightarrow> 's option"

record ('e, 'l, 's) map_manager =
  ipv4_exact :: 'e
  ipv6_exact :: 'e
  ipv4_lpm :: 'l
  ipv6_lpm :: 'l
  stats_map :: 's
  firehol_v4_exact :: "bytes list"
  firehol_v6_exact :: "bytes list"
  firehol_v4_lpm :: "(u32 \<times> bytes) list"
  firehol_v6_lpm :: "(u32 \<times> bytes) list"

datatype map_error = ConfigMapNotFound string | BpfMapError

subsection \<open>Taking the maps of a loaded object\<close>

text \<open>\<open>ebpf.take_map(name)\<close> removes the map from the object.\<close>

definition take_map :: "string \<Rightarrow> (string \<rightharpoonup> 'o) \<Rightarrow> 'o option \<times> (string \<rightharpoonup> 'o)" where
  "take_map name ebpf = (ebpf name, ebpf(name := None))"

definition take_typed ::
  "string \<Rightarrow> string \<Rightarrow> ('o \<Rightarrow> 'm option) \<Rightarrow> (string \<rightharpoonup> 'o) \<Rightarrow> (map_error + 'm) \<times> (string \<rightharpoonup> 'o)" where
  "take_typed name alt conv ebpf =
     (let (o1, ebpf) = take_map name ebpf;
          (o2, ebpf) = (case o1 of Some ob \<Rightarrow> (Some ob, ebpf) | None \<Rightarrow> take_map alt ebpf)
      in (case o2 of None \<Rightarrow> Inl (ConfigMapNotFound name)
          | Some ob \<Rightarrow> (case conv ob of None \<Rightarrow> Inl BpfMapError | Some m \<Rightarrow> Inr m), ebpf))"

definition map_manager_new ::
  "('o, 'e, 'l, 's) aya \<Rightarrow> (string \<rightharpoonup> 'o) \<Rightarrow>
   (map_error + ('e, 'l, 's) map_manager) \<times> (string \<rightharpoonup> 'o)" where
  "map_manager_new A ebpf =
     (case take_typed ''IPV4_EXACT_MAP'' ''EXACT_MATCH_MAP_V4'' (into_exact_v4 A) ebpf of
        (Inl e, ebpf) \<Rightarrow> (Inl e, ebpf)
      | (Inr e4, ebpf) \<Rightarrow>
     (case take_typed ''IPV6_EXACT_MAP'' ''EXACT_MATCH_MAP_V6'' (into_exact_v6 A) ebpf of
        (Inl e, ebpf) \<Rightarrow> (Inl e, ebpf)
      | (Inr e6, ebpf) \<Rightarrow>
     (case take_typed ''IPV4_LPM_MAP'' ''LPM_MATCH_MAP_V4'' (into_lpm_v4 A) ebpf of
        (Inl e, ebpf) \<Rightarrow> (Inl e, ebpf)
      | (Inr l4, ebpf) \<Rightarrow>
     (case take_typed ''IPV6_LPM_MAP'' ''LPM_MATCH_MAP_V6'' (into_lpm_v6 A) ebpf of
        (Inl e, ebpf) \<Rightarrow> (Inl e, ebpf)
      | (Inr l6, ebpf) \<Rightarrow>
     (case take_typed ''STATS'' ''FIREWALL_STATS_MAP'' (into_stats A) ebpf of
        (Inl e, ebpf) \<Rightarrow> (Inl e, ebpf)
      | (Inr st, ebpf) \<Rightarrow>
        (Inr \<lparr>ipv4_exact = e4, ipv6_exact = e6, ipv4_lpm = l4, ipv6_lpm = l6, stats_map = st,
              firehol_v4_exact = [], firehol_v6_exact = [], firehol_v4_lpm = [],
              firehol_v6_lpm = []\<rparr>, ebpf))))))"

subsection \<open>Keys\<close>

definition current_keys :: "('m, 'k) bpf_ops \<Rightarrow> 'm \<Rightarrow> 'k list" where
  "current_keys ops m = remdups (List.map_filter id (bpf_keys ops m))"

definition static_keys :: "('m, 'k) bpf_ops \<Rightarrow> 'm \<Rightarrow> 'k list \<Rightarrow> 'k list" where
  "static_keys ops m fh = filter (\<lambda>k. k \<notin> set fh) (current_keys ops m)"

definition current_v4_exact :: "('o, 'e, 'l, 's) aya \<Rightarrow> ('e, 'l, 's) map_manager \<Rightarrow> bytes list" where
  "current_v4_exact A mm = current_keys (ops_exact_v4 A) (ipv4_exact mm)"

definition current_v6_exact :: "('o, 'e, 'l, 's) aya \<Rightarrow> ('e, 'l, 's) map_manager \<Rightarrow> bytes list" where
  "current_v6_exact A mm = current_keys (ops_exact_v6 A) (ipv6_exact mm)"

definition current_v4_lpm ::
  "('o, 'e, 'l, 's) aya \<Rightarrow> ('e, 'l, 's) map_manager \<Rightarrow> (u32 \<times> bytes) list" where
  "current_v4_lpm A mm = current_keys (ops_lpm_v4 A) (ipv4_lpm mm)"

definition current_v6_lpm ::
  "('o, 'e, 'l, 's) aya \<Rightarrow> ('e, 'l, 's) map_manager \<Rightarrow> (u32 \<times> bytes) list" where
  "current_v6_lpm A mm = current_keys (ops_lpm_v6 A) (ipv6_lpm mm)"

definition static_v4_exact :: "('o, 'e, 'l, 's) aya \<Rightarrow> ('e, 'l, 's) map_manager \<Rightarrow> bytes list" where
  "static_v4_exact A mm = static_keys (ops_exact_v4 A) (ipv4_exact mm) (firehol_v4_exact mm)"

definition static_v6_exact :: "('o, 'e, 'l, 's) aya \<Rightarrow> ('e, 'l, 's) map_manager \<Rightarrow> bytes list" where
  "static_v6_exact A mm = static_keys (ops_exact_v6 A) (ipv6_exact mm) (firehol_v6_exact mm)"

definition static_v4_lpm ::
  "('o, 'e, 'l, 's) aya \<Rightarrow> ('e, 'l, 's) map_manager \<Rightarrow> (u32 \<times> bytes) list" where
  "static_v4_lpm A mm = static_keys (ops_lpm_v4 A) (ipv4_lpm mm) (firehol_v4_lpm mm)"

definition static_v6_lpm ::
  "('o, 'e, 'l, 's) aya \<Rightarrow> ('e, 'l, 's) map_manager \<Rightarrow> (u32 \<times> bytes) list" where
  "static_v6_lpm A mm = static_keys (ops_lpm_v6 A) (ipv6_lpm mm) (firehol_v6_lpm mm)"

definition total_exact_v4 :: "('o, 'e, 'l, 's) aya \<Rightarrow> ('e, 'l, 's) map_manager \<Rightarrow> nat" where
  "total_exact_v4 A mm = length (current_v4_exact A mm)"

definition total_exact_v6 :: "('o, 'e, 'l, 's) aya \<Rightarrow> ('e, 'l, 's) map_manager \<Rightarrow> nat" where
  "total_exact_v6 A mm = length (current_v6_exact A mm)"

definition total_lpm_v4 :: "('o, 'e, 'l, 's) aya \<Rightarrow> ('e, 'l, 's) map_manager \<Rightarrow> nat" where
  "total_lpm_v4 A mm = length (current_v4_lpm A mm)"

definition total_lpm_v6 :: "('o, 'e, 'l, 's) aya \<Rightarrow> ('e, 'l, 's) map_manager \<Rightarrow> nat" where
  "total_lpm_v6 A mm = length (current_v6_lpm A mm)"

subsection \<open>Single inserts and removals\<close>

definition upd_map :: "'m option \<Rightarrow> ('m \<Rightarrow> 'mm) \<Rightarrow> 'mm \<Rightarrow> (map_error + unit) \<times> 'mm" where
  "upd_map r f mm = (case r of None \<Rightarrow> (Inl BpfMapError, mm) | Some m \<Rightarrow> (Inr (), f m))"

definition insert_exact_v4 where
  "insert_exact_v4 A addr val mm =
     upd_map (bpf_insert (ops_exact_v4 A) (ipv4_exact mm) addr val) (\<lambda>m. mm\<lparr>ipv4_exact := m\<rparr>) mm"

definition insert_exact_v6 where
  "insert_exact_v6 A addr val mm =
     upd_map (bpf_insert (ops_exact_v6 A) (ipv6_exact mm) addr val) (\<lambda>m. mm\<lparr>ipv6_exact := m\<rparr>) mm"

definition insert_lpm_v4 where
  "insert_lpm_v4 A prefix_len addr val mm =
     upd_map (bpf_insert (ops_lpm_v4 A) (ipv4_lpm mm) (prefix_len, addr) val)
       (\<lambda>m. mm\<lparr>ipv4_lpm := m\<rparr>) mm"

definition insert_lpm_v6 where
  "insert_lpm_v6 A prefix_len addr val mm =
     upd_map (bpf_insert (ops_lpm_v6 A) (ipv6_lpm mm) (prefix_len, addr) val)
       (\<lambda>m. mm\<lparr>ipv6_lpm := m\<rparr>) mm"

definition remove_exact_v4 where
  "remove_exact_v4 A addr mm =
     upd_map (bpf_remove (ops_exact_v4 A) (ipv4_exact mm) addr) (\<lambda>m. mm\<lparr>ipv4_exact := m\<rparr>) mm"

definition remove_exact_v6 where
  "remove_exact_v6 A addr mm =
     upd_map (bpf_remove (ops_exact_v6 A) (ipv6_exact mm) addr) (\<lambda>m. mm\<lparr>ipv6_exact := m\<rparr>) mm"

definition remove_lpm_v4 where
  "remove_lpm_v4 A prefix_len addr mm =
     upd_map (bpf_remove (ops_lpm_v4 A) (ipv4_lpm mm) (prefix_len, addr)) (\<lambda>m. mm\<lparr>ipv4_lpm := m\<rparr>) mm"

definition remove_lpm_v6 where
  "remove_lpm_v6 A prefix_len addr mm =
     upd_map (bpf_remove (ops_lpm_v6 A) (ipv6_lpm mm) (prefix_len, addr)) (\<lambda>m. mm\<lparr>ipv6_lpm := m\<rparr>) mm"

subsection \<open>The loops of a synchronisation\<close>

definition hs_insert :: "'k \<Rightarrow> 'k list \<Rightarrow> 'k list" where
  "hs_insert k s = (if k \<in> set s then s else s @ [k])"

text \<open>The insertion loop: after the first refused insert the remaining rules are skipped.\<close>

fun insert_rules ::
  "('m, 'k) bpf_ops \<Rightarrow> ('k \<times> rule_value) list \<Rightarrow> bool \<Rightarrow> 'm \<Rightarrow> 'k list \<Rightarrow> nat \<Rightarrow> 'm \<times> 'k list \<times> nat" where
  "insert_rules ops [] warned m installed n = (m, installed, n)"
| "insert_rules ops ((k, v) # rs) warned m installed n =
     (if warned then insert_rules ops rs warned m installed n
      else case bpf_insert ops m k v of
        None \<Rightarrow> insert_rules ops rs True m installed n
      | Some m' \<Rightarrow> insert_rules ops rs warned m' (hs_insert k installed) (n + 1))"

definition remove_key :: "('m, 'k) bpf_ops \<Rightarrow> 'm \<Rightarrow> 'k \<Rightarrow> 'm" where
  "remove_key ops m k = (case bpf_remove ops m k of None \<Rightarrow> m | Some m' \<Rightarrow> m')"

fun remove_static :: "('m, 'k) bpf_ops \<Rightarrow> 'k list \<Rightarrow> 'k list \<Rightarrow> 'm \<Rightarrow> nat \<Rightarrow> 'm \<times> nat" where
  "remove_static ops fh [] m n = (m, n)"
| "remove_static ops fh (k # ks) m n =
     (if k \<notin> set fh then remove_static ops fh ks (remove_key ops m k) (n + 1)
      else remove_static ops fh ks m n)"

text \<open>The FireHOL loop recomputes the static keys of the map in every round.\<close>

fun remove_firehol :: "('m, 'k) bpf_ops \<Rightarrow> 'k list \<Rightarrow> 'k list \<Rightarrow> 'm \<Rightarrow> nat \<Rightarrow> 'm \<times> nat" where
  "remove_firehol ops fh [] m n = (m, n)"
| "remove_firehol ops fh (k # ks) m n =
     (if k \<notin> set (static_keys ops m fh) then remove_firehol ops fh ks (remove_key ops m k) (n + 1)
      else remove_firehol ops fh ks m n)"

definition sync_map ::
  "('m, 'k) bpf_ops \<Rightarrow> 'k list \<Rightarrow> ('k \<times> rule_value) list \<Rightarrow> 'm \<Rightarrow> 'm \<times> nat \<times> nat" where
  "sync_map ops fh rules m =
     (let (m, installed, ins) = insert_rules ops rules False m [] 0;
          (m, rem) = remove_static ops fh
                       (filter (\<lambda>k. k \<notin> set installed) (static_keys ops m fh)) m 0
      in (m, ins, rem))"

definition sync_firehol_map ::
  "('m, 'k) bpf_ops \<Rightarrow> 'k list \<Rightarrow> ('k \<times> rule_value) list \<Rightarrow> 'm \<Rightarrow> 'm \<times> 'k list \<times> nat \<times> nat" where
  "sync_firehol_map ops fh rules m =
     (let (m, installed, ins) = insert_rules ops rules False m [] 0;
          (m, rem) = remove_firehol ops fh (filter (\<lambda>k. k \<notin> set installed) fh) m 0
      in (m, installed, ins, rem))"

definition lpm_rules :: "(u32 \<times> bytes \<times> rule_value) list \<Rightarrow> ((u32 \<times> bytes) \<times> rule_value) list" where
  "lpm_rules rs = map (\<lambda>(p, a, v). ((p, a), v)) rs"

definition sync_rules ::
  "('o, 'e, 'l, 's) aya \<Rightarrow> rule_set \<Rightarrow> ('e, 'l, 's) map_manager \<Rightarrow>
   sync_report \<times> ('e, 'l, 's) map_manager" where
  "sync_rules A rules mm =
     (let (e4, i4, r4) = sync_map (ops_exact_v4 A) (firehol_v4_exact mm) (exact_v4 rules) (ipv4_exact mm);
          (e6, i6, r6) = sync_map (ops_exact_v6 A) (firehol_v6_exact mm) (exact_v6 rules) (ipv6_exact mm);
          (l4, j4, s4) = sync_map (ops_lpm_v4 A) (firehol_v4_lpm mm) (lpm_rules (lpm_v4 rules)) (ipv4_lpm mm);
          (l6, j6, s6) = sync_map (ops_lpm_v6 A) (firehol_v6_lpm mm) (lpm_rules (lpm_v6 rules)) (ipv6_lpm mm)
      in (\<lparr>ipv4_exact_inserted = i4, ipv6_exact_inserted = i6, ipv4_lpm_inserted = j4,
           ipv6_lpm_inserted = j6, entries_removed = r4 + r6 + s4 + s6\<rparr>,
          mm\<lparr>ipv4_exact := e4, ipv6_exact := e6, ipv4_lpm := l4, ipv6_lpm := l6\<rparr>))"

definition sync_firehol_rules ::
  "('o, 'e, 'l, 's) aya \<Rightarrow> rule_set \<Rightarrow> ('e, 'l, 's) map_manager \<Rightarrow>
   sync_report \<times> ('e, 'l, 's) map_manager" where
  "sync_firehol_rules A rules mm =
     (let (e4, f4, i4, r4) = sync_firehol_map (ops_exact_v4 A) (firehol_v4_exact mm) (exact_v4 rules) (ipv4_exact mm);
          (e6, f6, i6, r6) = sync_firehol_map (ops_exact_v6 A) (firehol_v6_exact mm) (exact_v6 rules) (ipv6_exact mm);
          (l4, g4, j4, s4) = sync_firehol_map (ops_lpm_v4 A) (firehol_v4_lpm mm) (lpm_rules (lpm_v4 rules)) (ipv4_lpm mm);
          (l6, g6, j6, s6) = sync_firehol_map (ops_lpm_v6 A) (firehol_v6_lpm mm) (lpm_rules (lpm_v6 rules)) (ipv6_lpm mm)
      in (\<lparr>ipv4_exact_inserted = i4, ipv6_exact_inserted = i6, ipv4_lpm_inserted = j4,
           ipv6_lpm_inserted = j6, entries_removed = r4 + r6 + s4 + s6\<rparr>,
          mm\<lparr>ipv4_exact := e4, ipv6_exact := e6, ipv4_lpm := l4, ipv6_lpm := l6,
             firehol_v4_exact := f4, firehol_v6_exact := f6,
             firehol_v4_lpm := g4, firehol_v6_lpm := g6\<rparr>))"

subsection \<open>Statistics\<close>

definition get_stats :: "('o, 'e, 'l, 's) aya \<Rightarrow> ('e, 'l, 's) map_manager \<Rightarrow> firewall_stats" where
  "get_stats A mm = (case stats_get A (stats_map mm) of Some stats \<Rightarrow> stats | None \<Rightarrow> stats_default)"

definition reset_stats where
  "reset_stats A mm =
     upd_map (stats_set A (stats_map mm) stats_default) (\<lambda>m. mm\<lparr>stats_map := m\<rparr>) mm"

subsection \<open>One map\<close>

lemma set_hs_insert [simp]: "set (hs_insert k s) = insert k (set s)"
  by (auto simp: hs_insert_def)

lemma distinct_hs_insert [simp]: "distinct s \<Longrightarrow> distinct (hs_insert k s)"
  by (simp add: hs_insert_def)

lemma insert_rules_warned: "insert_rules ops rs True m inst n = (m, inst, n)"
  by (induction rs arbitrary: m inst n) auto

text \<open>
  \<open>rules_map rs\<close> is the map a list of rules installs: the last rule of a key wins.
\<close>

definition rules_map :: "('k \<times> rule_value) list \<Rightarrow> 'k \<rightharpoonup> rule_value" where
  "rules_map rs = map_of (rev rs)"

lemma dom_rules_map [simp]: "dom (rules_map rs) = fst ` set rs"
  by (simp add: rules_map_def dom_map_of_conv_image_fst)

lemma rules_map_Cons: "rules_map ((k, v) # rs) = [k \<mapsto> v] ++ rules_map rs"
  by (simp add: rules_map_def)

lemma rules_map_distinct: "distinct (map fst rs) \<Longrightarrow> rules_map rs = map_of rs"
  by (simp add: rules_map_def map_of_rev)

context bpf_map
begin

lemma insert_rules_spec:
  assumes "invar m" "\<forall>k \<in> fst ` set rules. valid_key k"
  shows "\<exists>j m' inst'. j \<le> length rules \<and>
    insert_rules ops rules False m inst n = (m', inst', n + j) \<and> invar m' \<and>
    content m' = content m ++ rules_map (take j rules) \<and>
    set inst' = set inst \<union> fst ` set (take j rules) \<and>
    (card (dom (content m) \<union> fst ` set rules) \<le> cap \<longrightarrow> j = length rules)"
  using assms
proof (induction rules arbitrary: m inst n)
  case Nil
  then show ?case by (simp add: rules_map_def)
next
  case (Cons e rs)
  obtain k v where e: "e = (k, v)" by (cases e)
  have k: "valid_key k" using Cons.prems e by simp
  show ?case
  proof (cases "bpf_insert ops m k v")
    case None
    have fin: "finite (dom (content m) \<union> fst ` set (e # rs))"
      using finite_content Cons.prems(1) by simp
    have "k \<notin> dom (content m)" "\<not> card (dom (content m)) < cap"
      using insert_room [OF Cons.prems(1) k, of v] None by auto
    moreover have "dom (content m) \<subset> dom (content m) \<union> fst ` set (e # rs)"
      using \<open>k \<notin> dom (content m)\<close> e by auto
    ultimately have "\<not> card (dom (content m) \<union> fst ` set (e # rs)) \<le> cap"
      by (metis (no_types, lifting) psubset_card_mono [OF fin] leD le_trans not_less)
    with None Cons.prems show ?thesis
      by (intro exI [of _ 0]) (auto simp: e insert_rules_warned rules_map_def)
  next
    case (Some m1)
    note ins = insert_ok [OF Cons.prems(1) k Some]
    have "\<forall>k \<in> fst ` set rs. valid_key k" using Cons.prems(2) by simp
    from Cons.IH [OF conjunct1 [OF ins] this, of "hs_insert k inst" "n + 1"] obtain j m' inst' where
      IH: "j \<le> length rs" "insert_rules ops rs False m1 (hs_insert k inst) (n + 1) = (m', inst', n + 1 + j)"
      "invar m'" "content m' = content m1 ++ rules_map (take j rs)"
      "set inst' = set (hs_insert k inst) \<union> fst ` set (take j rs)"
      "card (dom (content m1) \<union> fst ` set rs) \<le> cap \<longrightarrow> j = length rs"
      by blast
    have "dom (content m1) \<union> fst ` set rs = dom (content m) \<union> fst ` set (e # rs)"
      using ins e by auto
    with IH Some ins show ?thesis
      by (intro exI [of _ "Suc j"] exI [of _ m'] exI [of _ inst'])
        (auto simp: e rules_map_Cons map_add_upd_left)
  qed
qed

lemma remove_key_spec:
  assumes "invar m" "valid_key k"
  shows "invar (remove_key ops m k)" "content (remove_key ops m k) = (content m)(k := None)"
proof -
  have "content m k = None" if "bpf_remove ops m k = None"
    using remove_present [OF assms] that by blast
  with remove_ok [OF assms] assms
  show "invar (remove_key ops m k)" "content (remove_key ops m k) = (content m)(k := None)"
    by (auto simp: remove_key_def fun_eq_iff split: option.splits)
qed

lemma set_static_keys: "invar m \<Longrightarrow> set (static_keys ops m fh) = dom (content m) - set fh"
  by (auto simp: static_keys_def current_keys_def set_keys)

lemma length_current_keys: "invar m \<Longrightarrow> length (current_keys ops m) = card (dom (content m))"
  by (simp add: current_keys_def length_remdups_card_conv set_keys)

lemma remove_static_spec:
  assumes "invar m" "\<forall>k \<in> set ks. valid_key k" "set ks \<inter> set fh = {}"
  shows "\<exists>m'. remove_static ops fh ks m n = (m', n + length ks) \<and> invar m' \<and>
    content m' = content m |` (- set ks)"
  using assms
proof (induction ks arbitrary: m n)
  case Nil
  then show ?case by (simp add: restrict_map_def)
next
  case (Cons k ks)
  note r = remove_key_spec [of m k]
  from Cons.IH [of "remove_key ops m k" "n + 1"] Cons.prems r show ?case
    by (auto simp: restrict_map_def fun_eq_iff)
qed

text \<open>A key FireHOL owns is never one of the recomputed static keys: the guard always holds.\<close>

lemma remove_firehol_spec:
  assumes "invar m" "\<forall>k \<in> set ks. valid_key k" "set ks \<subseteq> set fh"
  shows "\<exists>m'. remove_firehol ops fh ks m n = (m', n + length ks) \<and> invar m' \<and>
    content m' = content m |` (- set ks)"
  using assms
proof (induction ks arbitrary: m n)
  case Nil
  then show ?case by (simp add: restrict_map_def)
next
  case (Cons k ks)
  note r = remove_key_spec [of m k]
  have "k \<notin> set (static_keys ops m fh)" using Cons.prems by (simp add: set_static_keys)
  with Cons.IH [of "remove_key ops m k" "n + 1"] Cons.prems r show ?case
    by (auto simp: restrict_map_def fun_eq_iff)
qed

lemma sync_map_spec:
  assumes "invar m" "\<forall>k \<in> fst ` set rules. valid_key k"
  shows "\<exists>j m'. j \<le> length rules \<and> invar m' \<and>
    sync_map ops fh rules m =
      (m', j, card (dom (content m) - set fh - fst ` set (take j rules))) \<and>
    content m' = (content m |` set fh) ++ rules_map (take j rules) \<and>
    (card (dom (content m) \<union> fst ` set rules) \<le> cap \<longrightarrow> j = length rules)"
proof -
  obtain j m1 inst where ins: "j \<le> length rules"
    "insert_rules ops rules False m [] 0 = (m1, inst, j)" "invar m1"
    "content m1 = content m ++ rules_map (take j rules)" "set inst = fst ` set (take j rules)"
    and cap: "card (dom (content m) \<union> fst ` set rules) \<le> cap \<longrightarrow> j = length rules"
    using insert_rules_spec [OF assms, of "[]" 0] by auto
  let ?ks = "filter (\<lambda>k. k \<notin> set inst) (static_keys ops m1 fh)"
  have ks: "set ?ks = dom (content m) - set fh - fst ` set (take j rules)"
    using ins by (auto simp: set_static_keys)
  have "distinct ?ks" by (simp add: static_keys_def current_keys_def)
  then have len: "length ?ks = card (dom (content m) - set fh - fst ` set (take j rules))"
    by (metis distinct_card ks)
  obtain m2 where rem: "remove_static ops fh ?ks m1 0 = (m2, length ?ks)" "invar m2"
    "content m2 = content m1 |` (- set ?ks)"
    using remove_static_spec [OF ins(3), of ?ks fh 0] content_valid [OF ins(3)]
    by (auto simp: set_static_keys ins(3))
  have "content m2 = (content m |` set fh) ++ rules_map (take j rules)"
  proof
    fix k
    have "k \<in> fst ` set (take j rules) \<longleftrightarrow> rules_map (take j rules) k \<noteq> None"
      by (metis dom_rules_map domIff)
    then show "content m2 k = ((content m |` set fh) ++ rules_map (take j rules)) k"
      unfolding rem(3) ins(4) ks
      by (cases "rules_map (take j rules) k") (auto simp: restrict_map_def map_add_def)
  qed
  then show ?thesis
    using ins rem cap len by (intro exI [of _ j] exI [of _ m2]) (simp add: sync_map_def)
qed

lemma sync_firehol_map_spec:
  assumes "invar m" "\<forall>k \<in> fst ` set rules. valid_key k" "\<forall>k \<in> set fh. valid_key k"
  shows "\<exists>j m' inst. j \<le> length rules \<and> invar m' \<and> set inst = fst ` set (take j rules) \<and>
    (\<exists>rem. sync_firehol_map ops fh rules m = (m', inst, j, rem)) \<and>
    content m' = (content m |` (- set fh)) ++ rules_map (take j rules) \<and>
    (card (dom (content m) \<union> fst ` set rules) \<le> cap \<longrightarrow> j = length rules)"
proof -
  obtain j m1 inst where ins: "j \<le> length rules"
    "insert_rules ops rules False m [] 0 = (m1, inst, j)" "invar m1"
    "content m1 = content m ++ rules_map (take j rules)" "set inst = fst ` set (take j rules)"
    and cap: "card (dom (content m) \<union> fst ` set rules) \<le> cap \<longrightarrow> j = length rules"
    using insert_rules_spec [OF assms(1,2), of "[]" 0] by auto
  let ?ks = "filter (\<lambda>k. k \<notin> set inst) fh"
  obtain m2 where rem: "remove_firehol ops fh ?ks m1 0 = (m2, length ?ks)" "invar m2"
    "content m2 = content m1 |` (- set ?ks)"
    using remove_firehol_spec [OF ins(3), of ?ks fh 0] assms(3) by auto
  have "content m2 = (content m |` (- set fh)) ++ rules_map (take j rules)"
  proof
    fix k
    have "k \<in> fst ` set (take j rules) \<longleftrightarrow> rules_map (take j rules) k \<noteq> None"
      by (metis dom_rules_map domIff)
    then show "content m2 k = ((content m |` (- set fh)) ++ rules_map (take j rules)) k"
      unfolding rem(3) ins(4) using ins(5)
      by (cases "rules_map (take j rules) k") (auto simp: restrict_map_def map_add_def)
  qed
  then show ?thesis
    using ins rem cap by (intro exI [of _ j] exI [of _ m2] exI [of _ inst]) (simp add: sync_firehol_map_def)
qed

text \<open>
  The contract of a map shared by two owners: it holds the rules of the latest static set
  and of the latest FireHOL set, and the manager knows which keys are FireHOL's.
\<close>

end

definition reflects ::
  "('k \<rightharpoonup> rule_value) \<Rightarrow> 'k list \<Rightarrow> ('k \<times> rule_value) list \<Rightarrow> ('k \<times> rule_value) list \<Rightarrow> bool" where
  "reflects c fh S F \<longleftrightarrow> c = rules_map S ++ rules_map F \<and> set fh = fst ` set F \<and>
     fst ` set S \<inter> fst ` set F = {}"

definition room :: "nat \<Rightarrow> ('k \<times> 'v) list \<Rightarrow> ('k \<times> 'v) list \<Rightarrow> ('k \<times> 'v) list \<Rightarrow> bool" where
  "room cap S F R \<longleftrightarrow> card (fst ` set S \<union> fst ` set F \<union> fst ` set R) \<le> cap"

lemma restrict_add_disjoint:
  "dom f \<inter> dom g = {} \<Longrightarrow> (f ++ g) |` dom g = g"
  "dom f \<inter> dom g = {} \<Longrightarrow> (f ++ g) |` (- dom g) = f"
  by (auto simp: fun_eq_iff restrict_map_def map_add_def domIff disjoint_iff split: option.splits)
    (metis not_None_eq)

context bpf_map
begin

lemma sync_map_reflects:
  assumes "invar m" "\<forall>k \<in> fst ` set R. valid_key k" "reflects (content m) fh S F"
    "fst ` set R \<inter> fst ` set F = {}" "room cap S F R"
  shows "\<exists>m' rem. sync_map ops fh R m = (m', length R, rem) \<and> invar m' \<and> reflects (content m') fh R F"
proof -
  have dom: "dom (content m) = fst ` set S \<union> fst ` set F" and fh: "set fh = dom (rules_map F)"
    using assms(3) by (auto simp: reflects_def)
  obtain j m' where j: "sync_map ops fh R m = (m', j, card (dom (content m) - set fh - fst ` set (take j R)))"
    "invar m'" "content m' = (content m |` set fh) ++ rules_map (take j R)" "j = length R"
    using sync_map_spec [OF assms(1,2), of fh] assms(5) by (auto simp: dom room_def)
  have "content m |` set fh = rules_map F"
    using assms(3) restrict_add_disjoint(1) [of "rules_map S" "rules_map F"]
    by (simp add: reflects_def)
  with j assms(3,4) show ?thesis
    using map_add_comm [of "rules_map R" "rules_map F"] by (simp add: reflects_def)
qed

lemma sync_firehol_map_reflects:
  assumes "invar m" "\<forall>k \<in> fst ` set R. valid_key k" "reflects (content m) fh S F"
    "fst ` set S \<inter> fst ` set R = {}" "room cap S F R"
  shows "\<exists>m' inst rem. sync_firehol_map ops fh R m = (m', inst, length R, rem) \<and> invar m' \<and>
    reflects (content m') inst S R"
proof -
  have dom: "dom (content m) = fst ` set S \<union> fst ` set F" and fh: "set fh = dom (rules_map F)"
    using assms(3) by (auto simp: reflects_def)
  have "\<forall>k \<in> set fh. valid_key k"
    using content_valid [OF assms(1)] dom fh by (metis UnI2 domIff dom_rules_map)
  then obtain j m' inst rem where j: "sync_firehol_map ops fh R m = (m', inst, j, rem)" "invar m'"
    "content m' = (content m |` (- set fh)) ++ rules_map (take j R)" "j = length R"
    "set inst = fst ` set (take j R)"
    using sync_firehol_map_spec [OF assms(1,2), of fh] assms(5) by (auto simp: dom room_def)
  have "content m |` (- set fh) = rules_map S"
    using assms(3) restrict_add_disjoint(2) [of "rules_map S" "rules_map F"]
    by (simp add: reflects_def)
  with j assms(4) show ?thesis by (simp add: reflects_def)
qed

end

subsection \<open>The manager\<close>

text \<open>The environment of a manager: four maps with the capacities the program declares.\<close>

locale aya_env =
  v4_exact: bpf_map "ops_exact_v4 A" einv4 econtent "\<lambda>k. length k = 4" MAX_IPV4_HASH_ENTRIES +
  v6_exact: bpf_map "ops_exact_v6 A" einv6 econtent "\<lambda>k. length k = 16" MAX_IPV6_HASH_ENTRIES +
  v4_lpm: lpm_trie "ops_lpm_v4 A" linv4 lcontent "net_key 4" MAX_IPV4_LPM_ENTRIES lookup +
  v6_lpm: lpm_trie "ops_lpm_v6 A" linv6 lcontent "net_key 16" MAX_IPV6_LPM_ENTRIES lookup
  for A :: "('o, 'e, 'l, 's) aya" and einv4 einv6 econtent linv4 linv6 lcontent lookup

text \<open>The keys of a rule set are well-formed: prefixes are network addresses.\<close>

definition rules_ok :: "rule_set \<Rightarrow> bool" where
  "rules_ok r \<longleftrightarrow> wf_rules r \<and> list_all (net_key 4) (map fst (lpm_rules (lpm_v4 r))) \<and>
     list_all (net_key 16) (map fst (lpm_rules (lpm_v6 r)))"

definition disjoint_rules :: "rule_set \<Rightarrow> rule_set \<Rightarrow> bool" where
  "disjoint_rules r s \<longleftrightarrow>
     fst ` set (exact_v4 r) \<inter> fst ` set (exact_v4 s) = {} \<and>
     fst ` set (exact_v6 r) \<inter> fst ` set (exact_v6 s) = {} \<and>
     fst ` set (lpm_rules (lpm_v4 r)) \<inter> fst ` set (lpm_rules (lpm_v4 s)) = {} \<and>
     fst ` set (lpm_rules (lpm_v6 r)) \<inter> fst ` set (lpm_rules (lpm_v6 s)) = {}"

text \<open>The maps have room for the rules of three sets (old static, old FireHOL, new).\<close>

definition rules_fit :: "rule_set \<Rightarrow> rule_set \<Rightarrow> rule_set \<Rightarrow> bool" where
  "rules_fit s f r \<longleftrightarrow>
     room MAX_IPV4_HASH_ENTRIES (exact_v4 s) (exact_v4 f) (exact_v4 r) \<and>
     room MAX_IPV6_HASH_ENTRIES (exact_v6 s) (exact_v6 f) (exact_v6 r) \<and>
     room MAX_IPV4_LPM_ENTRIES (lpm_rules (lpm_v4 s)) (lpm_rules (lpm_v4 f)) (lpm_rules (lpm_v4 r)) \<and>
     room MAX_IPV6_LPM_ENTRIES (lpm_rules (lpm_v6 s)) (lpm_rules (lpm_v6 f)) (lpm_rules (lpm_v6 r))"

definition mm_invar ::
  "('e \<Rightarrow> bool) \<Rightarrow> ('e \<Rightarrow> bool) \<Rightarrow> ('l \<Rightarrow> bool) \<Rightarrow> ('l \<Rightarrow> bool) \<Rightarrow> ('e, 'l, 's) map_manager \<Rightarrow> bool" where
  "mm_invar einv4 einv6 linv4 linv6 mm \<longleftrightarrow> einv4 (ipv4_exact mm) \<and> einv6 (ipv6_exact mm) \<and>
     linv4 (ipv4_lpm mm) \<and> linv6 (ipv6_lpm mm)"

definition mm_reflects ::
  "('e \<Rightarrow> bytes \<Rightarrow> rule_value option) \<Rightarrow> ('l \<Rightarrow> u32 \<times> bytes \<Rightarrow> rule_value option) \<Rightarrow>
   ('e, 'l, 's) map_manager \<Rightarrow> rule_set \<Rightarrow> rule_set \<Rightarrow> bool" where
  "mm_reflects econtent lcontent mm s f \<longleftrightarrow>
     reflects (econtent (ipv4_exact mm)) (firehol_v4_exact mm) (exact_v4 s) (exact_v4 f) \<and>
     reflects (econtent (ipv6_exact mm)) (firehol_v6_exact mm) (exact_v6 s) (exact_v6 f) \<and>
     reflects (lcontent (ipv4_lpm mm)) (firehol_v4_lpm mm) (lpm_rules (lpm_v4 s)) (lpm_rules (lpm_v4 f)) \<and>
     reflects (lcontent (ipv6_lpm mm)) (firehol_v6_lpm mm) (lpm_rules (lpm_v6 s)) (lpm_rules (lpm_v6 f))"

lemma rules_ok_keys:
  assumes "rules_ok r"
  shows "\<forall>k \<in> fst ` set (exact_v4 r). length k = 4" "\<forall>k \<in> fst ` set (exact_v6 r). length k = 16"
    "\<forall>k \<in> fst ` set (lpm_rules (lpm_v4 r)). net_key 4 k"
    "\<forall>k \<in> fst ` set (lpm_rules (lpm_v6 r)). net_key 16 k"
  using assms by (auto simp: rules_ok_def wf_rules_def list_all_iff)

definition report_of :: "nat \<Rightarrow> rule_set \<Rightarrow> sync_report" where
  "report_of removed r = \<lparr>ipv4_exact_inserted = length (exact_v4 r), ipv6_exact_inserted = length (exact_v6 r),
     ipv4_lpm_inserted = length (lpm_v4 r), ipv6_lpm_inserted = length (lpm_v6 r),
     entries_removed = removed\<rparr>"

context aya_env
begin

abbreviation "manager_ok \<equiv> mm_invar einv4 einv6 linv4 linv6"
abbreviation "manager_holds \<equiv> mm_reflects econtent lcontent"

lemma sync_rules_holds:
  assumes "manager_ok mm" "manager_holds mm s f" "rules_ok r" "disjoint_rules r f" "rules_fit s f r"
  shows "\<exists>removed mm'. sync_rules A r mm = (report_of removed r, mm') \<and>
    manager_ok mm' \<and> manager_holds mm' r f"
proof -
  note k = rules_ok_keys [OF assms(3)]
  note h = assms(1,2,4,5)
    [unfolded mm_invar_def mm_reflects_def disjoint_rules_def rules_fit_def]
  have len: "length (lpm_rules xs) = length xs" for xs by (simp add: lpm_rules_def)
  from v4_exact.sync_map_reflects [OF _ k(1)] v6_exact.sync_map_reflects [OF _ k(2)]
    v4_lpm.sync_map_reflects [OF _ k(3)] v6_lpm.sync_map_reflects [OF _ k(4)] h
  obtain e4 r4 e6 r6 l4 s4 l6 s6 where
    "sync_map (ops_exact_v4 A) (firehol_v4_exact mm) (exact_v4 r) (ipv4_exact mm) = (e4, length (exact_v4 r), r4)"
    "einv4 e4" "reflects (econtent e4) (firehol_v4_exact mm) (exact_v4 r) (exact_v4 f)"
    "sync_map (ops_exact_v6 A) (firehol_v6_exact mm) (exact_v6 r) (ipv6_exact mm) = (e6, length (exact_v6 r), r6)"
    "einv6 e6" "reflects (econtent e6) (firehol_v6_exact mm) (exact_v6 r) (exact_v6 f)"
    "sync_map (ops_lpm_v4 A) (firehol_v4_lpm mm) (lpm_rules (lpm_v4 r)) (ipv4_lpm mm) =
       (l4, length (lpm_rules (lpm_v4 r)), s4)"
    "linv4 l4" "reflects (lcontent l4) (firehol_v4_lpm mm) (lpm_rules (lpm_v4 r)) (lpm_rules (lpm_v4 f))"
    "sync_map (ops_lpm_v6 A) (firehol_v6_lpm mm) (lpm_rules (lpm_v6 r)) (ipv6_lpm mm) =
       (l6, length (lpm_rules (lpm_v6 r)), s6)"
    "linv6 l6" "reflects (lcontent l6) (firehol_v6_lpm mm) (lpm_rules (lpm_v6 r)) (lpm_rules (lpm_v6 f))"
    by metis
  then show ?thesis
    by (auto simp: sync_rules_def report_of_def mm_invar_def mm_reflects_def len)
qed

lemma sync_firehol_holds:
  assumes "manager_ok mm" "manager_holds mm s f" "rules_ok r" "disjoint_rules s r" "rules_fit s f r"
  shows "\<exists>removed mm'. sync_firehol_rules A r mm = (report_of removed r, mm') \<and>
    manager_ok mm' \<and> manager_holds mm' s r"
proof -
  note k = rules_ok_keys [OF assms(3)]
  note h = assms(1,2,4,5)
    [unfolded mm_invar_def mm_reflects_def disjoint_rules_def rules_fit_def]
  have len: "length (lpm_rules xs) = length xs" for xs by (simp add: lpm_rules_def)
  from v4_exact.sync_firehol_map_reflects [OF _ k(1)] v6_exact.sync_firehol_map_reflects [OF _ k(2)]
    v4_lpm.sync_firehol_map_reflects [OF _ k(3)] v6_lpm.sync_firehol_map_reflects [OF _ k(4)] h
  obtain e4 f4 r4 e6 f6 r6 l4 g4 s4 l6 g6 s6 where
    "sync_firehol_map (ops_exact_v4 A) (firehol_v4_exact mm) (exact_v4 r) (ipv4_exact mm) = (e4, f4, length (exact_v4 r), r4)"
    "einv4 e4" "reflects (econtent e4) f4 (exact_v4 s) (exact_v4 r)"
    "sync_firehol_map (ops_exact_v6 A) (firehol_v6_exact mm) (exact_v6 r) (ipv6_exact mm) = (e6, f6, length (exact_v6 r), r6)"
    "einv6 e6" "reflects (econtent e6) f6 (exact_v6 s) (exact_v6 r)"
    "sync_firehol_map (ops_lpm_v4 A) (firehol_v4_lpm mm) (lpm_rules (lpm_v4 r)) (ipv4_lpm mm) =
       (l4, g4, length (lpm_rules (lpm_v4 r)), s4)"
    "linv4 l4" "reflects (lcontent l4) g4 (lpm_rules (lpm_v4 s)) (lpm_rules (lpm_v4 r))"
    "sync_firehol_map (ops_lpm_v6 A) (firehol_v6_lpm mm) (lpm_rules (lpm_v6 r)) (ipv6_lpm mm) =
       (l6, g6, length (lpm_rules (lpm_v6 r)), s6)"
    "linv6 l6" "reflects (lcontent l6) g6 (lpm_rules (lpm_v6 s)) (lpm_rules (lpm_v6 r))"
    by metis
  then show ?thesis
    by (auto simp: sync_firehol_rules_def report_of_def mm_invar_def mm_reflects_def len)
qed

end

subsection \<open>A concrete environment\<close>

text \<open>Four capacity-bounded tables and a one-element statistics array.\<close>

type_synonym etable = "(bytes \<times> rule_value) list"
type_synonym ltable = "((u32 \<times> bytes) \<times> rule_value) list"

definition table_aya :: "(etable + ltable, etable, ltable, firewall_stats) aya" where
  "table_aya = \<lparr>
     ops_exact_v4 = table_ops (\<lambda>k. length k = 4) MAX_IPV4_HASH_ENTRIES,
     ops_exact_v6 = table_ops (\<lambda>k. length k = 16) MAX_IPV6_HASH_ENTRIES,
     ops_lpm_v4 = table_ops (net_key 4) MAX_IPV4_LPM_ENTRIES,
     ops_lpm_v6 = table_ops (net_key 16) MAX_IPV6_LPM_ENTRIES,
     stats_get = Some, stats_set = (\<lambda>_ s. Some s),
     into_exact_v4 = (\<lambda>t. case t of Inl e \<Rightarrow> Some e | Inr _ \<Rightarrow> None),
     into_exact_v6 = (\<lambda>t. case t of Inl e \<Rightarrow> Some e | Inr _ \<Rightarrow> None),
     into_lpm_v4 = (\<lambda>t. case t of Inl _ \<Rightarrow> None | Inr l \<Rightarrow> Some l),
     into_lpm_v6 = (\<lambda>t. case t of Inl _ \<Rightarrow> None | Inr l \<Rightarrow> Some l),
     into_stats = (\<lambda>_. Some stats_default)\<rparr>"

definition table_manager :: "(etable, ltable, firewall_stats) map_manager" where
  "table_manager = \<lparr>ipv4_exact = [], ipv6_exact = [], ipv4_lpm = [], ipv6_lpm = [],
     stats_map = stats_default, firehol_v4_exact = [], firehol_v6_exact = [],
     firehol_v4_lpm = [], firehol_v6_lpm = []\<rparr>"

interpretation tables: aya_env table_aya
    "table_invar (\<lambda>k. length k = 4)" "table_invar (\<lambda>k. length k = 16)" map_of
    "table_invar (net_key 4)" "table_invar (net_key 16)" map_of table_lookup
  unfolding aya_env_def table_aya_def
  by (simp add: table.bpf_map_axioms trie.lpm_trie_axioms)

lemma tables_env:
  "aya_env table_aya (table_invar (\<lambda>k. length k = 4)) (table_invar (\<lambda>k. length k = 16)) map_of
     (table_invar (net_key 4)) (table_invar (net_key 16)) map_of table_lookup"
  by (rule tables.aya_env_axioms)

lemma table_manager_start:
  "tables.manager_ok table_manager" "tables.manager_holds table_manager rs_new rs_new"
  by (simp_all add: mm_invar_def table_manager_def table_invar_def mm_reflects_def reflects_def
      rs_new_def lpm_rules_def rules_map_def)

subsection \<open>Histories of synchronisations\<close>

datatype sync_op = StaticSync rule_set | FireholSync rule_set

fun run_syncs ::
  "('o, 'e, 'l, 's) aya \<Rightarrow> sync_op list \<Rightarrow> ('e, 'l, 's) map_manager \<Rightarrow> ('e, 'l, 's) map_manager" where
  "run_syncs A [] mm = mm"
| "run_syncs A (StaticSync r # ops) mm = run_syncs A ops (snd (sync_rules A r mm))"
| "run_syncs A (FireholSync r # ops) mm = run_syncs A ops (snd (sync_firehol_rules A r mm))"

text \<open>
  The specification: the pair of the latest static and the latest FireHOL rule set.  A
  history is admissible when the two sources never share a key and every set fits.
\<close>

fun latest :: "rule_set \<Rightarrow> rule_set \<Rightarrow> sync_op list \<Rightarrow> rule_set \<times> rule_set" where
  "latest s f [] = (s, f)"
| "latest s f (StaticSync r # ops) = latest r f ops"
| "latest s f (FireholSync r # ops) = latest s r ops"

fun admissible :: "rule_set \<Rightarrow> rule_set \<Rightarrow> sync_op list \<Rightarrow> bool" where
  "admissible s f [] \<longleftrightarrow> True"
| "admissible s f (StaticSync r # ops) \<longleftrightarrow>
     rules_ok r \<and> disjoint_rules r f \<and> rules_fit s f r \<and> admissible r f ops"
| "admissible s f (FireholSync r # ops) \<longleftrightarrow>
     rules_ok r \<and> disjoint_rules s r \<and> rules_fit s f r \<and> admissible s r ops"

context aya_env
begin

lemma run_syncs_holds:
  "admissible s f ops \<Longrightarrow> manager_ok mm \<Longrightarrow> manager_holds mm s f \<Longrightarrow>
   manager_ok (run_syncs A ops mm) \<and>
   manager_holds (run_syncs A ops mm) (fst (latest s f ops)) (snd (latest s f ops))"
proof (induction s f ops arbitrary: mm rule: admissible.induct)
  case (1 s f)
  then show ?case by simp
next
  case (2 s f r ops)
  obtain removed mm' where "sync_rules A r mm = (report_of removed r, mm')"
    "manager_ok mm'" "manager_holds mm' r f"
    using sync_rules_holds [OF 2(3,4), of r] 2(2) by auto
  then show ?case using 2(1) [of mm'] 2(2) by simp
next
  case (3 s f r ops)
  obtain removed mm' where "sync_firehol_rules A r mm = (report_of removed r, mm')"
    "manager_ok mm'" "manager_holds mm' s r"
    using sync_firehol_holds [OF 3(3,4), of r] 3(2) by auto
  then show ?case using 3(1) [of mm'] 3(2) by simp
qed

end

text \<open>
  Refinement of the map synchronisation.  Over any kernel that keeps the map laws,
  start from maps that hold a static and a FireHOL rule set, and run any sequence of
  static reloads and FireHOL reloads in which the two sources share no key and the sets
  fit the declared capacities.  Then each of the four maps holds exactly the rules of the
  latest static set and of the latest FireHOL set: nothing stale, nothing missing.
\<close>

lemma run_syncs_refines:
  assumes "aya_env A einv4 einv6 econtent linv4 linv6 lcontent lookup"
    and "mm_invar einv4 einv6 linv4 linv6 mm" "mm_reflects econtent lcontent mm s0 f0"
    and "admissible s0 f0 ops" "latest s0 f0 ops = (s, f)"
  shows "econtent (ipv4_exact (run_syncs A ops mm)) = rules_map (exact_v4 s) ++ rules_map (exact_v4 f) \<and>
    econtent (ipv6_exact (run_syncs A ops mm)) = rules_map (exact_v6 s) ++ rules_map (exact_v6 f) \<and>
    lcontent (ipv4_lpm (run_syncs A ops mm)) =
      rules_map (lpm_rules (lpm_v4 s)) ++ rules_map (lpm_rules (lpm_v4 f)) \<and>
    lcontent (ipv6_lpm (run_syncs A ops mm)) =
      rules_map (lpm_rules (lpm_v6 s)) ++ rules_map (lpm_rules (lpm_v6 f))"
  using aya_env.run_syncs_holds [OF assms(1,4,2,3)] assms(5)
  by (simp add: mm_reflects_def reflects_def)

definition one_rule :: "bytes \<Rightarrow> u32 \<Rightarrow> rule_set" where
  "one_rule a i = rs_new\<lparr>exact_v4 := [(a, rule_drop i)]\<rparr>"

lemma one_rule_ok: "length a = 4 \<Longrightarrow> rules_ok (one_rule a i)"
  by (simp add: rules_ok_def wf_rules_def one_rule_def rs_new_def lpm_rules_def)

lemma one_rule_fit: "rules_fit (one_rule a i) (one_rule b j) (one_rule c k)"
  "rules_fit rs_new rs_new (one_rule c k)" "rules_fit (one_rule a i) rs_new (one_rule c k)"
proof -
  have "card {a, b, c} \<le> 3" by (simp add: card_insert_if)
  then show "rules_fit (one_rule a i) (one_rule b j) (one_rule c k)"
    by (simp add: rules_fit_def room_def one_rule_def rs_new_def lpm_rules_def insert_commute fw_consts)
  have "card {a, c} \<le> 2" by (simp add: card_insert_if)
  then show "rules_fit rs_new rs_new (one_rule c k)" "rules_fit (one_rule a i) rs_new (one_rule c k)"
    by (simp_all add: rules_fit_def room_def one_rule_def rs_new_def lpm_rules_def insert_commute fw_consts)
qed

lemma one_rule_disjoint:
  "a \<noteq> b \<Longrightarrow> disjoint_rules (one_rule a i) (one_rule b j)" "disjoint_rules (one_rule a i) rs_new"
  by (simp_all add: disjoint_rules_def one_rule_def rs_new_def lpm_rules_def)

lemma run_syncs_refines_example:
  "map_of (ipv4_exact (run_syncs table_aya
      [StaticSync (one_rule [10, 0, 0, 1] 5), FireholSync (one_rule [10, 0, 0, 2] 6),
       StaticSync (one_rule [10, 0, 0, 3] 7)] table_manager)) =
   [[10, 0, 0, 3] \<mapsto> rule_drop 7, [10, 0, 0, 2] \<mapsto> rule_drop 6]"
  using run_syncs_refines [OF tables_env table_manager_start, of
      "[StaticSync (one_rule [10, 0, 0, 1] 5), FireholSync (one_rule [10, 0, 0, 2] 6),
        StaticSync (one_rule [10, 0, 0, 3] 7)]"]
  by (simp add: one_rule_ok one_rule_fit one_rule_disjoint)
    (simp add: one_rule_def rules_map_def)

subsection \<open>When a map is full\<close>

text \<open>
  \<open>only_known c' c fh R\<close>: after a static reload with rules \<open>R\<close>, the content \<open>c'\<close> of a map
  has only rules of \<open>R\<close> and rules FireHOL owns, and FireHOL's keys are all still there.
\<close>

definition only_known ::
  "('k \<rightharpoonup> rule_value) \<Rightarrow> ('k \<rightharpoonup> rule_value) \<Rightarrow> 'k list \<Rightarrow> ('k \<times> rule_value) list \<Rightarrow> bool" where
  "only_known c' c fh R \<longleftrightarrow>
     (\<forall>k. c' k = None \<or> (\<exists>v. c' k = Some v \<and> ((k, v) \<in> set R \<or> k \<in> set fh \<and> c k = Some v))) \<and>
     dom c \<inter> set fh \<subseteq> dom c'"

lemma rules_map_in_set: "rules_map rs k = Some v \<Longrightarrow> (k, v) \<in> set rs"
  by (auto simp: rules_map_def dest: map_of_SomeD)

context bpf_map
begin

lemma sync_map_only_known:
  assumes "invar m" "\<forall>k \<in> fst ` set R. valid_key k" "sync_map ops fh R m = (m', i, r)"
  shows "invar m' \<and> only_known (content m') (content m) fh R \<and> i \<le> length R"
proof -
  obtain j where j: "i = j" "j \<le> length R" "invar m'"
    "content m' = (content m |` set fh) ++ rules_map (take j R)"
    using sync_map_spec [OF assms(1,2), of fh] assms(3) by auto
  have "only_known (content m') (content m) fh R"
    unfolding only_known_def j(4)
    by (auto simp: map_add_def restrict_map_def split: option.splits
        dest!: rules_map_in_set dest: in_set_takeD)
  with j show ?thesis by simp
qed

end

text \<open>
  \<^bold>\<open>C15\<close>. A static reload is safe whatever the room in the maps.  Also when a map is full or
  refuses an insert part-way, after \<open>sync_rules\<close> every entry of each of the four maps is a
  rule of the new set or an entry FireHOL owns with its old value, no FireHOL key is lost,
  and the report never claims more inserts than there are rules.
\<close>

theorem sync_rules_safe:
  assumes "aya_env A einv4 einv6 econtent linv4 linv6 lcontent lookup"
    and "mm_invar einv4 einv6 linv4 linv6 mm" "rules_ok r"
    and "sync_rules A r mm = (rep, mm')"
  shows "mm_invar einv4 einv6 linv4 linv6 mm' \<and>
    only_known (econtent (ipv4_exact mm')) (econtent (ipv4_exact mm)) (firehol_v4_exact mm) (exact_v4 r) \<and>
    only_known (econtent (ipv6_exact mm')) (econtent (ipv6_exact mm)) (firehol_v6_exact mm) (exact_v6 r) \<and>
    only_known (lcontent (ipv4_lpm mm')) (lcontent (ipv4_lpm mm)) (firehol_v4_lpm mm) (lpm_rules (lpm_v4 r)) \<and>
    only_known (lcontent (ipv6_lpm mm')) (lcontent (ipv6_lpm mm)) (firehol_v6_lpm mm) (lpm_rules (lpm_v6 r)) \<and>
    firehol_v4_exact mm' = firehol_v4_exact mm \<and> ipv4_exact_inserted rep \<le> length (exact_v4 r)"
proof -
  note k = rules_ok_keys [OF assms(3)]
  from assms(1) have
    e4: "bpf_map (ops_exact_v4 A) einv4 econtent (\<lambda>k. length k = 4) MAX_IPV4_HASH_ENTRIES" and
    e6: "bpf_map (ops_exact_v6 A) einv6 econtent (\<lambda>k. length k = 16) MAX_IPV6_HASH_ENTRIES" and
    l4: "bpf_map (ops_lpm_v4 A) linv4 lcontent (net_key 4) MAX_IPV4_LPM_ENTRIES" and
    l6: "bpf_map (ops_lpm_v6 A) linv6 lcontent (net_key 16) MAX_IPV6_LPM_ENTRIES"
    by (simp_all add: aya_env_def lpm_trie_def)
  show ?thesis
    using assms(2,4) bpf_map.sync_map_only_known [OF e4 _ k(1)] bpf_map.sync_map_only_known [OF e6 _ k(2)]
      bpf_map.sync_map_only_known [OF l4 _ k(3)] bpf_map.sync_map_only_known [OF l6 _ k(4)]
    by (auto simp: sync_rules_def mm_invar_def split: prod.splits)
qed

theorem sync_rules_safe_witness:
  "only_known (map_of (ipv4_exact (snd (sync_rules table_aya (one_rule [10, 0, 0, 1] 5) table_manager))))
     Map.empty [] [([10, 0, 0, 1], rule_drop 5)]"
  using sync_rules_safe [OF tables_env table_manager_start(1) one_rule_ok [of "[10, 0, 0, 1]" 5]
      prod.collapse [symmetric]]
  by (simp add: table_manager_def one_rule_def)

subsection \<open>Overlapping sources\<close>

text \<open>
  \<^bold>\<open>C16\<close>. FireHOL reloads take over static rules on common keys.  If a FireHOL set holds an
  address that the static set holds too, and a later FireHOL set does not, then after the
  two FireHOL reloads the address is gone from the map, although the static set was never
  reloaded and still blocks it.
\<close>

theorem firehol_sync_clobbers_static:
  assumes "aya_env A einv4 einv6 econtent linv4 linv6 lcontent lookup"
    and "mm_invar einv4 einv6 linv4 linv6 mm" "mm_reflects econtent lcontent mm s f"
    and "rules_ok r" "rules_ok r'" "rules_fit s f r"
    and "a \<in> fst ` set (exact_v4 s)" "a \<in> fst ` set (exact_v4 r)" "a \<notin> fst ` set (exact_v4 r')"
  shows "econtent (ipv4_exact mm) a \<noteq> None \<and>
    econtent (ipv4_exact (run_syncs A [FireholSync r, FireholSync r'] mm)) a = None"
proof -
  from assms(1) have
    e4: "bpf_map (ops_exact_v4 A) einv4 econtent (\<lambda>k. length k = 4) MAX_IPV4_HASH_ENTRIES"
    by (simp add: aya_env_def)
  have inv: "einv4 (ipv4_exact mm)" using assms(2) by (simp add: mm_invar_def)
  have refl: "reflects (econtent (ipv4_exact mm)) (firehol_v4_exact mm) (exact_v4 s) (exact_v4 f)"
    using assms(3) by (simp add: mm_reflects_def)
  then have d: "dom (econtent (ipv4_exact mm)) = fst ` set (exact_v4 s) \<union> fst ` set (exact_v4 f)"
    and fh: "set (firehol_v4_exact mm) = fst ` set (exact_v4 f)"
    by (auto simp: reflects_def)
  have len: "\<forall>k \<in> set (firehol_v4_exact mm). length k = 4"
    using bpf_map.content_valid [OF e4 inv] d fh by (metis UnI2 domIff)
  have cap: "card (dom (econtent (ipv4_exact mm)) \<union> fst ` set (exact_v4 r)) \<le> MAX_IPV4_HASH_ENTRIES"
    using assms(6) by (simp add: d rules_fit_def room_def)
  obtain m1 inst rem where one: "einv4 m1" "set inst = fst ` set (exact_v4 r)"
    "sync_firehol_map (ops_exact_v4 A) (firehol_v4_exact mm) (exact_v4 r) (ipv4_exact mm) =
       (m1, inst, length (exact_v4 r), rem)"
    using bpf_map.sync_firehol_map_spec [OF e4 inv rules_ok_keys(1) [OF assms(4)] len] cap
    by auto
  have len': "\<forall>k \<in> set inst. length k = 4" using rules_ok_keys(1) [OF assms(4)] one(2) by simp
  obtain j m2 inst2 rem2 where two:
    "sync_firehol_map (ops_exact_v4 A) inst (exact_v4 r') m1 = (m2, inst2, j, rem2)"
    "econtent m2 = (econtent m1 |` (- set inst)) ++ rules_map (take j (exact_v4 r'))"
    using bpf_map.sync_firehol_map_spec [OF e4 one(1) rules_ok_keys(1) [OF assms(5)] len'] by auto
  have "a \<notin> fst ` set (take j (exact_v4 r'))"
    using assms(9) by (auto dest: in_set_takeD)
  then have "rules_map (take j (exact_v4 r')) a = None"
    using dom_rules_map [of "take j (exact_v4 r')"] by (metis domIff)
  moreover have "a \<in> set inst" using one(2) assms(8) by simp
  ultimately have "econtent m2 a = None"
    by (simp add: two(2) map_add_def restrict_map_def)
  moreover have "econtent (ipv4_exact mm) a \<noteq> None" using d assms(7) by (metis UnI1 domIff)
  ultimately show ?thesis
    using one(3) two(1) by (simp add: sync_firehol_rules_def split: prod.splits)
qed

theorem firehol_sync_clobbers_static_witness:
  "map_of (ipv4_exact (run_syncs table_aya [FireholSync (one_rule [10, 0, 0, 1] 1), FireholSync rs_new]
     (run_syncs table_aya [StaticSync (one_rule [10, 0, 0, 1] 5)] table_manager))) [10, 0, 0, 1] = None"
proof -
  let ?mm = "run_syncs table_aya [StaticSync (one_rule [10, 0, 0, 1] 5)] table_manager"
  have h: "tables.manager_ok ?mm" "tables.manager_holds ?mm (one_rule [10, 0, 0, 1] 5) rs_new"
    using tables.run_syncs_holds [OF _ table_manager_start,
        of "[StaticSync (one_rule [10, 0, 0, 1] 5)]"]
    by (simp_all add: one_rule_ok one_rule_fit one_rule_disjoint)
  have new: "rules_ok rs_new"
    by (simp add: rules_ok_def rs_new_def wf_rules_def lpm_rules_def)
  show ?thesis
    using firehol_sync_clobbers_static [OF tables_env h one_rule_ok [of "[10, 0, 0, 1]" 1] new one_rule_fit(3),
        of "[10, 0, 0, 1]"]
    by (simp add: one_rule_def rs_new_def)
qed

end
