(* ===== verification/Fw_Loader.thy ===== *)
theory Fw_Loader
  imports Ip_Net Map_Manager
begin

section \<open>Loading static rules\<close>

text \<open>
  Models \<open>src/loader.rs\<close>: the line parser, the loader of files into a rule set with the
  per-rule origin, and the registry of origins.  The file system is a parameter: whether
  a path exists, and what opening it and reading its lines yields.  The rule identifier
  counter is a 32-bit word; the theorems that need it ask that it does not wrap.
\<close>

subsection \<open>Origins of static rules\<close>

definition STATIC_RULE_BASE :: u32 where
  [fw_consts]: "STATIC_RULE_BASE = push_bit 28 1"

record static_rule_info =
  si_rule_id :: u32
  si_file :: string
  si_line :: u32

type_synonym static_meta = "(u32 \<times> static_rule_info) list"

record static_rule_registry =
  sr_inner :: static_meta

definition registry_new :: static_rule_registry where
  "registry_new = \<lparr>sr_inner = []\<rparr>"

definition registry_set :: "static_meta \<Rightarrow> static_rule_registry \<Rightarrow> static_rule_registry" where
  "registry_set m r = r\<lparr>sr_inner := m\<rparr>"

definition registry_get :: "static_rule_registry \<Rightarrow> u32 \<Rightarrow> static_rule_info option" where
  "registry_get r rule_id = map_of (sr_inner r) rule_id"

subsection \<open>Parsing a line\<close>

datatype parsed_entry =
  EntryExactV4 bytes rule_value
| EntryExactV6 bytes rule_value
| EntryLpmV4 u32 bytes rule_value
| EntryLpmV6 u32 bytes rule_value

fun entry_rule_id :: "parsed_entry \<Rightarrow> u32" where
  "entry_rule_id (EntryExactV4 _ v) = rv_rule_id v"
| "entry_rule_id (EntryExactV6 _ v) = rv_rule_id v"
| "entry_rule_id (EntryLpmV4 _ _ v) = rv_rule_id v"
| "entry_rule_id (EntryLpmV6 _ _ v) = rv_rule_id v"

datatype load_error = ParseError string | IoError string

definition parse_line :: "'n ipnet_lib \<Rightarrow> string \<Rightarrow> u32 \<Rightarrow> load_error + parsed_entry option" where
  "parse_line L raw_line rule_id =
     (let line = trim (before_char CHR ''#'' raw_line) in
      if line = [] then Inr None
      else let rule_val = rule_drop rule_id in
        (case lib_from_str L line of
           Some (Inl net4) \<Rightarrow>
             let prefix_len = ucast (net_prefix_len (lib_v4 L) net4) :: u32;
                 addr_octets = net_network (lib_v4 L) net4 in
             if prefix_len = 32 then Inr (Some (EntryExactV4 addr_octets rule_val))
             else Inr (Some (EntryLpmV4 prefix_len addr_octets rule_val))
         | Some (Inr net6) \<Rightarrow>
             let prefix_len = ucast (net_prefix_len (lib_v6 L) net6) :: u32;
                 addr_octets = net_network (lib_v6 L) net6 in
             if prefix_len = 128 then Inr (Some (EntryExactV6 addr_octets rule_val))
             else Inr (Some (EntryLpmV6 prefix_len addr_octets rule_val))
         | None \<Rightarrow>
             (case parse_ip line of
                Some (V4 a) \<Rightarrow> Inr (Some (EntryExactV4 a rule_val))
              | Some (V6 a) \<Rightarrow> Inr (Some (EntryExactV6 a rule_val))
              | None \<Rightarrow> Inl (ParseError line))))"

subsection \<open>Loading files\<close>

record load_state =
  ld_rules :: rule_set
  ld_meta :: static_meta
  ld_next_id :: u32

record loader_fs =
  fs_exists :: "string \<Rightarrow> bool"
  fs_lines :: "string \<Rightarrow> string + (string + string) list"

text \<open>\<open>Path::file_name\<close>, or "unknown".\<close>

definition path_file_name :: "string \<Rightarrow> string option" where
  "path_file_name path =
     (case rev (filter (\<lambda>c. c \<noteq> [] \<and> c \<noteq> ''.'') (split_char CHR ''/'' path)) of
        [] \<Rightarrow> None | c # _ \<Rightarrow> if c = ''..'' then None else Some c)"

definition add_entry :: "parsed_entry \<Rightarrow> rule_set \<Rightarrow> rule_set" where
  "add_entry e rules =
     (case e of
        EntryExactV4 addr val \<Rightarrow>
          let old = map_of (exact_v4 rules) addr;
              rules = rules\<lparr>exact_v4 := AList.update addr val (exact_v4 rules)\<rparr>
          in if old \<noteq> None then rules\<lparr>skipped_rules := skipped_rules rules + 1\<rparr> else rules
      | EntryExactV6 addr val \<Rightarrow>
          let old = map_of (exact_v6 rules) addr;
              rules = rules\<lparr>exact_v6 := AList.update addr val (exact_v6 rules)\<rparr>
          in if old \<noteq> None then rules\<lparr>skipped_rules := skipped_rules rules + 1\<rparr> else rules
      | EntryLpmV4 prefix_len addr val \<Rightarrow> rules\<lparr>lpm_v4 := lpm_v4 rules @ [(prefix_len, addr, val)]\<rparr>
      | EntryLpmV6 prefix_len addr val \<Rightarrow> rules\<lparr>lpm_v6 := lpm_v6 rules @ [(prefix_len, addr, val)]\<rparr>)"

definition load_line :: "'n ipnet_lib \<Rightarrow> string \<Rightarrow> nat \<Rightarrow> string \<Rightarrow> load_state \<Rightarrow> load_state" where
  "load_line L file_name line_number raw_line st =
     (case parse_line L raw_line (ld_next_id st) of
        Inr (Some parsed_entry) \<Rightarrow>
          let rule_id = entry_rule_id parsed_entry in
          st\<lparr>ld_meta := AList.update rule_id
               \<lparr>si_rule_id = rule_id, si_file = file_name, si_line = of_nat line_number\<rparr> (ld_meta st),
             ld_next_id := ld_next_id st + 1,
             ld_rules := add_entry parsed_entry (ld_rules st)\<rparr>
      | Inr None \<Rightarrow> st
      | Inl e \<Rightarrow> st\<lparr>ld_rules := (ld_rules st)\<lparr>skipped_rules := skipped_rules (ld_rules st) + 1\<rparr>\<rparr>)"

fun load_lines ::
  "'n ipnet_lib \<Rightarrow> string \<Rightarrow> nat \<Rightarrow> (string + string) list \<Rightarrow> load_state \<Rightarrow> load_error + load_state" where
  "load_lines L file_name idx [] st = Inr st"
| "load_lines L file_name idx (Inl e # rest) st = Inl (IoError e)"
| "load_lines L file_name idx (Inr raw_line # rest) st =
     load_lines L file_name (idx + 1) rest (load_line L file_name (idx + 1) raw_line st)"

definition load_file_into ::
  "'n ipnet_lib \<Rightarrow> loader_fs \<Rightarrow> string \<Rightarrow> load_state \<Rightarrow> load_error + load_state" where
  "load_file_into L fs path st =
     (case fs_lines fs path of
        Inl e \<Rightarrow> Inl (IoError e)
      | Inr ls \<Rightarrow>
          let file_name = (case path_file_name path of Some n \<Rightarrow> n | None \<Rightarrow> ''unknown'')
          in load_lines L file_name 0 ls st)"

fun load_paths ::
  "'n ipnet_lib \<Rightarrow> loader_fs \<Rightarrow> string list \<Rightarrow> load_state \<Rightarrow> load_error + load_state" where
  "load_paths L fs [] st = Inr st"
| "load_paths L fs (path # paths) st =
     (if \<not> fs_exists fs path then load_paths L fs paths st
      else case load_file_into L fs path st of
        Inl e \<Rightarrow> Inl e
      | Inr st' \<Rightarrow> load_paths L fs paths st')"

definition load_start :: load_state where
  "load_start = \<lparr>ld_rules = rs_new, ld_meta = [], ld_next_id = STATIC_RULE_BASE\<rparr>"

definition load_from_paths_with_meta ::
  "'n ipnet_lib \<Rightarrow> loader_fs \<Rightarrow> string list \<Rightarrow> load_error + rule_set \<times> static_meta" where
  "load_from_paths_with_meta L fs paths =
     (case load_paths L fs paths load_start of
        Inl e \<Rightarrow> Inl e
      | Inr st \<Rightarrow> let combined = ld_rules st in
          Inr (combined\<lparr>total_rules := rs_count combined\<rparr>, ld_meta st))"

definition load_from_paths :: "'n ipnet_lib \<Rightarrow> loader_fs \<Rightarrow> string list \<Rightarrow> load_error + rule_set" where
  "load_from_paths L fs paths =
     (case load_from_paths_with_meta L fs paths of Inl e \<Rightarrow> Inl e | Inr r \<Rightarrow> Inr (fst r))"

definition load_file :: "'n ipnet_lib \<Rightarrow> loader_fs \<Rightarrow> string \<Rightarrow> load_error + rule_set" where
  "load_file L fs path =
     (case load_file_into L fs path load_start of
        Inl e \<Rightarrow> Inl e
      | Inr st \<Rightarrow> let rules = ld_rules st in Inr (rules\<lparr>total_rules := rs_count rules\<rparr>))"

subsection \<open>What a line becomes\<close>

fun entry_key_ok :: "parsed_entry \<Rightarrow> bool" where
  "entry_key_ok (EntryExactV4 a v) \<longleftrightarrow> length a = 4"
| "entry_key_ok (EntryExactV6 a v) \<longleftrightarrow> length a = 16"
| "entry_key_ok (EntryLpmV4 p a v) \<longleftrightarrow> net_key 4 (p, a) \<and> unat p < 32"
| "entry_key_ok (EntryLpmV6 p a v) \<longleftrightarrow> net_key 16 (p, a) \<and> unat p < 128"

fun entry_value :: "parsed_entry \<Rightarrow> rule_value" where
  "entry_value (EntryExactV4 _ v) = v"
| "entry_value (EntryExactV6 _ v) = v"
| "entry_value (EntryLpmV4 _ _ v) = v"
| "entry_value (EntryLpmV6 _ _ v) = v"

lemma entry_rule_id_value: "entry_rule_id e = rv_rule_id (entry_value e)"
  by (cases e) auto

text \<open>The addresses an entry blocks.\<close>

fun entry_blocks :: "parsed_entry \<Rightarrow> ip_addr \<Rightarrow> bool" where
  "entry_blocks (EntryExactV4 a _) (V4 b) \<longleftrightarrow> a = b"
| "entry_blocks (EntryExactV6 a _) (V6 b) \<longleftrightarrow> a = b"
| "entry_blocks (EntryLpmV4 p a _) (V4 b) \<longleftrightarrow> same_prefix (unat p) a b"
| "entry_blocks (EntryLpmV6 p a _) (V6 b) \<longleftrightarrow> same_prefix (unat p) a b"
| "entry_blocks _ _ \<longleftrightarrow> False"

context ipnet
begin

lemma parse_line_entry:
  assumes "parse_line L raw i = Inr (Some e)"
  shows "entry_value e = rule_drop i" "entry_key_ok e"
proof -
  let ?line = "trim (before_char CHR ''#'' raw)"
  have ne: "?line \<noteq> []" using assms by (auto simp: parse_line_def Let_def)
  have "entry_value e = rule_drop i \<and> entry_key_ok e"
  proof (cases "lib_from_str L ?line")
    case None
    then show ?thesis
      using assms ne parse_ip_wf [of ?line]
      by (auto simp: parse_line_def Let_def split: option.splits ip_addr.splits)
  next
    case (Some r)
    show ?thesis
    proof (cases r)
      case (Inl n)
      have v: "valid4 n" using from_str_v4 Some Inl by simp
      then have le: "plen (lib_v4 L) n \<le> 32" and l: "length (net_network (lib_v4 L) n) = 4"
        using v4.valid_len [OF v] by auto
      have "unat (ucast (net_prefix_len (lib_v4 L) n) :: u32) = 32 \<longleftrightarrow>
          (ucast (net_prefix_len (lib_v4 L) n) :: u32) = 32"
        by (simp add: word_unat_eq_iff)
      then show ?thesis
        using assms ne Some Inl l le v4.network_key [OF v]
        by (auto simp: parse_line_def Let_def unat_ucast_up split: if_splits)
    next
      case (Inr n)
      have v: "valid6 n" using from_str_v6 Some Inr by simp
      then have le: "plen (lib_v6 L) n \<le> 128" and l: "length (net_network (lib_v6 L) n) = 16"
        using v6.valid_len [OF v] by auto
      have "unat (ucast (net_prefix_len (lib_v6 L) n) :: u32) = 128 \<longleftrightarrow>
          (ucast (net_prefix_len (lib_v6 L) n) :: u32) = 128"
        by (simp add: word_unat_eq_iff)
      then show ?thesis
        using assms ne Some Inr l le v6.network_key [OF v]
        by (auto simp: parse_line_def Let_def unat_ucast_up split: if_splits)
    qed
  qed
  then show "entry_value e = rule_drop i" "entry_key_ok e" by simp_all
qed

lemma parse_line_blocks_net:
  assumes "trim (before_char CHR ''#'' raw) \<noteq> []"
  shows "lib_from_str L (trim (before_char CHR ''#'' raw)) = Some (Inl n) \<Longrightarrow> length b = 4 \<Longrightarrow>
      \<exists>e. parse_line L raw i = Inr (Some e) \<and> (entry_blocks e (V4 b) \<longleftrightarrow> net_contains (lib_v4 L) n b)"
    and "lib_from_str L (trim (before_char CHR ''#'' raw)) = Some (Inr m) \<Longrightarrow> length c = 16 \<Longrightarrow>
      \<exists>e. parse_line L raw i = Inr (Some e) \<and> (entry_blocks e (V6 c) \<longleftrightarrow> net_contains (lib_v6 L) m c)"
proof -
  assume n: "lib_from_str L (trim (before_char CHR ''#'' raw)) = Some (Inl n)" and b: "length b = 4"
  then have v: "valid4 n" using from_str_v4 by simp
  show "\<exists>e. parse_line L raw i = Inr (Some e) \<and> (entry_blocks e (V4 b) \<longleftrightarrow> net_contains (lib_v4 L) n b)"
    using n assms v4.contains_network [OF v b] v4.length_network [OF v] b
      same_prefix_full [of "net_network (lib_v4 L) n" b 32]
    by (auto simp: parse_line_def Let_def unat_ucast_up word_unat_eq_iff)
next
  assume m: "lib_from_str L (trim (before_char CHR ''#'' raw)) = Some (Inr m)" and c: "length c = 16"
  then have v: "valid6 m" using from_str_v6 by simp
  show "\<exists>e. parse_line L raw i = Inr (Some e) \<and> (entry_blocks e (V6 c) \<longleftrightarrow> net_contains (lib_v6 L) m c)"
    using m assms v6.contains_network [OF v c] v6.length_network [OF v] c
      same_prefix_full [of "net_network (lib_v6 L) m" c 128]
    by (auto simp: parse_line_def Let_def unat_ucast_up word_unat_eq_iff)
qed

end

text \<open>
  What a rule line blocks.  Whatever its comment and white space, a line whose text is
  a network blocks exactly the addresses the network contains (a full-length prefix
  through the exact map, every other prefix through the trie); a line whose text is a
  displayed IPv4 address blocks exactly that address; the rule is a drop rule with the
  given identifier.
\<close>

lemma parse_line_blocks:
  assumes "ipnet L valid4 valid6"
    and "list_all is_whitespace pre" "list_all is_whitespace post"
    and "CHR ''#'' \<notin> set (pre @ body @ post)" "trim body \<noteq> []"
    and "length a = 4" "length b = 16"
  shows "(\<forall>n. lib_from_str L (trim body) = Some (Inl n) \<longrightarrow>
      (\<exists>e. parse_line L (pre @ body @ post @ ''#'' @ comment) i = Inr (Some e) \<and>
         (entry_blocks e (V4 a) \<longleftrightarrow> net_contains (lib_v4 L) n a))) \<and>
    (\<forall>n. lib_from_str L (trim body) = Some (Inr n) \<longrightarrow>
      (\<exists>e. parse_line L (pre @ body @ post @ ''#'' @ comment) i = Inr (Some e) \<and>
         (entry_blocks e (V6 b) \<longleftrightarrow> net_contains (lib_v6 L) n b))) \<and>
    (lib_from_str L (trim body) = None \<and> trim body = show_ipv4 a \<longrightarrow>
      parse_line L (pre @ body @ post @ ''#'' @ comment) i = Inr (Some (EntryExactV4 a (rule_drop i))))"
proof -
  let ?raw = "pre @ body @ post @ ''#'' @ comment"
  have "before_char CHR ''#'' ?raw = pre @ body @ post"
    using before_char_append [of "CHR ''#''" "pre @ body @ post" comment] assms(4) by simp
  then have line: "trim (before_char CHR ''#'' ?raw) = trim body"
    by (simp add: trim_append [OF assms(2,3)])
  then have ne: "trim (before_char CHR ''#'' ?raw) \<noteq> []" using assms(5) by simp
  note nets = ipnet.parse_line_blocks_net [OF assms(1) ne, unfolded line]
  have "parse_line L ?raw i = Inr (Some (EntryExactV4 a (rule_drop i)))"
    if "lib_from_str L (trim body) = None" "trim body = show_ipv4 a"
    using that parse_ip_show_ipv4 [OF assms(6)] assms(5)
    unfolding parse_line_def line by (simp add: Let_def)
  with nets(1) [OF _ assms(6)] nets(2) [OF _ assms(7)] show ?thesis by blast
qed

lemma pair_lib_demo:
  "lib_from_str pair_lib ''10.0.0.0/8'' = Some (Inl (8, [10, 0, 0, 0]))" "trim ''10.0.0.0/8'' = ''10.0.0.0/8''"
  by code_simp+

lemma parse_line_blocks_example:
  "\<exists>e. parse_line pair_lib ''  10.0.0.0/8 # internal'' 9 = Inr (Some e) \<and>
     (entry_blocks e (V4 [10, 1, 2, 3]) \<longleftrightarrow> net_contains (lib_v4 pair_lib) (8, [10, 0, 0, 0]) [10, 1, 2, 3])"
  using parse_line_blocks [OF pairs.ipnet_axioms, of "''  ''" "'' ''" "''10.0.0.0/8''" "[10, 1, 2, 3]" "replicate 16 0"
      "'' internal''" 9]
  by (simp add: pair_lib_demo is_whitespace_def)

subsection \<open>The loaded rules block what the files say\<close>

definition line_blocks :: "'n ipnet_lib \<Rightarrow> string \<Rightarrow> ip_addr \<Rightarrow> bool" where
  "line_blocks L raw ip =
     (case parse_line L raw 0 of Inr (Some e) \<Rightarrow> entry_blocks e ip | _ \<Rightarrow> False)"

fun with_value :: "rule_value \<Rightarrow> parsed_entry \<Rightarrow> parsed_entry" where
  "with_value v (EntryExactV4 a _) = EntryExactV4 a v"
| "with_value v (EntryExactV6 a _) = EntryExactV6 a v"
| "with_value v (EntryLpmV4 p a _) = EntryLpmV4 p a v"
| "with_value v (EntryLpmV6 p a _) = EntryLpmV6 p a v"

lemma entry_blocks_with_value [simp]: "entry_blocks (with_value v e) ip = entry_blocks e ip"
  by (cases e; cases ip) simp_all

lemma parse_line_id:
  "parse_line L raw i =
   (case parse_line L raw 0 of Inr (Some e) \<Rightarrow> Inr (Some (with_value (rule_drop i) e)) | r \<Rightarrow> r)"
  by (simp add: parse_line_def Let_def split: option.splits sum.splits ip_addr.splits)

lemma line_blocks_id:
  "line_blocks L raw ip = (case parse_line L raw i of Inr (Some e) \<Rightarrow> entry_blocks e ip | _ \<Rightarrow> False)"
  by (simp add: line_blocks_def parse_line_id [of L raw i] split: sum.splits option.splits)

lemma add_entry_blocks: "rs_blocks (add_entry e rs) ip \<longleftrightarrow> rs_blocks rs ip \<or> entry_blocks e ip"
  by (cases e; cases ip) (auto simp: add_entry_def Let_def dom_update)

lemma load_line_blocks:
  "rs_blocks (ld_rules (load_line L f n raw st)) ip \<longleftrightarrow> rs_blocks (ld_rules st) ip \<or> line_blocks L raw ip"
proof -
  have skip: "rs_blocks (rs\<lparr>skipped_rules := k\<rparr>) ip \<longleftrightarrow> rs_blocks rs ip" for rs k
    by (cases ip) simp_all
  show ?thesis
    by (auto simp: load_line_def line_blocks_id [of _ _ _ "ld_next_id st"] add_entry_blocks skip Let_def
        split: sum.splits option.splits)
qed

lemma load_lines_blocks:
  "load_lines L f n ls st = Inr st' \<Longrightarrow>
   rs_blocks (ld_rules st') ip \<longleftrightarrow>
     rs_blocks (ld_rules st) ip \<or> (\<exists>raw. Inr raw \<in> set ls \<and> line_blocks L raw ip)"
  by (induction L f n ls st rule: load_lines.induct) (auto simp: load_line_blocks)

definition path_blocks :: "'n ipnet_lib \<Rightarrow> loader_fs \<Rightarrow> string \<Rightarrow> ip_addr \<Rightarrow> bool" where
  "path_blocks L fs path ip \<longleftrightarrow> fs_exists fs path \<and>
     (case fs_lines fs path of Inl _ \<Rightarrow> False
      | Inr ls \<Rightarrow> (\<exists>raw. Inr raw \<in> set ls \<and> line_blocks L raw ip))"

lemma load_paths_blocks:
  "load_paths L fs paths st = Inr st' \<Longrightarrow>
   rs_blocks (ld_rules st') ip \<longleftrightarrow>
     rs_blocks (ld_rules st) ip \<or> (\<exists>path \<in> set paths. path_blocks L fs path ip)"
proof (induction L fs paths st rule: load_paths.induct)
  case (1 L fs st)
  then show ?case by simp
next
  case (2 L fs path paths st)
  show ?case
  proof (cases "fs_exists fs path")
    case False
    then show ?thesis using 2 by (simp add: path_blocks_def)
  next
    case True
    then obtain st1 where st1: "load_file_into L fs path st = Inr st1"
      "load_paths L fs paths st1 = Inr st'"
      using "2.prems" by (auto split: sum.splits)
    then obtain ls f where "fs_lines fs path = Inr ls" "load_lines L f 0 ls st = Inr st1"
      by (auto simp: load_file_into_def Let_def split: sum.splits)
    then have "rs_blocks (ld_rules st1) ip \<longleftrightarrow> rs_blocks (ld_rules st) ip \<or> path_blocks L fs path ip"
      using True by (simp add: load_lines_blocks path_blocks_def)
    then show ?thesis using "2.IH"(2) [OF _ st1(1) st1(2)] True by auto
  qed
qed

text \<open>
  \<^bold>\<open>C21\<close>. Loading is exact.  When loading succeeds, the rule set blocks an address if and only
  if some line of some existing file, read on its own, blocks it: no rule is lost or
  invented, whatever comments, blank, invalid or duplicate lines surround it.
\<close>

theorem load_blocks_exactly:
  assumes "load_from_paths_with_meta L fs paths = Inr (rs, meta)"
  shows "rs_blocks rs ip \<longleftrightarrow> (\<exists>path \<in> set paths. path_blocks L fs path ip)"
proof -
  obtain st where st: "load_paths L fs paths load_start = Inr st"
    "rs = (ld_rules st)\<lparr>total_rules := rs_count (ld_rules st)\<rparr>"
    using assms by (auto simp: load_from_paths_with_meta_def Let_def split: sum.splits)
  have "rs_blocks rs ip \<longleftrightarrow> rs_blocks (ld_rules st) ip"
    unfolding st(2) by (cases ip) simp_all
  moreover have "\<not> rs_blocks (ld_rules load_start) ip"
    by (cases ip) (simp_all add: load_start_def rs_new_def)
  ultimately show ?thesis using load_paths_blocks [OF st(1), of ip] by simp
qed

definition demo_fs :: loader_fs where
  "demo_fs = \<lparr>fs_exists = (\<lambda>p. p = ''/rules/a.txt''),
     fs_lines = (\<lambda>p. Inr [Inr ''# blocked'', Inr ''192.0.2.7 # host'', Inr ''xyz'', Inr ''10.0.0.0/8''])\<rparr>"

lemma demo_lines:
  "parse_line pair_lib ''# blocked'' i = Inr None"
  "parse_line pair_lib ''192.0.2.7 # host'' i = Inr (Some (EntryExactV4 [192, 0, 2, 7] (rule_drop i)))"
  "parse_line pair_lib ''xyz'' i = Inl (ParseError ''xyz'')"
  "parse_line pair_lib ''10.0.0.0/8'' i = Inr (Some (EntryLpmV4 8 [10, 0, 0, 0] (rule_drop i)))"
proof -
  have "trim (before_char CHR ''#'' ''# blocked'') = []"
    "trim (before_char CHR ''#'' ''192.0.2.7 # host'') = ''192.0.2.7''"
    "trim (before_char CHR ''#'' ''xyz'') = ''xyz''"
    "trim (before_char CHR ''#'' ''10.0.0.0/8'') = ''10.0.0.0/8''"
    "parse_ip ''192.0.2.7'' = Some (V4 [192, 0, 2, 7])" "parse_ip ''xyz'' = None"
    "lib_from_str pair_lib ''192.0.2.7'' = None" "lib_from_str pair_lib ''xyz'' = None"
    "net_network (lib_v4 pair_lib) (8, [10, 0, 0, 0]) = [10, 0, 0, 0]"
    "net_prefix_len (lib_v4 pair_lib) (8, [10, 0, 0, 0]) = 8"
    by code_simp+
  then show "parse_line pair_lib ''# blocked'' i = Inr None"
    "parse_line pair_lib ''192.0.2.7 # host'' i = Inr (Some (EntryExactV4 [192, 0, 2, 7] (rule_drop i)))"
    "parse_line pair_lib ''xyz'' i = Inl (ParseError ''xyz'')"
    "parse_line pair_lib ''10.0.0.0/8'' i = Inr (Some (EntryLpmV4 8 [10, 0, 0, 0] (rule_drop i)))"
    unfolding parse_line_def by (simp_all add: Let_def pair_lib_demo)
qed

lemma demo_load:
  "load_from_paths_with_meta pair_lib demo_fs [''/missing'', ''/rules/a.txt''] =
   Inr (\<lparr>exact_v4 = [([192, 0, 2, 7], rule_drop STATIC_RULE_BASE)], exact_v6 = [],
         lpm_v4 = [(8, [10, 0, 0, 0], rule_drop (STATIC_RULE_BASE + 1))], lpm_v6 = [],
         total_rules = 2, skipped_rules = 1\<rparr>,
        [(STATIC_RULE_BASE, \<lparr>si_rule_id = STATIC_RULE_BASE, si_file = ''a.txt'', si_line = 2\<rparr>),
         (STATIC_RULE_BASE + 1, \<lparr>si_rule_id = STATIC_RULE_BASE + 1, si_file = ''a.txt'', si_line = 4\<rparr>)])"
proof -
  have "path_file_name ''/rules/a.txt'' = Some ''a.txt''" by code_simp
  then show ?thesis
    by (simp add: load_from_paths_with_meta_def load_file_into_def demo_fs_def load_line_def demo_lines
        load_start_def rs_new_def add_entry_def rule_drop_def rs_count_def Let_def)
qed

theorem load_blocks_exactly_witness:
  "(\<exists>path \<in> {''/missing'', ''/rules/a.txt''}. path_blocks pair_lib demo_fs path (V4 [192, 0, 2, 7]))"
  using load_blocks_exactly [OF demo_load, of "V4 [192, 0, 2, 7]"] by simp

subsection \<open>Rule identifiers and origins\<close>

definition rule_values :: "rule_set \<Rightarrow> rule_value list" where
  "rule_values rs = map snd (exact_v4 rs) @ map snd (exact_v6 rs) @
     map (snd \<circ> snd) (lpm_v4 rs) @ map (snd \<circ> snd) (lpm_v6 rs)"

text \<open>
  The loader's invariant: well-formed keys; drop rules with pairwise distinct identifiers
  between the base and the counter; and exactly one origin per identifier handed out.
\<close>

definition load_inv :: "load_state \<Rightarrow> bool" where
  "load_inv st \<longleftrightarrow> rules_ok (ld_rules st) \<and>
     (\<forall>v \<in> set (rule_values (ld_rules st)). v = rule_drop (rv_rule_id v)) \<and>
     distinct (map rv_rule_id (rule_values (ld_rules st))) \<and>
     rv_rule_id ` set (rule_values (ld_rules st)) \<subseteq> {STATIC_RULE_BASE..<ld_next_id st} \<and>
     STATIC_RULE_BASE \<le> ld_next_id st \<and>
     dom (map_of (ld_meta st)) = {STATIC_RULE_BASE..<ld_next_id st} \<and>
     (\<forall>m \<in> set (ld_meta st). si_rule_id (snd m) = fst m)"

lemma set_update_subset: "set (AList.update k v m) \<subseteq> insert (k, v) (set m)"
  by (induction m) auto

lemma set_snd_update: "snd ` set (AList.update k v m) \<subseteq> insert v (snd ` set m)"
  by (induction m) (auto split: if_splits)

lemma distinct_snd_update:
  "distinct (map f (map snd m)) \<Longrightarrow> f v \<notin> f ` snd ` set m \<Longrightarrow>
   distinct (map f (map snd (AList.update k v m)))"
proof (induction m)
  case (Cons e m)
  obtain a b where e: "e = (a, b)" by (cases e)
  have "f ` snd ` set (AList.update k v m) \<subseteq> insert (f v) (f ` snd ` set m)"
    using set_snd_update [of k v m] by auto
  with Cons e show ?case by (auto simp: image_image)
qed simp

lemma add_entry_values:
  "set (rule_values (add_entry e rs)) \<subseteq> insert (entry_value e) (set (rule_values rs))"
proof (cases e)
  case (EntryExactV4 a v)
  then show ?thesis
    using set_snd_update [of a v "exact_v4 rs"] by (auto simp: add_entry_def rule_values_def Let_def)
next
  case (EntryExactV6 a v)
  then show ?thesis
    using set_snd_update [of a v "exact_v6 rs"] by (auto simp: add_entry_def rule_values_def Let_def)
qed (auto simp: add_entry_def rule_values_def)

lemma distinct_replace:
  "distinct (xs @ ys @ zs) \<Longrightarrow> distinct ys' \<Longrightarrow> set ys' \<subseteq> insert x (set ys) \<Longrightarrow>
   x \<notin> set (xs @ ys @ zs) \<Longrightarrow> distinct (xs @ ys' @ zs)"
  by auto

lemma add_entry_distinct:
  assumes "distinct (map rv_rule_id (rule_values rs))"
    and "rv_rule_id (entry_value e) \<notin> rv_rule_id ` set (rule_values rs)"
  shows "distinct (map rv_rule_id (rule_values (add_entry e rs)))"
proof -
  let ?f = "map rv_rule_id" let ?l = "?f (map (snd \<circ> snd) (lpm_v4 rs)) @ ?f (map (snd \<circ> snd) (lpm_v6 rs))"
  have d: "distinct (?f (map snd (exact_v4 rs)) @ ?f (map snd (exact_v6 rs)) @ ?l)"
    "rv_rule_id (entry_value e) \<notin> set (?f (map snd (exact_v4 rs)) @ ?f (map snd (exact_v6 rs)) @ ?l)"
    using assms unfolding rule_values_def by (simp_all add: image_Un image_image)
  have upd: "set (?f (map snd (AList.update a v m))) \<subseteq> insert (rv_rule_id v) (set (?f (map snd m)))" for a v m
    unfolding set_map image_insert [symmetric] by (rule image_mono) (rule set_snd_update)
  show ?thesis
  proof (cases e)
    case (EntryExactV4 a v)
    have "distinct (?f (map snd (AList.update a v (exact_v4 rs))))"
      using d EntryExactV4 by (intro distinct_snd_update) auto
    from distinct_replace [OF _ this upd, of "[]" "?f (map snd (exact_v6 rs)) @ ?l"] d
    have "distinct (?f (map snd (AList.update a v (exact_v4 rs))) @ ?f (map snd (exact_v6 rs)) @ ?l)"
      unfolding EntryExactV4 by (simp only: append_Nil entry_value.simps not_False_eq_True simp_thms)
    then show ?thesis
      by (simp add: EntryExactV4 add_entry_def rule_values_def Let_def)
  next
    case (EntryExactV6 a v)
    have "distinct (?f (map snd (AList.update a v (exact_v6 rs))))"
      using d EntryExactV6 by (intro distinct_snd_update) auto
    from distinct_replace [OF _ this upd, of "?f (map snd (exact_v4 rs))" ?l] d
    have "distinct (?f (map snd (exact_v4 rs)) @ ?f (map snd (AList.update a v (exact_v6 rs))) @ ?l)"
      unfolding EntryExactV6 by (simp only: entry_value.simps not_False_eq_True simp_thms)
    then show ?thesis
      by (simp add: EntryExactV6 add_entry_def rule_values_def Let_def)
  qed (use d in \<open>auto simp: add_entry_def rule_values_def\<close>)
qed

lemma add_entry_ok: "rules_ok rs \<Longrightarrow> entry_key_ok e \<Longrightarrow> rules_ok (add_entry e rs)"
  by (cases e)
    (auto simp: rules_ok_def wf_rules_def add_entry_def Let_def distinct_update list_all_update
      lpm_rules_def lpm_entry_def net_key_def)

lemma next_id_range:
  fixes n :: u32
  assumes "unat n + 1 < 2 ^ 32" "b \<le> n"
  shows "{b..<n + 1} = insert n {b..<n}" "b \<le> n + 1"
proof -
  have "unat (n + 1) = unat n + 1"
    using assms unat_plus_if' [of n 1] by simp
  then have less: "x < n + 1 \<longleftrightarrow> x < n \<or> x = n" for x
    by (simp add: word_less_nat_alt word_unat_eq_iff less_Suc_eq)
  show "{b..<n + 1} = insert n {b..<n}"
    by (rule set_eqI) (use less assms(2) in \<open>simp add: atLeastLessThan_iff; blast\<close>)
  show "b \<le> n + 1" using less [of n] assms(2) by (meson less_imp_le order_trans)
qed

context ipnet
begin

lemma load_line_inv:
  assumes "load_inv st" "unat (ld_next_id st) + 1 < 2 ^ 32"
  shows "load_inv (load_line L f n raw st)"
    "unat (ld_next_id (load_line L f n raw st)) \<le> unat (ld_next_id st) + 1"
proof -
  let ?i = "ld_next_id st"
  have nx: "unat (?i + 1) = unat ?i + 1" using assms(2) unat_plus_if' [of ?i 1] by simp
  have range: "{STATIC_RULE_BASE..<?i + 1} = insert ?i {STATIC_RULE_BASE..<?i}" "STATIC_RULE_BASE \<le> ?i + 1"
    using next_id_range [OF assms(2), of STATIC_RULE_BASE] assms(1) by (auto simp: load_inv_def)
  have skip: "load_inv (st\<lparr>ld_rules := (ld_rules st)\<lparr>skipped_rules := k\<rparr>\<rparr>)" for k
    using assms(1) by (simp add: load_inv_def rules_ok_def wf_rules_def rule_values_def)
  have "load_inv (load_line L f n raw st) \<and> unat (ld_next_id (load_line L f n raw st)) \<le> unat ?i + 1"
  proof (cases "parse_line L raw ?i")
    case (Inl e)
    then show ?thesis using skip by (simp add: load_line_def)
  next
    case (Inr r)
    show ?thesis
    proof (cases r)
      case None
      then show ?thesis using Inr assms(1) by (simp add: load_line_def)
    next
      case (Some e)
      note e = parse_line_entry [of raw ?i e, OF Inr [unfolded Some]]
      have id: "entry_rule_id e = ?i" "rv_rule_id (entry_value e) = ?i"
        using e(1) by (simp_all add: entry_rule_id_value rule_drop_def)
      have fresh: "rv_rule_id (entry_value e) \<notin> rv_rule_id ` set (rule_values (ld_rules st))"
        using assms(1) id(2) by (auto simp: load_inv_def)
      note ok = add_entry_ok [OF _ e(2), of "ld_rules st"] and d = add_entry_distinct [OF _ fresh]
        and vals = add_entry_values [of e "ld_rules st"]
      let ?st = "load_line L f n raw st"
      have st: "ld_rules ?st = add_entry e (ld_rules st)" "ld_next_id ?st = ?i + 1"
        "ld_meta ?st = AList.update ?i \<lparr>si_rule_id = ?i, si_file = f, si_line = of_nat n\<rparr> (ld_meta st)"
        by (simp_all add: load_line_def Inr Some id Let_def)
      have meta: "fst m = si_rule_id (snd m)" if "m \<in> set (ld_meta ?st)" for m
        using that assms(1) set_update_subset unfolding st load_inv_def by fastforce
      show ?thesis
        using assms(1) ok d vals id(2) e(1) nx range meta
        unfolding load_inv_def st
        by (auto simp: update_conv' dom_fun_upd subset_iff rule_drop_def)
    qed
  qed
  then show "load_inv (load_line L f n raw st)"
    "unat (ld_next_id (load_line L f n raw st)) \<le> unat ?i + 1" by simp_all
qed

end

text \<open>The rules of a set as parsed entries, and the origin a rule is attributed to.\<close>

fun in_rules :: "rule_set \<Rightarrow> parsed_entry \<Rightarrow> bool" where
  "in_rules rs (EntryExactV4 a v) \<longleftrightarrow> (a, v) \<in> set (exact_v4 rs)"
| "in_rules rs (EntryExactV6 a v) \<longleftrightarrow> (a, v) \<in> set (exact_v6 rs)"
| "in_rules rs (EntryLpmV4 p a v) \<longleftrightarrow> (p, a, v) \<in> set (lpm_v4 rs)"
| "in_rules rs (EntryLpmV6 p a v) \<longleftrightarrow> (p, a, v) \<in> set (lpm_v6 rs)"

definition origin_of ::
  "'n ipnet_lib \<Rightarrow> loader_fs \<Rightarrow> string list \<Rightarrow> static_rule_info \<Rightarrow> parsed_entry \<Rightarrow> bool" where
  "origin_of L fs paths info e \<longleftrightarrow>
     (\<exists>path \<in> set paths. fs_exists fs path \<and>
        si_file info = (case path_file_name path of Some n \<Rightarrow> n | None \<Rightarrow> ''unknown'') \<and>
        (\<exists>ls k raw. fs_lines fs path = Inr ls \<and> k < length ls \<and> ls ! k = Inr raw \<and>
           si_line info = of_nat (k + 1) \<and> parse_line L raw (si_rule_id info) = Inr (Some e)))"

definition attributed :: "(static_rule_info \<Rightarrow> parsed_entry \<Rightarrow> bool) \<Rightarrow> load_state \<Rightarrow> bool" where
  "attributed P st \<longleftrightarrow> (\<forall>e. in_rules (ld_rules st) e \<longrightarrow>
     (\<exists>info. map_of (ld_meta st) (entry_rule_id e) = Some info \<and> P info e))"

lemma in_rules_add_entry: "in_rules (add_entry e rs) e' \<Longrightarrow> e' = e \<or> in_rules rs e'"
  using set_update_subset
  by (cases e; cases e') (fastforce simp: add_entry_def Let_def split: if_splits)+

lemma in_rules_values: "in_rules rs e \<Longrightarrow> entry_value e \<in> set (rule_values rs)"
  by (cases e) (force simp: rule_values_def)+

lemma in_rules_skipped [simp]: "in_rules (rs\<lparr>skipped_rules := k\<rparr>) e = in_rules rs e"
  "in_rules (rs\<lparr>total_rules := k\<rparr>) e = in_rules rs e"
  by (cases e; simp)+

definition total_lines :: "loader_fs \<Rightarrow> string list \<Rightarrow> nat" where
  "total_lines fs paths =
     sum_list (map (\<lambda>path. case fs_lines fs path of Inl _ \<Rightarrow> 0 | Inr ls \<Rightarrow> length ls) paths)"

context ipnet
begin

lemma load_line_attributed:
  assumes "load_inv st" "attributed P st"
    and "\<And>e. parse_line L raw (ld_next_id st) = Inr (Some e) \<Longrightarrow>
      P \<lparr>si_rule_id = ld_next_id st, si_file = f, si_line = of_nat n\<rparr> e"
  shows "attributed P (load_line L f n raw st)"
proof (cases "parse_line L raw (ld_next_id st)")
  case (Inl e)
  then show ?thesis using assms(2) by (simp add: load_line_def attributed_def)
next
  case (Inr r)
  show ?thesis
  proof (cases r)
    case None
    then show ?thesis using assms(2) Inr by (simp add: load_line_def)
  next
    case (Some e)
    have id: "entry_rule_id e = ld_next_id st"
      using parse_line_entry(1) [of raw _ e] Inr Some by (simp add: entry_rule_id_value rule_drop_def)
    have old: "entry_rule_id e' \<noteq> ld_next_id st" if "in_rules (ld_rules st) e'" for e'
      using assms(1) in_rules_values [OF that] by (auto simp: load_inv_def entry_rule_id_value)
    show ?thesis
      using assms(2,3) id old
      by (auto dest!: in_rules_add_entry simp: attributed_def load_line_def Inr Some id Let_def update_conv')
  qed
qed

lemma load_lines_inv:
  assumes "load_lines L f idx rest st = Inr st'" "load_inv st" "attributed P st"
    and "unat (ld_next_id st) + length rest < 2 ^ 32"
    and "\<And>k raw i e. k < length rest \<Longrightarrow> rest ! k = Inr raw \<Longrightarrow> parse_line L raw i = Inr (Some e) \<Longrightarrow>
      P \<lparr>si_rule_id = i, si_file = f, si_line = of_nat (idx + k + 1)\<rparr> e"
  shows "load_inv st' \<and> attributed P st' \<and> unat (ld_next_id st') \<le> unat (ld_next_id st) + length rest"
  using assms
proof (induction rest arbitrary: idx st)
  case Nil
  then show ?case by simp
next
  case (Cons l rest)
  obtain raw where l: "l = Inr raw" using Cons.prems(1) by (cases l) auto
  let ?st = "load_line L f (idx + 1) raw st"
  have bound: "unat (ld_next_id st) + 1 < 2 ^ 32" using Cons.prems(4) by simp
  note inv = load_line_inv [OF Cons.prems(2) bound, of f "idx + 1" raw]
  have attr: "attributed P ?st"
    using Cons.prems(5) [of 0 raw] l
    by (intro load_line_attributed [OF Cons.prems(2,3)]) simp
  have "load_inv st' \<and> attributed P st' \<and> unat (ld_next_id st') \<le> unat (ld_next_id ?st) + length rest"
  proof (rule Cons.IH [OF _ inv(1) attr])
    show "load_lines L f (idx + 1) rest ?st = Inr st'" using Cons.prems(1) l by simp
    show "unat (ld_next_id ?st) + length rest < 2 ^ 32" using Cons.prems(4) inv(2) by simp
    fix k raw i e
    assume "k < length rest" "rest ! k = Inr raw" "parse_line L raw i = Inr (Some e)"
    then show "P \<lparr>si_rule_id = i, si_file = f, si_line = of_nat (idx + 1 + k + 1)\<rparr> e"
      using Cons.prems(5) [of "Suc k" raw i e] by simp
  qed
  then show ?case using inv(2) by simp
qed

lemma load_paths_inv:
  assumes "load_paths L fs paths st = Inr st'" "load_inv st" "attributed (origin_of L fs all) st"
    and "set paths \<subseteq> set all" "unat (ld_next_id st) + total_lines fs paths < 2 ^ 32"
  shows "load_inv st' \<and> attributed (origin_of L fs all) st'"
  using assms
proof (induction paths arbitrary: st)
  case Nil
  then show ?case by simp
next
  case (Cons path paths)
  show ?case
  proof (cases "fs_exists fs path")
    case False
    then show ?thesis using Cons by (simp add: total_lines_def)
  next
    case True
    then obtain st1 where st1: "load_file_into L fs path st = Inr st1" "load_paths L fs paths st1 = Inr st'"
      using Cons.prems(1) by (auto split: sum.splits)
    define f where "f = (case path_file_name path of Some n \<Rightarrow> n | None \<Rightarrow> ''unknown'')"
    obtain ls where ls: "fs_lines fs path = Inr ls" "load_lines L f 0 ls st = Inr st1"
      using st1(1) by (auto simp: load_file_into_def Let_def f_def split: sum.splits)
    have "load_inv st1 \<and> attributed (origin_of L fs all) st1 \<and>
        unat (ld_next_id st1) \<le> unat (ld_next_id st) + length ls"
    proof (rule load_lines_inv [OF ls(2) Cons.prems(2,3)])
      show "unat (ld_next_id st) + length ls < 2 ^ 32"
        using Cons.prems(5) ls(1) by (simp add: total_lines_def)
      fix k raw i e
      assume "k < length ls" "ls ! k = Inr raw" "parse_line L raw i = Inr (Some e)"
      then show "origin_of L fs all \<lparr>si_rule_id = i, si_file = f, si_line = of_nat (0 + k + 1)\<rparr> e"
        using True ls(1) Cons.prems(4)
        by (auto simp: origin_of_def f_def intro!: bexI [of _ path])
    qed
    then show ?thesis
      using Cons.IH [OF st1(2)] Cons.prems(4,5) ls(1) by (simp add: total_lines_def)
  qed
qed

end

text \<open>
  \<^bold>\<open>C22\<close>. Identifiers and attribution.  As long as the counter does not wrap, a successful load
  yields drop rules with pairwise distinct identifiers, all in the static namespace, with
  well-formed keys and a correct total; and the registry fed with the metadata resolves
  the identifier of every rule to the file and the 1-based line that rule was read from.
\<close>

theorem load_attribution:
  assumes "ipnet L valid4 valid6" "load_from_paths_with_meta L fs paths = Inr (rs, meta)"
    and "unat STATIC_RULE_BASE + total_lines fs paths < 2 ^ 32"
  shows "rules_ok rs \<and> total_rules rs = rs_count rs \<and> distinct (map rv_rule_id (rule_values rs)) \<and>
    (\<forall>v \<in> set (rule_values rs). v = rule_drop (rv_rule_id v) \<and> STATIC_RULE_BASE \<le> rv_rule_id v) \<and>
    (\<forall>e. in_rules rs e \<longrightarrow>
       (\<exists>info. registry_get (registry_set meta registry_new) (entry_rule_id e) = Some info \<and>
          origin_of L fs paths info e))"
proof -
  obtain st where st: "load_paths L fs paths load_start = Inr st" "meta = ld_meta st"
    "rs = (ld_rules st)\<lparr>total_rules := rs_count (ld_rules st)\<rparr>"
    using assms(2) by (auto simp: load_from_paths_with_meta_def Let_def split: sum.splits)
  have empty: "\<not> in_rules rs_new e" for e by (cases e) (simp_all add: rs_new_def)
  have start: "load_inv load_start" "attributed (origin_of L fs paths) load_start"
    using empty
    by (simp_all add: load_inv_def load_start_def rules_ok_def rs_new_def wf_rules_def lpm_rules_def
        rule_values_def attributed_def)
  have "load_inv st \<and> attributed (origin_of L fs paths) st"
    using ipnet.load_paths_inv [OF assms(1) st(1) start subset_refl] assms(3)
    by (simp add: load_start_def)
  moreover have "rule_values rs = rule_values (ld_rules st)"
    by (simp add: st(3) rule_values_def)
  moreover have "rules_ok rs = rules_ok (ld_rules st)"
    by (simp add: st(3) rules_ok_def wf_rules_def)
  moreover have "total_rules rs = rs_count rs" by (simp add: st(3) rs_count_def)
  ultimately show ?thesis
    by (auto simp: load_inv_def attributed_def registry_get_def registry_set_def st(2,3))
qed

theorem load_attribution_witness:
  "\<exists>info. registry_get (registry_set
      [(STATIC_RULE_BASE, \<lparr>si_rule_id = STATIC_RULE_BASE, si_file = ''a.txt'', si_line = 2\<rparr>),
       (STATIC_RULE_BASE + 1, \<lparr>si_rule_id = STATIC_RULE_BASE + 1, si_file = ''a.txt'', si_line = 4\<rparr>)]
      registry_new) STATIC_RULE_BASE = Some info \<and>
    origin_of pair_lib demo_fs [''/missing'', ''/rules/a.txt''] info
      (EntryExactV4 [192, 0, 2, 7] (rule_drop STATIC_RULE_BASE))"
proof -
  have "unat STATIC_RULE_BASE + total_lines demo_fs [''/missing'', ''/rules/a.txt''] < 2 ^ 32"
    by (simp add: total_lines_def demo_fs_def fw_consts)
  from load_attribution [OF pairs.ipnet_axioms demo_load this]
  show ?thesis
    by (auto simp: rule_drop_def dest!: spec [of _ "EntryExactV4 [192, 0, 2, 7] (rule_drop STATIC_RULE_BASE)"])
qed

end
