(* ===== verification/Top_N.thy ===== *)
theory Top_N
  imports Rust_Std "HOL-Library.AList" "HOL-Library.List_Lexorder" "HOL-Library.Multiset"
begin

section \<open>The most blocked addresses\<close>

text \<open>
  Models \<open>src/top_n.rs\<close>: statistics per blocked address with a bound on the number of addresses
  kept in memory, the ranking, and the export of the best \<open>capacity\<close> addresses to Prometheus
  counters.  The Prometheus vectors are not part of the repository: \<open>counter_vec_ops\<close> are the
  operations used, \<open>counter_vec\<close> their documented behaviour.  Counters are 64-bit words.  The
  hash map of statistics is an association list in any order.
\<close>

subsection \<open>Order of addresses\<close>

text \<open>\<open>IpAddr\<close> is ordered by family, then by octets.\<close>

instantiation ip_addr :: linorder
begin

fun less_eq_ip_addr :: "ip_addr \<Rightarrow> ip_addr \<Rightarrow> bool" where
  "V4 a \<le> V4 b \<longleftrightarrow> a \<le> b"
| "V4 a \<le> V6 b \<longleftrightarrow> True"
| "V6 a \<le> V4 b \<longleftrightarrow> False"
| "V6 a \<le> V6 b \<longleftrightarrow> a \<le> b"

definition less_ip_addr :: "ip_addr \<Rightarrow> ip_addr \<Rightarrow> bool" where
  "less_ip_addr a b \<longleftrightarrow> a \<le> b \<and> \<not> b \<le> a"

instance
proof
  fix x y z :: ip_addr
  show "x < y \<longleftrightarrow> x \<le> y \<and> \<not> y \<le> x" by (rule less_ip_addr_def)
  show "x \<le> x" by (cases x) simp_all
  show "x \<le> y \<Longrightarrow> y \<le> z \<Longrightarrow> x \<le> z" by (cases x; cases y; cases z) auto
  show "x \<le> y \<Longrightarrow> y \<le> x \<Longrightarrow> x = y" by (cases x; cases y) auto
  show "x \<le> y \<or> y \<le> x" by (cases x; cases y) auto
qed

end

subsection \<open>Protocols\<close>

datatype blocked_protocol = Tcp | Udp | Icmp | Icmpv6 | OtherProto

fun proto_as_str :: "blocked_protocol \<Rightarrow> string" where
  "proto_as_str Tcp = ''tcp''"
| "proto_as_str Udp = ''udp''"
| "proto_as_str Icmp = ''icmp''"
| "proto_as_str Icmpv6 = ''icmpv6''"
| "proto_as_str OtherProto = ''other''"

definition proto_from_u8 :: "u8 \<Rightarrow> blocked_protocol" where
  "proto_from_u8 p =
     (if p = 6 then Tcp else if p = 17 then Udp else if p = 1 then Icmp else if p = 58 then Icmpv6 else OtherProto)"

definition ascii_lower :: "char \<Rightarrow> char" where
  "ascii_lower c = (let n = (of_char c :: nat) in if 65 \<le> n \<and> n \<le> 90 then char_of (n + 32) else c)"

definition proto_from_str_loose :: "string \<Rightarrow> blocked_protocol" where
  "proto_from_str_loose s =
     (let t = map ascii_lower s in
      if t = ''tcp'' then Tcp else if t = ''udp'' then Udp else if t = ''icmp'' then Icmp
      else if t = ''icmpv6'' \<or> t = ''icmp6'' then Icmpv6 else OtherProto)"

definition proto_ALL :: "blocked_protocol list" where
  "proto_ALL = [Tcp, Udp, Icmp, Icmpv6, OtherProto]"

subsection \<open>Statistics of one address\<close>

record blocked_ip_stats =
  bs_ip :: ip_addr
  bs_total_packets :: u64
  bs_total_bytes :: u64
  bs_tcp_packets :: u64
  bs_udp_packets :: u64
  bs_icmp_packets :: u64
  bs_icmpv6_packets :: u64
  bs_other_packets :: u64
  bs_tcp_bytes :: u64
  bs_udp_bytes :: u64
  bs_icmp_bytes :: u64
  bs_icmpv6_bytes :: u64
  bs_other_bytes :: u64

definition stats_new :: "ip_addr \<Rightarrow> blocked_ip_stats" where
  "stats_new ip =
     \<lparr>bs_ip = ip, bs_total_packets = 0, bs_total_bytes = 0, bs_tcp_packets = 0, bs_udp_packets = 0,
      bs_icmp_packets = 0, bs_icmpv6_packets = 0, bs_other_packets = 0, bs_tcp_bytes = 0, bs_udp_bytes = 0,
      bs_icmp_bytes = 0, bs_icmpv6_bytes = 0, bs_other_bytes = 0\<rparr>"

definition record_packet :: "blocked_protocol \<Rightarrow> u64 \<Rightarrow> blocked_ip_stats \<Rightarrow> blocked_ip_stats" where
  "record_packet protocol n s =
     (let s = s\<lparr>bs_total_packets := bs_total_packets s + 1, bs_total_bytes := bs_total_bytes s + n\<rparr> in
      case protocol of
        Tcp \<Rightarrow> s\<lparr>bs_tcp_packets := bs_tcp_packets s + 1, bs_tcp_bytes := bs_tcp_bytes s + n\<rparr>
      | Udp \<Rightarrow> s\<lparr>bs_udp_packets := bs_udp_packets s + 1, bs_udp_bytes := bs_udp_bytes s + n\<rparr>
      | Icmp \<Rightarrow> s\<lparr>bs_icmp_packets := bs_icmp_packets s + 1, bs_icmp_bytes := bs_icmp_bytes s + n\<rparr>
      | Icmpv6 \<Rightarrow> s\<lparr>bs_icmpv6_packets := bs_icmpv6_packets s + 1, bs_icmpv6_bytes := bs_icmpv6_bytes s + n\<rparr>
      | OtherProto \<Rightarrow> s\<lparr>bs_other_packets := bs_other_packets s + 1, bs_other_bytes := bs_other_bytes s + n\<rparr>)"

fun packets_for_protocol :: "blocked_ip_stats \<Rightarrow> blocked_protocol \<Rightarrow> u64" where
  "packets_for_protocol s Tcp = bs_tcp_packets s"
| "packets_for_protocol s Udp = bs_udp_packets s"
| "packets_for_protocol s Icmp = bs_icmp_packets s"
| "packets_for_protocol s Icmpv6 = bs_icmpv6_packets s"
| "packets_for_protocol s OtherProto = bs_other_packets s"

fun bytes_for_protocol :: "blocked_ip_stats \<Rightarrow> blocked_protocol \<Rightarrow> u64" where
  "bytes_for_protocol s Tcp = bs_tcp_bytes s"
| "bytes_for_protocol s Udp = bs_udp_bytes s"
| "bytes_for_protocol s Icmp = bs_icmp_bytes s"
| "bytes_for_protocol s Icmpv6 = bs_icmpv6_bytes s"
| "bytes_for_protocol s OtherProto = bs_other_bytes s"

subsection \<open>Ranking and bounded tracking\<close>

datatype ranking_criterion = Packets | Bytes

record top_n =
  tn_capacity :: nat
  tn_criterion :: ranking_criterion
  tn_stats :: "(ip_addr \<times> blocked_ip_stats) list"
  tn_currently_exported :: "string list"
  tn_last_packets :: "string \<times> string \<Rightarrow> u64 option"
  tn_last_bytes :: "string \<times> string \<Rightarrow> u64 option"
  tn_last_total_packets :: "string \<Rightarrow> u64 option"
  tn_last_total_bytes :: "string \<Rightarrow> u64 option"
  tn_max_tracked_ips :: nat

definition top_n_new :: "nat \<Rightarrow> ranking_criterion \<Rightarrow> top_n" where
  "top_n_new capacity criterion =
     \<lparr>tn_capacity = capacity, tn_criterion = criterion, tn_stats = [], tn_currently_exported = [],
      tn_last_packets = Map.empty, tn_last_bytes = Map.empty, tn_last_total_packets = Map.empty,
      tn_last_total_bytes = Map.empty, tn_max_tracked_ips = 10000\<rparr>"

definition top_n_default :: top_n where
  "top_n_default = top_n_new 100 Packets"

text \<open>The comparison of \<open>sort_entries\<close>: \<open>a\<close> does not come after \<open>b\<close>.\<close>

fun ranks_before :: "ranking_criterion \<Rightarrow> blocked_ip_stats \<Rightarrow> blocked_ip_stats \<Rightarrow> bool" where
  "ranks_before Packets a b \<longleftrightarrow>
     bs_total_packets b < bs_total_packets a \<or>
     bs_total_packets b = bs_total_packets a \<and>
       (bs_total_bytes b < bs_total_bytes a \<or> bs_total_bytes b = bs_total_bytes a \<and> bs_ip a \<le> bs_ip b)"
| "ranks_before Bytes a b \<longleftrightarrow>
     bs_total_bytes b < bs_total_bytes a \<or>
     bs_total_bytes b = bs_total_bytes a \<and>
       (bs_total_packets b < bs_total_packets a \<or> bs_total_packets b = bs_total_packets a \<and> bs_ip a \<le> bs_ip b)"

text \<open>\<open>sort_by\<close> is a stable sort by a comparison.\<close>

fun insert_by :: "('a \<Rightarrow> 'a \<Rightarrow> bool) \<Rightarrow> 'a \<Rightarrow> 'a list \<Rightarrow> 'a list" where
  "insert_by le x [] = [x]"
| "insert_by le x (y # ys) = (if le x y then x # y # ys else y # insert_by le x ys)"

definition sort_by :: "('a \<Rightarrow> 'a \<Rightarrow> bool) \<Rightarrow> 'a list \<Rightarrow> 'a list" where
  "sort_by le xs = foldr (insert_by le) xs []"

definition sort_entries :: "top_n \<Rightarrow> blocked_ip_stats list \<Rightarrow> blocked_ip_stats list" where
  "sort_entries t entries = sort_by (ranks_before (tn_criterion t)) entries"

definition top_n_stats :: "top_n \<Rightarrow> blocked_ip_stats list" where
  "top_n_stats t = take (tn_capacity t) (sort_entries t (map snd (tn_stats t)))"

definition prune_low_volume_entries :: "top_n \<Rightarrow> top_n" where
  "prune_low_volume_entries t =
     (let keep_count = tn_max_tracked_ips t div 2;
          entries = take keep_count (sort_entries t (map snd (tn_stats t)));
          retain_set = set (map bs_ip entries)
      in t\<lparr>tn_stats := filter (\<lambda>(ip, _). ip \<in> retain_set) (tn_stats t)\<rparr>)"

definition record_event :: "ip_addr \<Rightarrow> blocked_protocol \<Rightarrow> u64 \<Rightarrow> top_n \<Rightarrow> top_n" where
  "record_event ip protocol n t =
     (let s = (case map_of (tn_stats t) ip of Some s \<Rightarrow> s | None \<Rightarrow> stats_new ip);
          t = t\<lparr>tn_stats := AList.update ip (record_packet protocol n s) (tn_stats t)\<rparr>
      in if length (tn_stats t) > tn_max_tracked_ips t then prune_low_volume_entries t else t)"

definition tn_get_stats :: "top_n \<Rightarrow> ip_addr \<Rightarrow> blocked_ip_stats option" where
  "tn_get_stats t ip = map_of (tn_stats t) ip"

definition set_criterion :: "ranking_criterion \<Rightarrow> top_n \<Rightarrow> top_n" where
  "set_criterion c t = t\<lparr>tn_criterion := c\<rparr>"

definition tracked_count :: "top_n \<Rightarrow> nat" where
  "tracked_count t = length (tn_stats t)"

subsection \<open>Export\<close>

record 'v counter_vec_ops =
  cv_with :: "'v \<Rightarrow> string list \<Rightarrow> 'v"
  cv_inc_by :: "'v \<Rightarrow> string list \<Rightarrow> u64 \<Rightarrow> 'v"
  cv_remove :: "'v \<Rightarrow> string list \<Rightarrow> 'v"
  cv_get :: "'v \<Rightarrow> string list \<Rightarrow> u64"

record 'v top_metrics =
  tm_packets :: 'v
  tm_bytes :: 'v
  tm_total_packets :: 'v
  tm_total_bytes :: 'v
  tm_count :: int

text \<open>One counter: the delta since the last export, or a fresh series at 0.\<close>

definition export_counter ::
  "'v counter_vec_ops \<Rightarrow> 'k \<Rightarrow> string list \<Rightarrow> u64 \<Rightarrow> ('k \<Rightarrow> u64 option) \<times> 'v \<Rightarrow> ('k \<Rightarrow> u64 option) \<times> 'v" where
  "export_counter V key labels cur lv =
     (let (last, vec) = lv;
          prev = (case last key of Some n \<Rightarrow> n | None \<Rightarrow> 0);
          last = last(key \<mapsto> prev)
      in if cur > prev then (last(key \<mapsto> cur), cv_inc_by V vec labels (cur - prev))
         else if prev = 0 \<and> cur = 0 then (last, cv_with V vec labels)
         else (last, vec))"

definition evict_protocol :: "'v counter_vec_ops \<Rightarrow> string \<Rightarrow> blocked_protocol \<Rightarrow> top_n \<times> 'v top_metrics \<Rightarrow> top_n \<times> 'v top_metrics" where
  "evict_protocol V old_ip protocol tm =
     (let (t, m) = tm; p = proto_as_str protocol in
      (t\<lparr>tn_last_packets := (tn_last_packets t)((old_ip, p) := None),
         tn_last_bytes := (tn_last_bytes t)((old_ip, p) := None)\<rparr>,
       m\<lparr>tm_packets := cv_remove V (tm_packets m) [old_ip, p], tm_bytes := cv_remove V (tm_bytes m) [old_ip, p]\<rparr>))"

definition evict_ip :: "'v counter_vec_ops \<Rightarrow> string \<Rightarrow> top_n \<times> 'v top_metrics \<Rightarrow> top_n \<times> 'v top_metrics" where
  "evict_ip V old_ip tm =
     (let (t, m) = fold (evict_protocol V old_ip) proto_ALL tm in
      (t\<lparr>tn_last_total_packets := (tn_last_total_packets t)(old_ip := None),
         tn_last_total_bytes := (tn_last_total_bytes t)(old_ip := None)\<rparr>,
       m\<lparr>tm_total_packets := cv_remove V (tm_total_packets m) [old_ip],
         tm_total_bytes := cv_remove V (tm_total_bytes m) [old_ip]\<rparr>))"

definition export_protocol ::
  "'v counter_vec_ops \<Rightarrow> blocked_ip_stats \<Rightarrow> blocked_protocol \<Rightarrow> top_n \<times> 'v top_metrics \<Rightarrow> top_n \<times> 'v top_metrics" where
  "export_protocol V stat protocol tm =
     (let (t, m) = tm; ip_str = show_ip (bs_ip stat); p = proto_as_str protocol;
          (lp, pv) = export_counter V (ip_str, p) [ip_str, p] (packets_for_protocol stat protocol) (tn_last_packets t, tm_packets m);
          (lb, bv) = export_counter V (ip_str, p) [ip_str, p] (bytes_for_protocol stat protocol) (tn_last_bytes t, tm_bytes m)
      in (t\<lparr>tn_last_packets := lp, tn_last_bytes := lb\<rparr>, m\<lparr>tm_packets := pv, tm_bytes := bv\<rparr>))"

definition export_ip :: "'v counter_vec_ops \<Rightarrow> blocked_ip_stats \<Rightarrow> top_n \<times> 'v top_metrics \<Rightarrow> top_n \<times> 'v top_metrics" where
  "export_ip V stat tm =
     (let (t, m) = fold (export_protocol V stat) proto_ALL tm; ip_str = show_ip (bs_ip stat);
          (lp, pv) = export_counter V ip_str [ip_str] (bs_total_packets stat) (tn_last_total_packets t, tm_total_packets m);
          (lb, bv) = export_counter V ip_str [ip_str] (bs_total_bytes stat) (tn_last_total_bytes t, tm_total_bytes m)
      in (t\<lparr>tn_last_total_packets := lp, tn_last_total_bytes := lb\<rparr>,
          m\<lparr>tm_total_packets := pv, tm_total_bytes := bv\<rparr>))"

text \<open>The set of exported addresses is a list without duplicates, in any order.\<close>

definition sync_to_metrics :: "'v counter_vec_ops \<Rightarrow> top_n \<times> 'v top_metrics \<Rightarrow> top_n \<times> 'v top_metrics" where
  "sync_to_metrics V tm =
     (let top_stats = top_n_stats (fst tm);
          new_top_ips = remdups (map (\<lambda>s. show_ip (bs_ip s)) top_stats);
          evicted_ips = filter (\<lambda>ip. ip \<notin> set new_top_ips) (tn_currently_exported (fst tm));
          tm = fold (evict_ip V) evicted_ips tm;
          (t, m) = fold (export_ip V) top_stats tm
      in (t\<lparr>tn_currently_exported := new_top_ips\<rparr>, m\<lparr>tm_count := int (length new_top_ips)\<rparr>))"

subsection \<open>Ranking\<close>

lemma ranks_total: "ranks_before c a b \<or> ranks_before c b a"
  by (cases c) auto

lemma ranks_trans: "ranks_before c a b \<Longrightarrow> ranks_before c b d \<Longrightarrow> ranks_before c a d"
  by (cases c) auto

lemma mset_insert_by: "mset (insert_by le x xs) = add_mset x (mset xs)"
  by (induction xs) simp_all

lemma mset_sort_by: "mset (sort_by le xs) = mset xs"
  by (induction xs) (simp_all add: sort_by_def mset_insert_by)

lemma set_insert_by: "set (insert_by le x xs) = insert x (set xs)"
  by (induction xs) auto

lemma sorted_insert_by:
  assumes "\<And>a b. le a b \<or> le b a" "\<And>a b d. le a b \<Longrightarrow> le b d \<Longrightarrow> le a d" "sorted_wrt le xs"
  shows "sorted_wrt le (insert_by le x xs)"
  using assms(3)
proof (induction xs)
  case (Cons y ys)
  then show ?case using assms(1) [of x y] assms(2) by (auto simp: set_insert_by)
qed simp

lemma sorted_sort_by:
  assumes "\<And>a b. le a b \<or> le b a" "\<And>a b d. le a b \<Longrightarrow> le b d \<Longrightarrow> le a d"
  shows "sorted_wrt le (sort_by le xs)"
  by (induction xs) (simp_all add: sort_by_def sorted_insert_by [where le = le, OF assms])

lemma sort_entries_sorted: "sorted_wrt (ranks_before (tn_criterion t)) (sort_entries t xs)"
  unfolding sort_entries_def by (rule sorted_sort_by) (use ranks_total ranks_trans in blast)+

lemma mset_sort_entries: "mset (sort_entries t xs) = mset xs"
  by (simp add: sort_entries_def mset_sort_by)

lemma sorted_take_best:
  assumes "sorted_wrt le xs" "x \<in> set (take n xs)" "y \<in> set (drop n xs)"
  shows "le x y"
  using sorted_wrt_append [of le "take n xs" "drop n xs"] assms by auto

subsection \<open>Invariant of the table\<close>

text \<open>
  Every address has one entry, filed under its own address, with totals that are the sums over
  the protocols, and there are never more entries than the limit.
\<close>

definition stats_ok :: "ip_addr \<times> blocked_ip_stats \<Rightarrow> bool" where
  "stats_ok = (\<lambda>(ip, s). bs_ip s = ip \<and>
     bs_total_packets s = sum_list (map (packets_for_protocol s) proto_ALL) \<and>
     bs_total_bytes s = sum_list (map (bytes_for_protocol s) proto_ALL))"

definition top_n_inv :: "top_n \<Rightarrow> bool" where
  "top_n_inv t \<longleftrightarrow> distinct (map fst (tn_stats t)) \<and> list_all stats_ok (tn_stats t) \<and>
     length (tn_stats t) \<le> tn_max_tracked_ips t"

lemma record_packet_ok: "stats_ok (ip, s) \<Longrightarrow> stats_ok (ip, record_packet p n s)"
  by (cases p) (simp_all add: stats_ok_def record_packet_def proto_ALL_def algebra_simps)

lemma stats_new_ok: "stats_ok (ip, stats_new ip)"
  by (simp add: stats_ok_def stats_new_def proto_ALL_def)

lemma list_all_AList_update: "list_all P xs \<Longrightarrow> P (k, v) \<Longrightarrow> list_all P (AList.update k v xs)"
  by (induction xs) auto

lemma length_AList_update: "length (AList.update k v xs) \<le> length xs + 1"
  by (induction xs) auto

lemma retained:
  assumes "distinct (map fst xs)"
  shows "length (filter (\<lambda>(ip, _). ip \<in> set (map bs_ip (take n ys))) xs) \<le> n"
proof -
  let ?zs = "filter (\<lambda>(ip, _). ip \<in> set (map bs_ip (take n ys))) xs"
  have "distinct (map fst ?zs)" using assms by (rule distinct_map_filter)
  then have "length ?zs = card (set (map fst ?zs))" by (metis distinct_card length_map)
  also have "\<dots> \<le> card (set (map bs_ip (take n ys)))" by (rule card_mono) auto
  also have "\<dots> \<le> length (map bs_ip (take n ys))" by (rule card_length)
  finally show ?thesis by simp
qed

lemma record_event_inv:
  assumes "top_n_inv t"
  shows "top_n_inv (record_event ip p n t)"
proof -
  let ?s = "case map_of (tn_stats t) ip of Some s \<Rightarrow> s | None \<Rightarrow> stats_new ip"
  let ?xs = "AList.update ip (record_packet p n ?s) (tn_stats t)"
  have "stats_ok (ip, ?s)"
    using assms stats_new_ok by (auto simp: top_n_inv_def list_all_iff split: option.splits dest!: map_of_SomeD)
  then have xs: "distinct (map fst ?xs)" "list_all stats_ok ?xs"
    using assms by (simp_all add: top_n_inv_def distinct_update list_all_AList_update record_packet_ok)
  show ?thesis
  proof (cases "length ?xs > tn_max_tracked_ips t")
    case True
    let ?ys = "sort_entries (t\<lparr>tn_stats := ?xs\<rparr>) (map snd ?xs)" and ?k = "tn_max_tracked_ips t div 2"
    have "length (filter (\<lambda>(ip, _). ip \<in> set (map bs_ip (take ?k ?ys))) ?xs) \<le> ?k"
      by (rule retained [OF xs(1)])
    also have "?k \<le> tn_max_tracked_ips t" by simp
    finally show ?thesis
      using True xs
      by (auto simp: record_event_def Let_def top_n_inv_def prune_low_volume_entries_def list_all_iff distinct_map_filter)
  next
    case False
    then show ?thesis using xs by (simp add: record_event_def Let_def top_n_inv_def)
  qed
qed

subsection \<open>Histories\<close>

type_synonym block_event = "ip_addr \<times> blocked_protocol \<times> u64"

definition record_all :: "block_event list \<Rightarrow> top_n \<Rightarrow> top_n" where
  "record_all evs t = fold (\<lambda>(ip, p, n). record_event ip p n) evs t"

lemma record_event_fixed [simp]:
  "tn_criterion (record_event ip p n t) = tn_criterion t" "tn_capacity (record_event ip p n t) = tn_capacity t"
  "tn_max_tracked_ips (record_event ip p n t) = tn_max_tracked_ips t"
  by (simp_all add: record_event_def prune_low_volume_entries_def Let_def)

lemma record_all_inv:
  "top_n_inv t \<Longrightarrow> top_n_inv (record_all evs t) \<and> tn_criterion (record_all evs t) = tn_criterion t \<and>
   tn_capacity (record_all evs t) = tn_capacity t \<and> tn_max_tracked_ips (record_all evs t) = tn_max_tracked_ips t"
  unfolding record_all_def by (induction evs arbitrary: t) (auto simp: record_event_inv)

lemma top_n_new_inv: "top_n_inv (top_n_new cap c)"
  by (simp add: top_n_inv_def top_n_new_def)

text \<open>What the counters of an address should be.\<close>

definition stats_of :: "block_event list \<Rightarrow> ip_addr \<Rightarrow> blocked_ip_stats" where
  "stats_of evs ip = fold (\<lambda>(_, p, n). record_packet p n) (filter (\<lambda>e. fst e = ip) evs) (stats_new ip)"

lemma record_packet_totals [simp]:
  "bs_total_packets (record_packet p n s) = bs_total_packets s + 1"
  "bs_total_bytes (record_packet p n s) = bs_total_bytes s + n"
  by (cases p; simp add: record_packet_def)+

lemma stats_of_totals:
  "bs_total_packets (stats_of evs ip) = of_nat (length (filter (\<lambda>e. fst e = ip) evs)) \<and>
   bs_total_bytes (stats_of evs ip) = sum_list (map (snd \<circ> snd) (filter (\<lambda>e. fst e = ip) evs))"
  by (induction evs rule: rev_induct) (auto simp: stats_of_def stats_new_def)

lemma record_all_exact:
  assumes "card (fst ` set evs) \<le> 10000"
  shows "map_of (tn_stats (record_all evs (top_n_new cap c))) =
    (\<lambda>ip. if ip \<in> fst ` set evs then Some (stats_of evs ip) else None)"
  using assms
proof (induction evs rule: rev_induct)
  case Nil
  then show ?case by (simp add: record_all_def top_n_new_def)
next
  case (snoc e evs)
  obtain ip p n where e: "e = (ip, p, n)" by (metis prod_cases3)
  let ?t = "record_all evs (top_n_new cap c)"
  have "card (fst ` set evs) \<le> card (fst ` set (evs @ [e]))" by (intro card_mono) auto
  then have IH: "map_of (tn_stats ?t) = (\<lambda>ip. if ip \<in> fst ` set evs then Some (stats_of evs ip) else None)"
    using snoc by simp
  let ?s = "case map_of (tn_stats ?t) ip of Some s \<Rightarrow> s | None \<Rightarrow> stats_new ip"
  let ?xs = "AList.update ip (record_packet p n ?s) (tn_stats ?t)"
  have inv: "distinct (map fst (tn_stats ?t))" "tn_max_tracked_ips ?t = 10000"
    using record_all_inv [OF top_n_new_inv, of evs cap c] by (simp_all add: top_n_inv_def top_n_new_def)
  have "filter (\<lambda>e. fst e = ip) evs = []" if "ip \<notin> fst ` set evs" using that by (auto simp: filter_empty_conv)
  then have "?s = stats_of evs ip" by (auto simp: IH stats_of_def)
  then have xs: "map_of ?xs = (\<lambda>ip. if ip \<in> fst ` set (evs @ [e]) then Some (stats_of (evs @ [e]) ip) else None)"
    by (auto simp: update_conv' IH e stats_of_def fun_eq_iff)
  then have "dom (map_of ?xs) = fst ` set (evs @ [e])" by (auto simp: dom_def)
  moreover have "distinct (map fst ?xs)" using inv(1) by (simp add: distinct_update)
  ultimately have "length ?xs \<le> 10000"
    using snoc.prems by (metis distinct_card dom_map_of_conv_image_fst length_map list.set_map)
  then have "tn_stats (record_event ip p n ?t) = ?xs" using inv(2) by (simp add: record_event_def Let_def)
  then show ?case using xs by (simp add: record_all_def e)
qed


definition demo_events :: "block_event list" where
  "demo_events = [(V4 [10, 0, 0, 1], Tcp, 60), (V4 [10, 0, 0, 2], Udp, 100), (V4 [10, 0, 0, 1], Icmp, 40)]"


subsection \<open>What Prometheus shows\<close>

text \<open>
  A pair of last exported values and a counter vector, keyed by the labels of the series: the
  vector \<^emph>\<open>mirrors\<close> the values when it has exactly the series of the keys, with those values.
\<close>

definition mirrors :: "('v \<Rightarrow> string list \<Rightarrow> u64 option) \<Rightarrow> ('k \<Rightarrow> string list) \<Rightarrow> ('k \<Rightarrow> u64 option) \<times> 'v \<Rightarrow> bool" where
  "mirrors series lab lv \<longleftrightarrow>
     inj lab \<and> (\<forall>k. series (snd lv) (lab k) = fst lv k) \<and> (\<forall>l. l \<notin> range lab \<longrightarrow> series (snd lv) l = None)"

abbreviation value0 :: "u64 option \<Rightarrow> u64" where
  "value0 x \<equiv> case x of Some n \<Rightarrow> n | None \<Rightarrow> 0"

definition forget_counter ::
  "'v counter_vec_ops \<Rightarrow> ('k \<Rightarrow> string list) \<Rightarrow> 'k \<Rightarrow> ('k \<Rightarrow> u64 option) \<times> 'v \<Rightarrow> ('k \<Rightarrow> u64 option) \<times> 'v" where
  "forget_counter V lab k lv = ((fst lv)(k := None), cv_remove V (snd lv) (lab k))"

locale counter_vec =
  fixes V :: "'v counter_vec_ops" and series :: "'v \<Rightarrow> string list \<Rightarrow> u64 option"
  assumes with_law: "series (cv_with V v l) = (series v)(l \<mapsto> (case series v l of Some n \<Rightarrow> n | None \<Rightarrow> 0))"
    and inc_law: "series (cv_inc_by V v l n) = (series v)(l \<mapsto> (case series v l of Some m \<Rightarrow> m | None \<Rightarrow> 0) + n)"
    and remove_law: "series (cv_remove V v l) = (series v)(l := None)"
    and get_law: "cv_get V v l = (case series v l of Some n \<Rightarrow> n | None \<Rightarrow> 0)"
begin

lemma export_counter_mirrors:
  assumes "mirrors series lab lv"
  shows "mirrors series lab (export_counter V key (lab key) cur lv) \<and>
    fst (export_counter V key (lab key) cur lv) = (fst lv)(key \<mapsto> max (value0 (fst lv key)) cur)"
proof -
  obtain last' v where lv: "lv = (last', v)" by fastforce
  have m: "inj lab" "\<And>k. series v (lab k) = last' k" "\<And>l. l \<notin> range lab \<Longrightarrow> series v l = None"
    using assms by (auto simp: mirrors_def lv)
  let ?p = "value0 (last' key)"
  have "export_counter V key (lab key) cur lv =
      (if cur > ?p then (last'(key \<mapsto> cur), cv_inc_by V v (lab key) (cur - ?p))
       else if ?p = 0 \<and> cur = 0 then (last'(key \<mapsto> ?p), cv_with V v (lab key)) else (last'(key \<mapsto> ?p), v))"
    by (simp add: export_counter_def lv Let_def)
  moreover have "\<exists>n. last' key = Some n" if "?p \<noteq> 0" using that by (auto split: option.splits)
  ultimately show ?thesis
    using m by (auto simp: lv mirrors_def inc_law with_law inj_eq max_def not_less fun_eq_iff split: option.splits)
qed

lemma forget_mirrors:
  "mirrors series lab lv \<Longrightarrow> mirrors series lab (forget_counter V lab key lv) \<and> fst (forget_counter V lab key lv) = (fst lv)(key := None)"
  by (auto simp: mirrors_def remove_law inj_eq forget_counter_def split: prod.splits)

lemma fold_export:
  assumes "mirrors series lab lv" "distinct (map fst kvs)"
  shows "mirrors series lab (fold (\<lambda>(k, cur). export_counter V k (lab k) cur) kvs lv) \<and>
    fst (fold (\<lambda>(k, cur). export_counter V k (lab k) cur) kvs lv) =
      (\<lambda>k. case map_of kvs k of Some cur \<Rightarrow> Some (max (value0 (fst lv k)) cur) | None \<Rightarrow> fst lv k)"
  using assms
proof (induction kvs arbitrary: lv)
  case (Cons kv kvs)
  obtain k cur where kv: "kv = (k, cur)" by fastforce
  let ?lv = "export_counter V k (lab k) cur lv"
  have e: "mirrors series lab ?lv" "fst ?lv = (fst lv)(k \<mapsto> max (value0 (fst lv k)) cur)"
    using export_counter_mirrors [OF Cons.prems(1)] by auto
  have "map_of kvs k = None" using Cons.prems(2) kv by (simp add: map_of_eq_None_iff)
  then have "(\<lambda>k'. case map_of kvs k' of Some c \<Rightarrow> Some (max (value0 (fst ?lv k')) c) | None \<Rightarrow> fst ?lv k') =
      (\<lambda>k'. case map_of (kv # kvs) k' of Some c \<Rightarrow> Some (max (value0 (fst lv k')) c) | None \<Rightarrow> fst lv k')"
    unfolding e(2) kv by (intro ext) (simp split: option.splits)
  then show ?case using Cons.IH [OF e(1)] Cons.prems(2) by (simp add: kv)
qed simp

lemma fold_export_dom:
  assumes "mirrors series lab lv"
  shows "mirrors series lab (fold (\<lambda>(k, cur). export_counter V k (lab k) cur) kvs lv) \<and>
    dom (fst (fold (\<lambda>(k, cur). export_counter V k (lab k) cur) kvs lv)) = dom (fst lv) \<union> fst ` set kvs"
  using assms
proof (induction kvs arbitrary: lv)
  case (Cons kv kvs)
  obtain k cur where kv: "kv = (k, cur)" by fastforce
  have e: "mirrors series lab (export_counter V k (lab k) cur lv)"
    "dom (fst (export_counter V k (lab k) cur lv)) = insert k (dom (fst lv))"
    using export_counter_mirrors [OF Cons.prems] by auto
  show ?case using Cons.IH [OF e(1)] unfolding e(2) by (auto simp: kv)
qed simp

lemma fold_remove:
  assumes "mirrors series lab lv"
  shows "mirrors series lab (fold (forget_counter V lab) ks lv) \<and>
    fst (fold (forget_counter V lab) ks lv) = (\<lambda>k. if k \<in> set ks then None else fst lv k)"
  using assms
proof (induction ks arbitrary: lv)
  case (Cons k ks)
  have m: "mirrors series lab (forget_counter V lab k lv)" "fst (forget_counter V lab k lv) = (fst lv)(k := None)"
    using forget_mirrors [OF Cons.prems] by auto
  show ?case using Cons.IH [OF m(1)] unfolding m(2) by auto
qed simp

end

text \<open>The four pairs of last exported values and counters.\<close>

definition lab2 :: "string \<times> string \<Rightarrow> string list" where "lab2 k = [fst k, snd k]"
definition lab1 :: "string \<Rightarrow> string list" where "lab1 k = [k]"

definition part_packets where "part_packets tm = (tn_last_packets (fst tm), tm_packets (snd tm))"
definition part_bytes where "part_bytes tm = (tn_last_bytes (fst tm), tm_bytes (snd tm))"
definition part_total_packets where "part_total_packets tm = (tn_last_total_packets (fst tm), tm_total_packets (snd tm))"
definition part_total_bytes where "part_total_bytes tm = (tn_last_total_bytes (fst tm), tm_total_bytes (snd tm))"

lemmas part_defs = part_packets_def part_bytes_def part_total_packets_def part_total_bytes_def

definition per_protocol :: "(blocked_ip_stats \<Rightarrow> blocked_protocol \<Rightarrow> u64) \<Rightarrow> blocked_ip_stats \<Rightarrow> ((string \<times> string) \<times> u64) list" where
  "per_protocol f s = map (\<lambda>p. ((show_ip (bs_ip s), proto_as_str p), f s p)) proto_ALL"

lemma export_ip_parts:
  "part_packets (export_ip V s tm) =
     fold (\<lambda>(k, cur). export_counter V k (lab2 k) cur) (per_protocol packets_for_protocol s) (part_packets tm)"
  "part_bytes (export_ip V s tm) =
     fold (\<lambda>(k, cur). export_counter V k (lab2 k) cur) (per_protocol bytes_for_protocol s) (part_bytes tm)"
  "part_total_packets (export_ip V s tm) =
     export_counter V (show_ip (bs_ip s)) (lab1 (show_ip (bs_ip s))) (bs_total_packets s) (part_total_packets tm)"
  "part_total_bytes (export_ip V s tm) =
     export_counter V (show_ip (bs_ip s)) (lab1 (show_ip (bs_ip s))) (bs_total_bytes s) (part_total_bytes tm)"
  "tn_currently_exported (fst (export_ip V s tm)) = tn_currently_exported (fst tm)"
  "tn_stats (fst (export_ip V s tm)) = tn_stats (fst tm)"
  by (cases tm; simp add: part_defs export_ip_def export_protocol_def proto_ALL_def per_protocol_def lab1_def lab2_def
      case_prod_unfold Let_def)+

lemma evict_ip_parts:
  "part_packets (evict_ip V ip tm) =
     fold (forget_counter V lab2) (map (\<lambda>p. (ip, proto_as_str p)) proto_ALL) (part_packets tm)"
  "part_bytes (evict_ip V ip tm) =
     fold (forget_counter V lab2) (map (\<lambda>p. (ip, proto_as_str p)) proto_ALL) (part_bytes tm)"
  "part_total_packets (evict_ip V ip tm) =
     forget_counter V lab1 ip (part_total_packets tm)"
  "part_total_bytes (evict_ip V ip tm) =
     forget_counter V lab1 ip (part_total_bytes tm)"
  by (cases tm; simp add: part_defs forget_counter_def evict_ip_def evict_protocol_def proto_ALL_def lab1_def lab2_def Let_def)+

lemma inj_labels: "inj lab1" "inj lab2"
  by (auto simp: inj_def lab1_def lab2_def)

lemma export_ips_parts:
  "part_packets (fold (export_ip V) ss tm) =
     fold (\<lambda>(k, cur). export_counter V k (lab2 k) cur) (concat (map (per_protocol packets_for_protocol) ss)) (part_packets tm)"
  "part_bytes (fold (export_ip V) ss tm) =
     fold (\<lambda>(k, cur). export_counter V k (lab2 k) cur) (concat (map (per_protocol bytes_for_protocol) ss)) (part_bytes tm)"
  "part_total_packets (fold (export_ip V) ss tm) =
     fold (\<lambda>(k, cur). export_counter V k (lab1 k) cur) (map (\<lambda>s. (show_ip (bs_ip s), bs_total_packets s)) ss) (part_total_packets tm)"
  "part_total_bytes (fold (export_ip V) ss tm) =
     fold (\<lambda>(k, cur). export_counter V k (lab1 k) cur) (map (\<lambda>s. (show_ip (bs_ip s), bs_total_bytes s)) ss) (part_total_bytes tm)"
  by (induction ss arbitrary: tm; simp add: export_ip_parts)+

definition protocol_keys :: "string list \<Rightarrow> (string \<times> string) list" where
  "protocol_keys ips = concat (map (\<lambda>ip. map (\<lambda>p. (ip, proto_as_str p)) proto_ALL) ips)"

lemma evict_ips_parts:
  "part_packets (fold (evict_ip V) ips tm) = fold (forget_counter V lab2) (protocol_keys ips) (part_packets tm)"
  "part_bytes (fold (evict_ip V) ips tm) = fold (forget_counter V lab2) (protocol_keys ips) (part_bytes tm)"
  "part_total_packets (fold (evict_ip V) ips tm) = fold (forget_counter V lab1) ips (part_total_packets tm)"
  "part_total_bytes (fold (evict_ip V) ips tm) = fold (forget_counter V lab1) ips (part_total_bytes tm)"
  by (induction ips arbitrary: tm; simp add: evict_ip_parts protocol_keys_def)+

text \<open>The strings of the addresses listed, and the exported ones that are not listed any more.\<close>

definition listed :: "top_n \<Rightarrow> string list" where
  "listed t = map (\<lambda>s. show_ip (bs_ip s)) (top_n_stats t)"

definition delisted :: "top_n \<Rightarrow> string list" where
  "delisted t = filter (\<lambda>ip. ip \<notin> set (listed t)) (tn_currently_exported t)"

lemma sync_parts:
  "part_packets (sync_to_metrics V tm) =
     fold (\<lambda>(k, cur). export_counter V k (lab2 k) cur) (concat (map (per_protocol packets_for_protocol) (top_n_stats (fst tm))))
       (fold (forget_counter V lab2) (protocol_keys (delisted (fst tm))) (part_packets tm))"
  "part_bytes (sync_to_metrics V tm) =
     fold (\<lambda>(k, cur). export_counter V k (lab2 k) cur) (concat (map (per_protocol bytes_for_protocol) (top_n_stats (fst tm))))
       (fold (forget_counter V lab2) (protocol_keys (delisted (fst tm))) (part_bytes tm))"
  "part_total_packets (sync_to_metrics V tm) =
     fold (\<lambda>(k, cur). export_counter V k (lab1 k) cur) (map (\<lambda>s. (show_ip (bs_ip s), bs_total_packets s)) (top_n_stats (fst tm)))
       (fold (forget_counter V lab1) (delisted (fst tm)) (part_total_packets tm))"
  "part_total_bytes (sync_to_metrics V tm) =
     fold (\<lambda>(k, cur). export_counter V k (lab1 k) cur) (map (\<lambda>s. (show_ip (bs_ip s), bs_total_bytes s)) (top_n_stats (fst tm)))
       (fold (forget_counter V lab1) (delisted (fst tm)) (part_total_bytes tm))"
  "set (tn_currently_exported (fst (sync_to_metrics V tm))) = set (listed (fst tm))"
  "tm_count (snd (sync_to_metrics V tm)) = int (card (set (listed (fst tm))))"
proof -
  let ?tm = "fold (export_ip V) (top_n_stats (fst tm)) (fold (evict_ip V) (delisted (fst tm)) tm)"
  have s: "sync_to_metrics V tm = ((fst ?tm)\<lparr>tn_currently_exported := remdups (listed (fst tm))\<rparr>,
      (snd ?tm)\<lparr>tm_count := int (length (remdups (listed (fst tm))))\<rparr>)"
    by (simp add: sync_to_metrics_def Let_def case_prod_unfold listed_def delisted_def)
  then have "part_packets (sync_to_metrics V tm) = part_packets ?tm" "part_bytes (sync_to_metrics V tm) = part_bytes ?tm"
    "part_total_packets (sync_to_metrics V tm) = part_total_packets ?tm"
    "part_total_bytes (sync_to_metrics V tm) = part_total_bytes ?tm"
    by (simp_all add: part_defs)
  then show "part_packets (sync_to_metrics V tm) =
     fold (\<lambda>(k, cur). export_counter V k (lab2 k) cur) (concat (map (per_protocol packets_for_protocol) (top_n_stats (fst tm))))
       (fold (forget_counter V lab2) (protocol_keys (delisted (fst tm))) (part_packets tm))"
    "part_bytes (sync_to_metrics V tm) =
     fold (\<lambda>(k, cur). export_counter V k (lab2 k) cur) (concat (map (per_protocol bytes_for_protocol) (top_n_stats (fst tm))))
       (fold (forget_counter V lab2) (protocol_keys (delisted (fst tm))) (part_bytes tm))"
    "part_total_packets (sync_to_metrics V tm) =
     fold (\<lambda>(k, cur). export_counter V k (lab1 k) cur) (map (\<lambda>s. (show_ip (bs_ip s), bs_total_packets s)) (top_n_stats (fst tm)))
       (fold (forget_counter V lab1) (delisted (fst tm)) (part_total_packets tm))"
    "part_total_bytes (sync_to_metrics V tm) =
     fold (\<lambda>(k, cur). export_counter V k (lab1 k) cur) (map (\<lambda>s. (show_ip (bs_ip s), bs_total_bytes s)) (top_n_stats (fst tm)))
       (fold (forget_counter V lab1) (delisted (fst tm)) (part_total_bytes tm))"
    by (simp_all only: export_ips_parts evict_ips_parts)
  show "set (tn_currently_exported (fst (sync_to_metrics V tm))) = set (listed (fst tm))"
    "tm_count (snd (sync_to_metrics V tm)) = int (card (set (listed (fst tm))))"
    by (simp_all add: s length_remdups_card_conv)
qed

text \<open>Between two exports the counter vectors have the series of the exported addresses.\<close>

definition exported_ok :: "('v \<Rightarrow> string list \<Rightarrow> u64 option) \<Rightarrow> top_n \<times> 'v top_metrics \<Rightarrow> bool" where
  "exported_ok series tm \<longleftrightarrow>
     mirrors series lab2 (part_packets tm) \<and> mirrors series lab2 (part_bytes tm) \<and>
     mirrors series lab1 (part_total_packets tm) \<and> mirrors series lab1 (part_total_bytes tm) \<and>
     dom (fst (part_packets tm)) = set (protocol_keys (tn_currently_exported (fst tm))) \<and>
     dom (fst (part_bytes tm)) = set (protocol_keys (tn_currently_exported (fst tm))) \<and>
     dom (fst (part_total_packets tm)) = set (tn_currently_exported (fst tm)) \<and>
     dom (fst (part_total_bytes tm)) = set (tn_currently_exported (fst tm))"

lemma set_protocol_keys: "set (protocol_keys ips) = set ips \<times> range proto_as_str"
proof -
  have "set proto_ALL = UNIV" unfolding proto_ALL_def using blocked_protocol.exhaust by auto
  then show ?thesis by (auto simp: protocol_keys_def)
qed

lemma per_protocol_keys: "fst ` set (concat (map (per_protocol f) (top_n_stats t))) = set (protocol_keys (listed t))"
  by (auto simp: per_protocol_def protocol_keys_def listed_def image_iff)

lemma distinct_per_protocol:
  assumes "inj_on show_ip (bs_ip ` set ss)" "distinct (map bs_ip ss)"
  shows "distinct (map fst (concat (map (per_protocol f) ss)))"
  using assms
proof (induction ss)
  case (Cons s ss)
  have own: "distinct (map fst (per_protocol f s))" by (simp add: per_protocol_def proto_ALL_def)
  have "fst ` set (per_protocol f s) \<inter> fst ` set (concat (map (per_protocol f) ss)) = {}"
    using Cons.prems by (auto simp: per_protocol_def inj_on_def)
  then show ?case using Cons own by (simp add: inj_on_def)
qed simp

context counter_vec
begin

text \<open>Forgetting the keys \<open>del\<close> and exporting the keys of \<open>kvs\<close>, for keys that were all among either.\<close>

lemma refresh:
  assumes m: "mirrors series lab lv" and d: "dom (fst lv) \<subseteq> set del \<union> fst ` set kvs" and x: "set del \<inter> fst ` set kvs = {}"
    and r: "r = fold (\<lambda>(k, cur). export_counter V k (lab k) cur) kvs (fold (forget_counter V lab) del lv)"
  shows "mirrors series lab r" "dom (fst r) = fst ` set kvs"
    "distinct (map fst kvs) \<Longrightarrow> (k, cur) \<in> set kvs \<Longrightarrow> fst r k = Some (max (value0 (fst lv k)) cur)"
proof -
  let ?lv = "fold (forget_counter V lab) del lv"
  have f: "mirrors series lab ?lv" "fst ?lv = (\<lambda>k. if k \<in> set del then None else fst lv k)"
    using fold_remove [OF m] by auto
  show "mirrors series lab r" using fold_export_dom [OF f(1)] r by simp
  have "dom (fst ?lv) \<subseteq> fst ` set kvs" using d unfolding f(2) subset_iff domIff by (auto split: if_splits)
  then show "dom (fst r) = fst ` set kvs" using fold_export_dom [OF f(1), of kvs] r by blast
  show "fst r k = Some (max (value0 (fst lv k)) cur)" if dist: "distinct (map fst kvs)" and kv: "(k, cur) \<in> set kvs"
  proof -
    have "map_of kvs k = Some cur" using dist kv by simp
    moreover have "k \<notin> set del" using x kv by force
    ultimately show ?thesis using fold_export [OF f(1) dist] r unfolding f(2) by simp
  qed
qed

lemma sync_exported:
  assumes "exported_ok series tm"
  shows "exported_ok series (sync_to_metrics V tm)"
    and "inj_on show_ip (bs_ip ` set (top_n_stats (fst tm))) \<Longrightarrow> distinct (map bs_ip (top_n_stats (fst tm))) \<Longrightarrow>
      s \<in> set (top_n_stats (fst tm)) \<Longrightarrow> ip = show_ip (bs_ip s) \<Longrightarrow> q = proto_as_str p \<Longrightarrow>
      fst (part_packets (sync_to_metrics V tm)) (ip, q) = Some (max (value0 (fst (part_packets tm) (ip, q))) (packets_for_protocol s p)) \<and>
      fst (part_bytes (sync_to_metrics V tm)) (ip, q) = Some (max (value0 (fst (part_bytes tm) (ip, q))) (bytes_for_protocol s p)) \<and>
      fst (part_total_packets (sync_to_metrics V tm)) ip = Some (max (value0 (fst (part_total_packets tm) ip)) (bs_total_packets s)) \<and>
      fst (part_total_bytes (sync_to_metrics V tm)) ip = Some (max (value0 (fst (part_total_bytes tm) ip)) (bs_total_bytes s))"
proof -
  let ?t = "fst tm" and ?top = "top_n_stats (fst tm)"
  have keys: "fst ` set (map (\<lambda>s. (show_ip (bs_ip s), f s)) ?top) = set (listed ?t)" for f :: "blocked_ip_stats \<Rightarrow> u64"
    by (auto simp: listed_def image_iff)
  have cover: "set (tn_currently_exported ?t) \<subseteq> set (delisted ?t) \<union> set (listed ?t)" "set (delisted ?t) \<inter> set (listed ?t) = {}"
    by (auto simp: delisted_def)
  then have cover2: "set (protocol_keys (tn_currently_exported ?t)) \<subseteq> set (protocol_keys (delisted ?t)) \<union> set (protocol_keys (listed ?t))"
    "set (protocol_keys (delisted ?t)) \<inter> set (protocol_keys (listed ?t)) = {}"
    by (auto simp: set_protocol_keys)
  have ok: "mirrors series lab2 (part_packets tm)" "mirrors series lab2 (part_bytes tm)"
     "mirrors series lab1 (part_total_packets tm)" "mirrors series lab1 (part_total_bytes tm)"
     "dom (fst (part_packets tm)) = set (protocol_keys (tn_currently_exported ?t))"
     "dom (fst (part_bytes tm)) = set (protocol_keys (tn_currently_exported ?t))"
     "dom (fst (part_total_packets tm)) = set (tn_currently_exported ?t)"
     "dom (fst (part_total_bytes tm)) = set (tn_currently_exported ?t)"
    using assms by (simp_all add: exported_ok_def)
  note P = refresh [OF ok(1) _ _ sync_parts(1), unfolded per_protocol_keys ok(5), OF cover2]
  note B = refresh [OF ok(2) _ _ sync_parts(2), unfolded per_protocol_keys ok(6), OF cover2]
  note TP = refresh [OF ok(3) _ _ sync_parts(3), unfolded keys ok(7), OF cover]
  note TB = refresh [OF ok(4) _ _ sync_parts(4), unfolded keys ok(8), OF cover]
  show "exported_ok series (sync_to_metrics V tm)"
    unfolding exported_ok_def using P(1,2) B(1,2) TP(1,2) TB(1,2) by (simp add: set_protocol_keys sync_parts(5))
  assume inj: "inj_on show_ip (bs_ip ` set ?top)" and dist: "distinct (map bs_ip ?top)"
    and s: "s \<in> set ?top" and ip: "ip = show_ip (bs_ip s)" and q: "q = proto_as_str p"
  have d1: "distinct (map fst (map (\<lambda>s. (show_ip (bs_ip s), f s)) ?top))" for f :: "blocked_ip_stats \<Rightarrow> u64"
    using inj dist by (simp add: comp_def distinct_map inj_on_def)
  have d2: "distinct (map fst (concat (map (per_protocol f) ?top)))" for f
    by (rule distinct_per_protocol [OF inj dist])
  have "((ip, q), f s p) \<in> set (concat (map (per_protocol f) ?top))" for f
    using s by (cases p) (auto simp: ip q per_protocol_def proto_ALL_def)
  moreover have "(ip, f s) \<in> set (map (\<lambda>s. (show_ip (bs_ip s), f s)) ?top)" for f :: "blocked_ip_stats \<Rightarrow> u64"
    using s by (auto simp: ip)
  ultimately show "fst (part_packets (sync_to_metrics V tm)) (ip, q) = Some (max (value0 (fst (part_packets tm) (ip, q))) (packets_for_protocol s p)) \<and>
      fst (part_bytes (sync_to_metrics V tm)) (ip, q) = Some (max (value0 (fst (part_bytes tm) (ip, q))) (bytes_for_protocol s p)) \<and>
      fst (part_total_packets (sync_to_metrics V tm)) ip = Some (max (value0 (fst (part_total_packets tm) ip)) (bs_total_packets s)) \<and>
      fst (part_total_bytes (sync_to_metrics V tm)) ip = Some (max (value0 (fst (part_total_bytes tm) ip)) (bs_total_bytes s))"
    using P(3) [OF d2] B(3) [OF d2] TP(3) [OF d1] TB(3) [OF d1] by blast
qed

end

subsection \<open>Runs of the tracker\<close>

datatype top_op = Block ip_addr blocked_protocol u64 | Export

fun top_step :: "'v counter_vec_ops \<Rightarrow> top_op \<Rightarrow> top_n \<times> 'v top_metrics \<Rightarrow> top_n \<times> 'v top_metrics" where
  "top_step V (Block ip p n) (t, m) = (record_event ip p n t, m)"
| "top_step V Export tm = sync_to_metrics V tm"

definition top_run :: "'v counter_vec_ops \<Rightarrow> top_op list \<Rightarrow> top_n \<times> 'v top_metrics \<Rightarrow> top_n \<times> 'v top_metrics" where
  "top_run V ops tm = fold (top_step V) ops tm"

lemma record_event_exported [simp]:
  "tn_currently_exported (record_event ip p n t) = tn_currently_exported t"
  "tn_last_packets (record_event ip p n t) = tn_last_packets t" "tn_last_bytes (record_event ip p n t) = tn_last_bytes t"
  "tn_last_total_packets (record_event ip p n t) = tn_last_total_packets t"
  "tn_last_total_bytes (record_event ip p n t) = tn_last_total_bytes t"
  by (simp_all add: record_event_def prune_low_volume_entries_def Let_def)

definition table :: "top_n \<Rightarrow> nat \<times> ranking_criterion \<times> (ip_addr \<times> blocked_ip_stats) list \<times> nat" where
  "table t = (tn_capacity t, tn_criterion t, tn_stats t, tn_max_tracked_ips t)"

lemma fold_table:
  assumes "\<And>x tm. table (fst (f x tm)) = table (fst tm)"
  shows "table (fst (fold f xs tm)) = table (fst tm)"
  by (induction xs arbitrary: tm) (simp_all add: assms)

lemma sync_table: "table (fst (sync_to_metrics V tm)) = table (fst tm)"
proof -
  have e: "table (fst (evict_ip V ip tm)) = table (fst tm)" for ip and tm :: "top_n \<times> 'a top_metrics"
    by (cases tm) (simp add: table_def evict_ip_def evict_protocol_def proto_ALL_def Let_def)
  have x: "table (fst (export_ip V s tm)) = table (fst tm)" for s and tm :: "top_n \<times> 'a top_metrics"
    by (cases tm) (simp add: table_def export_ip_def export_protocol_def proto_ALL_def case_prod_unfold Let_def)
  have "table (fst (fold (export_ip V) ss (fold (evict_ip V) ips tm))) = table (fst tm)" for ss ips
    by (simp add: fold_table [of "export_ip V", OF x] fold_table [of "evict_ip V", OF e])
  then show ?thesis by (simp add: sync_to_metrics_def Let_def case_prod_unfold table_def)
qed

lemma table_cong:
  assumes "table t = table t'"
  shows "top_n_stats t = top_n_stats t'" "top_n_inv t = top_n_inv t'" "tn_capacity t = tn_capacity t'"
  using assms by (simp_all add: table_def top_n_stats_def top_n_inv_def sort_entries_def)

lemma top_list:
  assumes "top_n_inv t"
  shows "distinct (map bs_ip (top_n_stats t))" "length (top_n_stats t) \<le> tn_capacity t"
proof -
  let ?ys = "sort_entries t (map snd (tn_stats t))"
  have "map bs_ip (map snd (tn_stats t)) = map fst (tn_stats t)"
    using assms by (auto simp: top_n_inv_def list_all_iff stats_ok_def)
  then have "mset (map bs_ip ?ys) = mset (map fst (tn_stats t))" by (metis mset_map mset_sort_entries)
  then have "distinct (map bs_ip ?ys)" using assms by (metis mset_eq_imp_distinct_iff top_n_inv_def)
  then show "distinct (map bs_ip (top_n_stats t))" unfolding top_n_stats_def by (metis distinct_take take_map)
qed (simp add: top_n_stats_def)

context counter_vec
begin

lemma run_ok:
  assumes "exported_ok series tm" "top_n_inv (fst tm)"
  shows "exported_ok series (top_run V ops tm) \<and> top_n_inv (fst (top_run V ops tm)) \<and>
    tn_capacity (fst (top_run V ops tm)) = tn_capacity (fst tm)"
  using assms
proof (induction ops arbitrary: tm)
  case (Cons x ops)
  have "exported_ok series (top_step V x tm) \<and> top_n_inv (fst (top_step V x tm)) \<and>
      tn_capacity (fst (top_step V x tm)) = tn_capacity (fst tm)"
  proof (cases x)
    case (Block ip p n)
    then show ?thesis using Cons.prems by (cases tm) (simp add: exported_ok_def part_defs record_event_inv)
  next
    case Export
    then show ?thesis using Cons.prems sync_exported(1) [of tm] table_cong [OF sync_table [of V tm]] by simp
  qed
  then show ?case using Cons.IH [of "top_step V x tm"] by (simp add: top_run_def)
qed (simp add: top_run_def)

lemma exported_start:
  assumes "series (tm_packets m) = Map.empty" "series (tm_bytes m) = Map.empty"
    "series (tm_total_packets m) = Map.empty" "series (tm_total_bytes m) = Map.empty"
  shows "exported_ok series (top_n_new cap c, m)"
  using assms by (simp add: exported_ok_def part_defs mirrors_def inj_labels top_n_new_def protocol_keys_def)

lemma exported_series:
  assumes "exported_ok series tm"
  shows "series (tm_packets (snd tm)) [ip, q] = fst (part_packets tm) (ip, q)"
    "series (tm_bytes (snd tm)) [ip, q] = fst (part_bytes tm) (ip, q)"
    "series (tm_total_packets (snd tm)) [ip] = fst (part_total_packets tm) ip"
    "series (tm_total_bytes (snd tm)) [ip] = fst (part_total_bytes tm) ip"
    "dom (series (tm_packets (snd tm))) = lab2 ` set (protocol_keys (tn_currently_exported (fst tm)))"
    "dom (series (tm_bytes (snd tm))) = lab2 ` set (protocol_keys (tn_currently_exported (fst tm)))"
    "dom (series (tm_total_packets (snd tm))) = lab1 ` set (tn_currently_exported (fst tm))"
    "dom (series (tm_total_bytes (snd tm))) = lab1 ` set (tn_currently_exported (fst tm))"
proof -
  have d: "dom (series (snd lv)) = lab ` dom (fst lv)" if "mirrors series lab lv" for lab :: "'k \<Rightarrow> string list" and lv
    using that by (force simp: mirrors_def image_iff)
  show "dom (series (tm_packets (snd tm))) = lab2 ` set (protocol_keys (tn_currently_exported (fst tm)))"
    "dom (series (tm_bytes (snd tm))) = lab2 ` set (protocol_keys (tn_currently_exported (fst tm)))"
    "dom (series (tm_total_packets (snd tm))) = lab1 ` set (tn_currently_exported (fst tm))"
    "dom (series (tm_total_bytes (snd tm))) = lab1 ` set (tn_currently_exported (fst tm))"
    using assms d [of lab2 "part_packets tm"] d [of lab2 "part_bytes tm"] d [of lab1 "part_total_packets tm"]
      d [of lab1 "part_total_bytes tm"] unfolding exported_ok_def by (simp_all add: part_defs)
  have l: "lab2 (ip, q) = [ip, q]" "lab1 ip = [ip]" by (simp_all add: lab1_def lab2_def)
  show "series (tm_packets (snd tm)) [ip, q] = fst (part_packets tm) (ip, q)"
    "series (tm_bytes (snd tm)) [ip, q] = fst (part_bytes tm) (ip, q)"
    "series (tm_total_packets (snd tm)) [ip] = fst (part_total_packets tm) ip"
    "series (tm_total_bytes (snd tm)) [ip] = fst (part_total_bytes tm) ip"
    using assms unfolding exported_ok_def mirrors_def l [symmetric] by (simp_all add: part_defs)
qed

end

text \<open>
  \<^bold>\<open>C38\<close>. What Prometheus shows after an export.  Start from an empty tracker and empty counter
  vectors and run any sequence of drop events and exports, then export once more.  The vectors
  have exactly the series of the addresses in the top list (all five protocols of each), the
  gauge never exceeds the capacity, and when the listed addresses have different texts the
  gauge is the length of the list and each counter is the larger of its value before and the
  tracked value: counters never go back, even when the tracker forgot and restarted an address.
\<close>

theorem export_exact:
  assumes "counter_vec V series"
    and "series (tm_packets m) = Map.empty" "series (tm_bytes m) = Map.empty"
    and "series (tm_total_packets m) = Map.empty" "series (tm_total_bytes m) = Map.empty"
  shows "let before = top_run V ops (top_n_new cap c, m); after = sync_to_metrics V before;
      best = top_n_stats (fst before); shown = (\<lambda>v. series (v (snd after))); was = (\<lambda>v l. value0 (series (v (snd before)) l)) in
    dom (shown tm_packets) = {[show_ip (bs_ip s), proto_as_str p] | s p. s \<in> set best} \<and>
    dom (shown tm_bytes) = {[show_ip (bs_ip s), proto_as_str p] | s p. s \<in> set best} \<and>
    dom (shown tm_total_packets) = {[show_ip (bs_ip s)] | s. s \<in> set best} \<and>
    dom (shown tm_total_bytes) = {[show_ip (bs_ip s)] | s. s \<in> set best} \<and>
    tm_count (snd after) \<le> int cap \<and>
    (inj_on show_ip (bs_ip ` set best) \<longrightarrow>
       tm_count (snd after) = int (length best) \<and>
       (\<forall>s \<in> set best. let ip = show_ip (bs_ip s) in
         shown tm_total_packets [ip] = Some (max (was tm_total_packets [ip]) (bs_total_packets s)) \<and>
         shown tm_total_bytes [ip] = Some (max (was tm_total_bytes [ip]) (bs_total_bytes s)) \<and>
         (\<forall>p. shown tm_packets [ip, proto_as_str p] =
                 Some (max (was tm_packets [ip, proto_as_str p]) (packets_for_protocol s p)) \<and>
               shown tm_bytes [ip, proto_as_str p] =
                 Some (max (was tm_bytes [ip, proto_as_str p]) (bytes_for_protocol s p)))))"
proof -
  let ?b = "top_run V ops (top_n_new cap c, m)"
  let ?a = "sync_to_metrics V ?b" and ?top = "top_n_stats (fst ?b)"
  have b: "exported_ok series ?b" "top_n_inv (fst ?b)" "tn_capacity (fst ?b) = cap"
    using counter_vec.run_ok [OF assms(1) counter_vec.exported_start [OF assms], of cap c ops] top_n_new_inv
    by (simp_all add: top_n_new_def)
  note a = counter_vec.sync_exported [OF assms(1) b(1)]
  note sb = counter_vec.exported_series [OF assms(1) b(1)] and sa = counter_vec.exported_series [OF assms(1) a(1)]
  have doms: "lab1 ` set (listed (fst ?b)) = {[show_ip (bs_ip s)] | s. s \<in> set ?top}"
    "lab2 ` set (protocol_keys (listed (fst ?b))) = {[show_ip (bs_ip s), proto_as_str p] | s p. s \<in> set ?top}"
    by (force simp: lab1_def lab2_def listed_def set_protocol_keys image_iff)+
  have cur: "set (protocol_keys (tn_currently_exported (fst ?a))) = set (protocol_keys (listed (fst ?b)))"
    by (simp add: set_protocol_keys sync_parts(5))
  have "card (set (listed (fst ?b))) \<le> length ?top" unfolding listed_def by (metis card_length length_map)
  then have count: "tm_count (snd ?a) \<le> int cap" using top_list(2) [OF b(2)] b(3) by (simp add: sync_parts(6))
  have len: "tm_count (snd ?a) = int (length ?top)" if "inj_on show_ip (bs_ip ` set ?top)"
  proof -
    have "distinct (map show_ip (map bs_ip ?top))" using top_list(1) [OF b(2)] that by (metis distinct_map list.set_map)
    then have "distinct (listed (fst ?b))" by (simp add: listed_def comp_def)
    then show ?thesis by (simp add: sync_parts(6) distinct_card) (simp add: listed_def)
  qed
  show ?thesis
    unfolding Let_def sa(5-8) cur sync_parts(5) doms using count len a(2) [OF _ top_list(1) [OF b(2)]]
    by (simp add: sa(1-4) sb(1-4))
qed

text \<open>The counter vectors of the \<open>prometheus\<close> crate as maps from labels to values.\<close>

definition map_vec :: "(string list \<Rightarrow> u64 option) counter_vec_ops" where
  "map_vec = \<lparr>cv_with = (\<lambda>v l. v(l \<mapsto> value0 (v l))), cv_inc_by = (\<lambda>v l n. v(l \<mapsto> value0 (v l) + n)),
     cv_remove = (\<lambda>v l. v(l := None)), cv_get = (\<lambda>v l. value0 (v l))\<rparr>"

interpretation prom: counter_vec map_vec "\<lambda>v. v"
  by unfold_locales (simp_all add: map_vec_def)

definition demo_vecs :: "(string list \<Rightarrow> u64 option) top_metrics" where
  "demo_vecs = \<lparr>tm_packets = Map.empty, tm_bytes = Map.empty, tm_total_packets = Map.empty, tm_total_bytes = Map.empty, tm_count = 0\<rparr>"

definition demo_ops :: "top_op list" where
  "demo_ops = [Block (V4 [10, 0, 0, 1]) Tcp 60, Block (V4 [10, 0, 0, 1]) Udp 40]"

lemma demo_tracked:
  "top_n_stats (fst (top_run map_vec demo_ops (top_n_new 1 Packets, demo_vecs))) =
     [record_packet Udp 40 (record_packet Tcp 60 (stats_new (V4 [10, 0, 0, 1])))]"
  "snd (top_run map_vec demo_ops (top_n_new 1 Packets, demo_vecs)) = demo_vecs"
  by (simp_all add: demo_ops_def top_run_def record_event_def top_n_new_def Let_def top_n_stats_def sort_entries_def sort_by_def)

theorem export_exact_witness:
  "let m = snd (sync_to_metrics map_vec (top_run map_vec demo_ops (top_n_new 1 Packets, demo_vecs))) in
    tm_count m = 1 \<and> dom (tm_total_packets m) = {[''10.0.0.1'']} \<and> tm_total_packets m [''10.0.0.1''] = Some 2 \<and>
    tm_bytes m [''10.0.0.1'', ''udp''] = Some 40"
proof -
  have ip: "show_ip (V4 [10, 0, 0, 1]) = ''10.0.0.1''" by code_simp
  have s: "bs_ip (record_packet Udp 40 (record_packet Tcp 60 (stats_new (V4 [10, 0, 0, 1])))) = V4 [10, 0, 0, 1]"
    "bs_udp_bytes (record_packet Udp 40 (record_packet Tcp 60 (stats_new (V4 [10, 0, 0, 1])))) = 40"
    "bs_total_packets (record_packet Udp 40 (record_packet Tcp 60 (stats_new (V4 [10, 0, 0, 1])))) = 2"
    by (simp_all add: record_packet_def stats_new_def)
  let ?s = "record_packet Udp 40 (record_packet Tcp 60 (stats_new (V4 [10, 0, 0, 1])))"
  have e: "Map.empty = tm_packets demo_vecs" "Map.empty = tm_bytes demo_vecs" "Map.empty = tm_total_packets demo_vecs"
    "Map.empty = tm_total_bytes demo_vecs" by (simp_all add: demo_vecs_def)
  note x = export_exact [OF prom.counter_vec_axioms, OF e [symmetric], of demo_ops 1 Packets, unfolded Let_def demo_tracked]
  note y = x [THEN conjunct2, THEN conjunct2, THEN conjunct2, THEN conjunct2, THEN conjunct2, THEN mp]
  have "inj_on show_ip (bs_ip ` set [?s])" by simp
  note y = y [OF this]
  note z = bspec [OF conjunct2 [OF y], of ?s, simplified s ip]
  have "dom (tm_total_packets (snd (sync_to_metrics map_vec (top_run map_vec demo_ops (top_n_new 1 Packets, demo_vecs))))) =
      {[''10.0.0.1'']}"
    using x [THEN conjunct2, THEN conjunct2, THEN conjunct1] by (simp add: s ip del: show_ip.simps)
  moreover have "tm_bytes (snd (sync_to_metrics map_vec (top_run map_vec demo_ops (top_n_new 1 Packets, demo_vecs)))) [''10.0.0.1'', ''udp''] = Some 40"
    using z [THEN conjunct2, THEN conjunct2, THEN spec [of _ Udp]] by (simp add: s demo_vecs_def)
  ultimately show ?thesis using y [THEN conjunct1] z [THEN conjunct1] by (simp add: Let_def demo_vecs_def)
qed

end
