(* ===== verification/Fw_Metrics.thy ===== *)
theory Fw_Metrics
  imports Top_N Fw_Common
begin

section \<open>Counters and gauges of the daemon\<close>

text \<open>
  Models the recording functions of \<open>src/metrics.rs\<close> and of \<open>src/firehol/metrics.rs\<close>: packet, byte
  and error counters, the tracker of blocked addresses behind its lock, the gauges of map
  entries, and the catch-up with the counters the kernel keeps.  Registration of the metrics
  and text encoding are left out.  Counter vectors are the parameter \<open>V\<close> of
  \<open>Top_N\<close>; gauge vectors are the parameter \<open>G\<close> with the laws of the locale \<open>gauge_vec\<close>.
  Gauges are signed 64-bit numbers.
\<close>

type_synonym i64 = "64 word"

record 'g gauge_vec_ops =
  gv_set :: "'g \<Rightarrow> string list \<Rightarrow> i64 \<Rightarrow> 'g"
  gv_add :: "'g \<Rightarrow> string list \<Rightarrow> i64 \<Rightarrow> 'g"
  gv_get :: "'g \<Rightarrow> string list \<Rightarrow> i64"

record ('v, 'g) prometheus_metrics =
  pm_packets_total :: 'v
  pm_packets_accepted_total :: u64
  pm_packets_blocked_total :: 'v
  pm_bytes_total :: 'v
  pm_ringbuf_events_total :: u64
  pm_errors_total :: 'v
  pm_map_entries :: 'g
  pm_rules_active :: 'g
  pm_rules_total :: i64
  pm_top :: top_n
  pm_top_vecs :: "'v top_metrics"
  pm_firehol_packets :: 'v
  pm_firehol_bytes :: 'v
  pm_cron_executions :: u64
  pm_cron_success :: u64
  pm_cron_failures :: u64
  pm_cron_skipped :: u64
  pm_cron_no_change :: u64
  pm_cron_last_error :: i64

subsection \<open>Reference names\<close>

definition resolve_git_ref :: "string option \<Rightarrow> string option \<Rightarrow> string" where
  "resolve_git_ref tag commit =
     (case tag of
        Some t \<Rightarrow> if trim t \<noteq> '''' then trim t else
          (case commit of Some c \<Rightarrow> if trim c \<noteq> '''' then trim c else ''unknown'' | None \<Rightarrow> ''unknown'')
      | None \<Rightarrow> (case commit of Some c \<Rightarrow> if trim c \<noteq> '''' then trim c else ''unknown'' | None \<Rightarrow> ''unknown''))"

subsection \<open>Recording\<close>

definition record_blocked_packet ::
  "'v counter_vec_ops \<Rightarrow> string \<Rightarrow> string \<Rightarrow> u64 \<Rightarrow> ('v, 'g) prometheus_metrics \<Rightarrow> ('v, 'g) prometheus_metrics" where
  "record_blocked_packet V proto match_type byte_len m =
     m\<lparr>pm_packets_total := cv_inc_by V (pm_packets_total m) [''drop''] 1,
       pm_packets_blocked_total := cv_inc_by V (pm_packets_blocked_total m) [proto, match_type] 1,
       pm_bytes_total := cv_inc_by V (pm_bytes_total m) [''drop''] byte_len\<rparr>"

definition record_blocked_ip ::
  "ip_addr \<Rightarrow> blocked_protocol \<Rightarrow> u64 \<Rightarrow> ('v, 'g) prometheus_metrics \<Rightarrow> ('v, 'g) prometheus_metrics" where
  "record_blocked_ip ip protocol n m = m\<lparr>pm_top := record_event ip protocol n (pm_top m)\<rparr>"

definition sync_top_blocked_ips ::
  "'v counter_vec_ops \<Rightarrow> ('v, 'g) prometheus_metrics \<Rightarrow> ('v, 'g) prometheus_metrics" where
  "sync_top_blocked_ips V m =
     (let (t, vecs) = sync_to_metrics V (pm_top m, pm_top_vecs m) in m\<lparr>pm_top := t, pm_top_vecs := vecs\<rparr>)"

definition set_top_n_criterion :: "ranking_criterion \<Rightarrow> ('v, 'g) prometheus_metrics \<Rightarrow> ('v, 'g) prometheus_metrics" where
  "set_top_n_criterion c m = m\<lparr>pm_top := set_criterion c (pm_top m)\<rparr>"

definition record_accepted_packet ::
  "'v counter_vec_ops \<Rightarrow> u64 \<Rightarrow> ('v, 'g) prometheus_metrics \<Rightarrow> ('v, 'g) prometheus_metrics" where
  "record_accepted_packet V byte_len m =
     m\<lparr>pm_packets_total := cv_inc_by V (pm_packets_total m) [''accept''] 1,
       pm_packets_accepted_total := pm_packets_accepted_total m + 1,
       pm_bytes_total := cv_inc_by V (pm_bytes_total m) [''accept''] byte_len\<rparr>"

definition record_ringbuf_event :: "('v, 'g) prometheus_metrics \<Rightarrow> ('v, 'g) prometheus_metrics" where
  "record_ringbuf_event m = m\<lparr>pm_ringbuf_events_total := pm_ringbuf_events_total m + 1\<rparr>"

definition record_error ::
  "'v counter_vec_ops \<Rightarrow> string \<Rightarrow> ('v, 'g) prometheus_metrics \<Rightarrow> ('v, 'g) prometheus_metrics" where
  "record_error V error_type m = m\<lparr>pm_errors_total := cv_inc_by V (pm_errors_total m) [error_type] 1\<rparr>"

definition record_drop ::
  "'v counter_vec_ops \<Rightarrow> string \<Rightarrow> string \<Rightarrow> u32 \<Rightarrow> ('v, 'g) prometheus_metrics \<Rightarrow> ('v, 'g) prometheus_metrics" where
  "record_drop V category protocol n m =
     m\<lparr>pm_firehol_packets := cv_inc_by V (pm_firehol_packets m) [category, protocol] 1,
       pm_firehol_bytes := cv_inc_by V (pm_firehol_bytes m) [category] (ucast n)\<rparr>"

subsection \<open>Gauges of the maps\<close>

definition update_rules_count ::
  "'g gauge_vec_ops \<Rightarrow> nat \<Rightarrow> nat \<Rightarrow> nat \<Rightarrow> nat \<Rightarrow> ('v, 'g) prometheus_metrics \<Rightarrow> ('v, 'g) prometheus_metrics" where
  "update_rules_count G e4 e6 l4 l6 m =
     (let g = gv_set G (pm_rules_active m) [''exact_v4''] (of_nat e4);
          g = gv_set G g [''exact_v6''] (of_nat e6);
          g = gv_set G g [''lpm_v4''] (of_nat l4);
          g = gv_set G g [''lpm_v6''] (of_nat l6)
      in m\<lparr>pm_rules_active := g, pm_rules_total := of_nat (e4 + e6 + l4 + l6)\<rparr>)"

definition update_map_entries ::
  "'g gauge_vec_ops \<Rightarrow> nat \<Rightarrow> nat \<Rightarrow> nat \<Rightarrow> nat \<Rightarrow> ('v, 'g) prometheus_metrics \<Rightarrow> ('v, 'g) prometheus_metrics" where
  "update_map_entries G e4 e6 l4 l6 m =
     (let g = gv_set G (pm_map_entries m) [''hashmap'', ''ipv4'', ''ip''] (of_nat e4);
          g = gv_set G g [''hashmap'', ''ipv6'', ''ip''] (of_nat e6);
          g = gv_set G g [''lpm_trie'', ''ipv4'', ''cidr''] (of_nat l4);
          g = gv_set G g [''lpm_trie'', ''ipv6'', ''cidr''] (of_nat l6)
      in update_rules_count G e4 e6 l4 l6 (m\<lparr>pm_map_entries := g\<rparr>))"

definition inc_map_entry ::
  "'g gauge_vec_ops \<Rightarrow> string \<Rightarrow> string \<Rightarrow> string \<Rightarrow> ('v, 'g) prometheus_metrics \<Rightarrow> ('v, 'g) prometheus_metrics" where
  "inc_map_entry G bpf_map ip_version entry_type m =
     m\<lparr>pm_map_entries := gv_add G (pm_map_entries m) [bpf_map, ip_version, entry_type] 1,
       pm_rules_total := pm_rules_total m + 1\<rparr>"

definition dec_map_entry ::
  "'g gauge_vec_ops \<Rightarrow> string \<Rightarrow> string \<Rightarrow> string \<Rightarrow> ('v, 'g) prometheus_metrics \<Rightarrow> ('v, 'g) prometheus_metrics" where
  "dec_map_entry G bpf_map ip_version entry_type m =
     m\<lparr>pm_map_entries := gv_add G (pm_map_entries m) [bpf_map, ip_version, entry_type] (- 1),
       pm_rules_total := pm_rules_total m - 1\<rparr>"

text \<open>Reading a gauge leaves its value alone; a missing series reads as 0.\<close>

definition get_map_entries :: "'g gauge_vec_ops \<Rightarrow> ('v, 'g) prometheus_metrics \<Rightarrow> string \<Rightarrow> string \<Rightarrow> string \<Rightarrow> i64" where
  "get_map_entries G m bpf_map ip_version entry_type = gv_get G (pm_map_entries m) [bpf_map, ip_version, entry_type]"

definition lpm_trie_entries :: "'g gauge_vec_ops \<Rightarrow> ('v, 'g) prometheus_metrics \<Rightarrow> i64" where
  "lpm_trie_entries G m = get_map_entries G m ''lpm_trie'' ''ipv4'' ''cidr'' + get_map_entries G m ''lpm_trie'' ''ipv6'' ''cidr''"

definition hashmap_entries :: "'g gauge_vec_ops \<Rightarrow> ('v, 'g) prometheus_metrics \<Rightarrow> i64" where
  "hashmap_entries G m = get_map_entries G m ''hashmap'' ''ipv4'' ''ip'' + get_map_entries G m ''hashmap'' ''ipv6'' ''ip''"

definition ipv4_entries :: "'g gauge_vec_ops \<Rightarrow> ('v, 'g) prometheus_metrics \<Rightarrow> i64" where
  "ipv4_entries G m = get_map_entries G m ''hashmap'' ''ipv4'' ''ip'' + get_map_entries G m ''lpm_trie'' ''ipv4'' ''cidr''"

definition ipv6_entries :: "'g gauge_vec_ops \<Rightarrow> ('v, 'g) prometheus_metrics \<Rightarrow> i64" where
  "ipv6_entries G m = get_map_entries G m ''hashmap'' ''ipv6'' ''ip'' + get_map_entries G m ''lpm_trie'' ''ipv6'' ''cidr''"

subsection \<open>Kernel counters\<close>

definition update_from_ebpf_stats ::
  "'v counter_vec_ops \<Rightarrow> firewall_stats \<Rightarrow> ('v, 'g) prometheus_metrics \<Rightarrow> ('v, 'g) prometheus_metrics" where
  "update_from_ebpf_stats V stats m =
     (let current_accepted = pm_packets_accepted_total m;
          m = (if accepted_packets stats > current_accepted
               then let diff_pkts = accepted_packets stats - current_accepted in
                 m\<lparr>pm_packets_accepted_total := pm_packets_accepted_total m + diff_pkts,
                   pm_packets_total := cv_inc_by V (pm_packets_total m) [''accept''] diff_pkts\<rparr>
               else m);
          m = m\<lparr>pm_bytes_total := cv_with V (pm_bytes_total m) [''accept'']\<rparr>;
          current_accepted_bytes = cv_get V (pm_bytes_total m) [''accept'']
      in if accepted_bytes stats > current_accepted_bytes
         then m\<lparr>pm_bytes_total := cv_inc_by V (pm_bytes_total m) [''accept''] (accepted_bytes stats - current_accepted_bytes)\<rparr>
         else m)"

subsection \<open>Gauges agree\<close>

locale gauge_vec =
  fixes G :: "'g gauge_vec_ops" and gauge :: "'g \<Rightarrow> string list \<Rightarrow> i64"
  assumes set_law: "gauge (gv_set G g l n) = (gauge g)(l := n)"
    and add_law: "gauge (gv_add G g l n) = (gauge g)(l := gauge g l + n)"
    and get_law: "gv_get G g l = gauge g l"
begin

text \<open>The total counts the entries of all four maps.\<close>

definition gauges_agree :: "('v, 'g) prometheus_metrics \<Rightarrow> bool" where
  "gauges_agree m \<longleftrightarrow> pm_rules_total m = lpm_trie_entries G m + hashmap_entries G m"

lemma update_map_entries_reads:
  "lpm_trie_entries G (update_map_entries G e4 e6 l4 l6 m) = of_nat (l4 + l6)"
  "hashmap_entries G (update_map_entries G e4 e6 l4 l6 m) = of_nat (e4 + e6)"
  "ipv4_entries G (update_map_entries G e4 e6 l4 l6 m) = of_nat (e4 + l4)"
  "ipv6_entries G (update_map_entries G e4 e6 l4 l6 m) = of_nat (e6 + l6)"
  "pm_rules_total (update_map_entries G e4 e6 l4 l6 m) = of_nat (e4 + e6 + l4 + l6)"
  by (simp_all add: lpm_trie_entries_def hashmap_entries_def ipv4_entries_def ipv6_entries_def get_map_entries_def
      update_map_entries_def update_rules_count_def Let_def set_law get_law)

lemma update_map_entries_agrees: "gauges_agree (update_map_entries G e4 e6 l4 l6 m)"
  by (simp add: gauges_agree_def update_map_entries_reads)

text \<open>The four series that are summed are the only ones the daemon uses.\<close>

lemma inc_dec_agree:
  assumes "gauges_agree m" "[k, v, t] \<in> {[''hashmap'', ''ipv4'', ''ip''], [''hashmap'', ''ipv6'', ''ip''],
    [''lpm_trie'', ''ipv4'', ''cidr''], [''lpm_trie'', ''ipv6'', ''cidr'']}"
  shows "gauges_agree (inc_map_entry G k v t m)" "gauges_agree (dec_map_entry G k v t m)"
  using assms by (auto simp: gauges_agree_def inc_map_entry_def dec_map_entry_def lpm_trie_entries_def hashmap_entries_def
      get_map_entries_def add_law get_law)

end

text \<open>Gauge vectors as functions from labels to values.\<close>

definition fun_gauges :: "(string list \<Rightarrow> i64) gauge_vec_ops" where
  "fun_gauges = \<lparr>gv_set = (\<lambda>g l n. g(l := n)), gv_add = (\<lambda>g l n. g(l := g l + n)), gv_get = (\<lambda>g l. g l)\<rparr>"

interpretation gauges: gauge_vec fun_gauges "\<lambda>g. g"
  by unfold_locales (simp_all add: fun_gauges_def)

context counter_vec
begin

text \<open>The catch-up never lowers a counter and never overshoots the kernel's.\<close>

lemma update_from_ebpf_stats_exact:
  "pm_packets_accepted_total (update_from_ebpf_stats V stats m) = max (pm_packets_accepted_total m) (accepted_packets stats)"
  "series (pm_bytes_total (update_from_ebpf_stats V stats m)) [''accept''] =
     Some (max (value0 (series (pm_bytes_total m) [''accept''])) (accepted_bytes stats))"
  by (auto simp: update_from_ebpf_stats_def Let_def inc_law with_law get_law max_def not_less split: option.splits)

end

end
