(* ===== verification/Ringbuf.thy ===== *)
theory Ringbuf
  imports Firehol_Index Fw_Loader Fw_Metrics
begin

section \<open>The consumer of drop events\<close>

text \<open>
  Models \<open>src/ringbuf.rs\<close>: draining a batch of the kernel's ring buffer, the size check, the
  reinterpretation of the bytes as an event, the counters, and the block that is logged with the
  event (the rule that matched and every list that contains the source address), down to its
  texts.  The asynchronous loop around a batch, colours and icons are left out.  A batch is
  the list of items the ring buffer returns; a panic of a lookup is \<open>Fault\<close>.
\<close>

record 'db ringbuf_consumer =
  rc_log_drops :: bool
  rc_firehol :: "'db registry option"
  rc_static :: "static_rule_registry option"

record ('v, 'g) ringbuf_state =
  rs_metrics :: "('v, 'g) prometheus_metrics option"
  rs_log :: "(packet_log_event \<times> rule_block_context) list"
  rs_handled :: nat

subsection \<open>Merging blocks\<close>

text \<open>\<open>lines.get(i).copied().unwrap_or_default()\<close>.\<close>

definition line_at :: "u32 list \<Rightarrow> nat \<Rightarrow> u32" where
  "line_at ls i = (case nth_opt ls i of Some l \<Rightarrow> l | None \<Rightarrow> 0)"

definition merge_file :: "string \<Rightarrow> u32 \<Rightarrow> rule_block_context \<Rightarrow> rule_block_context" where
  "merge_file f l dst =
     (if list_ex (\<lambda>(j, x). x = f \<and> line_at (rb_lines dst) j = l) (List.enumerate 0 (rb_files dst)) then dst
      else dst\<lparr>rb_files := rb_files dst @ [f], rb_lines := rb_lines dst @ [l]\<rparr>)"

definition merge_category :: "firehol_category \<Rightarrow> rule_block_context \<Rightarrow> rule_block_context" where
  "merge_category c dst =
     (if c \<in> set (rb_categories dst) then dst else dst\<lparr>rb_categories := rb_categories dst @ [c]\<rparr>)"

definition merge_into :: "rule_block_context \<Rightarrow> rule_block_context \<Rightarrow> rule_block_context" where
  "merge_into dst src =
     fold merge_category (rb_categories src)
       (fold (\<lambda>(i, f). merge_file f (line_at (rb_lines src) i)) (List.enumerate 0 (rb_files src)) dst)"

subsection \<open>The logged block\<close>

definition winning_block :: "'db ringbuf_consumer \<Rightarrow> u32 \<Rightarrow> rule_block_context option" where
  "winning_block rc rule_id =
     (case (case rc_firehol rc of Some r \<Rightarrow> resolve_rule_block r rule_id | None \<Rightarrow> None) of
        Some w \<Rightarrow> Some w
      | None \<Rightarrow>
          (case (case rc_static rc of Some s \<Rightarrow> registry_get s rule_id | None \<Rightarrow> None) of
             Some info \<Rightarrow> Some \<lparr>rb_files = [si_file info], rb_lines = [si_line info], rb_categories = []\<rparr>
           | None \<Rightarrow> None))"

fun ip_octets :: "ip_addr \<Rightarrow> bytes" where
  "ip_octets (V4 a) = a"
| "ip_octets (V6 a) = a"

definition event_block ::
  "'db rocks_ops \<Rightarrow> 'db ringbuf_consumer \<Rightarrow> packet_log_event \<Rightarrow> (unit, rule_block_context) outcome" where
  "event_block R rc event =
     (let block = (case winning_block rc (ev_rule_id event) of
                     Some w \<Rightarrow> merge_into context_default w | None \<Rightarrow> context_default) in
      case rc_firehol rc of
        None \<Rightarrow> Ok block
      | Some r \<Rightarrow>
          (case lookup_ip R r (ev_ip_version event) (ip_octets (src_addr event)) of
             Ok ctxs \<Rightarrow> Ok (fold (\<lambda>ctx b. merge_into b ctx) ctxs block)
           | Err e \<Rightarrow> Err e | Fault \<Rightarrow> Fault))"

subsection \<open>One item\<close>

definition expected_size :: nat where
  "expected_size = 64"

definition record_event_metrics ::
  "'v counter_vec_ops \<Rightarrow> 'db ringbuf_consumer \<Rightarrow> packet_log_event \<Rightarrow> ('v, 'g) prometheus_metrics \<Rightarrow> ('v, 'g) prometheus_metrics" where
  "record_event_metrics V rc event m =
     (let rule_info = (case rc_firehol rc of Some r \<Rightarrow> resolve_rule r (ev_rule_id event) | None \<Rightarrow> None);
          byte_len = ucast (ev_packet_len event);
          m = record_blocked_packet V (protocol_name event) (match_type_name event) byte_len m;
          m = record_blocked_ip (src_addr event) (proto_from_u8 (ev_protocol event)) byte_len m
      in case rule_info of
           Some info \<Rightarrow> record_drop V (cat_as_str (be_category info)) (protocol_name event) (ev_packet_len event) m
         | None \<Rightarrow> m)"

definition handle_item ::
  "'v counter_vec_ops \<Rightarrow> 'db rocks_ops \<Rightarrow> 'db ringbuf_consumer \<Rightarrow> bytes \<Rightarrow> ('v, 'g) ringbuf_state \<Rightarrow>
   (unit, ('v, 'g) ringbuf_state) outcome" where
  "handle_item V R rc item st =
     (let st = st\<lparr>rs_handled := rs_handled st + 1, rs_metrics := map_option record_ringbuf_event (rs_metrics st)\<rparr> in
      if length item \<noteq> expected_size
      then Ok (st\<lparr>rs_metrics := map_option (record_error V ''ringbuf_malformed'') (rs_metrics st)\<rparr>)
      else
        let event = event_of_bytes item;
            st = st\<lparr>rs_metrics := map_option (record_event_metrics V rc event) (rs_metrics st)\<rparr>
        in if rc_log_drops rc
           then (case event_block R rc event of
                   Ok block \<Rightarrow> Ok (st\<lparr>rs_log := rs_log st @ [(event, block)]\<rparr>)
                 | Err e \<Rightarrow> Err e | Fault \<Rightarrow> Fault)
           else Ok st)"

fun drain ::
  "'v counter_vec_ops \<Rightarrow> 'db rocks_ops \<Rightarrow> 'db ringbuf_consumer \<Rightarrow> bytes list \<Rightarrow> ('v, 'g) ringbuf_state \<Rightarrow>
   (unit, ('v, 'g) ringbuf_state) outcome" where
  "drain V R rc [] st = Ok st"
| "drain V R rc (item # items) st =
     (case handle_item V R rc item st of Ok st \<Rightarrow> drain V R rc items st | r \<Rightarrow> r)"

subsection \<open>Texts\<close>

definition rule_file_text :: "rule_block_context \<Rightarrow> nat \<times> string \<Rightarrow> string" where
  "rule_file_text block = (\<lambda>(i, f). let line = line_at (rb_lines block) i in
     if line > 0 then f @ '':'' @ show_nat (unat line) else f)"

definition json_rule_files :: "rule_block_context \<Rightarrow> string list" where
  "json_rule_files block = map (rule_file_text block) (List.enumerate 0 (rb_files block))"

definition json_categories :: "rule_block_context \<Rightarrow> string list" where
  "json_categories block = map cat_as_str (rb_categories block)"

definition rule_label :: "rule_block_context option \<Rightarrow> string" where
  "rule_label block =
     (case block of
        Some b \<Rightarrow> if rb_files b = [] then ''-'' else join '', '' (map (rule_file_text b) (List.enumerate 0 (rb_files b)))
      | None \<Rightarrow> ''-'')"

definition category_label :: "rule_block_context option \<Rightarrow> string" where
  "category_label block =
     (case block of
        Some b \<Rightarrow> if rb_categories b = [] then ''-'' else join '', '' (map cat_as_str (rb_categories b))
      | None \<Rightarrow> ''-'')"

subsection \<open>What a merge keeps\<close>

text \<open>The files of a block with their lines, a missing line being 0.\<close>

definition file_lines :: "rule_block_context \<Rightarrow> (string \<times> u32) list" where
  "file_lines b = map (\<lambda>(i, f). (f, line_at (rb_lines b) i)) (List.enumerate 0 (rb_files b))"

text \<open>Appending the elements that are new, in order.\<close>

definition add_new :: "'a list \<Rightarrow> 'a list \<Rightarrow> 'a list" where
  "add_new xs ys = fold (\<lambda>y zs. if y \<in> set zs then zs else zs @ [y]) ys xs"

lemma add_new_spec:
  "set (add_new xs ys) = set xs \<union> set ys \<and> (distinct xs \<longrightarrow> distinct (add_new xs ys)) \<and> (\<exists>zs. add_new xs ys = xs @ zs)"
proof (induction ys arbitrary: xs)
  case (Cons y ys)
  from Cons.IH [of "if y \<in> set xs then xs else xs @ [y]"] show ?case
    by (auto simp: add_new_def split: if_splits)
qed (simp add: add_new_def)

definition wf_block :: "rule_block_context \<Rightarrow> bool" where
  "wf_block b \<longleftrightarrow> length (rb_lines b) = length (rb_files b)"

lemma file_lines_wf: "wf_block b \<Longrightarrow> file_lines b = sources b"
  by (rule nth_equalityI) (auto simp: wf_block_def file_lines_def sources_def nth_enumerate_eq line_at_def nth_opt_def)

lemma merge_file_sources:
  assumes "wf_block b"
  shows "wf_block (merge_file f l b) \<and> sources (merge_file f l b) = add_new (sources b) [(f, l)] \<and>
    rb_categories (merge_file f l b) = rb_categories b"
proof -
  have "list_ex (\<lambda>(j, x). x = f \<and> line_at (rb_lines b) j = l) (List.enumerate 0 (rb_files b)) \<longleftrightarrow> (f, l) \<in> set (sources b)"
    using assms by (auto simp: list_ex_iff in_set_enumerate_eq in_set_zip sources_def wf_block_def line_at_def nth_opt_def)
  then show ?thesis using assms by (auto simp: merge_file_def sources_def wf_block_def add_new_def)
qed

lemma merge_files_sources:
  assumes "wf_block b"
  shows "wf_block (fold (\<lambda>(i, f). merge_file f (line_at ls i)) ifs b) \<and>
    sources (fold (\<lambda>(i, f). merge_file f (line_at ls i)) ifs b) = add_new (sources b) (map (\<lambda>(i, f). (f, line_at ls i)) ifs) \<and>
    rb_categories (fold (\<lambda>(i, f). merge_file f (line_at ls i)) ifs b) = rb_categories b"
  using assms
proof (induction ifs arbitrary: b)
  case (Cons x ifs)
  obtain i f where x: "x = (i, f)" by fastforce
  note m = merge_file_sources [OF Cons.prems, of f "line_at ls i"]
  with Cons.IH [of "merge_file f (line_at ls i) b"] show ?case by (simp add: x add_new_def)
qed (simp add: add_new_def)

lemma merge_categories:
  "rb_categories (fold merge_category cs b) = add_new (rb_categories b) cs \<and>
   rb_files (fold merge_category cs b) = rb_files b \<and> rb_lines (fold merge_category cs b) = rb_lines b"
  by (induction cs arbitrary: b) (simp_all add: merge_category_def add_new_def)

lemma merge_into_spec:
  assumes "wf_block dst"
  shows "wf_block (merge_into dst src)" "sources (merge_into dst src) = add_new (sources dst) (file_lines src)"
    "rb_categories (merge_into dst src) = add_new (rb_categories dst) (rb_categories src)"
  using merge_files_sources [OF assms, of "rb_lines src" "List.enumerate 0 (rb_files src)"]
    merge_categories [of "rb_categories src"]
  by (simp_all add: merge_into_def file_lines_def wf_block_def sources_def)

text \<open>A block that lists each source and each category once.\<close>

definition clean_block :: "rule_block_context \<Rightarrow> bool" where
  "clean_block b \<longleftrightarrow> wf_block b \<and> distinct (sources b) \<and> distinct (rb_categories b)"

lemma merge_into_clean:
  assumes "clean_block b"
  shows "clean_block (merge_into b src) \<and> set (sources (merge_into b src)) = set (sources b) \<union> set (file_lines src) \<and>
    set (rb_categories (merge_into b src)) = set (rb_categories b) \<union> set (rb_categories src) \<and>
    (\<exists>xs. sources (merge_into b src) = sources b @ xs)"
  using merge_into_spec [of b src] assms add_new_spec [of "sources b" "file_lines src"]
    add_new_spec [of "rb_categories b" "rb_categories src"]
  by (simp add: clean_block_def)

lemma merge_all_clean:
  assumes "clean_block b"
  shows "clean_block (fold (\<lambda>ctx b. merge_into b ctx) cs b) \<and>
    set (sources (fold (\<lambda>ctx b. merge_into b ctx) cs b)) = set (sources b) \<union> (\<Union>c \<in> set cs. set (file_lines c)) \<and>
    set (rb_categories (fold (\<lambda>ctx b. merge_into b ctx) cs b)) = set (rb_categories b) \<union> (\<Union>c \<in> set cs. set (rb_categories c)) \<and>
    (\<exists>xs. sources (fold (\<lambda>ctx b. merge_into b ctx) cs b) = sources b @ xs)"
  using assms
proof (induction cs arbitrary: b)
  case (Cons c cs)
  note m = merge_into_clean [OF Cons.prems, of c]
  from Cons.IH [of "merge_into b c"] m show ?case by auto
qed simp

subsection \<open>The block of an event\<close>

text \<open>No lookup panics: the prefixes of the in-memory IPv6 index are in range.\<close>

definition lookups_safe :: "'db ringbuf_consumer \<Rightarrow> bool" where
  "lookups_safe rc \<longleftrightarrow> (\<forall>r. rc_firehol rc = Some r \<longrightarrow> rg_cache r = None \<longrightarrow>
     (\<forall>(p, net, c) \<in> set (rg_ip_index_v6_lpm r). unat p \<le> 128 \<and> length net = 16))"

definition found_contexts :: "'db rocks_ops \<Rightarrow> 'db ringbuf_consumer \<Rightarrow> packet_log_event \<Rightarrow> rule_block_context list" where
  "found_contexts R rc event =
     (case rc_firehol rc of None \<Rightarrow> []
      | Some r \<Rightarrow> (case lookup_ip R r (ev_ip_version event) (ip_octets (src_addr event)) of Ok cs \<Rightarrow> cs | _ \<Rightarrow> []))"

lemma lookup_ip_total:
  assumes "rg_cache r = None \<longrightarrow> (\<forall>(p, net, c) \<in> set (rg_ip_index_v6_lpm r). unat p \<le> 128 \<and> length net = 16)"
  shows "\<exists>cs. lookup_ip R r v ip = Ok cs"
proof -
  have "\<exists>cs. lookup_ip_v6 R r ip = Ok cs"
    using filter_v6_Ok [of "rg_ip_index_v6_lpm r" ip] assms by (auto simp: lookup_ip_v6_def split: option.splits)
  then show ?thesis by (auto simp: lookup_ip_def)
qed

lemma context_default_clean: "clean_block context_default" "sources context_default = []" "rb_categories context_default = []"
  by (simp_all add: clean_block_def wf_block_def context_default_def sources_def)

lemma event_block_spec:
  assumes "lookups_safe rc"
  shows "\<exists>b. event_block R rc event = Ok b \<and> clean_block b \<and>
    set (sources b) = (\<Union>c \<in> set_option (winning_block rc (ev_rule_id event)) \<union> set (found_contexts R rc event). set (file_lines c)) \<and>
    set (rb_categories b) = (\<Union>c \<in> set_option (winning_block rc (ev_rule_id event)) \<union> set (found_contexts R rc event). set (rb_categories c)) \<and>
    (\<forall>w. winning_block rc (ev_rule_id event) = Some w \<longrightarrow> file_lines w \<noteq> [] \<longrightarrow> hd (sources b) = hd (file_lines w))"
proof -
  let ?w = "winning_block rc (ev_rule_id event)"
  let ?b = "case ?w of Some w \<Rightarrow> merge_into context_default w | None \<Rightarrow> context_default"
  have h: "hd (add_new [] xs) = hd xs \<and> add_new [] xs \<noteq> []" if ne: "xs \<noteq> []" for xs :: "(string \<times> u32) list"
  proof -
    obtain y ys where "xs = y # ys" using ne by (cases xs) auto
    moreover from this have "add_new [] xs = add_new [y] ys" by (simp add: add_new_def)
    ultimately show ?thesis using add_new_spec [of "[y]" ys] by auto
  qed
  have b: "clean_block ?b \<and> set (sources ?b) = (\<Union>c \<in> set_option ?w. set (file_lines c)) \<and>
      set (rb_categories ?b) = (\<Union>c \<in> set_option ?w. set (rb_categories c)) \<and>
      (\<forall>w. ?w = Some w \<longrightarrow> file_lines w \<noteq> [] \<longrightarrow> sources ?b \<noteq> [] \<and> hd (sources ?b) = hd (file_lines w))"
    using merge_into_clean [OF context_default_clean(1)] merge_into_spec(2) [of context_default] context_default_clean h
    by (cases ?w) (auto simp: clean_block_def)
  define cs where "cs = found_contexts R rc event"
  have e: "event_block R rc event = Ok (fold (\<lambda>ctx b. merge_into b ctx) cs ?b)"
  proof (cases "rc_firehol rc")
    case None
    then show ?thesis by (simp add: cs_def event_block_def found_contexts_def)
  next
    case (Some r)
    then have "\<exists>xs. lookup_ip R r (ev_ip_version event) (ip_octets (src_addr event)) = Ok xs"
      using assms by (intro lookup_ip_total) (auto simp: lookups_safe_def)
    then obtain xs where "lookup_ip R r (ev_ip_version event) (ip_octets (src_addr event)) = Ok xs" ..
    then show ?thesis using Some by (simp add: cs_def event_block_def found_contexts_def Let_def)
  qed
  show ?thesis
    using b merge_all_clean [of ?b cs] unfolding e cs_def [symmetric] by (auto simp: hd_append)
qed

subsection \<open>A batch\<close>

definition well_sized :: "bytes list \<Rightarrow> packet_log_event list" where
  "well_sized items = map event_of_bytes (filter (\<lambda>item. length item = expected_size) items)"

definition tracked_event :: "packet_log_event \<Rightarrow> block_event" where
  "tracked_event e = (src_addr e, proto_from_u8 (ev_protocol e), ucast (ev_packet_len e))"

context counter_vec
begin

definition count_at :: "'v \<Rightarrow> string list \<Rightarrow> u64" where
  "count_at v l = value0 (series v l)"

lemma count_at_inc: "count_at (cv_inc_by V v l n) l' = count_at v l' + (if l' = l then n else 0)"
  by (simp add: count_at_def inc_law)

lemma record_event_metrics_counts:
  "pm_ringbuf_events_total (record_event_metrics V rc e m) = pm_ringbuf_events_total m"
  "pm_errors_total (record_event_metrics V rc e m) = pm_errors_total m"
  "count_at (pm_packets_total (record_event_metrics V rc e m)) [''drop''] = count_at (pm_packets_total m) [''drop''] + 1"
  "count_at (pm_bytes_total (record_event_metrics V rc e m)) [''drop''] = count_at (pm_bytes_total m) [''drop''] + ucast (ev_packet_len e)"
  "count_at (pm_packets_blocked_total (record_event_metrics V rc e m)) l =
     count_at (pm_packets_blocked_total m) l + (if l = [protocol_name e, match_type_name e] then 1 else 0)"
  "pm_top (record_event_metrics V rc e m) = record_all [tracked_event e] (pm_top m)"
  by (simp_all add: record_event_metrics_def record_blocked_packet_def record_blocked_ip_def record_drop_def Let_def
      count_at_inc record_all_def tracked_event_def split: option.splits)

lemma handle_item_spec:
  assumes "lookups_safe rc" "rs_metrics st = Some m"
  shows "\<exists>st' m'. handle_item V R rc item st = Ok st' \<and> rs_metrics st' = Some m' \<and> rs_handled st' = rs_handled st + 1 \<and>
    pm_ringbuf_events_total m' = pm_ringbuf_events_total m + 1 \<and>
    count_at (pm_errors_total m') [''ringbuf_malformed''] =
      count_at (pm_errors_total m) [''ringbuf_malformed''] + (if length item = expected_size then 0 else 1) \<and>
    count_at (pm_packets_total m') [''drop''] = count_at (pm_packets_total m) [''drop''] + of_nat (length (well_sized [item])) \<and>
    count_at (pm_bytes_total m') [''drop''] =
      count_at (pm_bytes_total m) [''drop''] + sum_list (map (\<lambda>e. ucast (ev_packet_len e)) (well_sized [item])) \<and>
    pm_top m' = record_all (map tracked_event (well_sized [item])) (pm_top m) \<and>
    rs_log st' = rs_log st @ (if rc_log_drops rc
      then map (\<lambda>e. (e, case event_block R rc e of Ok b \<Rightarrow> b)) (well_sized [item]) else [])"
proof -
  obtain b where "event_block R rc (event_of_bytes item) = Ok b" using event_block_spec [OF assms(1)] by blast
  then show ?thesis
    using assms(2)
    by (simp add: handle_item_def Let_def well_sized_def record_ringbuf_event_def record_error_def record_event_metrics_counts
        count_at_inc record_all_def)
qed

lemma drain_spec:
  assumes "lookups_safe rc" "rs_metrics st = Some m"
  shows "\<exists>st' m'. drain V R rc items st = Ok st' \<and> rs_metrics st' = Some m' \<and> rs_handled st' = rs_handled st + length items \<and>
    pm_ringbuf_events_total m' = pm_ringbuf_events_total m + of_nat (length items) \<and>
    count_at (pm_errors_total m') [''ringbuf_malformed''] =
      count_at (pm_errors_total m) [''ringbuf_malformed''] + of_nat (length items - length (well_sized items)) \<and>
    count_at (pm_packets_total m') [''drop''] = count_at (pm_packets_total m) [''drop''] + of_nat (length (well_sized items)) \<and>
    count_at (pm_bytes_total m') [''drop''] =
      count_at (pm_bytes_total m) [''drop''] + sum_list (map (\<lambda>e. ucast (ev_packet_len e)) (well_sized items)) \<and>
    pm_top m' = record_all (map tracked_event (well_sized items)) (pm_top m) \<and>
    rs_log st' = rs_log st @ (if rc_log_drops rc
      then map (\<lambda>e. (e, case event_block R rc e of Ok b \<Rightarrow> b)) (well_sized items) else [])"
  using assms(2)
proof (induction items arbitrary: st m)
  case Nil
  then show ?case by (simp add: well_sized_def record_all_def)
next
  case (Cons item items)
  have split: "well_sized (item # items) = well_sized [item] @ well_sized items" by (simp add: well_sized_def)
  have len: "length (well_sized items) \<le> length items" by (simp add: well_sized_def)
  have "length (item # items) - length (well_sized (item # items)) =
      (if length item = expected_size then 0 else 1) + (length items - length (well_sized items))"
    using len by (simp add: well_sized_def Suc_diff_le)
  then have bad: "(of_nat (length (item # items) - length (well_sized (item # items))) :: u64) =
      (if length item = expected_size then 0 else 1) + of_nat (length items - length (well_sized items))" by simp
  obtain st1 m1 where s: "handle_item V R rc item st = Ok st1" "rs_metrics st1 = Some m1" "rs_handled st1 = rs_handled st + 1"
    "pm_ringbuf_events_total m1 = pm_ringbuf_events_total m + 1"
    "count_at (pm_errors_total m1) [''ringbuf_malformed''] =
      count_at (pm_errors_total m) [''ringbuf_malformed''] + (if length item = expected_size then 0 else 1)"
    "count_at (pm_packets_total m1) [''drop''] = count_at (pm_packets_total m) [''drop''] + of_nat (length (well_sized [item]))"
    "count_at (pm_bytes_total m1) [''drop''] =
      count_at (pm_bytes_total m) [''drop''] + sum_list (map (\<lambda>e. ucast (ev_packet_len e)) (well_sized [item]))"
    "pm_top m1 = record_all (map tracked_event (well_sized [item])) (pm_top m)"
    "rs_log st1 = rs_log st @ (if rc_log_drops rc
      then map (\<lambda>e. (e, case event_block R rc e of Ok b \<Rightarrow> b)) (well_sized [item]) else [])"
    using handle_item_spec [OF assms(1) Cons.prems, where item = item and R = R] by blast
  note IH = Cons.IH [OF s(2)]
  then show ?case unfolding bad using s
    by (auto simp: split record_all_def)
qed

end

text \<open>
  What a logged block says: each source once, the matched rule first, and exactly the sources
  and categories of the matched rule and of every list entry found for the source address.
\<close>

definition reports :: "'db rocks_ops \<Rightarrow> 'db ringbuf_consumer \<Rightarrow> packet_log_event \<Rightarrow> rule_block_context \<Rightarrow> bool" where
  "reports R rc e b \<longleftrightarrow>
     (let ctxs = set_option (winning_block rc (ev_rule_id e)) \<union> set (found_contexts R rc e) in
      distinct (sources b) \<and> set (sources b) = (\<Union>c \<in> ctxs. set (file_lines c)) \<and>
      distinct (rb_categories b) \<and> set (rb_categories b) = (\<Union>c \<in> ctxs. set (rb_categories c)) \<and>
      (\<forall>w. winning_block rc (ev_rule_id e) = Some w \<longrightarrow> file_lines w \<noteq> [] \<longrightarrow> hd (sources b) = hd (file_lines w)))"

lemma block_reports:
  "lookups_safe rc \<Longrightarrow> \<exists>b. event_block R rc e = Ok b \<and> reports R rc e b"
  using event_block_spec [where R = R and event = e] by (fastforce simp: reports_def Let_def clean_block_def)


definition demo_drop :: packet_log_event where
  "demo_drop = event_default\<lparr>ev_src_ip := [10, 0, 0, 1] @ replicate 12 0, ev_ip_version := 4, ev_rule_id := 5, ev_packet_len := 60\<rparr>"

definition demo_consumer :: "sst_db ringbuf_consumer" where
  "demo_consumer = \<lparr>rc_log_drops = True, rc_firehol = None,
     rc_static = Some (registry_set [(5, \<lparr>si_rule_id = 5, si_file = ''a.txt'', si_line = 3\<rparr>)] registry_new)\<rparr>"

definition demo_metrics :: "(string list \<Rightarrow> u64 option, string list \<Rightarrow> i64) prometheus_metrics" where
  "demo_metrics = \<lparr>pm_packets_total = Map.empty, pm_packets_accepted_total = 0, pm_packets_blocked_total = Map.empty,
     pm_bytes_total = Map.empty, pm_ringbuf_events_total = 0, pm_errors_total = Map.empty, pm_map_entries = (\<lambda>_. 0),
     pm_rules_active = (\<lambda>_. 0), pm_rules_total = 0, pm_top = top_n_default, pm_top_vecs = demo_vecs,
     pm_firehol_packets = Map.empty, pm_firehol_bytes = Map.empty, pm_cron_executions = 0, pm_cron_success = 0,
     pm_cron_failures = 0, pm_cron_skipped = 0, pm_cron_no_change = 0, pm_cron_last_error = 0\<rparr>"

lemma demo_well_sized: "well_sized [event_bytes demo_drop, [1, 2, 3]] = [demo_drop]"
proof -
  have "wf_event demo_drop" by (simp add: wf_event_def demo_drop_def event_default_def)
  then show ?thesis by (simp add: well_sized_def expected_size_def length_event_bytes event_of_event_bytes)
qed


end
