(* ===== verification/Git_Repo.thy ===== *)
theory Git_Repo
  imports Fw_Prelude
begin

section \<open>The checkout of the lists\<close>

text \<open>
  Models \<open>src/firehol/git_repository.rs\<close>: shallow clone, inspection of the remote branch with
  retries, fetch and hard reset.  The file system and \<open>libgit2\<close> are parameters: \<open>git_ops\<close> are the
  calls made, over a state \<open>'w\<close> of disk and network, and the locale \<open>git_remote\<close> has what they
  are documented to do.  Object names are their hexadecimal texts.  Durations and time stamps of
  the runs are left out.
\<close>

type_synonym oid = string
type_synonym git_error = string

record git_commit =
  gc_id :: oid
  gc_time :: int

record head_ref =
  hr_target :: "oid option"
  hr_commit :: "git_commit option"

record ('w, 'r) git_ops =
  fs_parent :: "string \<Rightarrow> string option"
  fs_create_dir_all :: "'w \<Rightarrow> string \<Rightarrow> string + 'w"
  fs_exists :: "'w \<Rightarrow> string \<Rightarrow> bool"
  fs_remove_dir_all :: "'w \<Rightarrow> string \<Rightarrow> 'w"
  g_open :: "'w \<Rightarrow> string \<Rightarrow> git_error + 'r"
  g_clone :: "'w \<Rightarrow> bool \<Rightarrow> string \<Rightarrow> string \<Rightarrow> string \<Rightarrow> (git_error + 'r) \<times> 'w"
  g_remote_url :: "'w \<Rightarrow> 'r \<Rightarrow> git_error + string option"
  g_head :: "'w \<Rightarrow> 'r \<Rightarrow> head_ref option"
  g_connect :: "'w \<Rightarrow> 'r \<Rightarrow> (git_error + (string \<times> oid) list option) \<times> 'w"
  g_fetch :: "'w \<Rightarrow> 'r \<Rightarrow> bool \<Rightarrow> string \<Rightarrow> (git_error + unit) \<times> 'w"
  g_find_commit :: "'w \<Rightarrow> 'r \<Rightarrow> string \<Rightarrow> git_error + git_commit"
  g_reset_hard :: "'w \<Rightarrow> 'r \<Rightarrow> oid \<Rightarrow> (git_error + unit) \<times> 'w"

datatype sync_status = Cloned oid int | Updated oid int | UpToDate oid int

datatype git_repo_error =
    Git git_error
  | Git_Io string
  | RemoteUrlMismatch string string
  | MissingHead
  | Corrupted string string

record git_metrics =
  gm_clones :: u64
  gm_fetches :: u64
  gm_errors :: u64
  gm_up_to_date :: u64
  gm_last_commit_timestamp :: int

record 'r git_repository =
  gr_repo :: "'r option"
  gr_last_commit_time :: int
  gr_last_commit_oid :: "oid option"

text \<open>The repository manager, its metrics and the outside world.\<close>

type_synonym ('w, 'r) git_state = "'r git_repository \<times> git_metrics option \<times> 'w"

definition git_new :: "'r git_repository" where
  "git_new = \<lparr>gr_repo = None, gr_last_commit_time = 0, gr_last_commit_oid = None\<rparr>"

definition bump_errors :: "git_metrics option \<Rightarrow> git_metrics option" where
  "bump_errors = map_option (\<lambda>m. m\<lparr>gm_errors := gm_errors m + 1\<rparr>)"

definition exists_at :: "('w, 'r) git_ops \<Rightarrow> 'w \<Rightarrow> string \<Rightarrow> bool" where
  "exists_at G w path =
     (if \<not> fs_exists G w (path @ ''/.git'') then False else case g_open G w path of Inr _ \<Rightarrow> True | Inl _ \<Rightarrow> False)"

definition is_http :: "string \<Rightarrow> bool" where
  "is_http url = (take 4 url = ''http'')"

definition shallow_clone ::
  "('w, 'r) git_ops \<Rightarrow> string \<Rightarrow> string \<Rightarrow> string \<Rightarrow> ('w, 'r) git_state \<Rightarrow> (git_repo_error + sync_status) \<times> ('w, 'r) git_state" where
  "shallow_clone G path url branch = (\<lambda>(self, m, w).
     let w = (if fs_exists G w path then fs_remove_dir_all G w path else w) in
     case g_clone G w (is_http url) branch url path of
       (Inl e, w) \<Rightarrow> (Inl (Git e), self, bump_errors m, w)
     | (Inr r, w) \<Rightarrow>
         let c = (case g_head G w r of Some h \<Rightarrow> hr_commit h | None \<Rightarrow> None);
             commit_oid = (case c of Some c \<Rightarrow> gc_id c | None \<Rightarrow> '''');
             commit_time = (case c of Some c \<Rightarrow> gc_time c | None \<Rightarrow> 0)
         in (Inr (Cloned commit_oid commit_time),
             self\<lparr>gr_last_commit_time := commit_time, gr_last_commit_oid := Some commit_oid, gr_repo := Some r\<rparr>,
             map_option (\<lambda>m. m\<lparr>gm_last_commit_timestamp := commit_time\<rparr>) m, w))"

text \<open>An operation that is retried: \<open>n\<close> is the number of attempts after the first.\<close>

fun try_times :: "('w \<Rightarrow> ('e + 'a) \<times> 'w) \<Rightarrow> nat \<Rightarrow> 'w \<Rightarrow> ('e + 'a) \<times> 'w" where
  "try_times f 0 w = f w"
| "try_times f (Suc n) w = (case f w of (Inl _, w) \<Rightarrow> try_times f n w | r \<Rightarrow> r)"

definition max_retries :: nat where
  "max_retries = 3"

text \<open>The first listed branch of the name decides.\<close>

definition needs_fetch :: "oid option \<Rightarrow> string \<Rightarrow> (string \<times> oid) list option \<Rightarrow> bool" where
  "needs_fetch local_oid branch heads =
     (case heads of
        None \<Rightarrow> True
      | Some hs \<Rightarrow>
          (case find (\<lambda>(n, _). n = ''refs/heads/'' @ branch) hs of
             Some (_, oid) \<Rightarrow> local_oid \<noteq> Some oid
           | None \<Rightarrow> True))"

definition reset_to_remote ::
  "('w, 'r) git_ops \<Rightarrow> 'r \<Rightarrow> string \<Rightarrow> ('w, 'r) git_state \<Rightarrow> (git_repo_error + sync_status) \<times> ('w, 'r) git_state" where
  "reset_to_remote G r branch = (\<lambda>(self, m, w).
     case g_find_commit G w r (''refs/remotes/origin/'' @ branch) of
       Inl e \<Rightarrow> (Inl (Git e), self, m, w)
     | Inr c \<Rightarrow>
         (case g_reset_hard G w r (gc_id c) of
            (Inl e, w) \<Rightarrow> (Inl (Git e), self, m, w)
          | (Inr _, w) \<Rightarrow>
              (Inr (Updated (gc_id c) (gc_time c)),
               self\<lparr>gr_last_commit_time := gc_time c, gr_last_commit_oid := Some (gc_id c)\<rparr>,
               map_option (\<lambda>m. m\<lparr>gm_last_commit_timestamp := gc_time c\<rparr>) m, w)))"

definition fetch_and_reset ::
  "('w, 'r) git_ops \<Rightarrow> string \<Rightarrow> string \<Rightarrow> ('w, 'r) git_state \<Rightarrow> (git_repo_error + sync_status) \<times> ('w, 'r) git_state" where
  "fetch_and_reset G url branch = (\<lambda>(self, m, w).
     case gr_repo self of
       None \<Rightarrow> (Inl (Corrupted '''' ''Repository instance uninitialized''), self, m, w)
     | Some r \<Rightarrow>
     (case g_remote_url G w r of
       Inl e \<Rightarrow> (Inl (Git e), self, m, w)
     | Inr u \<Rightarrow>
         let origin_url = (case u of Some u \<Rightarrow> u | None \<Rightarrow> '''') in
         if origin_url \<noteq> url then (Inl (RemoteUrlMismatch url origin_url), self, m, w)
         else
           let h = g_head G w r;
               local_oid = (case h of Some h \<Rightarrow> hr_target h | None \<Rightarrow> None);
               local_time = (case h of Some h \<Rightarrow> (case hr_commit h of Some c \<Rightarrow> gc_time c | None \<Rightarrow> 0) | None \<Rightarrow> 0);
               local_oid_str = (case local_oid of Some oid \<Rightarrow> oid | None \<Rightarrow> '''')
           in case try_times (\<lambda>w. g_connect G w r) (max_retries - 1) w of
                (Inl e, w) \<Rightarrow> (Inl (Git e), self, bump_errors m, w)
              | (Inr heads, w) \<Rightarrow>
                  if \<not> needs_fetch local_oid branch heads
                  then (Inr (UpToDate local_oid_str local_time),
                        self\<lparr>gr_last_commit_time := local_time, gr_last_commit_oid := Some local_oid_str\<rparr>,
                        map_option (\<lambda>m. m\<lparr>gm_up_to_date := gm_up_to_date m + 1\<rparr>) m, w)
                  else
                    (case try_times (\<lambda>w. g_fetch G w r (is_http url)
                            (''+refs/heads/'' @ branch @ '':refs/remotes/origin/'' @ branch)) (max_retries - 1) w of
                       (Inl e, w) \<Rightarrow> (Inl (Git e), self, bump_errors m, w)
                     | (Inr _, w) \<Rightarrow>
                         reset_to_remote G r branch
                           (self, map_option (\<lambda>m. m\<lparr>gm_fetches := gm_fetches m + 1\<rparr>) m, w))))"

definition git_synchronize ::
  "('w, 'r) git_ops \<Rightarrow> string \<Rightarrow> string \<Rightarrow> string \<Rightarrow> ('w, 'r) git_state \<Rightarrow> (git_repo_error + sync_status) \<times> ('w, 'r) git_state" where
  "git_synchronize G path url branch = (\<lambda>(self, m, w).
     case (case fs_parent G path of Some p \<Rightarrow> fs_create_dir_all G w p | None \<Rightarrow> Inr w) of
       Inl e \<Rightarrow> (Inl (Git_Io e), self, m, w)
     | Inr w \<Rightarrow>
         if \<not> exists_at G w path
         then (case shallow_clone G path url branch (self, m, w) of
                 (Inl e, st) \<Rightarrow> (Inl e, st)
               | (Inr status, self, m, w) \<Rightarrow>
                   (Inr status, self, map_option (\<lambda>m. m\<lparr>gm_clones := gm_clones m + 1\<rparr>) m, w))
         else
           (case (case gr_repo self of
                    Some _ \<Rightarrow> Inr self
                  | None \<Rightarrow> (case g_open G w path of Inl e \<Rightarrow> Inl e | Inr r \<Rightarrow> Inr (self\<lparr>gr_repo := Some r\<rparr>))) of
              Inl e \<Rightarrow> (Inl (Git e), self, m, w)
            | Inr self \<Rightarrow>
                (case fetch_and_reset G url branch (self, m, w) of
                   (Inl e, self, m, w) \<Rightarrow> (Inl e, self, bump_errors m, w)
                 | ok \<Rightarrow> ok)))"

subsection \<open>What the library promises\<close>

text \<open>
  \<open>upstream w url branch\<close> is the commit of the remote branch, \<open>checkout w r\<close> the commit of the
  local \<open>HEAD\<close>, \<open>tracking w r name\<close> that of a local reference.
\<close>

locale git_remote =
  fixes G :: "('w, 'r) git_ops"
    and upstream :: "'w \<Rightarrow> string \<Rightarrow> string \<Rightarrow> oid option"
    and checkout :: "'w \<Rightarrow> 'r \<Rightarrow> oid option"
    and tracking :: "'w \<Rightarrow> 'r \<Rightarrow> string \<Rightarrow> oid option"
  assumes create_keeps: "fs_create_dir_all G w p = Inr w' \<Longrightarrow> upstream w' = upstream w"
    and remove_keeps: "upstream (fs_remove_dir_all G w p) = upstream w"
    and clone_law: "g_clone G w d b url p = (Inr r, w') \<Longrightarrow> upstream w' = upstream w \<and> checkout w' r = upstream w url b"
    and head_law: "g_head G w r = Some h \<Longrightarrow> hr_target h = Some oid \<Longrightarrow> checkout w r = Some oid"
    and head_commit_law: "g_head G w r = Some h \<Longrightarrow> hr_commit h = Some c \<Longrightarrow> checkout w r = Some (gc_id c)"
    and connect_keeps: "g_connect G w r = (res, w') \<Longrightarrow>
      upstream w' = upstream w \<and> checkout w' = checkout w \<and> g_remote_url G w' = g_remote_url G w"
    and connect_law: "g_connect G w r = (Inr (Some hs), w') \<Longrightarrow> g_remote_url G w r = Inr (Some url) \<Longrightarrow>
      find (\<lambda>(n, _). n = ''refs/heads/'' @ b) hs = Some (n, oid) \<Longrightarrow> upstream w url b = Some oid"
    and fetch_keeps: "g_fetch G w r d s = (fetched, w') \<Longrightarrow> upstream w' = upstream w \<and> g_remote_url G w' = g_remote_url G w"
    and fetch_law: "g_fetch G w r d (''+refs/heads/'' @ b @ '':refs/remotes/origin/'' @ b) = (Inr x, w') \<Longrightarrow>
      g_remote_url G w r = Inr (Some url) \<Longrightarrow>
      upstream w url b \<noteq> None \<and> tracking w' r (''refs/remotes/origin/'' @ b) = upstream w url b"
    and find_law: "g_find_commit G w r name = Inr c \<Longrightarrow> tracking w r name = Some (gc_id c)"
    and reset_law: "g_reset_hard G w r oid = (Inr x, w') \<Longrightarrow> upstream w' = upstream w \<and> checkout w' r = Some oid"
begin

lemma try_connect:
  assumes "try_times (\<lambda>w. g_connect G w r) n w = (res, w')"
  shows "upstream w' = upstream w \<and> checkout w' = checkout w \<and> g_remote_url G w' = g_remote_url G w \<and>
    (\<forall>hs url b nm oid. res = Inr (Some hs) \<longrightarrow> g_remote_url G w r = Inr (Some url) \<longrightarrow>
      find (\<lambda>(n, _). n = ''refs/heads/'' @ b) hs = Some (nm, oid) \<longrightarrow> upstream w url b = Some oid)"
  using assms
proof (induction n arbitrary: w)
  case 0
  then show ?case using connect_keeps [of w r res w'] connect_law [of w r _ w'] by auto
next
  case (Suc n)
  obtain x w1 where x: "g_connect G w r = (x, w1)" by fastforce
  note k = connect_keeps [OF x]
  show ?case
  proof (cases x)
    case (Inl e)
    then have "try_times (\<lambda>w. g_connect G w r) n w1 = (res, w')" using Suc.prems x by simp
    from Suc.IH [OF this] k show ?thesis by simp
  next
    case (Inr hs)
    then show ?thesis using Suc.prems x k connect_law [of w r _ w1] by auto
  qed
qed

lemma try_fetch:
  assumes "try_times (\<lambda>w. g_fetch G w r d (''+refs/heads/'' @ b @ '':refs/remotes/origin/'' @ b)) n w = (Inr x, w')"
    "g_remote_url G w r = Inr (Some url)"
  shows "upstream w' = upstream w \<and> upstream w url b \<noteq> None \<and> tracking w' r (''refs/remotes/origin/'' @ b) = upstream w url b"
  using assms
proof (induction n arbitrary: w)
  case 0
  then show ?case using fetch_keeps [of w r d _ "Inr x" w'] fetch_law [of w r d b x w' url] by simp
next
  case (Suc n)
  obtain y w1 where y: "g_fetch G w r d (''+refs/heads/'' @ b @ '':refs/remotes/origin/'' @ b) = (y, w1)" by fastforce
  note k = fetch_keeps [OF y]
  show ?case
  proof (cases y)
    case (Inl e)
    then have "try_times (\<lambda>w. g_fetch G w r d (''+refs/heads/'' @ b @ '':refs/remotes/origin/'' @ b)) n w1 = (Inr x, w')"
      using Suc.prems(1) y by simp
    from Suc.IH [OF this] k Suc.prems(2) show ?thesis by simp
  next
    case (Inr u)
    then show ?thesis using Suc.prems y k fetch_law [of w r d b u w1 url] by simp
  qed
qed

text \<open>After a success the local \<open>HEAD\<close> is the remote branch.\<close>

definition aligned :: "string \<Rightarrow> string \<Rightarrow> 'w \<Rightarrow> sync_status \<Rightarrow> ('w, 'r) git_state \<Rightarrow> bool" where
  "aligned url branch w status st \<longleftrightarrow>
     (case st of (self, m, w') \<Rightarrow> upstream w' = upstream w \<and>
       (\<exists>r. gr_repo self = Some r \<and> checkout w' r = upstream w url branch \<and>
         (case status of
            Cloned oid t \<Rightarrow> (oid = '''' \<or> checkout w' r = Some oid) \<and> gr_last_commit_oid self = Some oid
          | Updated oid t \<Rightarrow> checkout w' r = Some oid \<and> gr_last_commit_oid self = Some oid
          | UpToDate oid t \<Rightarrow> checkout w' r = Some oid \<and> gr_last_commit_oid self = Some oid \<and> checkout w' = checkout w)))"

lemma clone_aligned:
  assumes "shallow_clone G path url branch (self, m, w) = (Inr status, st)"
  shows "aligned url branch w status st"
proof -
  let ?w = "if fs_exists G w path then fs_remove_dir_all G w path else w"
  obtain r w' where c: "g_clone G ?w (is_http url) branch url path = (Inr r, w')"
    using assms by (auto simp: shallow_clone_def Let_def split: prod.splits sum.splits)
  have "upstream ?w = upstream w" by (simp add: remove_keeps)
  then have k: "upstream w' = upstream w" "checkout w' r = upstream w url branch" using clone_law [OF c] by simp_all
  show ?thesis
    using assms c k by (auto simp: shallow_clone_def Let_def aligned_def head_commit_law split: option.splits)
qed

lemma fetch_aligned:
  assumes "fetch_and_reset G url branch (self, m, w) = (Inr status, st)" "url \<noteq> ''''"
  shows "aligned url branch w status st \<and> (\<forall>oid t. status \<noteq> Cloned oid t)"
proof -
  obtain r where r: "gr_repo self = Some r" "g_remote_url G w r = Inr (Some url)"
    using assms by (auto simp: fetch_and_reset_def Let_def split: option.splits sum.splits if_splits)
  define local where "local = (case g_head G w r of Some h \<Rightarrow> hr_target h | None \<Rightarrow> None)"
  obtain heads w1 where c: "try_times (\<lambda>w. g_connect G w r) (max_retries - 1) w = (Inr heads, w1)"
    using assms(1) r by (auto simp: fetch_and_reset_def Let_def split: prod.splits sum.splits)
  note k = try_connect [OF c]
  show ?thesis
  proof (cases "needs_fetch local branch heads")
    case False
    then obtain hs n oid where f: "heads = Some hs" "find (\<lambda>(n, _). n = ''refs/heads/'' @ branch) hs = Some (n, oid)" "local = Some oid"
      by (auto simp: needs_fetch_def split: option.splits)
    then have "upstream w url branch = Some oid" using k r(2) by blast
    moreover have "checkout w r = Some oid" using f(3) head_law by (auto simp: local_def split: option.splits)
    moreover have "status = UpToDate oid (case g_head G w r of Some h \<Rightarrow> (case hr_commit h of Some c \<Rightarrow> gc_time c | None \<Rightarrow> 0) | None \<Rightarrow> 0)"
      "fst st = self\<lparr>gr_last_commit_time := (case g_head G w r of Some h \<Rightarrow> (case hr_commit h of Some c \<Rightarrow> gc_time c | None \<Rightarrow> 0) | None \<Rightarrow> 0),
         gr_last_commit_oid := Some oid\<rparr>" "snd (snd st) = w1"
      using assms(1) r c False f(3) by (auto simp: fetch_and_reset_def Let_def local_def split: option.splits)
    ultimately show ?thesis using k r by (cases st) (simp add: aligned_def)
  next
    case True
    then obtain x w2 where f: "try_times (\<lambda>w. g_fetch G w r (is_http url)
        (''+refs/heads/'' @ branch @ '':refs/remotes/origin/'' @ branch)) (max_retries - 1) w1 = (Inr x, w2)"
      using assms(1) r c by (auto simp: fetch_and_reset_def Let_def local_def split: prod.splits sum.splits)
    have "g_remote_url G w1 r = Inr (Some url)" using k r(2) by simp
    note t = try_fetch [OF f this]
    have "reset_to_remote G r branch (self, map_option (\<lambda>m. m\<lparr>gm_fetches := gm_fetches m + 1\<rparr>) m, w2) = (Inr status, st)"
      using assms(1) r c True f by (simp add: fetch_and_reset_def Let_def local_def)
    then obtain c' y w3 where rs: "g_find_commit G w2 r (''refs/remotes/origin/'' @ branch) = Inr c'"
      "g_reset_hard G w2 r (gc_id c') = (Inr y, w3)" "status = Updated (gc_id c') (gc_time c')"
      "st = (self\<lparr>gr_last_commit_time := gc_time c', gr_last_commit_oid := Some (gc_id c')\<rparr>,
         map_option (\<lambda>m. m\<lparr>gm_last_commit_timestamp := gc_time c'\<rparr>) (map_option (\<lambda>m. m\<lparr>gm_fetches := gm_fetches m + 1\<rparr>) m), w3)"
      by (auto simp: reset_to_remote_def split: sum.splits prod.splits)
    from find_law [OF rs(1)] reset_law [OF rs(2)] t k r rs(3,4) show ?thesis by (simp add: aligned_def)
  qed
qed

end

text \<open>
  \<^bold>\<open>C40\<close>. Synchronisation of the checkout.  Whenever it succeeds, the remote was not touched and
  the checkout is at the commit of the remote branch, which is the commit that is reported and
  remembered (a clone whose head cannot be read reports the empty name).  When the first
  connection that succeeds shows the branch at the local commit, it says so and does
  nothing but connect.
\<close>

theorem git_sync_aligned:
  assumes "git_remote G upstream checkout tracking" "url \<noteq> ''''"
  shows "(\<forall>status self' m' w'. git_synchronize G path url branch (self, m, w) = (Inr status, self', m', w') \<longrightarrow>
      upstream w' = upstream w \<and>
      (\<exists>r. gr_repo self' = Some r \<and> checkout w' r = upstream w url branch \<and>
         (case status of
            Cloned oid t \<Rightarrow> (oid = '''' \<or> checkout w' r = Some oid) \<and> gr_last_commit_oid self' = Some oid
          | Updated oid t \<Rightarrow> checkout w' r = Some oid \<and> gr_last_commit_oid self' = Some oid
          | UpToDate oid t \<Rightarrow> checkout w' r = Some oid \<and> gr_last_commit_oid self' = Some oid))) \<and>
    (\<forall>w0 r h oid hs w1 n.
      (case fs_parent G path of Some p \<Rightarrow> fs_create_dir_all G w p | None \<Rightarrow> Inr w) = Inr w0 \<longrightarrow>
      exists_at G w0 path \<longrightarrow> gr_repo self = Some r \<longrightarrow> g_remote_url G w0 r = Inr (Some url) \<longrightarrow>
      g_head G w0 r = Some h \<longrightarrow> hr_target h = Some oid \<longrightarrow>
      try_times (\<lambda>w. g_connect G w r) 2 w0 = (Inr (Some hs), w1) \<longrightarrow>
      find (\<lambda>(n, _). n = ''refs/heads/'' @ branch) hs = Some (n, oid) \<longrightarrow>
      (\<exists>t self' m'. git_synchronize G path url branch (self, m, w) = (Inr (UpToDate oid t), self', m', w1)))"
proof (intro conjI allI impI)
  fix status self' m' w'
  assume ok: "git_synchronize G path url branch (self, m, w) = (Inr status, self', m', w')"
  then obtain w0 where w0: "(case fs_parent G path of Some p \<Rightarrow> fs_create_dir_all G w p | None \<Rightarrow> Inr w) = Inr w0"
    by (auto simp: git_synchronize_def split: sum.splits)
  have up: "upstream w0 = upstream w"
    using w0 git_remote.create_keeps [OF assms(1)] by (auto split: option.splits)
  have "\<exists>m0. git_remote.aligned upstream checkout url branch w0 status (self', m0, w')"
  proof (cases "exists_at G w0 path")
    case False
    then obtain m0 where "shallow_clone G path url branch (self, m, w0) = (Inr status, self', m0, w')"
      using ok w0 by (auto simp: git_synchronize_def split: sum.splits prod.splits)
    then show ?thesis using git_remote.clone_aligned [OF assms(1)] by blast
  next
    case True
    then obtain self0 where "fetch_and_reset G url branch (self0, m, w0) = (Inr status, self', m', w')"
      using ok w0 by (auto simp: git_synchronize_def split: sum.splits prod.splits option.splits)
    then show ?thesis using git_remote.fetch_aligned [OF assms(1) _ assms(2)] by blast
  qed
  then obtain m0 where a: "git_remote.aligned upstream checkout url branch w0 status (self', m0, w')" ..
  then show "upstream w' = upstream w"
    by (simp add: git_remote.aligned_def [OF assms(1)] up)
  from a show "\<exists>r. gr_repo self' = Some r \<and> checkout w' r = upstream w url branch \<and>
         (case status of
            Cloned oid t \<Rightarrow> (oid = '''' \<or> checkout w' r = Some oid) \<and> gr_last_commit_oid self' = Some oid
          | Updated oid t \<Rightarrow> checkout w' r = Some oid \<and> gr_last_commit_oid self' = Some oid
          | UpToDate oid t \<Rightarrow> checkout w' r = Some oid \<and> gr_last_commit_oid self' = Some oid)"
    by (cases status) (auto simp: git_remote.aligned_def [OF assms(1)] up)
qed (auto simp: git_synchronize_def fetch_and_reset_def needs_fetch_def max_retries_def numeral_2_eq_2 Let_def)

text \<open>
  A failure of the connection or of the fetch is counted twice: once where it happens and
  once by the caller.
\<close>

lemma connection_failure_counted_twice:
  assumes "(case fs_parent G path of Some p \<Rightarrow> fs_create_dir_all G w p | None \<Rightarrow> Inr w) = Inr w0"
    "exists_at G w0 path" "gr_repo self = Some r" "g_remote_url G w0 r = Inr (Some url)"
    "try_times (\<lambda>w. g_connect G w r) 2 w0 = (Inl e, w1)"
  shows "git_synchronize G path url branch (self, Some m, w) = (Inl (Git e), self, Some (m\<lparr>gm_errors := gm_errors m + 2\<rparr>), w1)"
  using assms
  by (simp add: git_synchronize_def fetch_and_reset_def max_retries_def numeral_2_eq_2 Let_def bump_errors_def)

subsection \<open>A concrete remote\<close>

record demo_remote =
  dr_upstream :: oid
  dr_checkout :: oid
  dr_tracking :: oid

definition demo_git :: "(demo_remote, unit) git_ops" where
  "demo_git = \<lparr>fs_parent = (\<lambda>_. None), fs_create_dir_all = (\<lambda>w _. Inr w), fs_exists = (\<lambda>_ _. True),
     fs_remove_dir_all = (\<lambda>w _. w), g_open = (\<lambda>_ _. Inr ()),
     g_clone = (\<lambda>w _ _ _ _. (Inr (), w\<lparr>dr_checkout := dr_upstream w\<rparr>)),
     g_remote_url = (\<lambda>_ _. Inr (Some ''https://lists'')),
     g_head = (\<lambda>w _. Some \<lparr>hr_target = Some (dr_checkout w), hr_commit = Some \<lparr>gc_id = dr_checkout w, gc_time = 7\<rparr>\<rparr>),
     g_connect = (\<lambda>w _. (Inr (Some [(''refs/heads/master'', dr_upstream w)]), w)),
     g_fetch = (\<lambda>w _ _ _. (Inr (), w\<lparr>dr_tracking := dr_upstream w\<rparr>)),
     g_find_commit = (\<lambda>w _ _. Inr \<lparr>gc_id = dr_tracking w, gc_time = 8\<rparr>),
     g_reset_hard = (\<lambda>w _ oid. (Inr (), w\<lparr>dr_checkout := oid\<rparr>))\<rparr>"

interpretation lists: git_remote demo_git "\<lambda>w _ _. Some (dr_upstream w)" "\<lambda>w _. Some (dr_checkout w)" "\<lambda>w _ _. Some (dr_tracking w)"
  by unfold_locales (auto simp: demo_git_def fun_eq_iff split: if_splits)

theorem git_sync_aligned_witness:
  "\<exists>status self' m' w'. git_synchronize demo_git ''/lists'' ''https://lists'' ''master''
      (git_new, None, \<lparr>dr_upstream = ''b'', dr_checkout = ''a'', dr_tracking = ''a''\<rparr>) = (Inr status, self', m', w') \<and>
    status = Updated ''b'' 8 \<and> dr_checkout w' = ''b''"
proof -
  let ?w = "\<lparr>dr_upstream = ''b'', dr_checkout = ''a'', dr_tracking = ''a''\<rparr>"
  obtain status self' m' w' where s: "git_synchronize demo_git ''/lists'' ''https://lists'' ''master'' (git_new, None, ?w) = (Inr status, self', m', w')"
    "status = Updated ''b'' 8"
    by (simp add: git_synchronize_def exists_at_def git_new_def demo_git_def fetch_and_reset_def reset_to_remote_def
        needs_fetch_def max_retries_def numeral_2_eq_2 Let_def)
  then have "dr_checkout w' = ''b''"
    using git_sync_aligned [OF lists.git_remote_axioms, of "''https://lists''" "''/lists''" "''master''" git_new None ?w] by force
  then show ?thesis using s by blast
qed

end
