(* ===== verification/Firehol_Import.thy ===== *)
theory Firehol_Import
  imports Firehol_Index
begin

section \<open>Finishing an import\<close>

text \<open>
  Models the last part of \<open>parse_directory_impl\<close> in \<open>src/firehol/parser.rs\<close>, after the workers
  have been joined: registration of the metadata, the visit that registers every rule, and the
  index, on disk or in memory.  The source visits the data set once for the registry and the
  counters together; the model makes two visits because they touch disjoint state.  The lemmas
  follow an import from the batches to the answers of the registry.
\<close>

subsection \<open>Definitions\<close>

fun register_all :: "'db rocks_ops \<Rightarrow> firehol_metadata list \<Rightarrow> 'db registry \<Rightarrow> cache_error + 'db registry" where
  "register_all R [] reg = Inr reg"
| "register_all R (m # ms) reg =
     (case try_register_metadata R m reg of Inl e \<Rightarrow> Inl e | Inr (_, reg') \<Rightarrow> register_all R ms reg')"

definition rule_info_of :: "'db registry \<Rightarrow> firehol_entry \<Rightarrow> firehol_rule_info" where
  "rule_info_of reg e =
     \<lparr>ri_rule_id = fe_rule_id e, ri_metadata_id = fe_metadata_id e,
      ri_category = (case category_for reg (fe_metadata_id e) of Some c \<Rightarrow> c | None \<Rightarrow> Other),
      ri_line = fe_line e\<rparr>"

text \<open>
  The visitor: the registry and the counters per metadata identifier; \<open>None\<close> once the index
  into the counters has been out of bounds (a panic).
\<close>

definition register_entry ::
  "bool \<Rightarrow> firehol_entry \<Rightarrow> ('db registry \<times> nat list) option \<Rightarrow> cache_error + ('db registry \<times> nat list) option" where
  "register_entry cached e s =
     Inr (case s of
            None \<Rightarrow> None
          | Some (reg, counts) \<Rightarrow>
              if cached
              then let i = unat (fe_metadata_id e); reg = register_cached_entry e reg in
                if i < length counts then Some (reg, counts[i := counts ! i + 1]) else None
              else Some (register_rule (rule_info_of reg e) reg, counts))"

definition count_all :: "nat list \<Rightarrow> 'db registry \<Rightarrow> 'db registry" where
  "count_all counts reg =
     fold (\<lambda>(i, count) reg. if count > 0 then count_cached_metadata (of_nat i) count reg else reg)
       (enumerate 0 counts) reg"

definition clear_contributions :: "'db rocks_ops \<Rightarrow> 'db \<Rightarrow> cache_error + 'db" where
  "clear_contributions R db =
     (case db_delete_range R db CONTRIBUTIONS (replicate 26 0) (replicate 26 255) of
        None \<Rightarrow> Inl WriteFailed | Some db' \<Rightarrow> Inr db')"

definition clear_entries :: "'db rocks_ops \<Rightarrow> 'db \<Rightarrow> cache_error + 'db" where
  "clear_entries R db =
     (case db_delete_range R db ENTRIES (replicate 8 0) (replicate 8 255) of
        None \<Rightarrow> Inl WriteFailed | Some db' \<Rightarrow> Inr db')"

text \<open>The writer and the registry share one database.\<close>

definition index_on_disk ::
  "'db rocks_ops \<Rightarrow> 'db registry \<Rightarrow> 'db bulk_writer \<Rightarrow> cache_error + 'db registry" where
  "index_on_disk R reg w =
     (let w = (case rg_cache reg of Some db \<Rightarrow> w\<lparr>bw_db := db\<rparr> | None \<Rightarrow> w) in
      case build_ordered_contexts R reg w of
        Inl e \<Rightarrow> Inl e
      | Inr w \<Rightarrow>
          (case bulk_commit R w of
             Inl e \<Rightarrow> Inl e
           | Inr w \<Rightarrow>
               (case clear_contributions R (bw_db w) of
                  Inl e \<Rightarrow> Inl e | Inr db \<Rightarrow> Inr (reg\<lparr>rg_cache := Some db\<rparr>))))"

definition index_in_memory :: "'db rocks_ops \<Rightarrow> firehol_entry list \<Rightarrow> 'db registry \<Rightarrow> 'db registry" where
  "index_in_memory R entries reg = build_ip_index R entries (build_rule_block_index entries reg)"

definition finish_import ::
  "'db rocks_ops \<Rightarrow> bool \<Rightarrow> 'db import_state \<Rightarrow> join_state \<Rightarrow> nat \<Rightarrow>
   (cache_error, firehol_dataset \<times> 'db registry) outcome" where
  "finish_import R spool st js next_metadata_id =
     (let reg = (case im_writer st of Some w \<Rightarrow> rg_with_cache (bw_db w) | None \<Rightarrow> rg_new) in
      case register_all R (js_metadata js) reg of
        Inl e \<Rightarrow> Err e
      | Inr reg \<Rightarrow>
          (case build_dataset R spool st js of
             Inl e \<Rightarrow> Err e
           | Inr d \<Rightarrow>
               (case visit_entries d (register_entry (im_writer st \<noteq> None)) (Some (reg, replicate next_metadata_id 0)) of
                  Inl e \<Rightarrow> Err e
                | Inr None \<Rightarrow> Fault
                | Inr (Some (reg, counts)) \<Rightarrow>
                    let reg = count_all counts reg in
                    (case im_writer st of
                       Some w \<Rightarrow>
                         (case index_on_disk R reg w of Inl e \<Rightarrow> Err e | Inr reg \<Rightarrow> Ok (d, reg))
                     | None \<Rightarrow> Ok (d, index_in_memory R (ds_entries d) reg)))))"

subsection \<open>What the consumer writes\<close>

fun import_writes :: "bool \<Rightarrow> nat \<Rightarrow> firehol_entry list list \<Rightarrow> (col_family \<times> bytes \<times> bytes) list" where
  "import_writes spool seq [] = []"
| "import_writes spool seq (b # bs) =
     map (\<lambda>(offset, e). contribution (seq + offset) e) (enumerate 0 (number seq b)) @
     (if spool then [(ENTRIES, to_be 8 (of_nat seq :: u64), concat (map encode (number seq b)))] else []) @
     import_writes spool (seq + length b) bs"

lemma fold_put_content:
  "fold put_content ws ct c = ct c ++ map_of (rev (map snd (filter (\<lambda>w. fst w = c) ws)))"
  by (induction ws arbitrary: ct) (auto simp: put_content_def)

lemma writes_other: "c = METADATA \<or> c = RULE_CONTEXT \<Longrightarrow> filter (\<lambda>w. fst w = c) (import_writes spool seq bs) = []"
proof (induction bs arbitrary: seq)
  case (Cons b bs)
  then show ?case by (auto simp: contribution_def filter_empty_conv)
qed simp

lemma enumerate_shift: "map (\<lambda>(i, e). f (seq + i) e) (enumerate 0 es) = map (\<lambda>(i, e). f i e) (enumerate seq es)"
proof -
  have "enumerate (seq + k) es = map (\<lambda>(i, e). (seq + i, e)) (enumerate k es)" for k
    by (induction es arbitrary: k) (simp_all flip: add_Suc_right)
  from this [of 0] show ?thesis by (simp add: case_prod_unfold)
qed

lemma enumerate_append: "enumerate n (xs @ ys) = enumerate n xs @ enumerate (n + length xs) ys"
  by (induction xs arbitrary: n) simp_all

lemma writes_contributions:
  "map snd (filter (\<lambda>w. fst w = CONTRIBUTIONS) (import_writes spool seq bs)) =
   map ckv (enumerate seq (number seq (concat bs)))"
proof (induction bs arbitrary: seq)
  case (Cons b bs)
  have "map (\<lambda>(offset, e). contribution (seq + offset) e) (enumerate 0 (number seq b)) =
      map (\<lambda>x. (CONTRIBUTIONS, ckv x)) (enumerate seq (number seq b))"
    unfolding enumerate_shift [where f = contribution] by (simp add: contribution_ckv case_prod_unfold)
  then show ?case
    using Cons by (simp add: number_append enumerate_append filter_map o_def)
qed simp

lemma writes_entries:
  "map snd (filter (\<lambda>w. fst w = ENTRIES) (import_writes spool seq bs)) = (if spool then spool_blocks seq bs else [])"
proof (induction bs arbitrary: seq)
  case (Cons b bs)
  then show ?case by (auto simp: contribution_def filter_empty_conv filter_map o_def case_prod_unfold)
qed simp

context rocks_db
begin

lemma consume_writes:
  assumes "invar (bw_db w)" "int (seq + length (concat bs)) < 2 ^ 32"
  shows "\<exists>w'. consume_all R spool bs \<lparr>im_sequence = seq, im_writer = Some w, im_entries = es\<rparr> =
      Inr \<lparr>im_sequence = seq + length (concat bs), im_writer = Some w',
        im_entries = es @ (if spool then [] else number seq (concat bs))\<rparr> \<and>
    invar (bw_db w') \<and> bw_batch w' = [] \<and>
    content (bw_db w') = fold put_content (import_writes spool seq bs) (staged w)"
  using assms
proof (induction bs arbitrary: seq w es)
  case Nil
  then show ?case using commit_ok [of w] by auto
next
  case (Cons b bs)
  let ?es = "es @ (if spool then [] else number seq b)"
  obtain w1 where w1: "bulk_entries R (number seq b) seq spool w = Inr w1" "invar (bw_db w1)"
    "staged w1 = fold put_content (map (\<lambda>(offset, e). contribution (seq + offset) e) (enumerate 0 (number seq b)) @
       (if spool then [(ENTRIES, to_be 8 (of_nat seq :: u64), concat (map encode (number seq b)))] else [])) (staged w)"
    using entries_ok [OF Cons.prems(1), of "number seq b" seq spool] by blast
  have "int (seq + length b + length (concat bs)) < 2 ^ 32" using Cons.prems(2) by simp
  from Cons.IH [OF w1(2) this, of ?es] obtain w' where
    "consume_all R spool bs \<lparr>im_sequence = seq + length b, im_writer = Some w1, im_entries = ?es\<rparr> =
      Inr \<lparr>im_sequence = seq + length b + length (concat bs), im_writer = Some w',
        im_entries = ?es @ (if spool then [] else number (seq + length b) (concat bs))\<rparr>"
    "invar (bw_db w')" "bw_batch w' = []"
    "content (bw_db w') = fold put_content (import_writes spool (seq + length b) bs) (staged w1)"
    by blast
  moreover have "assign_ids seq b = Inr (number seq b)"
    using Cons.prems(2) by (simp add: assign_ids_eq)
  ultimately show ?case
    using w1 by (cases spool) (simp_all add: consume_batch_def number_append add.assoc)
qed

end

subsection \<open>Registration\<close>

definition metadata_map :: "firehol_metadata list \<Rightarrow> u32 \<Rightarrow> firehol_metadata option" where
  "metadata_map ms = map_of (rev (map (\<lambda>m. (md_id m, m)) ms))"

definition light_map :: "firehol_metadata list \<Rightarrow> light" where
  "light_map ms i = map_option (\<lambda>m. (md_category m, md_file_name m)) (metadata_map ms i)"

lemma metadata_map_Nil [simp]: "metadata_map [] = Map.empty"
  by (simp add: metadata_map_def)

lemma metadata_map_snoc: "metadata_map (ms @ [m]) = (metadata_map ms)(md_id m \<mapsto> m)"
  by (simp add: metadata_map_def)

lemma metadata_map_dom: "metadata_map ms i \<noteq> None \<longleftrightarrow> i \<in> md_id ` set ms"
  by (induction ms rule: rev_induct) (auto simp: metadata_map_snoc)

lemma light_map_dom: "light_map ms i \<noteq> None \<longleftrightarrow> i \<in> md_id ` set ms"
  using metadata_map_dom [of ms i] by (simp add: light_map_def)

lemma register_all_append:
  "register_all R (ms @ [m]) reg =
   (case register_all R ms reg of
      Inl e \<Rightarrow> Inl e | Inr reg \<Rightarrow> (case try_register_metadata R m reg of Inl e \<Rightarrow> Inl e | Inr (_, reg') \<Rightarrow> Inr reg'))"
  by (induction ms arbitrary: reg) (auto split: sum.splits)

lemma register_memory:
  assumes "rg_cache reg = None" "rg_metadata_by_id reg = []"
  shows "\<exists>L. register_all R ms reg = Inr (reg\<lparr>rg_metadata_by_id := L\<rparr>) \<and> map_of L = metadata_map ms"
proof (induction ms rule: rev_induct)
  case Nil
  then show ?case using assms by (intro exI [of _ "[]"]) simp
next
  case (snoc m ms)
  then obtain L where "register_all R ms reg = Inr (reg\<lparr>rg_metadata_by_id := L\<rparr>)" "map_of L = metadata_map ms" by blast
  then show ?case
    using assms(1) by (auto simp: register_all_append try_register_metadata_def Let_def metadata_map_snoc update_conv')
qed

context rocks_db
begin

definition metadata_stored :: "'db \<Rightarrow> firehol_metadata list \<Rightarrow> bool" where
  "metadata_stored db ms \<longleftrightarrow>
     (\<forall>i. case metadata_map ms i of
        None \<Rightarrow> content db METADATA (metadata_key i) = None
      | Some m \<Rightarrow> \<exists>b. content db METADATA (metadata_key i) = Some b \<and> de_metadata R b = Some m)"

lemma metadata_key_inject: "metadata_key i = metadata_key j \<longleftrightarrow> i = j"
proof
  assume "metadata_key i = metadata_key j"
  then have "from_be (metadata_key i) = (from_be (metadata_key j) :: u32)" by simp
  then show "i = j" by (simp add: metadata_key_def from_be_to_be take_bit_word_eq_self)
qed simp

lemma resolve_stored:
  assumes "invar db" "rg_cache reg = Some db" "metadata_stored db ms"
  shows "resolve_metadata R reg i = metadata_map ms i"
  using assms(3) [unfolded metadata_stored_def, rule_format, of i]
  by (auto simp: resolve_metadata_def assms(2) get_metadata_def get_ok [OF assms(1)] split: option.splits)

lemma put_metadata_ok:
  assumes "invar db" "metadata_stored db ms"
  shows "\<exists>db'. put_metadata R m db = Inr db' \<and> invar db' \<and> metadata_stored db' (ms @ [m]) \<and>
    (\<forall>c. c \<noteq> METADATA \<longrightarrow> content db' c = content db c)"
proof -
  obtain b where b: "ser_metadata R m = Some b" "de_metadata R b = Some m" using codec_metadata by blast
  obtain db' where db': "db_write R db [(METADATA, metadata_key (md_id m), b)] = Some db'" "invar db'"
    "content db' = put_content (METADATA, metadata_key (md_id m), b) (content db)"
    using write_ok [OF assms(1), of "[(METADATA, metadata_key (md_id m), b)]"] by auto
  have "metadata_stored db' (ms @ [m])"
    unfolding metadata_stored_def
  proof
    fix i
    show "case metadata_map (ms @ [m]) i of
        None \<Rightarrow> content db' METADATA (metadata_key i) = None
      | Some m \<Rightarrow> \<exists>b. content db' METADATA (metadata_key i) = Some b \<and> de_metadata R b = Some m"
      using assms(2) [unfolded metadata_stored_def, rule_format, of i] b(2)
      by (cases "i = md_id m") (auto simp: metadata_map_snoc db'(3) put_content_def metadata_key_inject split: option.splits)
  qed
  then show ?thesis using b db' by (auto simp: put_metadata_def put_content_def)
qed

lemma register_disk:
  assumes "rg_cache reg = Some db" "invar db" "content db METADATA = Map.empty" "rg_metadata_light reg = []"
  shows "\<exists>db' L. register_all R ms reg = Inr (reg\<lparr>rg_cache := Some db', rg_metadata_light := L\<rparr>) \<and>
    invar db' \<and> map_of L = light_map ms \<and> metadata_stored db' ms \<and>
    (\<forall>c. c \<noteq> METADATA \<longrightarrow> content db' c = content db c)"
proof (induction ms rule: rev_induct)
  case Nil
  then show ?case using assms
    by (intro exI [of _ db] exI [of _ "[]"]) (auto simp: metadata_stored_def light_map_def fun_eq_iff)
next
  case (snoc m ms)
  then obtain db1 L where 1: "register_all R ms reg = Inr (reg\<lparr>rg_cache := Some db1, rg_metadata_light := L\<rparr>)"
    "invar db1" "map_of L = light_map ms" "metadata_stored db1 ms" "\<forall>c. c \<noteq> METADATA \<longrightarrow> content db1 c = content db c"
    by blast
  from put_metadata_ok [OF 1(2,4), of m] obtain db' where db': "put_metadata R m db1 = Inr db'" "invar db'"
    "metadata_stored db' (ms @ [m])" "\<forall>c. c \<noteq> METADATA \<longrightarrow> content db' c = content db1 c" by blast
  have "map_of (AList.update (md_id m) (md_category m, md_file_name m) L) = light_map (ms @ [m])"
    using 1(3) by (auto simp: update_conv' light_map_def metadata_map_snoc fun_eq_iff)
  then show ?case
    using 1 db' by (intro exI [of _ db'] exI) (auto simp: register_all_append try_register_metadata_def Let_def)
qed

end

subsection \<open>Rules\<close>

definition vec_put :: "'a \<Rightarrow> nat \<Rightarrow> 'a \<Rightarrow> 'a list \<Rightarrow> 'a list" where
  "vec_put d i x xs = (grow d i xs)[i := x]"

lemma nth_opt_vec_put:
  "nth_opt (vec_put d i x xs) i = Some x"
  "j \<noteq> i \<Longrightarrow> nth_opt xs j = Some y \<Longrightarrow> nth_opt (vec_put d i x xs) j = Some y"
  by (auto simp: vec_put_def grow_def nth_opt_def nth_append split: if_splits)

lemma fold_vec_put:
  assumes "distinct (map f es)" "e \<in> set es"
  shows "nth_opt (fold (\<lambda>e. vec_put d (f e) (g e)) es xs) (f e) = Some (g e)"
  using assms
proof (induction es rule: rev_induct)
  case (snoc x es)
  show ?case
  proof (cases "e \<in> set es")
    case True
    have "f e \<noteq> f x" using snoc.prems(1) imageI [OF True, of f] by auto
    then show ?thesis using snoc True by (simp add: nth_opt_vec_put(2))
  next
    case False
    then show ?thesis using snoc.prems(2) by (simp add: nth_opt_vec_put(1))
  qed
qed simp

lemma visit_cached:
  assumes "\<forall>e \<in> set es. unat (fe_metadata_id e) < length counts"
  shows "\<exists>counts'. visit_each (register_entry True) es (Some (reg, counts)) =
      Inr (Some (fold register_cached_entry es reg, counts'))"
  using assms
proof (induction es arbitrary: reg counts)
  case (Cons e es)
  then show ?case by (simp add: register_entry_def Let_def)
qed simp

lemma visit_memory:
  "visit_each (register_entry False) es (Some (reg, counts)) =
     Inr (Some (fold (\<lambda>e reg. register_rule (rule_info_of reg e) reg) es reg, counts))"
  by (induction es arbitrary: reg) (simp_all add: register_entry_def)

lemma fold_cached:
  "fold register_cached_entry es reg =
   reg\<lparr>rg_rules_cache := fold (\<lambda>e. vec_put (0, 0) (unat (fe_rule_id e)) (fe_metadata_id e, fe_line e)) es (rg_rules_cache reg),
       rg_rule_count := rg_rule_count reg + length es\<rparr>"
  by (induction es arbitrary: reg) (simp_all add: register_cached_entry_def Let_def vec_put_def)

definition rule_slot :: "light \<Rightarrow> firehol_entry \<Rightarrow> rule_block_entry" where
  "rule_slot light e =
     \<lparr>be_metadata_id = fe_metadata_id e,
      be_category = (case light (fe_metadata_id e) of Some (c, f) \<Rightarrow> c | None \<Rightarrow> Other),
      be_line = fe_line e, be_block = None\<rparr>"

lemma register_rule_memory:
  assumes "rg_cache reg = None"
  shows "\<exists>cc bc. register_rule (rule_info_of reg e) reg =
    reg\<lparr>rg_rules := vec_put empty_block_entry (unat (fe_rule_id e)) (rule_slot (light_of reg) e) (rg_rules reg),
        rg_rule_count := rg_rule_count reg + 1, rg_category_counts := cc, rg_blocklist_counts := bc\<rparr>"
proof -
  have "(case category_for reg i of Some c \<Rightarrow> c | None \<Rightarrow> Other) =
      (case light_of reg i of Some (c, f) \<Rightarrow> c | None \<Rightarrow> Other)" for i
    using assms by (auto simp: category_for_def light_of_def split: option.splits)
  then have "ri_category (rule_info_of reg e) = be_category (rule_slot (light_of reg) e)"
    by (simp add: rule_info_of_def rule_slot_def)
  moreover have "ri_rule_id (rule_info_of reg e) = fe_rule_id e" "ri_metadata_id (rule_info_of reg e) = fe_metadata_id e"
    "ri_line (rule_info_of reg e) = fe_line e" by (simp_all add: rule_info_of_def)
  ultimately show ?thesis
    using assms
    by (intro exI [of _ "bump (be_category (rule_slot (light_of reg) e)) 1 (rg_category_counts reg)"]
        exI [of _ "case file_name_for reg (fe_metadata_id e) of
          Some name \<Rightarrow> bump name 1 (rg_blocklist_counts reg) | None \<Rightarrow> rg_blocklist_counts reg"])
      (simp add: register_rule_def ensure_capacity_def Let_def vec_put_def rule_slot_def split: option.split)
qed

lemma fold_memory:
  assumes "rg_cache reg = None"
  shows "\<exists>cc bc. fold (\<lambda>e reg. register_rule (rule_info_of reg e) reg) es reg =
    reg\<lparr>rg_rules := fold (\<lambda>e. vec_put empty_block_entry (unat (fe_rule_id e)) (rule_slot (light_of reg) e)) es (rg_rules reg),
        rg_rule_count := rg_rule_count reg + length es, rg_category_counts := cc, rg_blocklist_counts := bc\<rparr>"
  using assms
proof (induction es arbitrary: reg)
  case Nil
  show ?case
    by (intro exI [of _ "rg_category_counts reg"] exI [of _ "rg_blocklist_counts reg"]) simp
next
  case (Cons e es)
  obtain cc bc where r: "register_rule (rule_info_of reg e) reg =
    reg\<lparr>rg_rules := vec_put empty_block_entry (unat (fe_rule_id e)) (rule_slot (light_of reg) e) (rg_rules reg),
        rg_rule_count := rg_rule_count reg + 1, rg_category_counts := cc, rg_blocklist_counts := bc\<rparr>" (is "_ = ?r")
    using register_rule_memory [OF Cons.prems] by blast
  have "light_of ?r = light_of reg" by (rule ext) (simp add: light_of_def)
  then show ?case using Cons.IH [of ?r] Cons.prems by (simp add: r)
qed

lemma count_all_fields:
  "\<exists>cc bc. count_all counts reg = reg\<lparr>rg_category_counts := cc, rg_blocklist_counts := bc\<rparr>"
proof -
  have "\<exists>cc bc. fold (\<lambda>(i, count) reg. if count > 0 then count_cached_metadata (of_nat i) count reg else reg) xs reg =
      reg\<lparr>rg_category_counts := cc, rg_blocklist_counts := bc\<rparr>" for xs :: "(nat \<times> nat) list"
  proof (induction xs rule: rev_induct)
    case Nil
    then show ?case
      by (intro exI [of _ "rg_category_counts reg"] exI [of _ "rg_blocklist_counts reg"]) simp
  next
    case (snoc x xs)
    then obtain cc bc where r: "fold (\<lambda>(i, count) reg. if count > 0 then count_cached_metadata (of_nat i) count reg else reg) xs reg =
      reg\<lparr>rg_category_counts := cc, rg_blocklist_counts := bc\<rparr>" by blast
    show ?case
      by (cases x) (auto simp: r count_cached_metadata_def split: option.splits)
  qed
  then show ?thesis by (simp add: count_all_def)
qed

text \<open>The block index only fills in the blocks.\<close>

definition no_block :: "rule_block_entry \<Rightarrow> rule_block_entry" where
  "no_block e = e\<lparr>be_block := None\<rparr>"

lemma set_block_no_block: "map no_block (set_block c rid rules) = map no_block rules"
  by (auto simp: set_block_def nth_opt_def no_block_def list_eq_iff_nth_eq nth_list_update)

lemma fold_set_block: "map no_block (fold (set_block c) rids rules) = map no_block rules"
  by (induction rids arbitrary: rules) (simp_all add: set_block_no_block)

lemma block_index_fields:
  "\<exists>rules. build_rule_block_index es reg = reg\<lparr>rg_rules := rules\<rparr> \<and> map no_block rules = map no_block (rg_rules reg)"
proof (cases "rg_cache reg = None")
  case True
  define f where "f = (\<lambda>(t :: firehol_ip_target, rule_ids) reg :: 'a registry.
      if length rule_ids \<le> 1 then reg
      else let context = fold (add_rule_source reg) rule_ids context_default in
        reg\<lparr>rg_rules := fold (set_block context) rule_ids (rg_rules reg)\<rparr>)"
  have "\<exists>rules. fold f xs reg = reg\<lparr>rg_rules := rules\<rparr> \<and> map no_block rules = map no_block (rg_rules reg)" for xs
  proof (induction xs rule: rev_induct)
    case Nil
    then show ?case by (intro exI [of _ "rg_rules reg"]) simp
  next
    case (snoc x xs)
    then obtain rules where r: "fold f xs reg = reg\<lparr>rg_rules := rules\<rparr>" "map no_block rules = map no_block (rg_rules reg)" by blast
    have "fold f (xs @ [x]) reg = f x (reg\<lparr>rg_rules := rules\<rparr>)" using r(1) by simp
    moreover have "\<exists>rules'. f x (reg\<lparr>rg_rules := rules\<rparr>) = reg\<lparr>rg_rules := rules'\<rparr> \<and> map no_block rules' = map no_block rules"
      by (cases x) (auto simp: f_def Let_def fold_set_block)
    ultimately show ?case using r(2) by simp
  qed
  moreover have "build_rule_block_index es reg =
      fold f (fold (\<lambda>e. group_push (fe_target e) (fe_rule_id e)) es []) reg"
    using True by (simp add: build_rule_block_index_def f_def)
  ultimately show ?thesis by simp
next
  case False
  then show ?thesis by (intro exI [of _ "rg_rules reg"]) (simp add: build_rule_block_index_def)
qed

lemma nth_opt_no_block:
  assumes "map no_block rules = map no_block rules'" "nth_opt rules' i = Some e"
  shows "\<exists>b. nth_opt rules i = Some (e\<lparr>be_block := b\<rparr>)"
proof -
  have "i < length rules" "no_block (rules ! i) = no_block e"
    using assms map_eq_imp_length_eq [OF assms(1)] by (auto simp: nth_opt_def split: if_splits) (metis nth_map)
  then show ?thesis
    by (cases e; cases "rules ! i") (auto simp: nth_opt_def no_block_def)
qed

subsection \<open>The whole import\<close>

lemma context_of_number: "context_of light (number k es) t = context_of light es t"
proof -
  have "add_source light (e\<lparr>fe_rule_id := i\<rparr>) = add_source light e" for e i
    by (intro ext) (simp add: add_source_def split: option.split)
  then have "fold (add_source light) (filter (\<lambda>e. fe_target e = t) (number k es)) ctx =
      fold (add_source light) (filter (\<lambda>e. fe_target e = t) es) ctx" for ctx
    by (induction es arbitrary: k ctx) simp_all
  then show ?thesis by (simp add: context_of_def)
qed

lemma indexed_number: "indexed light (number k es) = indexed light es"
  by (induction es rule: rev_induct) (simp_all add: number_append)

lemma number_set:
  assumes "e \<in> set (number k es)"
  shows "\<exists>e' i. e' \<in> set es \<and> k < i \<and> i \<le> k + length es \<and> e = e'\<lparr>fe_rule_id := of_nat i\<rparr>"
  using assms
proof (induction es arbitrary: k)
  case (Cons x es)
  show ?case
  proof (cases "e = x\<lparr>fe_rule_id := of_nat (k + 1)\<rparr>")
    case False
    then obtain e' i where "e' \<in> set es" "Suc k < i" "i \<le> Suc k + length es" "e = e'\<lparr>fe_rule_id := of_nat i\<rparr>"
      using Cons.IH [of "Suc k"] Cons.prems by auto
    then show ?thesis by (intro exI [of _ e'] exI [of _ i]) auto
  qed (intro exI [of _ x] exI [of _ "k + 1"], auto)
qed simp

lemma distinct_number:
  assumes "k + length es < 2 ^ 32"
  shows "distinct (map (\<lambda>e. unat (fe_rule_id e)) (number k es))"
proof -
  have "map (\<lambda>e. unat (fe_rule_id e)) (number k es) = [k + 1..<k + 1 + length es]"
    using assms
  proof (induction es arbitrary: k)
    case (Cons e es)
    have "unat (of_nat (k + 1) :: u32) = k + 1" using Cons.prems by (intro unat_of_nat_u32) simp
    then show ?case using Cons.IH [of "Suc k"] Cons.prems by (simp add: upt_conv_Cons del: upt_Suc)
  qed simp
  then show ?thesis by simp
qed

text \<open>Conditions on an import that hold for everything the workers produce.\<close>

definition import_ok :: "firehol_metadata list \<Rightarrow> nat \<Rightarrow> firehol_entry list list \<Rightarrow> bool" where
  "import_ok ms next_id batches \<longleftrightarrow>
     int (length (concat batches)) < 2 ^ 32 \<and> [] \<notin> set batches \<and>
     (\<forall>e \<in> set (concat batches). wf_target (fe_target e) \<and> canonical_target (fe_target e) \<and>
        fe_metadata_id e \<in> md_id ` set ms \<and> unat (fe_metadata_id e) < next_id \<and> fe_metadata_id e \<noteq> 0)"

text \<open>The data set of either mode is visited like the numbered entries.\<close>

lemma dataset_memory:
  assumes "int (length (concat bs)) < 2 ^ 32"
  shows "\<exists>d. consume_all R spool bs \<lparr>im_sequence = 0, im_writer = None, im_entries = []\<rparr> =
      Inr \<lparr>im_sequence = length (concat bs), im_writer = None, im_entries = number 0 (concat bs)\<rparr> \<and>
    build_dataset R spool \<lparr>im_sequence = length (concat bs), im_writer = None, im_entries = number 0 (concat bs)\<rparr> js = Inr d \<and>
    ds_stored_entries d = None \<and> ds_entries d = number 0 (concat bs)"
proof -
  obtain i j k l where "count_kinds (number 0 (concat bs)) = (i, j, k, l)" by (metis prod_cases4)
  then show ?thesis using assms
    by (cases spool) (simp_all add: consume_memory build_dataset_def visit_entries_def visit_count del: concat_eq_Nil_conv)
qed

context rocks_db
begin

lemma dataset_disk:
  assumes "invar db" "\<forall>c. content db c = Map.empty" "import_ok ms next_id bs"
  shows "\<exists>st w d. consume_all R spool bs \<lparr>im_sequence = 0, im_writer = Some (bulk_new db limit), im_entries = []\<rparr> = Inr st \<and>
    im_writer st = Some w \<and> invar (bw_db w) \<and> bw_batch w = [] \<and>
    content (bw_db w) CONTRIBUTIONS = map_of (map ckv (enumerate 0 (number 0 (concat bs)))) \<and>
    content (bw_db w) METADATA = Map.empty \<and> content (bw_db w) RULE_CONTEXT = Map.empty \<and>
    build_dataset R spool st js = Inr d \<and>
    (\<forall>f s. visit_entries d f (s :: 's) = visit_each f (number 0 (concat bs)) s)"
proof -
  let ?es = "number 0 (concat bs)"
  note ok = assms(3) [unfolded import_ok_def]
  have n: "length (concat bs) < 2 ^ 32" using ok int_less_u32 by blast
  then have n64: "length (concat bs) < 2 ^ 64" by simp
  have inv: "invar (bw_db (bulk_new db limit))" using assms(1) by (simp add: bulk_new_def)
  have staged: "staged (bulk_new db limit) c = Map.empty" for c
    using assms(2) by (simp add: staged_def bulk_new_def)
  obtain w where w: "consume_all R spool bs \<lparr>im_sequence = 0, im_writer = Some (bulk_new db limit), im_entries = []\<rparr> =
      Inr \<lparr>im_sequence = length (concat bs), im_writer = Some w, im_entries = if spool then [] else ?es\<rparr>"
    "invar (bw_db w)" "bw_batch w = []"
    "content (bw_db w) = fold put_content (import_writes spool 0 bs) (staged (bulk_new db limit))"
    using consume_writes [OF inv, of 0 bs spool "[]"] ok by auto
  have c: "content (bw_db w) CONTRIBUTIONS = map_of (map ckv (enumerate 0 ?es))"
  proof -
    have "distinct (map fst (map ckv (enumerate 0 ?es)))"
      using distinct_ckeys [of ?es] n64 by (simp add: ckv_def o_def)
    then show ?thesis by (simp add: w(4) fold_put_content writes_contributions staged map_of_rev)
  qed
  have m: "content (bw_db w) METADATA = Map.empty" "content (bw_db w) RULE_CONTEXT = Map.empty"
    by (simp_all add: w(4) fold_put_content writes_other staged)
  obtain i j k l where k: "count_kinds ?es = (i, j, k, l)" by (metis prod_cases4)
  let ?st = "\<lparr>im_sequence = length (concat bs), im_writer = Some w, im_entries = if spool then [] else ?es\<rparr>"
  have "\<exists>d. build_dataset R spool ?st js = Inr d \<and> (\<forall>f s. visit_entries d f (s :: 's) = visit_each f ?es s)"
  proof (cases spool)
    case True
    have "content (bw_db w) ENTRIES = map_of (rev (spool_blocks 0 bs))"
      by (simp add: w(4) fold_put_content writes_entries staged True)
    then have vals: "spool_values R (bw_db w) = (map snd (spool_blocks 0 bs), True)"
      using ok n64 by (intro spool_scan [OF w(2)]) auto
    note visit = visit_spool [of bs _ 0]
    show ?thesis
      using ok by (simp add: True build_dataset_def vals visit_entries_def visit visit_count k)
  next
    case False
    then show ?thesis by (simp add: build_dataset_def visit_entries_def visit_count k)
  qed
  then show ?thesis using w c m by (intro exI [of _ ?st] exI [of _ w]) auto
qed

lemma clear_ok:
  assumes "invar db" "content db CONTRIBUTIONS = map_of (map ckv xs)"
  shows "\<exists>db'. clear_contributions R db = Inr db' \<and> invar db' \<and> content db' CONTRIBUTIONS = Map.empty \<and>
    (\<forall>c. c \<noteq> CONTRIBUTIONS \<longrightarrow> content db' c = content db c)"
proof -
  obtain db' where db': "db_delete_range R db CONTRIBUTIONS (replicate 26 0) (replicate 26 255) = Some db'" "invar db'"
    "content db' = (content db)(CONTRIBUTIONS := (\<lambda>k. if replicate 26 0 \<le> k \<and> k < replicate 26 255 then None
       else content db CONTRIBUTIONS k))"
    using delete_range_ok [OF assms(1)] by blast
  have rep: "replicate 26 (b :: u8) = b # replicate 25 b" for b using replicate_Suc [of 25 b] by simp
  have "replicate 26 0 \<le> ckey x \<and> ckey x < replicate 26 255" for x
    unfolding rep by (cases "fe_target (snd x)")
      (auto simp: ckey_def ctx_key_v4_exact_def ctx_key_v4_lpm_def ctx_key_v6_exact_def ctx_key_v6_lpm_def)
  moreover have "k \<in> ckey ` set xs" if "content db CONTRIBUTIONS k \<noteq> None" for k
    using that assms(2) by (auto simp: ckv_def map_of_eq_None_iff image_iff domIff split: option.splits dest!: map_of_SomeD)
  ultimately have "content db CONTRIBUTIONS k = None" if "\<not> (replicate 26 0 \<le> k \<and> k < replicate 26 255)" for k
    using that by blast
  then have "content db' CONTRIBUTIONS = Map.empty"
    using db'(3) by (auto simp: fun_eq_iff)
  then show ?thesis using db' by (auto simp: clear_contributions_def)
qed

end

lemma import_entry:
  assumes "import_ok ms next_id bs" "e \<in> set (number 0 (concat bs))"
  shows "wf_target (fe_target e)" "canonical_target (fe_target e)" "unat (fe_metadata_id e) < next_id"
    "light_map ms (fe_metadata_id e) \<noteq> None" "fe_metadata_id e \<noteq> 0"
proof -
  obtain e' i where e': "e' \<in> set (concat bs)" "e = e'\<lparr>fe_rule_id := i\<rparr>"
    using number_set [OF assms(2)] by blast
  have "wf_target (fe_target e') \<and> canonical_target (fe_target e') \<and>
        fe_metadata_id e' \<in> md_id ` set ms \<and> unat (fe_metadata_id e') < next_id \<and> fe_metadata_id e' \<noteq> 0"
    using assms(1) e'(1) unfolding import_ok_def by blast
  with light_map_dom [of ms "fe_metadata_id e'"] e'(2) show "wf_target (fe_target e)" "canonical_target (fe_target e)"
    "unat (fe_metadata_id e) < next_id" "light_map ms (fe_metadata_id e) \<noteq> None" "fe_metadata_id e \<noteq> 0"
    by simp_all
qed

lemma import_targets:
  assumes "import_ok ms next_id bs"
  shows "fe_target ` set (number 0 (concat bs)) = indexed (light_map ms) (concat bs)"
proof -
  have "fe_target ` set (number 0 (concat bs)) = indexed (light_map ms) (number 0 (concat bs))"
    using import_entry(4) [OF assms] by (auto simp: indexed_def)
  then show ?thesis by (simp only: indexed_number)
qed

lemma found_number: "found light (number k es) ip = found light es ip"
proof -
  have "context_of light (number k es) = context_of light es" by (rule ext) (rule context_of_number)
  then show ?thesis by (simp only: found_def indexed_number)
qed

context rocks_db
begin

lemma index_disk_ok:
  assumes "rg_cache reg = Some db" "invar db" "bw_batch w = []" "length es < 2 ^ 64"
    and "content db CONTRIBUTIONS = map_of (map ckv (enumerate 0 es))" "content db RULE_CONTEXT = Map.empty"
    and "\<forall>e \<in> set es. wf_target (fe_target e) \<and> map_of (rg_metadata_light reg) (fe_metadata_id e) \<noteq> None"
  shows "\<exists>db'. index_on_disk R reg w = Inr (reg\<lparr>rg_cache := Some db'\<rparr>) \<and> invar db' \<and>
    (\<forall>t \<in> fe_target ` set es. stored (content db' RULE_CONTEXT (context_key t))
       (context_of (map_of (rg_metadata_light reg)) es t)) \<and>
    (\<forall>k. k \<notin> context_key ` fe_target ` set es \<longrightarrow> content db' RULE_CONTEXT k = None) \<and>
    content db' CONTRIBUTIONS = Map.empty \<and> content db' METADATA = content db METADATA"
proof -
  let ?w = "w\<lparr>bw_db := db\<rparr>"
  have st: "staged ?w = content db" using assms(3) by (simp add: staged_def)
  obtain w1 where w1: "build_ordered_contexts R reg ?w = Inr w1" "invar (bw_db w1)"
    "\<forall>t \<in> fe_target ` set es. stored (staged w1 RULE_CONTEXT (context_key t))
       (context_of (map_of (rg_metadata_light reg)) es t)"
    "\<forall>k. k \<notin> context_key ` fe_target ` set es \<longrightarrow> staged w1 RULE_CONTEXT k = None"
    "\<forall>c. c \<noteq> RULE_CONTEXT \<longrightarrow> staged w1 c = content db c"
    using build_ordered_ok [of ?w es reg] assms st by auto
  obtain w2 where w2: "bulk_commit R w1 = Inr w2" "invar (bw_db w2)" "content (bw_db w2) = staged w1"
    using commit_ok [OF w1(2)] by blast
  have "content (bw_db w2) CONTRIBUTIONS = map_of (map ckv (enumerate 0 es))"
    using w1(5) w2(3) assms(5) by simp
  from clear_ok [OF w2(2) this] obtain db' where db': "clear_contributions R (bw_db w2) = Inr db'" "invar db'"
    "content db' CONTRIBUTIONS = Map.empty" "\<forall>c. c \<noteq> CONTRIBUTIONS \<longrightarrow> content db' c = content (bw_db w2) c" by blast
  have "index_on_disk R reg w = Inr (reg\<lparr>rg_cache := Some db'\<rparr>)"
    by (simp add: index_on_disk_def assms(1) w1(1) w2(1) db'(1))
  then show ?thesis using db' w1(3-5) w2(3) by (intro exI [of _ db']) simp
qed

lemma disk_import:
  assumes "invar db" "\<forall>c. content db c = Map.empty" "import_ok (js_metadata js) next_id bs"
  shows "\<exists>st d reg db'.
    consume_all R spool bs \<lparr>im_sequence = 0, im_writer = Some (bulk_new db limit), im_entries = []\<rparr> = Inr st \<and>
    finish_import R spool st js next_id = Ok (d, reg) \<and> rg_cache reg = Some db' \<and> invar db' \<and>
    (\<forall>t \<in> indexed (light_map (js_metadata js)) (concat bs).
       stored (content db' RULE_CONTEXT (context_key t)) (context_of (light_map (js_metadata js)) (concat bs) t)) \<and>
    (\<forall>k. k \<notin> context_key ` indexed (light_map (js_metadata js)) (concat bs) \<longrightarrow> content db' RULE_CONTEXT k = None) \<and>
    content db' CONTRIBUTIONS = Map.empty \<and> metadata_stored db' (js_metadata js) \<and>
    map_of (rg_metadata_light reg) = light_map (js_metadata js) \<and> rg_rule_count reg = length (concat bs) \<and>
    (\<forall>e \<in> set (number 0 (concat bs)). nth_opt (rg_rules_cache reg) (unat (fe_rule_id e)) = Some (fe_metadata_id e, fe_line e))"
proof -
  let ?ms = "js_metadata js" and ?es = "number 0 (concat bs)"
  let ?L = "light_map ?ms"
  note ok = assms(3) [unfolded import_ok_def]
  have n: "length (concat bs) < 2 ^ 32" using ok int_less_u32 by blast
  obtain st w d where st: "consume_all R spool bs \<lparr>im_sequence = 0, im_writer = Some (bulk_new db limit), im_entries = []\<rparr> = Inr st"
    "im_writer st = Some w" "invar (bw_db w)" "bw_batch w = []"
    "content (bw_db w) CONTRIBUTIONS = map_of (map ckv (enumerate 0 ?es))"
    "content (bw_db w) METADATA = Map.empty" "content (bw_db w) RULE_CONTEXT = Map.empty"
    "build_dataset R spool st js = Inr d"
    "\<And>f (s :: ('db registry \<times> nat list) option). visit_entries d f s = visit_each f ?es s"
    using dataset_disk [OF assms] by blast
  obtain db1 M where m: "register_all R ?ms (rg_with_cache (bw_db w)) =
      Inr (rg_with_cache (bw_db w)\<lparr>rg_cache := Some db1, rg_metadata_light := M\<rparr>)" "invar db1" "map_of M = ?L"
    "metadata_stored db1 ?ms" "\<forall>c. c \<noteq> METADATA \<longrightarrow> content db1 c = content (bw_db w) c"
    using register_disk [of "rg_with_cache (bw_db w)" "bw_db w" ?ms] st(3,6) by (auto simp: rg_with_cache_def rg_new_def)
  let ?r1 = "rg_with_cache (bw_db w)\<lparr>rg_cache := Some db1, rg_metadata_light := M\<rparr>"
  note ent = import_entry [OF assms(3)]
  then obtain counts where v: "visit_each (register_entry True) ?es (Some (?r1, replicate next_id 0)) =
      Inr (Some (fold register_cached_entry ?es ?r1, counts))"
    using visit_cached [of ?es "replicate next_id 0" ?r1] by (metis length_replicate)
  obtain cc bc where c: "count_all counts (fold register_cached_entry ?es ?r1) =
      (fold register_cached_entry ?es ?r1)\<lparr>rg_category_counts := cc, rg_blocklist_counts := bc\<rparr>"
    using count_all_fields by blast
  let ?r2 = "(fold register_cached_entry ?es ?r1)\<lparr>rg_category_counts := cc, rg_blocklist_counts := bc\<rparr>"
  have r2: "rg_cache ?r2 = Some db1" "rg_metadata_light ?r2 = M" by (simp_all add: fold_cached)
  have "length ?es < 2 ^ 64" using n by simp
  from index_disk_ok [OF r2(1) m(2) st(4) this] obtain db' where db': "index_on_disk R ?r2 w = Inr (?r2\<lparr>rg_cache := Some db'\<rparr>)" "invar db'"
    "\<forall>t \<in> fe_target ` set ?es. stored (content db' RULE_CONTEXT (context_key t)) (context_of ?L ?es t)"
    "\<forall>k. k \<notin> context_key ` fe_target ` set ?es \<longrightarrow> content db' RULE_CONTEXT k = None"
    "content db' CONTRIBUTIONS = Map.empty" "content db' METADATA = content db1 METADATA"
    using m(3,5) st(5,7) ent r2(2) by auto
  have idx: "fe_target ` set ?es = indexed ?L (concat bs)"
    by (rule import_targets [OF assms(3)])
  have ctx: "context_of ?L ?es = context_of ?L (concat bs)" by (rule ext) (rule context_of_number)
  have fin: "finish_import R spool st js next_id = Ok (d, ?r2\<lparr>rg_cache := Some db'\<rparr>)"
    by (simp add: finish_import_def st(2,8,9) m(1) v c db'(1))
  have "metadata_stored db' ?ms" using m(4) unfolding metadata_stored_def db'(6) .
  moreover have "\<forall>e \<in> set ?es. nth_opt (rg_rules_cache ?r2) (unat (fe_rule_id e)) = Some (fe_metadata_id e, fe_line e)"
    using distinct_number [of 0 "concat bs"] n
    by (auto simp: fold_cached intro!: fold_vec_put [where f = "\<lambda>e. unat (fe_rule_id e)" and g = "\<lambda>e. (fe_metadata_id e, fe_line e)"])
  moreover have "rg_rule_count ?r2 = length (concat bs)" by (simp add: fold_cached rg_with_cache_def rg_new_def)
  ultimately show ?thesis
    using st(1) fin db' r2 m(3) unfolding idx ctx by (intro exI [of _ st] exI [of _ d] exI [of _ "?r2\<lparr>rg_cache := Some db'\<rparr>"] exI [of _ db']) simp
qed

end

lemma memory_import:
  assumes "import_ok (js_metadata js) next_id bs"
  shows "\<exists>st d reg reg0.
    consume_all R spool bs \<lparr>im_sequence = 0, im_writer = None, im_entries = []\<rparr> = Inr st \<and>
    finish_import R spool st js next_id = Ok (d, reg) \<and> rg_cache reg = None \<and>
    reg = build_ip_index R (number 0 (concat bs)) reg0 \<and> rg_cache reg0 = None \<and>
    light_of reg0 = light_map (js_metadata js) \<and> map_of (rg_metadata_by_id reg) = metadata_map (js_metadata js) \<and>
    rg_rule_count reg = length (concat bs) \<and>
    (\<forall>e \<in> set (number 0 (concat bs)). \<exists>b. nth_opt (rg_rules reg) (unat (fe_rule_id e)) =
       Some ((rule_slot (light_map (js_metadata js)) e)\<lparr>be_block := b\<rparr>))"
proof -
  let ?ms = "js_metadata js" and ?es = "number 0 (concat bs)"
  let ?L = "light_map ?ms"
  note ok = assms [unfolded import_ok_def]
  have n: "length (concat bs) < 2 ^ 32" using ok int_less_u32 by blast
  let ?st = "\<lparr>im_sequence = length (concat bs), im_writer = None, im_entries = ?es\<rparr> :: 'a import_state"
  obtain d where d: "consume_all R spool bs \<lparr>im_sequence = 0, im_writer = None, im_entries = []\<rparr> = Inr ?st"
    "build_dataset R spool ?st js = Inr d" "ds_stored_entries d = None" "ds_entries d = ?es"
    using dataset_memory [of bs R spool js] ok by blast
  obtain M where m: "register_all R ?ms rg_new = Inr (rg_new\<lparr>rg_metadata_by_id := M\<rparr>)" "map_of M = metadata_map ?ms"
    using register_memory [of rg_new R ?ms] by (auto simp: rg_new_def)
  let ?r1 = "rg_new\<lparr>rg_metadata_by_id := M\<rparr> :: 'a registry"
  have c1: "rg_cache ?r1 = None" by (simp add: rg_new_def)
  have L: "light_of ?r1 = ?L" by (rule ext) (simp add: light_of_def light_map_def m(2))
  have "visit_entries d (register_entry False) (Some (?r1, replicate next_id 0)) =
      Inr (Some (fold (\<lambda>e reg. register_rule (rule_info_of reg e) reg) ?es ?r1, replicate next_id 0))"
    by (simp add: visit_entries_def d(3,4) visit_memory)
  moreover obtain cc bc where f: "fold (\<lambda>e reg. register_rule (rule_info_of reg e) reg) ?es ?r1 =
    ?r1\<lparr>rg_rules := fold (\<lambda>e. vec_put empty_block_entry (unat (fe_rule_id e)) (rule_slot ?L e)) ?es [],
        rg_rule_count := length (concat bs), rg_category_counts := cc, rg_blocklist_counts := bc\<rparr>" (is "_ = ?r2")
    using fold_memory [OF c1, of ?es] unfolding L by (auto simp: rg_new_def)
  moreover obtain cc' bc' where c: "count_all (replicate next_id 0) ?r2 =
      ?r2\<lparr>rg_category_counts := cc', rg_blocklist_counts := bc'\<rparr>" (is "_ = ?r3")
    using count_all_fields by blast
  moreover obtain rules where b: "build_rule_block_index ?es ?r3 = ?r3\<lparr>rg_rules := rules\<rparr>" (is "_ = ?r4")
    "map no_block rules = map no_block (rg_rules ?r3)"
    using block_index_fields by blast
  ultimately have fin: "finish_import R spool ?st js next_id = Ok (d, build_ip_index R ?es ?r4)"
    using d(2,4) m(1) by (simp add: finish_import_def index_in_memory_def)
  have r4: "rg_cache ?r4 = None" by (simp add: rg_new_def)
  have L4: "light_of ?r4 = ?L" using L by (simp add: light_of_def fun_eq_iff)
  obtain ts where ts: "build_ip_index R ?es ?r4 = store_all ts (?r4\<lparr>rg_ip_index_v4_exact := [], rg_ip_index_v6_exact := [],
        rg_ip_index_v4_lpm := [], rg_ip_index_v6_lpm := []\<rparr>)" "distinct (map fst ts)"
    using build_ip_index_store [OF r4] by blast
  have reg: "rg_cache (build_ip_index R ?es ?r4) = None" "rg_rules (build_ip_index R ?es ?r4) = rules"
    "rg_rule_count (build_ip_index R ?es ?r4) = length (concat bs)" "rg_metadata_by_id (build_ip_index R ?es ?r4) = M"
    unfolding ts(1) by (simp_all add: rg_new_def)
  have "\<exists>b. nth_opt rules (unat (fe_rule_id e)) = Some ((rule_slot ?L e)\<lparr>be_block := b\<rparr>)" if "e \<in> set ?es" for e
  proof (rule nth_opt_no_block [OF b(2)])
    show "nth_opt (rg_rules ?r3) (unat (fe_rule_id e)) = Some (rule_slot ?L e)"
      using distinct_number [of 0 "concat bs"] n that
      by (auto intro!: fold_vec_put [where f = "\<lambda>e. unat (fe_rule_id e)" and g = "rule_slot ?L"])
  qed
  then show ?thesis
    using d(1) fin reg r4 L4 m(2) by (intro exI [of _ ?st] exI [of _ d] exI [of _ "build_ip_index R ?es ?r4"] exI [of _ ?r4]) simp
qed

context rocks_db
begin

lemma import_both:
  assumes "invar db" "\<forall>c. content db c = Map.empty" "import_ok (js_metadata js) next_id bs"
  shows "\<exists>st1 d1 reg1 st2 d2 reg2.
    consume_all R spool1 bs \<lparr>im_sequence = 0, im_writer = Some (bulk_new db limit), im_entries = []\<rparr> = Inr st1 \<and>
    finish_import R spool1 st1 js next_id = Ok (d1, reg1) \<and>
    consume_all R spool2 bs \<lparr>im_sequence = 0, im_writer = None, im_entries = []\<rparr> = Inr st2 \<and>
    finish_import R spool2 st2 js next_id = Ok (d2, reg2) \<and>
    (\<forall>ip. length ip = 4 \<longrightarrow>
       set (lookup_ip_v4 R reg1 ip) = found (light_map (js_metadata js)) (concat bs) (V4 ip) \<and>
       set (lookup_ip_v4 R reg2 ip) = found (light_map (js_metadata js)) (concat bs) (V4 ip)) \<and>
    (\<forall>ip. length ip = 16 \<longrightarrow> (\<exists>cs1 cs2. lookup_ip_v6 R reg1 ip = Ok cs1 \<and> lookup_ip_v6 R reg2 ip = Ok cs2 \<and>
       set cs2 = found (light_map (js_metadata js)) (concat bs) (V6 ip) \<and>
       set cs1 = context_of (light_map (js_metadata js)) (concat bs) `
         {t \<in> indexed (light_map (js_metadata js)) (concat bs). covers t (V6 ip) \<and> \<not> missed_v6 t ip})) \<and>
    (\<forall>e \<in> set (number 0 (concat bs)).
       resolve_rule reg1 (fe_rule_id e) = Some (rule_slot (light_map (js_metadata js)) e) \<and>
       (\<exists>b. resolve_rule reg2 (fe_rule_id e) = Some ((rule_slot (light_map (js_metadata js)) e)\<lparr>be_block := b\<rparr>))) \<and>
    resolve_metadata R reg1 = metadata_map (js_metadata js) \<and>
    resolve_metadata R reg2 = metadata_map (js_metadata js) \<and>
    rg_total_rules reg1 = length (concat bs) \<and> rg_total_rules reg2 = length (concat bs)"
proof -
  let ?L = "light_map (js_metadata js)" and ?es = "concat bs"
  have ok: "\<forall>t \<in> indexed ?L ?es. wf_target t \<and> canonical_target t"
    using assms(3) by (auto simp: import_ok_def indexed_def)
  obtain st1 d1 reg1 db1 where 1:
    "consume_all R spool1 bs \<lparr>im_sequence = 0, im_writer = Some (bulk_new db limit), im_entries = []\<rparr> = Inr st1"
    "finish_import R spool1 st1 js next_id = Ok (d1, reg1)" "rg_cache reg1 = Some db1" "invar db1"
    "\<forall>t \<in> indexed ?L ?es. stored (content db1 RULE_CONTEXT (context_key t)) (context_of ?L ?es t)"
    "\<forall>k. k \<notin> context_key ` indexed ?L ?es \<longrightarrow> content db1 RULE_CONTEXT k = None"
    "metadata_stored db1 (js_metadata js)" "map_of (rg_metadata_light reg1) = ?L" "rg_rule_count reg1 = length ?es"
    "\<forall>e \<in> set (number 0 ?es). nth_opt (rg_rules_cache reg1) (unat (fe_rule_id e)) = Some (fe_metadata_id e, fe_line e)"
    using disk_import [OF assms(1-3), of spool1 limit] by blast
  obtain st2 d2 reg2 reg0 where 2:
    "consume_all R spool2 bs \<lparr>im_sequence = 0, im_writer = None, im_entries = []\<rparr> = Inr st2"
    "finish_import R spool2 st2 js next_id = Ok (d2, reg2)" "rg_cache reg2 = None"
    "reg2 = build_ip_index R (number 0 ?es) reg0" "rg_cache reg0 = None" "light_of reg0 = ?L"
    "map_of (rg_metadata_by_id reg2) = metadata_map (js_metadata js)" "rg_rule_count reg2 = length ?es"
    "\<forall>e \<in> set (number 0 ?es). \<exists>b. nth_opt (rg_rules reg2) (unat (fe_rule_id e)) = Some ((rule_slot ?L e)\<lparr>be_block := b\<rparr>)"
    using memory_import [OF assms(3), of R spool2] by blast
  have "\<forall>e \<in> set (number 0 ?es). wf_target (fe_target e)" using import_entry(1) [OF assms(3)] by blast
  note ram = ram_lookup [OF 2(5) this, of _ R, unfolded 2(6) found_number, folded 2(4)]
  note disk = disk_lookup [OF 1(3-6) ok]
  have rule1: "resolve_rule reg1 (fe_rule_id e) = Some (rule_slot ?L e)" if e: "e \<in> set (number 0 ?es)" for e
  proof -
    have "category_for reg1 i = map_option fst (?L i)" for i by (simp add: category_for_def 1(3,8))
    then show ?thesis
      using 1(10) e import_entry(4,5) [OF assms(3) e] by (auto simp: resolve_rule_def 1(3) rule_slot_def)
  qed
  have rule2: "\<exists>b. resolve_rule reg2 (fe_rule_id e) = Some ((rule_slot ?L e)\<lparr>be_block := b\<rparr>)"
    if e: "e \<in> set (number 0 ?es)" for e
    using 2(9) e by (auto simp: resolve_rule_def 2(3))
  have meta: "resolve_metadata R reg1 = metadata_map (js_metadata js)" "resolve_metadata R reg2 = metadata_map (js_metadata js)"
    using resolve_stored [OF 1(4,3,7)] 2(3,7) by (auto simp: fun_eq_iff resolve_metadata_def)
  show ?thesis
    apply (rule exI [of _ st1], rule exI [of _ d1], rule exI [of _ reg1], rule exI [of _ st2], rule exI [of _ d2],
        rule exI [of _ reg2])
    using 1(1,2,9) 2(1,2,8) ram disk rule1 rule2 meta unfolding rg_total_rules_def by blast
qed

end

text \<open>
  \<^bold>\<open>C18\<close>. Both modes of the registry answer IPv4 lookups alike and right.  For every import, in
  whatever order the batches arrived, the registry that keeps its data in RocksDB and the
  registry that keeps it in memory return, for every IPv4 address, exactly the contexts of
  the imported targets that cover the address; a context names each file and line that lists
  the target once, and its categories.
\<close>

theorem import_lookup:
  assumes "rocks_db R invar content" "invar db" "\<forall>c. content db c = Map.empty"
    and "import_ok (js_metadata js) next_id batches" "length ip = 4"
  shows "\<exists>st1 d1 reg1 st2 d2 reg2.
    consume_all R spool1 batches \<lparr>im_sequence = 0, im_writer = Some (bulk_new db limit), im_entries = []\<rparr> = Inr st1 \<and>
    finish_import R spool1 st1 js next_id = Ok (d1, reg1) \<and>
    consume_all R spool2 batches \<lparr>im_sequence = 0, im_writer = None, im_entries = []\<rparr> = Inr st2 \<and>
    finish_import R spool2 st2 js next_id = Ok (d2, reg2) \<and>
    set (lookup_ip_v4 R reg1 ip) = found (light_map (js_metadata js)) (concat batches) (V4 ip) \<and>
    set (lookup_ip_v4 R reg2 ip) = found (light_map (js_metadata js)) (concat batches) (V4 ip)"
  using rocks_db.import_both [OF assms(1-4), of spool1 limit spool2] assms(5) by fast

text \<open>
  \<^bold>\<open>C19\<close>. IPv6 lookups.  In memory they find exactly the contexts of the covering targets.  With
  the on-disk cache they find the covering targets except the networks whose prefix length is a
  multiple of 8 below 128 when the address has a non-zero byte right after the prefix: no false
  answer, but lookups in a /32, /48 or /64 usually miss.
\<close>

theorem import_lookup_v6:
  assumes "rocks_db R invar content" "invar db" "\<forall>c. content db c = Map.empty"
    and "import_ok (js_metadata js) next_id batches" "length ip = 16"
  shows "\<exists>st1 d1 reg1 cs1 st2 d2 reg2 cs2.
    consume_all R spool1 batches \<lparr>im_sequence = 0, im_writer = Some (bulk_new db limit), im_entries = []\<rparr> = Inr st1 \<and>
    finish_import R spool1 st1 js next_id = Ok (d1, reg1) \<and> lookup_ip_v6 R reg1 ip = Ok cs1 \<and>
    consume_all R spool2 batches \<lparr>im_sequence = 0, im_writer = None, im_entries = []\<rparr> = Inr st2 \<and>
    finish_import R spool2 st2 js next_id = Ok (d2, reg2) \<and> lookup_ip_v6 R reg2 ip = Ok cs2 \<and>
    set cs2 = found (light_map (js_metadata js)) (concat batches) (V6 ip) \<and>
    set cs1 = context_of (light_map (js_metadata js)) (concat batches) `
      {t \<in> indexed (light_map (js_metadata js)) (concat batches). covers t (V6 ip) \<and> \<not> missed_v6 t ip}"
  using rocks_db.import_both [OF assms(1-4), of spool1 limit spool2] assms(5) by fast

text \<open>
  \<^bold>\<open>C20\<close>. Every imported rule can be attributed.  After an import in either mode, the rule
  identifier of every imported entry resolves to its list, line and category, the identifier
  of every list resolves to its metadata, and the number of rules is the number of entries.
\<close>

theorem import_attribution:
  assumes "rocks_db R invar content" "invar db" "\<forall>c. content db c = Map.empty"
    and "import_ok (js_metadata js) next_id batches" "e \<in> set (number 0 (concat batches))"
  shows "\<exists>st1 d1 reg1 st2 d2 reg2 b.
    consume_all R spool1 batches \<lparr>im_sequence = 0, im_writer = Some (bulk_new db limit), im_entries = []\<rparr> = Inr st1 \<and>
    finish_import R spool1 st1 js next_id = Ok (d1, reg1) \<and>
    consume_all R spool2 batches \<lparr>im_sequence = 0, im_writer = None, im_entries = []\<rparr> = Inr st2 \<and>
    finish_import R spool2 st2 js next_id = Ok (d2, reg2) \<and>
    resolve_rule reg1 (fe_rule_id e) = Some (rule_slot (light_map (js_metadata js)) e) \<and>
    resolve_rule reg2 (fe_rule_id e) = Some ((rule_slot (light_map (js_metadata js)) e)\<lparr>be_block := b\<rparr>) \<and>
    resolve_metadata R reg1 = metadata_map (js_metadata js) \<and>
    resolve_metadata R reg2 = metadata_map (js_metadata js) \<and>
    rg_total_rules reg1 = length (concat batches) \<and> rg_total_rules reg2 = length (concat batches)"
  using rocks_db.import_both [OF assms(1-4), of spool1 limit spool2] assms(5) by fast

subsection \<open>A concrete import\<close>

definition demo_meta :: firehol_metadata where
  "demo_meta = \<lparr>md_id = 1, md_category = Malware, md_source_url = None, md_maintainer = None, md_maintainer_url = None,
     md_source_file_date = None, md_file_name = ''a.netset'', md_version = None, md_update_frequency = None\<rparr>"

definition demo_net6 :: firehol_ip_target where
  "demo_net6 = CidrV6 64 (replicate 8 1 @ replicate 8 0)"

definition demo_batches :: "firehol_entry list list" where
  "demo_batches = [[demo_entry, entry_new demo_net6 0 1 8]]"

definition demo_joined :: join_state where
  "demo_joined = \<lparr>js_metadata = [demo_meta], js_files = 1, js_bytes = 10, js_failure = None\<rparr>"

definition demo_context :: "u32 \<Rightarrow> rule_block_context" where
  "demo_context line = \<lparr>rb_files = [''a.netset''], rb_lines = [line], rb_categories = [Malware]\<rparr>"

lemma demo_net6_canonical: "net_addr 64 (replicate 8 1 @ replicate 8 0) = replicate 8 1 @ replicate 8 0"
  by (simp add: net_addr_def upt_rec numeral_eq_Suc)

lemma demo_import_ok: "import_ok (js_metadata demo_joined) 2 demo_batches"
  using demo_net6_canonical
  by (simp add: import_ok_def demo_batches_def demo_joined_def demo_meta_def demo_entry_def demo_net6_def entry_new_def)

lemma demo_indexed:
  "indexed (light_map (js_metadata demo_joined)) (concat demo_batches) = {ExactV4 [192, 0, 2, 1], demo_net6}"
  unfolding import_targets [OF demo_import_ok, symmetric]
  by (simp add: demo_batches_def demo_entry_def entry_new_def)

lemma demo_found:
  "context_of (light_map (js_metadata demo_joined)) (concat demo_batches) (ExactV4 [192, 0, 2, 1]) = demo_context 7"
  "context_of (light_map (js_metadata demo_joined)) (concat demo_batches) demo_net6 = demo_context 8"
  by (simp_all add: demo_batches_def demo_joined_def demo_meta_def demo_entry_def demo_net6_def entry_new_def
      light_map_def metadata_map_def context_of_def add_source_def push_category_def push_file_def context_default_def
      demo_context_def)

lemma demo_empty: "sst_invar (\<lambda>_. [])" "\<forall>c. sst_content (\<lambda>_. []) c = Map.empty"
  by (simp_all add: sst_invar_def sst_content_def)

abbreviation demo_start :: "sst_db bulk_writer option \<Rightarrow> sst_db import_state" where
  "demo_start w \<equiv> \<lparr>im_sequence = 0, im_writer = w, im_entries = []\<rparr>"

theorem import_lookup_witness:
  "\<exists>st1 d1 reg1 st2 d2 reg2.
    consume_all sst_ops True demo_batches (demo_start (Some (bulk_new (\<lambda>_. []) 0))) = Inr st1 \<and>
    finish_import sst_ops True st1 demo_joined 2 = Ok (d1, reg1) \<and>
    consume_all sst_ops False demo_batches (demo_start None) = Inr st2 \<and>
    finish_import sst_ops False st2 demo_joined 2 = Ok (d2, reg2) \<and>
    set (lookup_ip_v4 sst_ops reg1 [192, 0, 2, 1]) = {demo_context 7} \<and>
    set (lookup_ip_v4 sst_ops reg2 [192, 0, 2, 1]) = {demo_context 7}"
proof -
  have "{t \<in> {ExactV4 [192, 0, 2, 1], demo_net6}. covers t (V4 [192, 0, 2, 1])} = {ExactV4 [192, 0, 2, 1]}"
    by (auto simp: demo_net6_def)
  then have "found (light_map (js_metadata demo_joined)) (concat demo_batches) (V4 [192, 0, 2, 1]) = {demo_context 7}"
    unfolding found_def demo_indexed by (simp add: demo_found(1))
  then show ?thesis
    using import_lookup [OF sst.rocks_db_axioms, OF demo_empty demo_import_ok, of "[192, 0, 2, 1]" True 0 False] by simp
qed

theorem import_lookup_v6_witness:
  "\<exists>st1 d1 reg1 st2 d2 reg2 cs2.
    consume_all sst_ops True demo_batches (demo_start (Some (bulk_new (\<lambda>_. []) 0))) = Inr st1 \<and>
    finish_import sst_ops True st1 demo_joined 2 = Ok (d1, reg1) \<and> lookup_ip_v6 sst_ops reg1 (replicate 16 1) = Ok [] \<and>
    consume_all sst_ops False demo_batches (demo_start None) = Inr st2 \<and>
    finish_import sst_ops False st2 demo_joined 2 = Ok (d2, reg2) \<and>
    lookup_ip_v6 sst_ops reg2 (replicate 16 1) = Ok cs2 \<and> set cs2 = {demo_context 8}"
proof -
  have s: "same_prefix 64 (replicate 8 1 @ replicate 8 0) (replicate 16 1)"
    by (simp add: same_prefix_net_addr demo_net6_canonical) (simp add: net_addr_def upt_rec numeral_eq_Suc)
  have "{t \<in> {ExactV4 [192, 0, 2, 1], demo_net6}. covers t (V6 (replicate 16 1))} = {demo_net6}"
    using s by (auto simp: demo_net6_def)
  then have f: "found (light_map (js_metadata demo_joined)) (concat demo_batches) (V6 (replicate 16 1)) = {demo_context 8}"
    unfolding found_def demo_indexed by (simp add: demo_found(2))
  have m: "{t \<in> indexed (light_map (js_metadata demo_joined)) (concat demo_batches).
      covers t (V6 (replicate 16 1)) \<and> \<not> missed_v6 t (replicate 16 1)} = {}"
    unfolding demo_indexed by (auto simp: demo_net6_def)
  show ?thesis
    using import_lookup_v6 [OF sst.rocks_db_axioms, OF demo_empty demo_import_ok, of "replicate 16 1" True 0 False]
    unfolding f m by auto
qed

theorem import_attribution_witness:
  "\<exists>st reg d b. consume_all sst_ops False demo_batches (demo_start None) = Inr st \<and>
    finish_import sst_ops False st demo_joined 2 = Ok (d, reg) \<and>
    resolve_rule reg 1 = Some \<lparr>be_metadata_id = 1, be_category = Malware, be_line = 7, be_block = b\<rparr> \<and>
    rg_total_rules reg = 2"
proof -
  let ?e = "demo_entry\<lparr>fe_rule_id := 1\<rparr>"
  have "?e \<in> set (number 0 (concat demo_batches))" by (simp add: demo_batches_def)
  note import_attribution [where e = ?e and js = demo_joined and next_id = 2 and batches = demo_batches,
      OF sst.rocks_db_axioms, OF demo_empty demo_import_ok this, of True 0 False]
  then show ?thesis
    by (auto simp: rule_slot_def demo_entry_def entry_new_def light_map_def metadata_map_def demo_joined_def
        demo_meta_def demo_batches_def)
qed

end
