(* ===== verification/Firehol_Worker.thy ===== *)
theory Firehol_Worker
  imports Firehol_Import "HOL-Library.Multiset"
begin

section \<open>The worker pool\<close>

text \<open>
  Models the worker threads of \<open>parse_directory_impl\<close> in \<open>src/firehol/parser.rs\<close>: each takes files
  off a shared counter until they run out or another thread asks to abort, parses them
  with \<open>parse_single_file\<close> and sends batches to the consumer.  A worker is described by the
  turns it takes: what it sees of the abort flag, and the file it gets.  The consumer receives
  an interleaving of the workers' batches; \<open>interleave\<close> is this relation.  The lemmas take the
  import from the text of the files to the answers of the registry.
\<close>

subsection \<open>One worker\<close>

record list_file =
  lf_path :: string
  lf_name :: "string option"
  lf_content :: "bytes option"
  lf_events :: "read_event list"

type_synonym worker_state = "firehol_entry list \<times> firehol_entry list list \<times> firehol_metadata list"

text \<open>The flush after the loop, on the worker's own variables.\<close>

fun flush_rest :: "(nat \<Rightarrow> bool) \<Rightarrow> worker_state \<Rightarrow> (firehol_parse_error, worker_state) outcome" where
  "flush_rest sends (entries, sent, metadata) =
     (if entries = [] then Ok (entries, sent, metadata)
      else if sends (length sent) then Ok ([], sent @ [entries], metadata)
      else Err (WorkerPanic ''import writer stopped''))"

text \<open>\<open>ids j k\<close> is the \<open>k\<close>-th metadata identifier allocated for the \<open>j\<close>-th file of this worker.\<close>

fun worker_loop ::
  "'n ipnet_lib \<Rightarrow> chrono \<Rightarrow> (nat \<Rightarrow> nat \<Rightarrow> u32) \<Rightarrow> (nat \<Rightarrow> bool) \<Rightarrow> ip_addr list \<Rightarrow> nat \<Rightarrow> (bool \<times> list_file) list \<Rightarrow>
   worker_state \<Rightarrow> nat \<Rightarrow> nat \<Rightarrow> (firehol_parse_error, worker_state \<times> nat \<times> nat) outcome option" where
  "worker_loop L C ids sends ign j [] w files bytes_in = Some (Ok (w, files, bytes_in))"
| "worker_loop L C ids sends ign j ((abort, f) # turns) w files bytes_in =
     (if abort then Some (Ok (w, files, bytes_in))
      else case parse_single_file L C (ids j) sends (lf_path f) (lf_name f) (lf_content f) (lf_events f) ign w of
        Some (Ok (n, s)) \<Rightarrow>
          worker_loop L C ids sends ign (j + 1) turns (fs_entries s, fs_sent s, fs_metadata s) (files + 1) (bytes_in + n)
      | Some (Err e) \<Rightarrow> Some (Err e) | Some Fault \<Rightarrow> Some Fault | None \<Rightarrow> None)"

definition run_worker ::
  "'n ipnet_lib \<Rightarrow> chrono \<Rightarrow> (nat \<Rightarrow> nat \<Rightarrow> u32) \<Rightarrow> (nat \<Rightarrow> bool) \<Rightarrow> ip_addr list \<Rightarrow> (bool \<times> list_file) list \<Rightarrow>
   (firehol_parse_error, worker_output \<times> firehol_entry list list) outcome option" where
  "run_worker L C ids sends ign turns =
     (case worker_loop L C ids sends ign 0 turns ([], [], []) 0 0 of
        Some (Ok (w, files, bytes_in)) \<Rightarrow>
          (case flush_rest sends w of
             Ok (_, sent, metadata) \<Rightarrow>
               Some (Ok (\<lparr>wo_metadata = metadata, wo_files = files, wo_bytes = bytes_in\<rparr>, sent))
           | Err e \<Rightarrow> Some (Err e) | Fault \<Rightarrow> Some Fault)
      | Some (Err e) \<Rightarrow> Some (Err e) | Some Fault \<Rightarrow> Some Fault | None \<Rightarrow> None)"

subsection \<open>What one worker delivers\<close>

text \<open>A readable list file whose rule lines are all valid.\<close>

definition good_file :: "'n ipnet_lib \<Rightarrow> ip_addr list \<Rightarrow> list_file \<Rightarrow> nat list \<Rightarrow> bool" where
  "good_file L ign f chars \<longleftrightarrow>
     lf_name f \<noteq> None \<and> (\<exists>content. lf_content f = Some content \<and> length content < reads (lf_events f) \<and>
       utf8_decode content = Some chars) \<and> Failing \<notin> set (lf_events f) \<and>
     (\<forall>(n, c, tok) \<in> set (records_of chars). valid_token L ign tok)"

text \<open>Entries with the file name and target they come from.\<close>

definition file_targets ::
  "'n ipnet_lib \<Rightarrow> ip_addr list \<Rightarrow> list_file \<times> nat list \<Rightarrow> (string \<times> nat \<times> firehol_category \<times> firehol_ip_target) list" where
  "file_targets L ign = (\<lambda>(f, chars). map (\<lambda>r. (the (lf_name f), r)) (record_targets L ign (records_of chars)))"

fun entry_of ::
  "firehol_metadata list \<Rightarrow> string \<times> nat \<times> firehol_category \<times> firehol_ip_target \<Rightarrow> firehol_entry \<Rightarrow> bool" where
  "entry_of M (name, r) e \<longleftrightarrow> entry_from name M r e"

lemma entry_of_mono: "entry_of M r e \<Longrightarrow> set M \<subseteq> set M' \<Longrightarrow> entry_of M' r e"
  by (cases r) (metis entry_of.simps entry_from_mono)

lemma worker_loop_complete:
  assumes L: "ipnet L valid4 valid6" and ign: "\<forall>ip \<in> set ign. wf_ip ip" and sends: "\<And>k. sends k"
    and "\<forall>(f, chars) \<in> set fs. good_file L ign f chars" "length es < WORKER_BATCH_SIZE"
  shows "\<exists>es' sent' meta' new bs ms bytes_in'.
    worker_loop L C ids sends ign j (map (\<lambda>(f, _). (False, f)) fs) (es, sent, meta) files bytes_in =
      Some (Ok ((es', sent', meta'), files + length fs, bytes_in')) \<and>
    concat sent' @ es' = concat sent @ es @ new \<and> list_all2 (entry_of meta') (concat (map (file_targets L ign) fs)) new \<and>
    sent' = sent @ bs \<and> (\<forall>b \<in> set bs. length b = WORKER_BATCH_SIZE) \<and> length es' < WORKER_BATCH_SIZE \<and>
    meta' = meta @ ms \<and> (\<forall>m \<in> set ms. \<exists>i k. md_id m = ids (j + i) k \<and> i < length fs)"
  using assms(4,5)
proof (induction fs arbitrary: j es sent meta files bytes_in)
  case Nil
  then show ?case by simp
next
  case (Cons fc fs)
  obtain f chars where fc: "fc = (f, chars)" by fastforce
  obtain name content where f: "lf_name f = Some name" "lf_content f = Some content" "Failing \<notin> set (lf_events f)"
    "length content < reads (lf_events f)" "utf8_decode content = Some chars"
    "\<forall>(n, c, tok) \<in> set (records_of chars). valid_token L ign tok"
    using Cons.prems(1) fc by (auto simp: good_file_def)
  obtain s new bs ms where s:
    "parse_single_file L C (ids j) sends (lf_path f) (Some name) (Some content) (lf_events f) ign (es, sent, meta) =
      Some (Ok (length content, s))"
    "concat (fs_sent s) @ fs_entries s = concat sent @ es @ new"
    "list_all2 (entry_from name (fs_metadata s)) (record_targets L ign (records_of chars)) new"
    "fs_sent s = sent @ bs" "\<forall>b \<in> set bs. length b = WORKER_BATCH_SIZE" "length (fs_entries s) < WORKER_BATCH_SIZE"
    "fs_metadata s = meta @ ms" "map md_id ms = map (ids j) [0..<length ms]"
    using parse_single_file_run [where sends = sends, OF L ign sends f(3-6) Cons.prems(2)] by blast
  have "\<forall>(f, chars) \<in> set fs. good_file L ign f chars" using Cons.prems(1) by simp
  from Cons.IH [OF this s(6), of "j + 1" "fs_sent s" "fs_metadata s" "files + 1" "bytes_in + length content"]
  obtain es' sent' meta' new' bs' ms' bytes_in' where r:
    "worker_loop L C ids sends ign (j + 1) (map (\<lambda>(f, _). (False, f)) fs) (fs_entries s, fs_sent s, fs_metadata s)
       (files + 1) (bytes_in + length content) = Some (Ok ((es', sent', meta'), files + 1 + length fs, bytes_in'))"
    "concat sent' @ es' = concat (fs_sent s) @ fs_entries s @ new'"
    "list_all2 (entry_of meta') (concat (map (file_targets L ign) fs)) new'"
    "sent' = fs_sent s @ bs'" "\<forall>b \<in> set bs'. length b = WORKER_BATCH_SIZE" "length es' < WORKER_BATCH_SIZE"
    "meta' = fs_metadata s @ ms'" "\<forall>m \<in> set ms'. \<exists>i k. md_id m = ids (j + 1 + i) k \<and> i < length fs" by blast
  have "list_all2 (entry_from name meta') (record_targets L ign (records_of chars)) new"
    using s(3) by (rule list_all2_mono) (auto simp: r(7) intro: entry_from_mono)
  then have "list_all2 (entry_of meta') (file_targets L ign fc) new"
    by (simp add: fc file_targets_def f(1) list_all2_map1)
  then have l: "list_all2 (entry_of meta') (concat (map (file_targets L ign) (fc # fs))) (new @ new')"
    using r(3) by (simp add: list_all2_appendI)
  have "\<exists>i k. md_id m = ids (j + i) k \<and> i < length (fc # fs)" if m: "m \<in> set (ms @ ms')" for m
  proof (cases "m \<in> set ms")
    case True
    then have "md_id m \<in> set (map (ids j) [0..<length ms])" unfolding s(8) [symmetric] by simp
    then obtain k where "md_id m = ids j k" by auto
    then show ?thesis by (intro exI [of _ 0] exI [of _ k]) simp
  next
    case False
    then obtain i k where "md_id m = ids (j + 1 + i) k" "i < length fs" using r(8) m by auto
    then show ?thesis by (intro exI [of _ "Suc i"] exI [of _ k]) simp
  qed
  then show ?case
    using r(1,2,6) s(1,2) f(1,2) l s(4,5,7) r(4,5,7)
    by (intro exI [of _ es'] exI [of _ sent'] exI [of _ meta'] exI [of _ "new @ new'"] exI [of _ "bs @ bs'"]
        exI [of _ "ms @ ms'"] exI [of _ bytes_in']) (auto simp: fc)
qed

lemma run_worker_complete:
  assumes "ipnet L valid4 valid6" "\<forall>ip \<in> set ign. wf_ip ip" "\<And>k. sends k"
    and "\<forall>(f, chars) \<in> set fs. good_file L ign f chars"
  shows "\<exists>out bs. run_worker L C ids sends ign (map (\<lambda>(f, _). (False, f)) fs) = Some (Ok (out, bs)) \<and>
    list_all2 (entry_of (wo_metadata out)) (concat (map (file_targets L ign) fs)) (concat bs) \<and>
    [] \<notin> set bs \<and> wo_files out = length fs \<and>
    (\<forall>m \<in> set (wo_metadata out). \<exists>i k. md_id m = ids i k \<and> i < length fs)"
proof -
  have "length [] < WORKER_BATCH_SIZE" by (simp add: WORKER_BATCH_SIZE_def)
  from worker_loop_complete [where sends = sends, OF assms this, of C ids 0 "[]" "[]" 0 0]
  obtain es sent meta bytes_in where w:
    "worker_loop L C ids sends ign 0 (map (\<lambda>(f, _). (False, f)) fs) ([], [], []) 0 0 =
      Some (Ok ((es, sent, meta), length fs, bytes_in))"
    "list_all2 (entry_of meta) (concat (map (file_targets L ign) fs)) (concat sent @ es)"
    "\<forall>b \<in> set sent. length b = WORKER_BATCH_SIZE" "\<forall>m \<in> set meta. \<exists>i k. md_id m = ids i k \<and> i < length fs" by auto
  have "[] \<notin> set sent" using w(3) by (auto simp: WORKER_BATCH_SIZE_def)
  then show ?thesis using w assms(3) by (cases "es = []") (simp_all add: run_worker_def)
qed

subsection \<open>Interleavings\<close>

inductive interleave :: "'a list list \<Rightarrow> 'a list \<Rightarrow> bool" where
  Done: "\<forall>xs \<in> set xss. xs = [] \<Longrightarrow> interleave xss []"
| Receive: "i < length xss \<Longrightarrow> xss ! i = x # xs \<Longrightarrow> interleave (xss[i := xs]) ys \<Longrightarrow> interleave xss (x # ys)"

lemma interleave_mset: "interleave xss ys \<Longrightarrow> mset ys = mset (concat xss)"
proof (induction rule: interleave.induct)
  case (Done xss)
  then have "concat xss = []" by simp
  then show ?case by (simp del: concat_eq_Nil_conv)
next
  case (Receive i xss x xs ys)
  have "mset (concat xss) = mset (concat (take i xss)) + mset (x # xs) + mset (concat (drop (Suc i) xss))"
    by (subst id_take_nth_drop [OF Receive.hyps(1)]) (simp add: Receive.hyps(2))
  moreover have "mset (concat (xss[i := xs])) = mset (concat (take i xss)) + mset xs + mset (concat (drop (Suc i) xss))"
    using Receive.hyps(1) by (simp add: upd_conv_take_nth_drop)
  ultimately show ?case using Receive.IH by simp
qed

lemma interleave_set: "interleave xss ys \<Longrightarrow> set ys = set (concat xss)"
  by (metis interleave_mset set_mset_mset)

lemma join_workers_ok:
  "join_workers None (map (Some \<circ> Inr) outs) =
   Inr \<lparr>js_metadata = concat (map wo_metadata outs), js_files = sum_list (map wo_files outs),
        js_bytes = sum_list (map wo_bytes outs), js_failure = None\<rparr>"
proof -
  have "fold join_worker (map (Some \<circ> Inr) outs) \<lparr>js_metadata = ms, js_files = n, js_bytes = b, js_failure = None\<rparr> =
      \<lparr>js_metadata = ms @ concat (map wo_metadata outs), js_files = n + sum_list (map wo_files outs),
       js_bytes = b + sum_list (map wo_bytes outs), js_failure = None\<rparr>" for ms n b
    by (induction outs arbitrary: ms n b) (simp_all add: join_worker_def add.assoc)
  then show ?thesis by (simp add: join_workers_def)
qed

subsection \<open>All workers together\<close>

text \<open>The results of the workers on their files.\<close>

definition workers_ran ::
  "'n ipnet_lib \<Rightarrow> chrono \<Rightarrow> (nat \<Rightarrow> nat \<Rightarrow> nat \<Rightarrow> u32) \<Rightarrow> ip_addr list \<Rightarrow> (list_file \<times> nat list) list list \<Rightarrow>
   worker_output list \<Rightarrow> firehol_entry list list list \<Rightarrow> bool" where
  "workers_ran L C ids ign ws outs bss \<longleftrightarrow>
     length outs = length ws \<and> length bss = length ws \<and>
     (\<forall>i < length ws. run_worker L C (ids i) (\<lambda>_. True) ign (map (\<lambda>(f, _). (False, f)) (ws ! i)) =
        Some (Ok (outs ! i, bss ! i)))"

text \<open>All rule lines of all files, and the identifiers the shared counter handed out.\<close>

definition all_targets ::
  "'n ipnet_lib \<Rightarrow> ip_addr list \<Rightarrow> (list_file \<times> nat list) list list \<Rightarrow>
   (string \<times> nat \<times> firehol_category \<times> firehol_ip_target) set" where
  "all_targets L ign ws = (\<Union>fc \<in> set (concat ws). set (file_targets L ign fc))"

definition ids_ok :: "nat \<Rightarrow> worker_output list \<Rightarrow> bool" where
  "ids_ok next_id outs \<longleftrightarrow>
     distinct (map md_id (concat (map wo_metadata outs))) \<and>
     (\<forall>m \<in> set (concat (map wo_metadata outs)). md_id m \<noteq> 0 \<and> unat (md_id m) < next_id)"

lemma list_all2_sets:
  assumes "list_all2 P xs ys"
  shows "y \<in> set ys \<Longrightarrow> \<exists>x \<in> set xs. P x y" "x \<in> set xs \<Longrightarrow> \<exists>y \<in> set ys. P x y"
  using assms by (induction rule: list_all2_induct) auto

lemma workers_entries:
  assumes L: "ipnet L valid4 valid6" and ign: "\<forall>ip \<in> set ign. wf_ip ip"
    and good: "\<forall>(f, chars) \<in> set (concat ws). good_file L ign f chars"
    and ran: "workers_ran L C ids ign ws outs bss" and bs: "interleave bss bs"
  shows "[] \<notin> set bs"
    and "e \<in> set (concat bs) \<Longrightarrow> \<exists>r \<in> all_targets L ign ws. entry_of (concat (map wo_metadata outs)) r e"
    and "r \<in> all_targets L ign ws \<Longrightarrow> \<exists>e \<in> set (concat bs). entry_of (concat (map wo_metadata outs)) r e"
proof -
  have len: "length outs = length ws" "length bss = length ws" using ran by (auto simp: workers_ran_def)
  have w: "list_all2 (entry_of (wo_metadata (outs ! i))) (concat (map (file_targets L ign) (ws ! i))) (concat (bss ! i)) \<and>
      [] \<notin> set (bss ! i)" if i: "i < length ws" for i
  proof -
    have "\<forall>(f, chars) \<in> set (ws ! i). good_file L ign f chars" using good i by (auto dest: nth_mem)
    moreover have "run_worker L C (ids i) (\<lambda>_. True) ign (map (\<lambda>(f, _). (False, f)) (ws ! i)) = Some (Ok (outs ! i, bss ! i))"
      using ran i by (simp add: workers_ran_def)
    ultimately show ?thesis using run_worker_complete [OF L ign TrueI, of "ws ! i" C "ids i"] by auto
  qed
  have sub: "set (wo_metadata (outs ! i)) \<subseteq> set (concat (map wo_metadata outs))" if "i < length ws" for i
  proof -
    have "outs ! i \<in> set outs" using that len(1) by simp
    then show ?thesis by auto
  qed
  note ent = entry_of_mono [OF _ sub]
  have set: "set bs = (\<Union>i < length ws. set (bss ! i))"
    unfolding interleave_set [OF bs] set_concat set_conv_nth [of bss] len(2) by blast
  have tgt: "all_targets L ign ws = (\<Union>i < length ws. set (concat (map (file_targets L ign) (ws ! i))))"
    unfolding all_targets_def set_concat set_conv_nth [of ws] set_map by blast
  show "[] \<notin> set bs" using w set by auto
  show "\<exists>r \<in> all_targets L ign ws. entry_of (concat (map wo_metadata outs)) r e" if e: "e \<in> set (concat bs)"
  proof -
    obtain i where i: "i < length ws" "e \<in> set (concat (bss ! i))" using e set by auto
    from list_all2_sets(1) [OF conjunct1 [OF w [OF i(1)]] i(2)] obtain r where
      "r \<in> set (concat (map (file_targets L ign) (ws ! i)))" "entry_of (wo_metadata (outs ! i)) r e" by blast
    then show ?thesis using ent [OF _ i(1)] i(1) tgt by blast
  qed
  show "\<exists>e \<in> set (concat bs). entry_of (concat (map wo_metadata outs)) r e" if r: "r \<in> all_targets L ign ws"
  proof -
    obtain i where i: "i < length ws" "r \<in> set (concat (map (file_targets L ign) (ws ! i)))"
      using r tgt by blast
    from list_all2_sets(2) [OF conjunct1 [OF w [OF i(1)]] i(2)] obtain e where
      "e \<in> set (concat (bss ! i))" "entry_of (wo_metadata (outs ! i)) r e" by blast
    moreover have "set (concat (bss ! i)) \<subseteq> set (concat bs)" using i(1) set by auto
    ultimately show ?thesis using ent [OF _ i(1)] by blast
  qed
qed

lemma targets_of_wf:
  assumes "ipnet L valid4 valid6" "\<forall>ip \<in> set ign. wf_ip ip" "t \<in> set (targets_of L ign tok)"
  shows "wf_target t \<and> canonical_target t"
proof -
  obtain ts where ts: "line_targets L ign tok = Some (Ok ts)" "t \<in> set ts"
  proof (cases "line_targets L ign tok")
    case (Some r)
    then show ?thesis using assms(3) that by (cases r) (auto simp: targets_of_def)
  qed (use assms(3) in \<open>simp add: targets_of_def\<close>)
  then obtain s where s: "parse_ip_or_cidr L tok = Some s"
    "ts = [s] \<or> parse_ip_or_cidr_with_ignore L tok ign = Some (Ok ts)"
    by (auto simp: line_targets_def split: option.splits outcome.splits if_splits)
  then show ?thesis
    using parse_ip_or_cidr_wf [OF assms(1) s(1)] with_ignore_wf [OF assms(1,2)] ts(2) by auto
qed

lemma all_targets_iff:
  "(name, n, c, t) \<in> all_targets L ign ws \<longleftrightarrow>
   (\<exists>f chars tok. (f, chars) \<in> set (concat ws) \<and> name = the (lf_name f) \<and> (n, c, tok) \<in> set (records_of chars) \<and>
      t \<in> set (targets_of L ign tok))"
  by (fastforce simp: all_targets_def file_targets_def record_targets_def)

lemma metadata_map_distinct:
  assumes "distinct (map md_id ms)" "m \<in> set ms"
  shows "metadata_map ms (md_id m) = Some m"
  using assms
proof (induction ms rule: rev_induct)
  case (snoc x ms)
  then have "m = x \<or> m \<in> set ms \<and> md_id m \<noteq> md_id x" by (auto simp: image_iff)
  then show ?case using snoc by (auto simp: metadata_map_snoc)
qed simp

text \<open>The sources found for an address are those of all covering entries.\<close>

lemma found_sources:
  "(\<Union>ctx \<in> found light es ip. set (sources ctx)) =
   {(f, fe_line e) |f e c. e \<in> set es \<and> covers (fe_target e) ip \<and> light (fe_metadata_id e) = Some (c, f)}"
proof -
  have "set (sources (context_of light es t)) =
      {(f, fe_line e) |f e c. e \<in> set es \<and> fe_target e = t \<and> light (fe_metadata_id e) = Some (c, f)}" for t
    using context_of_spec by blast
  then show ?thesis by (auto simp: found_def indexed_def) (metis (mono_tags, lifting) option.distinct(1))
qed

lemma entry_of_fields:
  assumes "ids_ok next_id outs" "M = concat (map wo_metadata outs)" "entry_of M (name, l, c, t) e"
  shows "fe_target e = t \<and> fe_line e = of_nat l \<and> light_map M (fe_metadata_id e) = Some (c, name) \<and>
    fe_metadata_id e \<in> md_id ` set M \<and> fe_metadata_id e \<noteq> 0 \<and> unat (fe_metadata_id e) < next_id"
proof -
  obtain m where m: "m \<in> set M" "md_id m = fe_metadata_id e" "md_category m = c" "md_file_name m = name"
    using assms(3) by auto
  have "md_id m \<noteq> 0 \<and> unat (md_id m) < next_id" "metadata_map M (md_id m) = Some m"
    using assms(1) metadata_map_distinct [OF _ m(1)] m(1) unfolding ids_ok_def assms(2) by blast+
  moreover have "fe_metadata_id e \<in> md_id ` set M" using m(1) unfolding m(2) [symmetric] by (rule imageI)
  ultimately show ?thesis using m assms(3) by (auto simp: light_map_def)
qed

lemma workers_import:
  assumes L: "ipnet L valid4 valid6" and ign: "\<forall>ip \<in> set ign. wf_ip ip"
    and good: "\<forall>(f, chars) \<in> set (concat ws). good_file L ign f chars"
    and ran: "workers_ran L C ids ign ws outs bss" and bs: "interleave bss bs"
    and ids: "ids_ok next_id outs" and n: "int (length (concat bs)) < 2 ^ 32"
  shows "import_ok (concat (map wo_metadata outs)) next_id bs"
    and "(\<Union>ctx \<in> found (light_map (concat (map wo_metadata outs))) (concat bs) ip. set (sources ctx)) =
      {(name, of_nat l) |name l c t. (name, l, c, t) \<in> all_targets L ign ws \<and> covers t ip}"
proof -
  let ?M = "concat (map wo_metadata outs)"
  note we = workers_entries [OF L ign good ran bs]
  have wf: "wf_target t \<and> canonical_target t" if "(name, l, c, t) \<in> all_targets L ign ws" for name l c t
    using that targets_of_wf [OF L ign] unfolding all_targets_iff by blast
  note ent = entry_of_fields [OF ids refl]
  have "wf_target (fe_target e) \<and> canonical_target (fe_target e) \<and> fe_metadata_id e \<in> md_id ` set ?M \<and>
      unat (fe_metadata_id e) < next_id \<and> fe_metadata_id e \<noteq> 0" if e: "e \<in> set (concat bs)" for e
  proof -
    obtain name l c t where "(name, l, c, t) \<in> all_targets L ign ws" "entry_of ?M (name, l, c, t) e"
      using we(2) [OF e] by (metis prod_cases4)
    then show ?thesis using wf ent by blast
  qed
  then show "import_ok ?M next_id bs" using n we(1) unfolding import_ok_def by blast
  show "(\<Union>ctx \<in> found (light_map ?M) (concat bs) ip. set (sources ctx)) =
      {(name, of_nat l) |name l c t. (name, l, c, t) \<in> all_targets L ign ws \<and> covers t ip}" (is "_ = ?R")
    unfolding found_sources
  proof (intro set_eqI iffI)
    fix x assume "x \<in> {(f, fe_line e) |f e c. e \<in> set (concat bs) \<and> covers (fe_target e) ip \<and>
        light_map ?M (fe_metadata_id e) = Some (c, f)}"
    then obtain f e c where x: "x = (f, fe_line e)" "e \<in> set (concat bs)" "covers (fe_target e) ip"
      "light_map ?M (fe_metadata_id e) = Some (c, f)" by blast
    obtain name l c' t where r: "(name, l, c', t) \<in> all_targets L ign ws" "entry_of ?M (name, l, c', t) e"
      using we(2) [OF x(2)] by (metis prod_cases4)
    show "x \<in> ?R" using ent [OF r(2)] r(1) x by auto
  next
    fix x assume "x \<in> ?R"
    then obtain name l c t where x: "x = (name, of_nat l)" "(name, l, c, t) \<in> all_targets L ign ws" "covers t ip" by blast
    obtain e where e: "e \<in> set (concat bs)" "entry_of ?M (name, l, c, t) e" using we(3) [OF x(2)] by blast
    show "x \<in> {(f, fe_line e) |f e c. e \<in> set (concat bs) \<and> covers (fe_target e) ip \<and>
        light_map ?M (fe_metadata_id e) = Some (c, f)}"
      using ent [OF e(2)] e(1) x by force
  qed
qed

text \<open>What the files say about an address: the rule lines that denote it.\<close>

definition denoting_lines ::
  "'n ipnet_lib \<Rightarrow> ip_addr list \<Rightarrow> (list_file \<times> nat list) list list \<Rightarrow> ip_addr \<Rightarrow> (string \<times> u32) set" where
  "denoting_lines L ign ws ip =
     {(the (lf_name f), of_nat n) |f chars n c tok. (f, chars) \<in> set (concat ws) \<and>
        (n, c, tok) \<in> set (records_of chars) \<and> token_covers L tok ip \<and> ip \<notin> set ign}"

lemma denoting_targets:
  assumes "ipnet L valid4 valid6" "\<forall>ip \<in> set ign. wf_ip ip" "wf_ip ip"
    and "\<forall>(f, chars) \<in> set (concat ws). good_file L ign f chars \<and>
      (\<forall>(n, c, tok) \<in> set (records_of chars). consistent_token L tok)"
  shows "{(name, of_nat l) |name l c t. (name, l, c, t) \<in> all_targets L ign ws \<and> covers t ip} = denoting_lines L ign ws ip"
proof -
  have "(\<exists>t \<in> set (targets_of L ign tok). covers t ip) \<longleftrightarrow> token_covers L tok ip \<and> ip \<notin> set ign"
    if "(f, chars) \<in> set (concat ws)" "(n, c, tok) \<in> set (records_of chars)" for f chars n c tok
  proof (rule targets_of_covers [OF assms(1-3)])
    have g: "good_file L ign f chars" "\<forall>(n, c, tok) \<in> set (records_of chars). consistent_token L tok"
      using bspec [OF assms(4) that(1)] by simp_all
    show "valid_token L ign tok" using g(1) that(2) unfolding good_file_def by blast
    show "consistent_token L tok" using g(2) that(2) by blast
  qed
  note cov = this
  show ?thesis
  proof (intro set_eqI iffI)
    fix x :: "string \<times> u32" assume "x \<in> {(name, of_nat l) |name l c t. (name, l, c, t) \<in> all_targets L ign ws \<and> covers t ip}"
    then obtain f chars n c tok t where x: "x = (the (lf_name f), of_nat n)" "(f, chars) \<in> set (concat ws)"
      "(n, c, tok) \<in> set (records_of chars)" "t \<in> set (targets_of L ign tok)" "covers t ip"
      unfolding all_targets_iff by blast
    then have "token_covers L tok ip \<and> ip \<notin> set ign" using cov [OF x(2,3)] by blast
    then show "x \<in> denoting_lines L ign ws ip" using x unfolding denoting_lines_def by blast
  next
    fix x assume "x \<in> denoting_lines L ign ws ip"
    then obtain f chars n c tok where x: "x = (the (lf_name f), of_nat n)" "(f, chars) \<in> set (concat ws)"
      "(n, c, tok) \<in> set (records_of chars)" "token_covers L tok ip \<and> ip \<notin> set ign"
      unfolding denoting_lines_def by blast
    then obtain t where "t \<in> set (targets_of L ign tok)" "covers t ip" using cov [OF x(2,3)] by blast
    then show "x \<in> {(name, of_nat l) |name l c t. (name, l, c, t) \<in> all_targets L ign ws \<and> covers t ip}"
      using x unfolding all_targets_iff by blast
  qed
qed


subsection \<open>A concrete run\<close>

definition demo_chrono :: chrono where
  "demo_chrono = \<lparr>parse_from_rfc3339 = Some, parse_with_offset = Some, parse_naive = Some,
     parse_iso_datetime = Some, parse_iso_date = (\<lambda>_. None)\<rparr>"

definition demo_list :: list_file where
  "demo_list = \<lparr>lf_path = ''/l/a.ipset'', lf_name = Some ''a.ipset'', lf_content = Some (ascii demo_file), lf_events = demo_reads\<rparr>"

definition demo_out :: worker_output where
  "demo_out = \<lparr>wo_metadata = [\<lparr>md_id = 1, md_category = Malware, md_source_url = None, md_maintainer = None,
      md_maintainer_url = None, md_source_file_date = None, md_file_name = ''a.ipset'', md_version = None,
      md_update_frequency = None\<rparr>], wo_files = 1, wo_bytes = 37\<rparr>"

lemma demo_file_lines:
  "split_terminator 10 (map code_point demo_file) =
     [map code_point ''# Category: malware'', map code_point ''10.0.0.1  # host'']"
  "classify_line (map char_of (map code_point ''# Category: malware'')) = Comment '' Category: malware''"
  "classify_line (map char_of (map code_point ''10.0.0.1  # host'')) = Rule ''10.0.0.1''"
  "split_once CHR '':'' (trim '' Category: malware'') = Some (''Category'', '' malware'')"
  "to_lowercase (trim ''Category'') = ''category''" "parse_category (trim '' malware'') = Malware"
  "length (ascii demo_file) = 37"
  by code_simp+

lemma demo_parse:
  "\<exists>s. parse_single_file pair_lib C (\<lambda>k. of_nat (k + 1)) (\<lambda>_. True) path (Some ''a.ipset'') (Some (ascii demo_file)) demo_reads []
     ([], [], []) = Some (Ok (37, s)) \<and> fs_entries s = [entry_new (ExactV4 [10, 0, 0, 1]) 0 1 2] \<and> fs_sent s = [] \<and>
     fs_metadata s = wo_metadata demo_out"
proof -
  let ?ids = "\<lambda>k. of_nat (k + 1) :: u32" and ?sends = "\<lambda>_. True"
  let ?s = "file_start (Some ''a.ipset'') ?ids ([], [], [])"
  have c: "parse_comment C ?ids '' Category: malware'' ?s =
      ?s\<lparr>fs_meta := (fs_meta ?s)\<lparr>am_category := Malware\<rparr>\<rparr>"
    by (simp add: parse_comment_def demo_file_lines Let_def)
  let ?s1 = "?s\<lparr>fs_meta := (fs_meta ?s)\<lparr>am_category := Malware\<rparr>\<rparr>"
  have "visit_lines (parse_file_line pair_lib C ?ids ?sends [] path) (split_terminator 10 (map code_point demo_file)) 0 ?s =
      Some (Ok ((emit_metadata ?s1)\<lparr>fs_entries := [entry_new (ExactV4 [10, 0, 0, 1]) 0 1 2]\<rparr>))"
  proof -
    obtain l1 l2 where l: "split_terminator 10 (map code_point demo_file) = [l1, l2]"
      "classify_line (map char_of l1) = Comment '' Category: malware''" "classify_line (map char_of l2) = Rule ''10.0.0.1''"
      using demo_file_lines(1-3) by blast
    have 1: "parse_file_line pair_lib C ?ids ?sends [] path l1 1 ?s = Some (Ok ?s1)"
      unfolding parse_file_line_eq l(2) by (simp only: file_line.case c)
    have 2: "parse_file_line pair_lib C ?ids ?sends [] path l2 2 ?s1 =
        Some (Ok ((emit_metadata ?s1)\<lparr>fs_entries := [entry_new (ExactV4 [10, 0, 0, 1]) 0 1 2]\<rparr>))"
      unfolding parse_file_line_eq l(3)
      by (simp add: demo_targets Let_def WORKER_BATCH_SIZE_def emit_metadata_def active_new_def)
    show ?thesis unfolding l(1) using 1 2 by (simp add: numeral_2_eq_2)
  qed
  then show ?thesis
    using parse_single_file_visit [OF pairs.ipnet_axioms _ demo_reads_ok demo_reads_enough(1) demo_decode(1), of "[]" path C ?ids ?sends ?s]
    by (simp add: parse_single_file_def visit_text_def demo_file_lines emit_metadata_def demo_out_def to_metadata_def active_new_def)
qed

lemma demo_worker:
  "run_worker pair_lib C (\<lambda>_ k. of_nat (k + 1)) (\<lambda>_. True) [] [(False, demo_list)] =
   Some (Ok (demo_out, [[entry_new (ExactV4 [10, 0, 0, 1]) 0 1 2]]))"
  using demo_parse [of C "''/l/a.ipset''"] by (auto simp: run_worker_def demo_list_def demo_out_def)

lemma demo_good: "good_file pair_lib [] demo_list (map code_point demo_file)"
  using demo_valid demo_decode(1) demo_reads_enough(1) demo_reads_ok by (auto simp: good_file_def demo_list_def)


end
