(* ===== verification/Firehol_Sync.thy ===== *)
theory Firehol_Sync
  imports Firehol_Dataset Map_Manager Xdp_Firewall
begin

section \<open>Publishing FireHOL rules\<close>

text \<open>
  Models \<open>src/firehol/sync.rs\<close>: the infrastructure allowlist, the translation of a data set into
  a rule set with deduplication, and its commit to the maps.  The lemmas: the user-space
  allowlist is the kernel bypass list plus the loopback network; the prepared rule set
  holds exactly the first entry of every distinct target that is not allowlisted, and
  its counters add up.
\<close>

subsection \<open>The allowlist\<close>

definition is_infrastructure_allowlisted_v4 :: "bytes \<Rightarrow> bool" where
  "is_infrastructure_allowlisted_v4 o4 =
     (if o4 ! 0 = 140 \<and> o4 ! 1 = 82 \<and> 112 \<le> o4 ! 2 \<and> o4 ! 2 \<le> 127 then True
      else if o4 ! 0 = 192 \<and> o4 ! 1 = 30 \<and> 252 \<le> o4 ! 2 \<and> o4 ! 2 \<le> 255 then True
      else if o4 ! 0 = 185 \<and> o4 ! 1 = 199 \<and> 108 \<le> o4 ! 2 \<and> o4 ! 2 \<le> 111 then True
      else if o4 ! 0 = 143 \<and> o4 ! 1 = 55 \<and> 64 \<le> o4 ! 2 \<and> o4 ! 2 \<le> 79 then True
      else if (o4 ! 0 = 20 \<and> o4 ! 1 = 201 \<and> o4 ! 2 = 28 \<and> o4 ! 3 = 151) \<or>
              (o4 ! 0 = 20 \<and> o4 ! 1 = 205 \<and> o4 ! 2 = 243 \<and> o4 ! 3 = 166) \<or>
              (o4 ! 0 = 4 \<and> o4 ! 1 = 237 \<and> 22 \<le> o4 ! 2 \<and> o4 ! 2 \<le> 23) then True
      else if o4 ! 0 = 127 then True
      else False)"

definition is_infrastructure_cidr_allowlisted_v4 :: "u32 \<Rightarrow> bytes \<Rightarrow> bool" where
  "is_infrastructure_cidr_allowlisted_v4 prefix_len o4 =
     (if prefix_len = 20 \<and> o4 ! 0 = 140 \<and> o4 ! 1 = 82 \<and> o4 ! 2 = 112 \<and> o4 ! 3 = 0 then True
      else if prefix_len = 22 \<and> o4 ! 0 = 192 \<and> o4 ! 1 = 30 \<and> o4 ! 2 = 252 \<and> o4 ! 3 = 0 then True
      else if prefix_len = 22 \<and> o4 ! 0 = 185 \<and> o4 ! 1 = 199 \<and> o4 ! 2 = 108 \<and> o4 ! 3 = 0 then True
      else if prefix_len = 20 \<and> o4 ! 0 = 143 \<and> o4 ! 1 = 55 \<and> o4 ! 2 = 64 \<and> o4 ! 3 = 0 then True
      else False)"

subsection \<open>Preparing the rule set\<close>

record firehol_sync_report =
  sr_map_report :: sync_report
  sr_exact_v4_count :: nat
  sr_exact_v6_count :: nat
  sr_lpm_v4_count :: nat
  sr_lpm_v6_count :: nat
  sr_duplicates_deduped :: nat
  sr_allowlisted_skipped :: nat

definition sync_report_default :: firehol_sync_report where
  "sync_report_default =
     \<lparr>sr_map_report = report_default, sr_exact_v4_count = 0, sr_exact_v6_count = 0, sr_lpm_v4_count = 0,
      sr_lpm_v6_count = 0, sr_duplicates_deduped = 0, sr_allowlisted_skipped = 0\<rparr>"

definition sr_total_rules :: "firehol_sync_report \<Rightarrow> nat" where
  "sr_total_rules r = sr_exact_v4_count r + sr_exact_v6_count r + sr_lpm_v4_count r + sr_lpm_v6_count r"

text \<open>The captured variables; a \<open>HashSet\<close> is a list without repetitions.\<close>

record prepare_state =
  ps_rules :: rule_set
  ps_report :: firehol_sync_report
  ps_seen_v4 :: "(u32 \<times> bytes) list"
  ps_seen_v6 :: "(u32 \<times> bytes) list"

definition skip_entry :: "prepare_state \<Rightarrow> prepare_state" where
  "skip_entry st =
     st\<lparr>ps_report := (ps_report st)\<lparr>sr_allowlisted_skipped := sr_allowlisted_skipped (ps_report st) + 1\<rparr>\<rparr>"

definition dup_entry :: "prepare_state \<Rightarrow> prepare_state" where
  "dup_entry st =
     st\<lparr>ps_report := (ps_report st)\<lparr>sr_duplicates_deduped := sr_duplicates_deduped (ps_report st) + 1\<rparr>\<rparr>"

definition put_exact_v4 :: "bytes \<Rightarrow> rule_value \<Rightarrow> prepare_state \<Rightarrow> prepare_state" where
  "put_exact_v4 o4 rule_val st =
     (if map_of (exact_v4 (ps_rules st)) o4 = None
      then st\<lparr>ps_rules := (ps_rules st)\<lparr>exact_v4 := AList.update o4 rule_val (exact_v4 (ps_rules st))\<rparr>,
              ps_report := (ps_report st)\<lparr>sr_exact_v4_count := sr_exact_v4_count (ps_report st) + 1\<rparr>\<rparr>
      else dup_entry st)"

definition put_exact_v6 :: "bytes \<Rightarrow> rule_value \<Rightarrow> prepare_state \<Rightarrow> prepare_state" where
  "put_exact_v6 o6 rule_val st =
     (if map_of (exact_v6 (ps_rules st)) o6 = None
      then st\<lparr>ps_rules := (ps_rules st)\<lparr>exact_v6 := AList.update o6 rule_val (exact_v6 (ps_rules st))\<rparr>,
              ps_report := (ps_report st)\<lparr>sr_exact_v6_count := sr_exact_v6_count (ps_report st) + 1\<rparr>\<rparr>
      else dup_entry st)"

definition prepare_entry :: "firehol_entry \<Rightarrow> prepare_state \<Rightarrow> prepare_state" where
  "prepare_entry entry st =
     (let rule_val = rule_drop (fe_rule_id entry) in
      case fe_target entry of
        ExactV4 o4 \<Rightarrow>
          if is_infrastructure_allowlisted_v4 o4 then skip_entry st else put_exact_v4 o4 rule_val st
      | ExactV6 o6 \<Rightarrow> put_exact_v6 o6 rule_val st
      | CidrV4 prefix_len o4 \<Rightarrow>
          if prefix_len = 32
          then if is_infrastructure_allowlisted_v4 o4 then skip_entry st else put_exact_v4 o4 rule_val st
          else if is_infrastructure_cidr_allowlisted_v4 prefix_len o4 then skip_entry st
          else if (prefix_len, o4) \<notin> set (ps_seen_v4 st)
          then st\<lparr>ps_seen_v4 := (prefix_len, o4) # ps_seen_v4 st,
                  ps_rules := (ps_rules st)\<lparr>lpm_v4 := lpm_v4 (ps_rules st) @ [(prefix_len, o4, rule_val)]\<rparr>,
                  ps_report := (ps_report st)\<lparr>sr_lpm_v4_count := sr_lpm_v4_count (ps_report st) + 1\<rparr>\<rparr>
          else dup_entry st
      | CidrV6 prefix_len o6 \<Rightarrow>
          if prefix_len = 128 then put_exact_v6 o6 rule_val st
          else if (prefix_len, o6) \<notin> set (ps_seen_v6 st)
          then st\<lparr>ps_seen_v6 := (prefix_len, o6) # ps_seen_v6 st,
                  ps_rules := (ps_rules st)\<lparr>lpm_v6 := lpm_v6 (ps_rules st) @ [(prefix_len, o6, rule_val)]\<rparr>,
                  ps_report := (ps_report st)\<lparr>sr_lpm_v6_count := sr_lpm_v6_count (ps_report st) + 1\<rparr>\<rparr>
          else dup_entry st)"

definition prepare_start :: prepare_state where
  "prepare_start = \<lparr>ps_rules = rs_new, ps_report = sync_report_default, ps_seen_v4 = [], ps_seen_v6 = []\<rparr>"

definition try_prepare_rules :: "firehol_dataset \<Rightarrow> cache_error + rule_set \<times> firehol_sync_report" where
  "try_prepare_rules d =
     (case visit_entries d (\<lambda>e st. Inr (prepare_entry e st)) prepare_start of
        Inl err \<Rightarrow> Inl err
      | Inr st \<Rightarrow>
          Inr ((ps_rules st)\<lparr>total_rules := rs_count (ps_rules st),
                             skipped_rules := sr_duplicates_deduped (ps_report st)\<rparr>, ps_report st))"

text \<open>\<open>prepare_rules\<close> panics (\<open>expect\<close>) when the spool cannot be read.\<close>

definition prepare_rules :: "firehol_dataset \<Rightarrow> (unit, rule_set \<times> firehol_sync_report) outcome" where
  "prepare_rules d = (case try_prepare_rules d of Inl _ \<Rightarrow> Fault | Inr r \<Rightarrow> Ok r)"

definition load_into_maps ::
  "('o, 'e, 'l, 's) aya \<Rightarrow> ('e, 'l, 's) map_manager \<Rightarrow> rule_set \<Rightarrow> firehol_sync_report \<Rightarrow>
   firehol_sync_report \<times> ('e, 'l, 's) map_manager" where
  "load_into_maps A mm prepared report =
     (let (map_report, mm') = sync_firehol_rules A prepared mm in (report\<lparr>sr_map_report := map_report\<rparr>, mm'))"

subsection \<open>The allowlist and the kernel bypass\<close>

lemma unat_high_bits: "unat (x AND NOT (mask k)) = unat x div 2 ^ k * 2 ^ k" for x :: u8
proof -
  have "x AND NOT (mask k) = push_bit k (drop_bit k x)"
    by (rule bit_eqI) (auto simp: bit_simps)
  moreover have "unat (push_bit k (drop_bit k x)) = take_bit 8 (push_bit k (unat (drop_bit k x)))"
    by (simp only: unsigned_push_bit_eq) simp
  moreover have "unat (drop_bit k x) = unat x div 2 ^ k"
    by (metis (no_types) drop_bit_eq_div take_bit_nat_eq_self unsigned_drop_bit_eq unsigned_less)
  moreover have "unat x div 2 ^ k * 2 ^ k < 256"
    by (rule le_less_trans [OF div_times_less_eq_dividend]) (use unsigned_less [of x, where ?'a = nat] in simp)
  ultimately show ?thesis by (simp add: push_bit_eq_mult take_bit_nat_eq_self)
qed

lemma u8_range_mask:
  fixes x :: u8
  shows "x AND 0xF0 = 112 \<longleftrightarrow> 112 \<le> x \<and> x \<le> 127" "x AND 0xF0 = 64 \<longleftrightarrow> 64 \<le> x \<and> x \<le> 79"
    "x AND 0xFC = 252 \<longleftrightarrow> 252 \<le> x \<and> x \<le> 255" "x AND 0xFC = 108 \<longleftrightarrow> 108 \<le> x \<and> x \<le> 111"
proof -
  have "(0xF0 :: u8) = NOT (mask 4)" "(0xFC :: u8) = NOT (mask 2)" by code_simp+
  then have m: "x AND 0xF0 = x AND NOT (mask 4)" "x AND 0xFC = x AND NOT (mask 2)" by simp_all
  have d: "n div b * b = q * b \<longleftrightarrow> q * b \<le> n \<and> n \<le> q * b + (b - 1)" if "0 < b" for n b q :: nat
  proof -
    have "n div b = q \<longleftrightarrow> q * b \<le> n \<and> n < (q + 1) * b"
      using that by (metis Suc_eq_plus1 div_less_iff_less_mult less_Suc_eq_le less_eq_div_iff_mult_less_eq order_antisym_conv order_refl)
    then show ?thesis using that by auto
  qed
  have r: "112 \<le> n \<and> n \<le> 127 \<longleftrightarrow> n div 16 * 16 = 112" "64 \<le> n \<and> n \<le> 79 \<longleftrightarrow> n div 16 * 16 = 64"
    "252 \<le> n \<and> n \<le> 255 \<longleftrightarrow> n div 4 * 4 = 252" "108 \<le> n \<and> n \<le> 111 \<longleftrightarrow> n div 4 * 4 = 108" for n :: nat
    using d [of 16 n 7] d [of 16 n 4] d [of 4 n 63] d [of 4 n 27] by simp_all
  show "x AND 0xF0 = 112 \<longleftrightarrow> 112 \<le> x \<and> x \<le> 127"
    unfolding m word_unat_eq_iff unat_high_bits word_le_nat_alt using r(1) [of "unat x"] by simp
  show "x AND 0xF0 = 64 \<longleftrightarrow> 64 \<le> x \<and> x \<le> 79"
    unfolding m word_unat_eq_iff unat_high_bits word_le_nat_alt using r(2) [of "unat x"] by simp
  show "x AND 0xFC = 252 \<longleftrightarrow> 252 \<le> x \<and> x \<le> 255"
    unfolding m word_unat_eq_iff unat_high_bits word_le_nat_alt using r(3) [of "unat x"] by simp
  show "x AND 0xFC = 108 \<longleftrightarrow> 108 \<le> x \<and> x \<le> 111"
    unfolding m word_unat_eq_iff unat_high_bits word_le_nat_alt using r(4) [of "unat x"] by simp
qed

lemma u8_22_23: "22 \<le> x \<and> x \<le> 23 \<longleftrightarrow> x = 22 \<or> x = 23" for x :: u8
proof -
  have "22 \<le> x \<and> x \<le> 23 \<longleftrightarrow> 22 \<le> unat x \<and> unat x \<le> 23" by (simp add: word_le_nat_alt)
  also have "\<dots> \<longleftrightarrow> unat x = 22 \<or> unat x = 23" by auto
  also have "\<dots> \<longleftrightarrow> x = 22 \<or> x = 23" by (simp add: word_unat_eq_iff)
  finally show ?thesis .
qed

text \<open>
  \<^bold>\<open>C31\<close>. User space and kernel agree on the infrastructure addresses: the allowlist that keeps
  addresses out of the FireHOL rules, written with ranges, is the bypass list of the hook,
  written with masks, together with the loopback network 127.0.0.0/8.
\<close>

theorem allowlist_is_kernel_bypass:
  "is_infrastructure_allowlisted_v4 a \<longleftrightarrow> is_github_ipv4 a \<or> a ! 0 = 127"
  unfolding is_infrastructure_allowlisted_v4_def is_github_ipv4_def u8_range_mask u8_22_23
  by (simp; blast)

subsection \<open>What is published\<close>

text \<open>Where an entry goes: the key of its rule, or nothing when it is allowlisted.\<close>

datatype rule_key = Exact4 bytes | Exact6 bytes | Lpm4 u32 bytes | Lpm6 u32 bytes

fun sync_key :: "firehol_ip_target \<Rightarrow> rule_key option" where
  "sync_key (ExactV4 a) = (if is_infrastructure_allowlisted_v4 a then None else Some (Exact4 a))"
| "sync_key (ExactV6 a) = Some (Exact6 a)"
| "sync_key (CidrV4 p a) =
     (if p = 32 then if is_infrastructure_allowlisted_v4 a then None else Some (Exact4 a)
      else if is_infrastructure_cidr_allowlisted_v4 p a then None else Some (Lpm4 p a))"
| "sync_key (CidrV6 p a) = (if p = 128 then Some (Exact6 a) else Some (Lpm6 p a))"

fun rule_at :: "rule_set \<Rightarrow> rule_key \<Rightarrow> rule_value option" where
  "rule_at r (Exact4 a) = map_of (exact_v4 r) a"
| "rule_at r (Exact6 a) = map_of (exact_v6 r) a"
| "rule_at r (Lpm4 p a) = map_of (lpm_rules (lpm_v4 r)) (p, a)"
| "rule_at r (Lpm6 p a) = map_of (lpm_rules (lpm_v6 r)) (p, a)"

abbreviation first_rule :: "firehol_entry list \<Rightarrow> rule_key \<Rightarrow> rule_value option" where
  "first_rule es k \<equiv> map_option (\<lambda>e. rule_drop (fe_rule_id e)) (find (\<lambda>e. sync_key (fe_target e) = Some k) es)"

lemma first_rule_snoc:
  "first_rule (es @ [e]) k =
   (case first_rule es k of Some v \<Rightarrow> Some v
    | None \<Rightarrow> if sync_key (fe_target e) = Some k then Some (rule_drop (fe_rule_id e)) else None)"
  by (induction es) auto

definition booked :: "firehol_entry list \<Rightarrow> prepare_state \<Rightarrow> bool" where
  "booked es st \<longleftrightarrow>
     (let r = ps_rules st; p = ps_report st in
      distinct (map fst (exact_v4 r)) \<and> distinct (map fst (exact_v6 r)) \<and>
      distinct (map fst (lpm_rules (lpm_v4 r))) \<and> distinct (map fst (lpm_rules (lpm_v6 r))) \<and>
      set (ps_seen_v4 st) = fst ` set (lpm_rules (lpm_v4 r)) \<and>
      set (ps_seen_v6 st) = fst ` set (lpm_rules (lpm_v6 r)) \<and>
      sr_exact_v4_count p = length (exact_v4 r) \<and> sr_exact_v6_count p = length (exact_v6 r) \<and>
      sr_lpm_v4_count p = length (lpm_v4 r) \<and> sr_lpm_v6_count p = length (lpm_v6 r) \<and>
      sr_allowlisted_skipped p = length (filter (\<lambda>e. sync_key (fe_target e) = None) es) \<and>
      sr_total_rules p + sr_duplicates_deduped p + sr_allowlisted_skipped p = length es)"

definition prepared :: "firehol_entry list \<Rightarrow> prepare_state \<Rightarrow> bool" where
  "prepared es st \<longleftrightarrow> (\<forall>k. rule_at (ps_rules st) k = first_rule es k) \<and> booked es st"

lemma lpm_rules_simps [simp]:
  "lpm_rules [] = []" "lpm_rules (xs @ [(p, a, v)]) = lpm_rules xs @ [((p, a), v)]"
  by (simp_all add: lpm_rules_def)

lemma map_of_snoc_fresh:
  "k \<notin> fst ` set xs \<Longrightarrow> map_of (xs @ [(k, v)]) = (map_of xs)(k \<mapsto> v)"
  by (induction xs) (auto simp: fun_eq_iff)

lemma length_update_fresh: "map_of xs k = None \<Longrightarrow> length (AList.update k v xs) = Suc (length xs)"
  by (induction xs) (auto split: if_splits)

lemma prepared_start: "prepared [] prepare_start"
proof -
  have "rule_at rs_new k = None" for k by (cases k) (simp_all add: rs_new_def)
  then show ?thesis
    by (simp add: prepared_def booked_def prepare_start_def sync_report_default_def sr_total_rules_def)
      (simp add: rs_new_def)
qed

lemma rule_at_simps [simp]:
  "rule_at (r\<lparr>exact_v4 := x\<rparr>) k = (case k of Exact4 a \<Rightarrow> map_of x a | _ \<Rightarrow> rule_at r k)"
  "rule_at (r\<lparr>exact_v6 := x\<rparr>) k = (case k of Exact6 a \<Rightarrow> map_of x a | _ \<Rightarrow> rule_at r k)"
  "rule_at (r\<lparr>lpm_v4 := y\<rparr>) k = (case k of Lpm4 p a \<Rightarrow> map_of (lpm_rules y) (p, a) | _ \<Rightarrow> rule_at r k)"
  "rule_at (r\<lparr>lpm_v6 := y\<rparr>) k = (case k of Lpm6 p a \<Rightarrow> map_of (lpm_rules y) (p, a) | _ \<Rightarrow> rule_at r k)"
  by (cases k; simp)+

text \<open>The step as one operation on the key of the entry.\<close>

definition put_rule :: "rule_key \<Rightarrow> rule_value \<Rightarrow> prepare_state \<Rightarrow> prepare_state" where
  "put_rule k v st =
     (let r = ps_rules st; p = ps_report st in
      case k of
        Exact4 a \<Rightarrow> st\<lparr>ps_rules := r\<lparr>exact_v4 := AList.update a v (exact_v4 r)\<rparr>,
                       ps_report := p\<lparr>sr_exact_v4_count := sr_exact_v4_count p + 1\<rparr>\<rparr>
      | Exact6 a \<Rightarrow> st\<lparr>ps_rules := r\<lparr>exact_v6 := AList.update a v (exact_v6 r)\<rparr>,
                       ps_report := p\<lparr>sr_exact_v6_count := sr_exact_v6_count p + 1\<rparr>\<rparr>
      | Lpm4 n a \<Rightarrow> st\<lparr>ps_seen_v4 := (n, a) # ps_seen_v4 st, ps_rules := r\<lparr>lpm_v4 := lpm_v4 r @ [(n, a, v)]\<rparr>,
                       ps_report := p\<lparr>sr_lpm_v4_count := sr_lpm_v4_count p + 1\<rparr>\<rparr>
      | Lpm6 n a \<Rightarrow> st\<lparr>ps_seen_v6 := (n, a) # ps_seen_v6 st, ps_rules := r\<lparr>lpm_v6 := lpm_v6 r @ [(n, a, v)]\<rparr>,
                       ps_report := p\<lparr>sr_lpm_v6_count := sr_lpm_v6_count p + 1\<rparr>\<rparr>)"

lemma prepare_entry_eq:
  assumes "prepared es st"
  shows "prepare_entry e st =
    (case sync_key (fe_target e) of
       None \<Rightarrow> skip_entry st
     | Some k \<Rightarrow> if rule_at (ps_rules st) k = None then put_rule k (rule_drop (fe_rule_id e)) st else dup_entry st)"
proof -
  have "set (ps_seen_v4 st) = fst ` set (lpm_rules (lpm_v4 (ps_rules st)))"
    "set (ps_seen_v6 st) = fst ` set (lpm_rules (lpm_v6 (ps_rules st)))"
    using assms by (auto simp: prepared_def booked_def Let_def)
  then have seen: "x \<notin> set (ps_seen_v4 st) \<longleftrightarrow> map_of (lpm_rules (lpm_v4 (ps_rules st))) x = None"
    "x \<notin> set (ps_seen_v6 st) \<longleftrightarrow> map_of (lpm_rules (lpm_v6 (ps_rules st))) x = None" for x
    by (simp_all add: map_of_eq_None_iff)
  show ?thesis
    by (cases "fe_target e")
      (simp_all add: prepare_entry_def put_exact_v4_def put_exact_v6_def put_rule_def Let_def seen)
qed

lemma prepared_put:
  assumes "prepared es st" "sync_key (fe_target e) = Some k" "rule_at (ps_rules st) k = None"
  shows "prepared (es @ [e]) (put_rule k (rule_drop (fe_rule_id e)) st)"
proof -
  have fr: "first_rule es k = None" using assms(1,3) by (simp add: prepared_def)
  have r: "rule_at (ps_rules (put_rule k (rule_drop (fe_rule_id e)) st)) j =
      (if j = k then Some (rule_drop (fe_rule_id e)) else rule_at (ps_rules st) j)" for j
    using assms(3)
    by (cases k; cases j) (auto simp: put_rule_def Let_def update_conv' map_of_eq_None_iff map_of_snoc_fresh simp del: map_of_append)
  have "first_rule (es @ [e]) j = (if j = k then Some (rule_drop (fe_rule_id e)) else first_rule es j)" for j
    using fr assms(2) by (auto simp: first_rule_snoc split: option.splits)
  then have "rule_at (ps_rules (put_rule k (rule_drop (fe_rule_id e)) st)) j = first_rule (es @ [e]) j" for j
    using r assms(1) by (simp add: prepared_def)
  moreover have "booked (es @ [e]) (put_rule k (rule_drop (fe_rule_id e)) st)"
    using assms(2,3) conjunct2 [OF assms(1) [unfolded prepared_def]]
    by (cases k)
      (auto simp: put_rule_def booked_def Let_def sr_total_rules_def distinct_update length_update_fresh
        map_of_eq_None_iff)
  ultimately show ?thesis by (simp add: prepared_def)
qed

lemma prepared_step:
  assumes "prepared es st"
  shows "prepared (es @ [e]) (prepare_entry e st)"
proof (cases "sync_key (fe_target e)")
  case None
  then show ?thesis
    using assms unfolding prepare_entry_eq [OF assms]
    by (simp add: prepared_def booked_def Let_def skip_entry_def first_rule_snoc sr_total_rules_def split: option.splits)
next
  case (Some k)
  show ?thesis
  proof (cases "rule_at (ps_rules st) k = None")
    case True
    then show ?thesis using Some prepared_put [OF assms Some True] by (simp add: prepare_entry_eq [OF assms])
  next
    case False
    then have "first_rule es k \<noteq> None" using assms by (simp add: prepared_def)
    then have "first_rule (es @ [e]) j = first_rule es j" for j
      using Some by (auto simp: first_rule_snoc split: option.splits)
    moreover have "prepare_entry e st = dup_entry st" using Some False by (auto simp: prepare_entry_eq [OF assms])
    ultimately show ?thesis
      using assms Some by (simp add: prepared_def booked_def Let_def dup_entry_def sr_total_rules_def)
  qed
qed

lemma visit_prepare:
  assumes "prepared ds st"
  shows "\<exists>st'. visit_each (\<lambda>e st. Inr (prepare_entry e st)) es st = Inr st' \<and> prepared (ds @ es) st'"
  using assms
proof (induction es arbitrary: ds st)
  case (Cons e es)
  from Cons.IH [OF prepared_step [OF Cons.prems, of e]] show ?case by simp
qed simp

lemma try_prepare_prepared:
  assumes "ds_stored_entries d = None"
  shows "\<exists>st. prepared (ds_entries d) st \<and>
    try_prepare_rules d = Inr ((ps_rules st)\<lparr>total_rules := rs_count (ps_rules st),
      skipped_rules := sr_duplicates_deduped (ps_report st)\<rparr>, ps_report st)"
proof -
  obtain st where "visit_each (\<lambda>e st. Inr (prepare_entry e st)) (ds_entries d) prepare_start = (Inr st :: cache_error + prepare_state)"
    "prepared (ds_entries d) st"
    using visit_prepare [OF prepared_start] by auto
  then show ?thesis using assms by (auto simp: try_prepare_rules_def visit_entries_def)
qed

text \<open>
  \<^bold>\<open>C32\<close>. Deduplication keeps the first rule of every target.  The prepared rule set holds,
  under each exact address and each network, the drop rule of the first entry for
  it that is not allowlisted, and nothing else; the reported counters are the sizes
  of the four rule collections, and together with the duplicates and the skipped entries
  they add up to the number of entries visited.
\<close>

theorem prepare_rules_first:
  assumes "ds_stored_entries d = None"
  shows "\<exists>r p. prepare_rules d = Ok (r, p) \<and>
    (\<forall>k. rule_at r k = map_option (\<lambda>e. rule_drop (fe_rule_id e))
        (find (\<lambda>e. sync_key (fe_target e) = Some k) (ds_entries d))) \<and>
    sr_exact_v4_count p = length (exact_v4 r) \<and> sr_exact_v6_count p = length (exact_v6 r) \<and>
    sr_lpm_v4_count p = length (lpm_v4 r) \<and> sr_lpm_v6_count p = length (lpm_v6 r) \<and>
    total_rules r = sr_total_rules p \<and> skipped_rules r = sr_duplicates_deduped p \<and>
    total_rules r + sr_duplicates_deduped p + sr_allowlisted_skipped p = length (ds_entries d) \<and>
    sr_allowlisted_skipped p = length (filter (\<lambda>e. sync_key (fe_target e) = None) (ds_entries d))"
proof -
  obtain st where st: "prepared (ds_entries d) st"
    "try_prepare_rules d = Inr ((ps_rules st)\<lparr>total_rules := rs_count (ps_rules st),
       skipped_rules := sr_duplicates_deduped (ps_report st)\<rparr>, ps_report st)"
    using try_prepare_prepared [OF assms] by blast
  let ?r = "(ps_rules st)\<lparr>total_rules := rs_count (ps_rules st), skipped_rules := sr_duplicates_deduped (ps_report st)\<rparr>"
  have "rule_at ?r k = rule_at (ps_rules st) k" for k by (cases k) simp_all
  then have "\<forall>k. rule_at ?r k = first_rule (ds_entries d) k" using st(1) by (simp add: prepared_def)
  moreover have "booked (ds_entries d) st" using st(1) by (simp add: prepared_def)
  ultimately show ?thesis
    by (intro exI [of _ ?r] exI [of _ "ps_report st"] conjI)
      (simp_all add: prepare_rules_def st(2) booked_def Let_def rs_count_def sr_total_rules_def)
qed

definition sync_demo :: firehol_dataset where
  "sync_demo = \<lparr>ds_entries = [entry_new (ExactV4 [192, 0, 2, 1]) 1 1 7, entry_new (CidrV4 32 [192, 0, 2, 1]) 2 1 8,
      entry_new (ExactV4 [127, 0, 0, 1]) 3 1 9, entry_new (CidrV4 8 [10, 0, 0, 0]) 4 1 10],
    ds_stored_entries = None, ds_total_files = 1, ds_total_bytes = 40, ds_exact_v4_count = 2,
    ds_exact_v6_count = 0, ds_lpm_v4_count = 2, ds_lpm_v6_count = 0\<rparr>"

theorem prepare_rules_first_witness:
  "\<exists>r p. prepare_rules sync_demo = Ok (r, p) \<and> rule_at r (Exact4 [192, 0, 2, 1]) = Some (rule_drop 1) \<and>
     sr_allowlisted_skipped p = 1 \<and> rule_at r (Exact4 [127, 0, 0, 1]) = None"
proof -
  have n: "ds_stored_entries sync_demo = None" by (simp add: sync_demo_def)
  obtain r p where rp: "prepare_rules sync_demo = Ok (r, p)"
    "\<forall>k. rule_at r k = first_rule (ds_entries sync_demo) k"
    "sr_allowlisted_skipped p = length (filter (\<lambda>e. sync_key (fe_target e) = None) (ds_entries sync_demo))"
    using prepare_rules_first [OF n] by blast
  have "first_rule (ds_entries sync_demo) (Exact4 [192, 0, 2, 1]) = Some (rule_drop 1)"
    "first_rule (ds_entries sync_demo) (Exact4 [127, 0, 0, 1]) = None"
    "length (filter (\<lambda>e. sync_key (fe_target e) = None) (ds_entries sync_demo)) = 1"
    by (simp_all add: sync_demo_def entry_new_def is_infrastructure_allowlisted_v4_def
      is_infrastructure_cidr_allowlisted_v4_def)
  with rp show ?thesis by metis
qed

subsection \<open>The addresses the published rules block\<close>

lemma rule_at_dom:
  "a \<in> fst ` set (exact_v4 r) \<longleftrightarrow> rule_at r (Exact4 a) \<noteq> None"
  "a \<in> fst ` set (exact_v6 r) \<longleftrightarrow> rule_at r (Exact6 a) \<noteq> None"
  "(p, a) \<in> fst ` set (lpm_rules (lpm_v4 r)) \<longleftrightarrow> rule_at r (Lpm4 p a) \<noteq> None"
  "(p, a) \<in> fst ` set (lpm_rules (lpm_v6 r)) \<longleftrightarrow> rule_at r (Lpm6 p a) \<noteq> None"
  by (simp_all add: map_of_eq_None_iff del: not_None_eq)

lemma first_rule_dom: "first_rule es k \<noteq> None \<longleftrightarrow> (\<exists>e \<in> set es. sync_key (fe_target e) = Some k)"
  by (auto simp: find_None_iff simp del: not_None_eq)

lemma lpm_blocks:
  "(\<exists>x \<in> set xs. same_prefix (unat (fst x)) (fst (snd x)) a) \<longleftrightarrow>
   (\<exists>p b. (p, b) \<in> fst ` set (lpm_rules xs) \<and> same_prefix (unat p) b a)"
  by (force simp: lpm_rules_def image_iff)

lemma covers_by_key:
  assumes "wf_target t"
  shows "length a = 4 \<Longrightarrow> covers t (V4 a) \<and> sync_key t \<noteq> None \<longleftrightarrow>
      sync_key t = Some (Exact4 a) \<or> (\<exists>p b. sync_key t = Some (Lpm4 p b) \<and> same_prefix (unat p) b a)"
    and "length c = 16 \<Longrightarrow> covers t (V6 c) \<and> sync_key t \<noteq> None \<longleftrightarrow>
      sync_key t = Some (Exact6 c) \<or> (\<exists>p b. sync_key t = Some (Lpm6 p b) \<and> same_prefix (unat p) b c)"
proof -
  show "covers t (V4 a) \<and> sync_key t \<noteq> None \<longleftrightarrow>
      sync_key t = Some (Exact4 a) \<or> (\<exists>p b. sync_key t = Some (Lpm4 p b) \<and> same_prefix (unat p) b a)"
    if "length a = 4"
    using assms that same_prefix_full [of _ a 32] by (cases t) auto
  show "covers t (V6 c) \<and> sync_key t \<noteq> None \<longleftrightarrow>
      sync_key t = Some (Exact6 c) \<or> (\<exists>p b. sync_key t = Some (Lpm6 p b) \<and> same_prefix (unat p) b c)"
    if "length c = 16"
    using assms that same_prefix_full [of _ c 128] by (cases t) auto
qed

lemma prepared_blocks:
  assumes "\<forall>k. rule_at r k = first_rule es k" "\<forall>e \<in> set es. wf_target (fe_target e)" "wf_ip ip"
  shows "rs_blocks r ip \<longleftrightarrow> (\<exists>e \<in> set es. covers (fe_target e) ip \<and> sync_key (fe_target e) \<noteq> None)"
proof (cases ip)
  case (V4 a)
  have "rs_blocks r ip \<longleftrightarrow> first_rule es (Exact4 a) \<noteq> None \<or>
      (\<exists>p b. first_rule es (Lpm4 p b) \<noteq> None \<and> same_prefix (unat p) b a)"
    unfolding V4 rs_blocks.simps lpm_blocks rule_at_dom using assms(1) by metis
  also have "\<dots> \<longleftrightarrow> (\<exists>e \<in> set es. sync_key (fe_target e) = Some (Exact4 a) \<or>
      (\<exists>p b. sync_key (fe_target e) = Some (Lpm4 p b) \<and> same_prefix (unat p) b a))"
    unfolding first_rule_dom by blast
  finally show ?thesis using covers_by_key(1) [of _ a] assms(2,3) V4 by auto
next
  case (V6 a)
  have "rs_blocks r ip \<longleftrightarrow> first_rule es (Exact6 a) \<noteq> None \<or>
      (\<exists>p b. first_rule es (Lpm6 p b) \<noteq> None \<and> same_prefix (unat p) b a)"
    unfolding V6 rs_blocks.simps lpm_blocks rule_at_dom using assms(1) by metis
  also have "\<dots> \<longleftrightarrow> (\<exists>e \<in> set es. sync_key (fe_target e) = Some (Exact6 a) \<or>
      (\<exists>p b. sync_key (fe_target e) = Some (Lpm6 p b) \<and> same_prefix (unat p) b a))"
    unfolding first_rule_dom by blast
  finally show ?thesis using covers_by_key(2) [of _ a] assms(2,3) V6 by auto
qed

lemma sync_key_wf:
  assumes "wf_target t" "canonical_target t" "sync_key t = Some k"
  shows "case k of Exact4 a \<Rightarrow> length a = 4 | Exact6 a \<Rightarrow> length a = 16
    | Lpm4 p a \<Rightarrow> net_key 4 (p, a) | Lpm6 p a \<Rightarrow> net_key 16 (p, a)"
  using assms by (cases t) (auto simp: net_key_def net_addr_canonical split: if_splits)

lemma prepared_rules_ok:
  assumes "prepared es st" "\<forall>e \<in> set es. wf_target (fe_target e) \<and> canonical_target (fe_target e)"
  shows "rules_ok (ps_rules st)"
proof -
  let ?r = "ps_rules st"
  have key: "case k of Exact4 a \<Rightarrow> length a = 4 | Exact6 a \<Rightarrow> length a = 16
    | Lpm4 p a \<Rightarrow> net_key 4 (p, a) | Lpm6 p a \<Rightarrow> net_key 16 (p, a)" if "rule_at ?r k \<noteq> None" for k
  proof -
    have "first_rule es k \<noteq> None" using that assms(1) by (simp add: prepared_def)
    then obtain e where "e \<in> set es" "sync_key (fe_target e) = Some k" unfolding first_rule_dom by blast
    then show ?thesis using assms(2) sync_key_wf by blast
  qed
  have e: "length a = 4" if "a \<in> fst ` set (exact_v4 ?r)" for a
    using key [of "Exact4 a"] that unfolding rule_at_dom by simp
  have f: "length a = 16" if "a \<in> fst ` set (exact_v6 ?r)" for a
    using key [of "Exact6 a"] that unfolding rule_at_dom by simp
  have g: "net_key 4 k" if "k \<in> fst ` set (lpm_rules (lpm_v4 ?r))" for k
    using key [of "Lpm4 (fst k) (snd k)"] that rule_at_dom(3) [of "fst k" "snd k" ?r] by simp
  have h: "net_key 16 k" if "k \<in> fst ` set (lpm_rules (lpm_v6 ?r))" for k
    using key [of "Lpm6 (fst k) (snd k)"] that rule_at_dom(4) [of "fst k" "snd k" ?r] by simp
  have l: "lpm_entry n x" if "net_key n (fst x, fst (snd x))" for n x
    using that by (simp add: net_key_def lpm_entry_def)
  have i: "(fst x, fst (snd x)) \<in> fst ` set (lpm_rules xs)" if "x \<in> set xs" for x xs
    using that by (induction xs) (auto simp: lpm_rules_def)
  have "distinct (map fst (exact_v4 ?r))" "distinct (map fst (exact_v6 ?r))"
    using assms(1) by (simp_all add: prepared_def booked_def Let_def)
  moreover have "list_all (lpm_entry 4) (lpm_v4 ?r)" "list_all (lpm_entry 16) (lpm_v6 ?r)"
    using l [OF g [OF i]] l [OF h [OF i]] by (simp_all add: list_all_iff)
  ultimately show ?thesis
    using e f g h by (simp add: rules_ok_def wf_rules_def list_all_iff)
qed

text \<open>The rule set and report of a list of entries.\<close>

definition rules_of_entries :: "firehol_entry list \<Rightarrow> rule_set \<times> firehol_sync_report" where
  "rules_of_entries es =
     (let st = fold prepare_entry es prepare_start in
      ((ps_rules st)\<lparr>total_rules := rs_count (ps_rules st), skipped_rules := sr_duplicates_deduped (ps_report st)\<rparr>,
       ps_report st))"

lemma visit_prepare_fold: "visit_each (\<lambda>e st. Inr (prepare_entry e st)) es st = Inr (fold prepare_entry es st)"
  by (induction es arbitrary: st) simp_all

lemma try_prepare_visits:
  assumes "\<And>f. visit_entries d f prepare_start = visit_each f es prepare_start"
  shows "try_prepare_rules d = Inr (rules_of_entries es)"
  unfolding try_prepare_rules_def assms visit_prepare_fold by (simp add: rules_of_entries_def Let_def)

lemma prepared_fold: "prepared es (fold prepare_entry es prepare_start)"
  using visit_prepare [OF prepared_start, of es] by (simp add: visit_prepare_fold)

lemma rules_of_entries_at: "rule_at (fst (rules_of_entries es)) k = first_rule es k"
  using prepared_fold [of es] by (cases k) (auto simp: prepared_def rules_of_entries_def Let_def dest: spec [of _ k])

lemma entries_published:
  assumes "aya_env A einv4 einv6 econtent linv4 linv6 lcontent lookup"
    and "mm_invar einv4 einv6 linv4 linv6 mm" "mm_reflects econtent lcontent mm s f"
    and "\<forall>e \<in> set es. wf_target (fe_target e) \<and> canonical_target (fe_target e)"
    and "rules_of_entries es = (r, p)" "disjoint_rules s r" "rules_fit s f r"
  shows "(\<exists>removed mm'. load_into_maps A mm r p = (p\<lparr>sr_map_report := report_of removed r\<rparr>, mm') \<and>
      mm_invar einv4 einv6 linv4 linv6 mm' \<and> mm_reflects econtent lcontent mm' s r)"
    and "wf_ip ip \<Longrightarrow> rs_blocks r ip \<longleftrightarrow> (\<exists>e \<in> set es. covers (fe_target e) ip \<and> sync_key (fe_target e) \<noteq> None)"
proof -
  have "rules_ok r"
    using prepared_rules_ok [OF prepared_fold assms(4)] assms(5)
    by (auto simp: rules_of_entries_def Let_def rules_ok_def wf_rules_def)
  from aya_env.sync_firehol_holds [OF assms(1-3) this assms(6,7)]
  show "\<exists>removed mm'. load_into_maps A mm r p = (p\<lparr>sr_map_report := report_of removed r\<rparr>, mm') \<and>
      mm_invar einv4 einv6 linv4 linv6 mm' \<and> mm_reflects econtent lcontent mm' s r"
    by (auto simp: load_into_maps_def)
  have "\<forall>k. rule_at r k = first_rule es k" using rules_of_entries_at [of es] assms(5) by simp
  then show "wf_ip ip \<Longrightarrow> rs_blocks r ip \<longleftrightarrow> (\<exists>e \<in> set es. covers (fe_target e) ip \<and> sync_key (fe_target e) \<noteq> None)"
    using prepared_blocks assms(4) by blast
qed

text \<open>
  Publication of a FireHOL data set.  For well-formed entries over network addresses,
  prepared and loaded into maps that have room and share no key with the static
  rules, the maps afterwards hold exactly the static rules and the prepared ones; these block an
  address if and only if some entry that is not allowlisted covers it.
\<close>

lemma firehol_published:
  assumes "aya_env A einv4 einv6 econtent linv4 linv6 lcontent lookup"
    and "mm_invar einv4 einv6 linv4 linv6 mm" "mm_reflects econtent lcontent mm s f"
    and "ds_stored_entries d = None"
    and "\<forall>e \<in> set (ds_entries d). wf_target (fe_target e) \<and> canonical_target (fe_target e)"
    and "prepare_rules d = Ok (r, p)" "disjoint_rules s r" "rules_fit s f r" "wf_ip ip"
  shows "(\<exists>removed mm'. load_into_maps A mm r p = (p\<lparr>sr_map_report := report_of removed r\<rparr>, mm') \<and>
      mm_invar einv4 einv6 linv4 linv6 mm' \<and> mm_reflects econtent lcontent mm' s r) \<and>
    (rs_blocks r ip \<longleftrightarrow> (\<exists>e \<in> set (ds_entries d). covers (fe_target e) ip \<and> sync_key (fe_target e) \<noteq> None))"
proof -
  have "visit_entries d f prepare_start = visit_each f (ds_entries d) prepare_start" for f
    using assms(4) by (simp add: visit_entries_def)
  then have "rules_of_entries (ds_entries d) = (r, p)"
    using assms(6) try_prepare_visits [of d "ds_entries d"] by (simp add: prepare_rules_def)
  from entries_published [OF assms(1-3,5) this assms(7,8)] assms(9) show ?thesis by blast
qed

lemma firehol_published_example:
  "\<exists>r p removed mm'. prepare_rules sync_demo = Ok (r, p) \<and>
     load_into_maps table_aya table_manager r p = (p\<lparr>sr_map_report := report_of removed r\<rparr>, mm') \<and>
     rs_blocks r (V4 [10, 1, 2, 3])"
proof -
  define r where "r = rs_new\<lparr>exact_v4 := [([192, 0, 2, 1], rule_drop 1)],
    lpm_v4 := [(8, [10, 0, 0, 0], rule_drop 4)], total_rules := 2, skipped_rules := 1\<rparr>"
  have "case prepare_rules sync_demo of Ok (r', p) \<Rightarrow> r' = r | _ \<Rightarrow> False" unfolding r_def by code_simp
  then obtain p where p: "prepare_rules sync_demo = Ok (r, p)" by (auto split: outcome.splits prod.splits)
  have d: "ds_stored_entries sync_demo = None" "\<forall>e \<in> set (ds_entries sync_demo). wf_target (fe_target e) \<and> canonical_target (fe_target e)"
    by (simp_all add: sync_demo_def entry_new_def net_addr_def upt_rec)
  have fit: "disjoint_rules rs_new r" "rules_fit rs_new rs_new r"
    by (simp_all add: disjoint_rules_def rules_fit_def room_def r_def rs_new_def lpm_rules_def fw_consts)
  have "same_prefix 8 [10, 0, 0, 0] [10, 1, 2, 3]"
    by (simp add: same_prefix_net_addr net_addr_def upt_rec)
  then have "rs_blocks r (V4 [10, 1, 2, 3])" by (simp add: r_def)
  with firehol_published [OF tables_env table_manager_start d p fit, of "V4 [10, 1, 2, 3]"] p
  show ?thesis by auto
qed

end
