(* ===== verification/Firehol_Blocklist.thy ===== *)
theory Firehol_Blocklist
  imports Git_Repo Firehol_Worker Firehol_Sync Fw_Metrics
begin

section \<open>Reloading the FireHOL lists\<close>

text \<open>
  Models the coordinator of \<open>src/firehol/blocklist.rs\<close> and the job of \<open>src/firehol/scheduler.rs\<close>
  on top of the components they call: synchronise the checkout, import its list files into a
  fresh generation of the cache or into memory, prepare the rules, load them into the kernel
  maps, and only then publish the registry and the commit.  What the threads of one import
  do is the record \<open>import_run\<close> (the listing of the directory, the batches the consumer
  receives, what each worker returns); the import itself is that of \<open>Firehol_Import\<close>.
\<close>

subsection \<open>Importing a directory\<close>

record 'db import_run =
  ir_generation :: "cache_error + 'db"
  ir_is_dir :: bool
  ir_listing :: "dir_entry option list option"
  ir_batches :: "firehol_entry list list"
  ir_workers :: "(firehol_parse_error + worker_output) option list"
  ir_next_metadata_id :: nat

definition dataset_default :: firehol_dataset where
  "dataset_default = \<lparr>ds_entries = [], ds_stored_entries = None, ds_total_files = 0, ds_total_bytes = 0,
     ds_exact_v4_count = 0, ds_exact_v6_count = 0, ds_lpm_v4_count = 0, ds_lpm_v6_count = 0\<rparr>"

definition batch_limit :: "(string \<times> nat) list \<Rightarrow> nat" where
  "batch_limit files = min (min (8 * sum_list (map snd files)) (2 ^ 64 - 1)) MAX_IMPORT_BATCH_BYTES"

definition run_import ::
  "'db rocks_ops \<Rightarrow> bool \<Rightarrow> 'db option \<Rightarrow> (string \<times> nat) list \<Rightarrow> 'db import_run \<Rightarrow>
   (firehol_parse_error, firehol_dataset \<times> 'db registry) outcome" where
  "run_import R spool cache files run =
     (let start = \<lparr>im_sequence = 0, im_writer = map_option (\<lambda>db. bulk_new db (batch_limit files)) cache, im_entries = []\<rparr>;
          consumed = consume_all R spool (ir_batches run) start
      in case join_workers (case consumed of Inl e \<Rightarrow> Some e | Inr _ \<Rightarrow> None) (ir_workers run) of
           Inl e \<Rightarrow> Err e
         | Inr js \<Rightarrow>
             (case consumed of
                Inl e \<Rightarrow> Err e
              | Inr st \<Rightarrow>
                  (case finish_import R spool st js (ir_next_metadata_id run) of
                     Ok r \<Rightarrow> Ok r | Err _ \<Rightarrow> Err Cache_Failed | Fault \<Rightarrow> Fault)))"

definition parse_directory_impl ::
  "'db rocks_ops \<Rightarrow> string \<Rightarrow> bool \<Rightarrow> bool \<Rightarrow> 'db import_run \<Rightarrow>
   (firehol_parse_error, firehol_dataset \<times> 'db registry) outcome" where
  "parse_directory_impl R dir with_cache spool run =
     (case (if with_cache then map_sum id Some (ir_generation run) else Inr None) of
        Inl _ \<Rightarrow> Err Cache_Failed
      | Inr cache \<Rightarrow>
          if \<not> ir_is_dir run then Err (InvalidDirectory dir)
          else
            (case discover_files dir (ir_listing run) of
               Inl e \<Rightarrow> Err e
             | Inr files \<Rightarrow>
                 if files = [] then Ok (dataset_default, rg_new)
                 else run_import R spool cache files run))"

subsection \<open>The coordinator\<close>

datatype blocklist_error =
    Git_Failed git_repo_error
  | Parsing_Failed firehol_parse_error
  | No_Entries
  | Cache_Error cache_error

record firehol_config =
  fc_repo_url :: string
  fc_local_path :: string
  fc_default_branch :: string
  fc_enabled :: bool
  fc_ignore_ips :: "ip_addr list"

record ('r, 'db) blocklist =
  bl_config :: firehol_config
  bl_git :: "'r git_repository"
  bl_has_cache :: bool
  bl_active_registry :: "'db registry"
  bl_last_loaded_commit :: "oid option"
  bl_last_loaded_commit_time :: "int option"

definition bl_new :: "firehol_config \<Rightarrow> bool \<Rightarrow> ('r, 'db) blocklist" where
  "bl_new config cache = \<lparr>bl_config = config, bl_git = git_new, bl_has_cache = cache, bl_active_registry = rg_new,
     bl_last_loaded_commit = None, bl_last_loaded_commit_time = None\<rparr>"

definition has_active_rules :: "('r, 'db) blocklist \<Rightarrow> bool" where
  "has_active_rules bl = (\<not> rg_is_empty (bl_active_registry bl))"

definition bl_resolve_rule :: "('r, 'db) blocklist \<Rightarrow> u32 \<Rightarrow> firehol_rule_info option" where
  "bl_resolve_rule bl rule_id =
     map_option (\<lambda>r. \<lparr>ri_rule_id = rule_id, ri_metadata_id = be_metadata_id r, ri_category = be_category r, ri_line = be_line r\<rparr>)
       (resolve_rule (bl_active_registry bl) rule_id)"

fun status_commit :: "sync_status \<Rightarrow> oid \<times> int" where
  "status_commit (Cloned oid t) = (oid, t)"
| "status_commit (Updated oid t) = (oid, t)"
| "status_commit (UpToDate oid t) = (oid, t)"

text \<open>The reload is skipped when the commit is the loaded one and rules are active.\<close>

definition skips_reload :: "bool \<Rightarrow> sync_status \<Rightarrow> ('r, 'db) blocklist \<Rightarrow> bool" where
  "skips_reload is_startup status bl =
     (case status of
        UpToDate oid _ \<Rightarrow> \<not> is_startup \<and> bl_last_loaded_commit bl = Some oid \<and> has_active_rules bl
      | _ \<Rightarrow> False)"

text \<open>Discarding the spool: the registry and the data set share the database.\<close>

definition drop_spool :: "'db rocks_ops \<Rightarrow> firehol_dataset \<Rightarrow> 'db registry \<Rightarrow> cache_error + 'db registry" where
  "drop_spool R d reg =
     (case (ds_stored_entries d, rg_cache reg) of
        (Some _, Some db) \<Rightarrow> (case clear_entries R db of Inl e \<Rightarrow> Inl e | Inr db' \<Rightarrow> Inr (reg\<lparr>rg_cache := Some db'\<rparr>))
      | _ \<Rightarrow> Inr reg)"

text \<open>From the parsed data set to the published registry.\<close>

definition publish ::
  "('o, 'e, 'l, 's) aya \<Rightarrow> 'db rocks_ops \<Rightarrow> oid \<times> int \<Rightarrow> firehol_dataset \<times> 'db registry \<Rightarrow>
   ('r, 'db) blocklist \<times> ('e, 'l, 's) map_manager option \<Rightarrow>
   (blocklist_error, firehol_sync_report) outcome \<times> ('r, 'db) blocklist \<times> ('e, 'l, 's) map_manager option" where
  "publish A R commit dr bm =
     (let (d, reg) = dr; (bl, mgr) = bm in
      if ds_is_empty d then (Err No_Entries, bl, mgr)
      else
        (case try_prepare_rules d of
           Inl e \<Rightarrow> (Err (Cache_Error e), bl, mgr)
         | Inr (rules, draft) \<Rightarrow>
             (case drop_spool R d reg of
                Inl e \<Rightarrow> (Err (Cache_Error e), bl, mgr)
              | Inr reg \<Rightarrow>
                  let (report, mgr) = (case mgr of
                        Some mm \<Rightarrow> (let (rep, mm) = load_into_maps A mm rules draft in (rep, Some mm))
                      | None \<Rightarrow> (draft, None))
                  in (Ok report,
                      bl\<lparr>bl_active_registry := reg, bl_last_loaded_commit := Some (fst commit),
                         bl_last_loaded_commit_time := Some (snd commit)\<rparr>, mgr))))"

definition synchronize_and_load_internal ::
  "('w, 'r) git_ops \<Rightarrow> ('o, 'e, 'l, 's) aya \<Rightarrow> 'db rocks_ops \<Rightarrow> ('w \<Rightarrow> 'db import_run) \<Rightarrow> bool \<Rightarrow>
   ('r, 'db) blocklist \<times> ('e, 'l, 's) map_manager option \<times> git_metrics option \<times> 'w \<Rightarrow>
   (blocklist_error, firehol_sync_report) outcome \<times>
   ('r, 'db) blocklist \<times> ('e, 'l, 's) map_manager option \<times> git_metrics option \<times> 'w" where
  "synchronize_and_load_internal G A R runs is_startup = (\<lambda>(bl, mgr, gm, w).
     let cfg = bl_config bl in
     case git_synchronize G (fc_local_path cfg) (fc_repo_url cfg) (fc_default_branch cfg) (bl_git bl, gm, w) of
       (Inl e, git, gm, w) \<Rightarrow> (Err (Git_Failed e), bl\<lparr>bl_git := git\<rparr>, mgr, gm, w)
     | (Inr status, git, gm, w) \<Rightarrow>
         let bl = bl\<lparr>bl_git := git\<rparr> in
         if skips_reload is_startup status bl then (Ok sync_report_default, bl, mgr, gm, w)
         else
           (case parse_directory_impl R (fc_local_path cfg) (bl_has_cache bl) True (runs w) of
              Err e \<Rightarrow> (Err (Parsing_Failed e), bl, mgr, gm, w)
            | Fault \<Rightarrow> (Fault, bl, mgr, gm, w)
            | Ok dr \<Rightarrow>
                (case publish A R (status_commit status) dr (bl, mgr) of (res, bl, mgr) \<Rightarrow> (res, bl, mgr, gm, w))))"

subsection \<open>The scheduled job\<close>

datatype firehol_sync_outcome =
    Sync_Updated firehol_sync_report
  | Sync_UpToDate oid
  | SkippedAlreadyRunning

text \<open>
  \<open>locked\<close> is whether another job holds the lock when this one tries; a start waits for it.
  Time stamps and durations are left out.
\<close>

definition execute_firehol_sync ::
  "('w, 'r) git_ops \<Rightarrow> ('o, 'e, 'l, 's) aya \<Rightarrow> 'db rocks_ops \<Rightarrow> 'v counter_vec_ops \<Rightarrow> 'g gauge_vec_ops \<Rightarrow>
   ('w \<Rightarrow> 'db import_run) \<Rightarrow> bool \<Rightarrow> bool \<Rightarrow>
   ('v, 'g) prometheus_metrics option \<times> ('r, 'db) blocklist \<times> ('e, 'l, 's) map_manager option \<times> git_metrics option \<times> 'w \<Rightarrow>
   (blocklist_error, firehol_sync_outcome) outcome \<times>
   ('v, 'g) prometheus_metrics option \<times> ('r, 'db) blocklist \<times> ('e, 'l, 's) map_manager option \<times> git_metrics option \<times> 'w" where
  "execute_firehol_sync G A R V Q runs is_startup locked = (\<lambda>(m, st).
     if \<not> is_startup \<and> locked
     then (Ok SkippedAlreadyRunning, map_option (\<lambda>m. m\<lparr>pm_cron_skipped := pm_cron_skipped m + 1\<rparr>) m, st)
     else
       let m = (if is_startup then m else map_option (\<lambda>m. m\<lparr>pm_cron_executions := pm_cron_executions m + 1\<rparr>) m);
           (res, st) = synchronize_and_load_internal G A R runs is_startup st;
           bl = fst st
       in case res of
            Fault \<Rightarrow> (Fault, m, st)
          | Err err \<Rightarrow>
              (Err err,
               map_option (\<lambda>m. record_error V ''firehol_sync_failed''
                 (m\<lparr>pm_cron_failures := (if is_startup then pm_cron_failures m else pm_cron_failures m + 1),
                    pm_cron_last_error := 1\<rparr>)) m, st)
          | Ok report \<Rightarrow>
              if sr_total_rules report = 0 \<and> has_active_rules bl
              then (Ok (Sync_UpToDate (case bl_last_loaded_commit bl of Some c \<Rightarrow> c | None \<Rightarrow> ''unknown'')),
                    map_option (\<lambda>m. m\<lparr>pm_cron_no_change := pm_cron_no_change m + 1, pm_cron_last_error := 0\<rparr>) m, st)
              else (Ok (Sync_Updated report),
                    map_option (\<lambda>m. update_map_entries Q (sr_exact_v4_count report) (sr_exact_v6_count report)
                        (sr_lpm_v4_count report) (sr_lpm_v6_count report)
                      (m\<lparr>pm_cron_success := (if is_startup then pm_cron_success m else pm_cron_success m + 1),
                         pm_cron_last_error := 0\<rparr>)) m, st))"

text \<open>\<open>reload_if_updated\<close>.\<close>

definition reload_if_updated ::
  "('w, 'r) git_ops \<Rightarrow> ('o, 'e, 'l, 's) aya \<Rightarrow> 'db rocks_ops \<Rightarrow> ('w \<Rightarrow> 'db import_run) \<Rightarrow>
   ('r, 'db) blocklist \<times> ('e, 'l, 's) map_manager option \<times> git_metrics option \<times> 'w \<Rightarrow>
   (blocklist_error, firehol_sync_report option) outcome \<times>
   ('r, 'db) blocklist \<times> ('e, 'l, 's) map_manager option \<times> git_metrics option \<times> 'w" where
  "reload_if_updated G A R runs st =
     (case synchronize_and_load_internal G A R runs False st of
        (Ok report, st) \<Rightarrow> (Ok (if sr_total_rules report = 0 \<and> has_active_rules (fst st) then None else Some report), st)
      | (Err e, st) \<Rightarrow> (Err e, st)
      | (Fault, st) \<Rightarrow> (Fault, st))"

subsection \<open>All or nothing\<close>

lemma clone_status_oid:
  "shallow_clone G path url branch (self, m, w) = (Inr status, self', m', w') \<Longrightarrow>
   gr_last_commit_oid self' = Some (fst (status_commit status))"
  by (auto simp: shallow_clone_def Let_def split: sum.splits prod.splits)

lemma reset_status_oid:
  "reset_to_remote G r branch (self, m, w) = (Inr status, self', m', w') \<Longrightarrow>
   gr_last_commit_oid self' = Some (fst (status_commit status))"
  by (auto simp: reset_to_remote_def split: sum.splits prod.splits)

lemma fetch_status_oid:
  assumes "fetch_and_reset G url branch (self, m, w) = (Inr status, self', m', w')"
  shows "gr_last_commit_oid self' = Some (fst (status_commit status))"
proof (cases "gr_repo self")
  case (Some r)
  then obtain u where u: "g_remote_url G w r = Inr u" "(case u of Some u \<Rightarrow> u | None \<Rightarrow> []) = url"
    using assms by (cases "g_remote_url G w r") (simp_all add: fetch_and_reset_def Let_def split: if_splits)
  obtain c w1 where c: "try_times (\<lambda>w. g_connect G w r) (max_retries - 1) w = (c, w1)" by fastforce
  obtain f w2 where f: "try_times (\<lambda>w. g_fetch G w r (is_http url)
      (''+refs/heads/'' @ branch @ '':refs/remotes/origin/'' @ branch)) (max_retries - 1) w1 = (f, w2)" by fastforce
  show ?thesis
    using assms Some u c f
    by (cases c; cases f) (auto simp: fetch_and_reset_def Let_def split: if_splits dest: reset_status_oid)
qed (use assms in \<open>simp add: fetch_and_reset_def\<close>)

lemma git_status_oid:
  assumes "git_synchronize G path url branch (self, m, w) = (Inr status, self', m', w')"
  shows "gr_last_commit_oid self' = Some (fst (status_commit status))"
proof -
  obtain w0 where w0: "(case fs_parent G path of Some p \<Rightarrow> fs_create_dir_all G w p | None \<Rightarrow> Inr w) = Inr w0"
    using assms by (auto simp: git_synchronize_def split: sum.splits)
  show ?thesis
  proof (cases "exists_at G w0 path")
    case False
    obtain x self1 m1 w1 where c: "shallow_clone G path url branch (self, m, w0) = (x, self1, m1, w1)" by (metis prod_cases4)
    then show ?thesis using assms w0 False clone_status_oid [of G path url branch self m w0 status self1 m1 w1]
      by (cases x) (simp_all add: git_synchronize_def)
  next
    case True
    obtain s where s: "(case gr_repo self of Some _ \<Rightarrow> Inr self
        | None \<Rightarrow> (case g_open G w0 path of Inl e \<Rightarrow> Inl e | Inr r \<Rightarrow> Inr (self\<lparr>gr_repo := Some r\<rparr>))) = Inr s"
      using assms w0 True by (auto simp: git_synchronize_def split: sum.splits)
    obtain x self1 m1 w1 where c: "fetch_and_reset G url branch (s, m, w0) = (x, self1, m1, w1)" by (metis prod_cases4)
    then show ?thesis using assms w0 True s fetch_status_oid [of G url branch s m w0 status self1 m1 w1]
      by (cases x) (simp_all add: git_synchronize_def)
  qed
qed

text \<open>What loading a data set does to the maps and the coordinator.\<close>

definition loaded ::
  "('o, 'e, 'l, 's) aya \<Rightarrow> 'db rocks_ops \<Rightarrow> firehol_dataset \<times> 'db registry \<Rightarrow>
   ('r, 'db) blocklist \<Rightarrow> ('e, 'l, 's) map_manager option \<Rightarrow> ('r, 'db) blocklist \<Rightarrow> ('e, 'l, 's) map_manager option \<Rightarrow> bool" where
  "loaded A R dr bl mgr bl' mgr' \<longleftrightarrow>
     \<not> ds_is_empty (fst dr) \<and> drop_spool R (fst dr) (snd dr) = Inr (bl_active_registry bl') \<and>
     (\<exists>r p. try_prepare_rules (fst dr) = Inr (r, p) \<and> mgr' = map_option (\<lambda>mm. snd (load_into_maps A mm r p)) mgr) \<and>
     bl_config bl' = bl_config bl \<and> bl_has_cache bl' = bl_has_cache bl"

lemma publish_cases:
  assumes "publish A R commit dr (bl, mgr) = (res, bl', mgr')"
  shows "(\<exists>report. res = Ok report \<and> loaded A R dr bl mgr bl' mgr' \<and> bl_git bl' = bl_git bl \<and>
      bl_last_loaded_commit bl' = Some (fst commit)) \<or> (\<forall>report. res \<noteq> Ok report) \<and> bl' = bl \<and> mgr' = mgr"
  using assms by (auto simp: publish_def loaded_def Let_def split: prod.splits if_splits sum.splits option.splits)

lemma synchronize_cases:
  "case synchronize_and_load_internal G A R runs is_startup (bl, mgr, gm, w) of (res, bl', mgr', gm', w') \<Rightarrow>
     (case res of
        Ok report \<Rightarrow>
          bl_last_loaded_commit bl' = gr_last_commit_oid (bl_git bl') \<and> bl_last_loaded_commit bl' \<noteq> None \<and>
          ((\<exists>dr. parse_directory_impl R (fc_local_path (bl_config bl)) (bl_has_cache bl) True (runs w') = Ok dr \<and>
              loaded A R dr bl mgr bl' mgr') \<or>
           \<not> is_startup \<and> has_active_rules bl \<and> report = sync_report_default \<and> bl' = bl\<lparr>bl_git := bl_git bl'\<rparr> \<and> mgr' = mgr)
      | _ \<Rightarrow> bl' = bl\<lparr>bl_git := bl_git bl'\<rparr> \<and> mgr' = mgr)"
proof -
  let ?c = "bl_config bl"
  obtain s git gm1 w1 where g: "git_synchronize G (fc_local_path ?c) (fc_repo_url ?c) (fc_default_branch ?c) (bl_git bl, gm, w) =
      (s, git, gm1, w1)" by (metis prod_cases4)
  show ?thesis
  proof (cases s)
    case (Inl e)
    then show ?thesis using g by (simp add: synchronize_and_load_internal_def Let_def)
  next
    case (Inr status)
    let ?bl = "bl\<lparr>bl_git := git\<rparr>"
    have oid: "gr_last_commit_oid git = Some (fst (status_commit status))" using git_status_oid g unfolding Inr .
    show ?thesis
    proof (cases "skips_reload is_startup status ?bl")
      case True
      then show ?thesis using g Inr oid
        by (auto simp: synchronize_and_load_internal_def Let_def skips_reload_def has_active_rules_def split: sync_status.splits)
    next
      case False
      show ?thesis
      proof (cases "parse_directory_impl R (fc_local_path ?c) (bl_has_cache bl) True (runs w1)")
        case (Ok dr)
        obtain res bl' mgr' where p: "publish A R (status_commit status) dr (?bl, mgr) = (res, bl', mgr')" by (metis prod_cases3)
        have "loaded A R dr bl mgr bl' mgr'" if "loaded A R dr ?bl mgr bl' mgr'" using that by (simp add: loaded_def)
        then show ?thesis using g Inr False Ok p oid publish_cases [OF p]
          by (auto simp: synchronize_and_load_internal_def Let_def split: outcome.splits)
      qed (use g Inr False in \<open>simp_all add: synchronize_and_load_internal_def Let_def\<close>)
    qed
  qed
qed

text \<open>
  \<^bold>\<open>C3\<close>. A reload is all or nothing.  Whatever the repository, the list files, the threads and
  the database do: if the reload fails or panics, the kernel maps, the registry that answers
  lookups and the loaded commit are what they were.  If it succeeds, the loaded commit is
  the one the checkout is at; and either the imported data set was loaded, or nothing
  changed because this is no start, the commit was loaded already and rules were active.
\<close>

theorem reload_atomic:
  "case synchronize_and_load_internal G A R runs is_startup (bl, mgr, gm, w) of (res, bl', mgr', gm', w') \<Rightarrow>
     (case res of
        Ok report \<Rightarrow>
          bl_last_loaded_commit bl' = gr_last_commit_oid (bl_git bl') \<and> bl_last_loaded_commit bl' \<noteq> None \<and>
          ((\<exists>dr. parse_directory_impl R (fc_local_path (bl_config bl)) (bl_has_cache bl) True (runs w') = Ok dr \<and>
              loaded A R dr bl mgr bl' mgr') \<or>
           \<not> is_startup \<and> has_active_rules bl \<and> report = sync_report_default \<and> bl' = bl\<lparr>bl_git := bl_git bl'\<rparr> \<and> mgr' = mgr)
      | _ \<Rightarrow> bl' = bl\<lparr>bl_git := bl_git bl'\<rparr> \<and> mgr' = mgr)"
  by (rule synchronize_cases)


subsection \<open>A successful import\<close>

lemma finish_dataset:
  "finish_import R spool st js n = Ok (d, reg) \<Longrightarrow> build_dataset R spool st js = Inr d"
  by (auto simp: finish_import_def Let_def split: sum.splits option.splits prod.splits)

lemma dataset_total:
  assumes "build_dataset R True st js = Inr d" "im_writer st = Some w"
    and "\<And>f (s :: nat \<times> nat \<times> nat \<times> nat). visit_entries d f s = visit_each f es s"
  shows "ds_stored_entries d \<noteq> None \<and> total_entries d = length es"
proof -
  let ?d = "\<lparr>ds_entries = im_entries st, ds_stored_entries = Some (spool_values R (bw_db w)),
     ds_total_files = js_files js, ds_total_bytes = js_bytes js,
     ds_exact_v4_count = 0, ds_exact_v6_count = 0, ds_lpm_v4_count = 0, ds_lpm_v6_count = 0\<rparr>"
  obtain a b c e where v: "visit_entries ?d count_entry (0, 0, 0, 0) = Inr (a, b, c, e)"
    "d = ?d\<lparr>ds_exact_v4_count := a, ds_exact_v6_count := b, ds_lpm_v4_count := c, ds_lpm_v6_count := e\<rparr>"
    using assms(1,2) by (auto simp: build_dataset_def Let_def split: sum.splits)
  have "visit_entries d count_entry (0, 0, 0, 0) = visit_entries ?d count_entry (0, 0, 0, 0)"
    by (simp add: v(2) visit_entries_def)
  then have "visit_each count_entry es (0, 0, 0, 0) = (Inr (a, b, c, e) :: cache_error + _)" using v(1) assms(3) by simp
  then show ?thesis using v(2) count_kinds_sum [of es]
    by (auto simp: visit_count total_entries_def total_hashmap_entries_def total_lpm_entries_def split: prod.splits)
qed

text \<open>
  What a finished import provides: the entries in order, their number, and a registry
  that resolves every rule after the spool is gone.
\<close>

definition imported ::
  "'db rocks_ops \<Rightarrow> firehol_metadata list \<Rightarrow> firehol_entry list \<Rightarrow> firehol_dataset \<Rightarrow> 'db registry \<Rightarrow> bool" where
  "imported R ms es d reg \<longleftrightarrow>
     (\<forall>f. visit_entries d f prepare_start = visit_each f (number 0 es) prepare_start) \<and> total_entries d = length es \<and>
     (\<exists>reg'. drop_spool R d reg = Inr reg' \<and> rg_total_rules reg' = length es \<and>
        (\<forall>e \<in> set (number 0 es). \<exists>b. resolve_rule reg' (fe_rule_id e) = Some ((rule_slot (light_map ms) e)\<lparr>be_block := b\<rparr>)))"

lemma memory_imported:
  assumes "import_ok (js_metadata js) next_id bs"
  shows "\<exists>st d reg. consume_all R True bs \<lparr>im_sequence = 0, im_writer = None, im_entries = []\<rparr> = Inr st \<and>
    finish_import R True st js next_id = Ok (d, reg) \<and> imported R (js_metadata js) (concat bs) d reg"
proof -
  obtain st d reg where i: "consume_all R True bs \<lparr>im_sequence = 0, im_writer = None, im_entries = []\<rparr> = Inr st"
    "finish_import R True st js next_id = Ok (d, reg)" "rg_cache reg = None" "rg_rule_count reg = length (concat bs)"
    "\<forall>e \<in> set (number 0 (concat bs)). \<exists>b. nth_opt (rg_rules reg) (unat (fe_rule_id e)) =
       Some ((rule_slot (light_map (js_metadata js)) e)\<lparr>be_block := b\<rparr>)"
    using memory_import [OF assms, of R True] by blast
  have "int (length (concat bs)) < 2 ^ 32" using assms by (simp add: import_ok_def)
  from dataset_memory [OF this, of R True js] obtain d' where d':
    "consume_all R True bs \<lparr>im_sequence = 0, im_writer = None, im_entries = []\<rparr> =
      Inr \<lparr>im_sequence = length (concat bs), im_writer = None, im_entries = number 0 (concat bs)\<rparr>"
    "build_dataset R True \<lparr>im_sequence = length (concat bs), im_writer = None, im_entries = number 0 (concat bs)\<rparr> js = Inr d'"
    "ds_stored_entries d' = None" "ds_entries d' = number 0 (concat bs)" by blast
  then have "d = d'" using i(1) finish_dataset [OF i(2)] by simp
  then have "imported R (js_metadata js) (concat bs) d reg"
    using d'(3,4) i(3-5)
    by (simp add: imported_def visit_entries_def total_entries_def drop_spool_def resolve_rule_def rg_total_rules_def)
  then show ?thesis using i(1,2) by blast
qed

context rocks_db
begin

lemma disk_imported:
  assumes "invar db" "\<forall>c. content db c = Map.empty" "import_ok (js_metadata js) next_id bs"
  shows "\<exists>st d reg. consume_all R True bs \<lparr>im_sequence = 0, im_writer = Some (bulk_new db limit), im_entries = []\<rparr> = Inr st \<and>
    finish_import R True st js next_id = Ok (d, reg) \<and> imported R (js_metadata js) (concat bs) d reg"
proof -
  obtain st d reg db' where i:
    "consume_all R True bs \<lparr>im_sequence = 0, im_writer = Some (bulk_new db limit), im_entries = []\<rparr> = Inr st"
    "finish_import R True st js next_id = Ok (d, reg)" "rg_cache reg = Some db'" "invar db'" "rg_rule_count reg = length (concat bs)"
    using disk_import [OF assms, of True limit] by blast
  note b = finish_dataset [OF i(2)]
  obtain w where w: "im_writer st = Some w" "visit_entries d f (s :: nat \<times> nat \<times> nat \<times> nat) = visit_each f (number 0 (concat bs)) s" for f s
    using dataset_disk [OF assms, of True limit js] i(1) b by (metis Inr_inject)
  have v: "visit_entries d f prepare_start = visit_each f (number 0 (concat bs)) prepare_start" for f
    using dataset_disk [OF assms, of True limit js] i(1) b by (metis Inr_inject)
  have n: "ds_stored_entries d \<noteq> None" "total_entries d = length (concat bs)" using dataset_total [OF b w] by simp_all
  obtain db2 where db2: "clear_entries R db' = Inr db2"
    using delete_range_ok [OF i(4), of ENTRIES "replicate 8 0" "replicate 8 255"] by (auto simp: clear_entries_def)
  have "category_for (reg\<lparr>rg_cache := Some db2\<rparr>) = category_for reg" by (rule ext) (simp add: category_for_def i(3))
  then have "resolve_rule (reg\<lparr>rg_cache := Some db2\<rparr>) = resolve_rule reg" by (intro ext) (simp add: resolve_rule_def i(3) split: option.splits)
  moreover have "resolve_rule reg (fe_rule_id e) = Some (rule_slot (light_map (js_metadata js)) e)"
    if "e \<in> set (number 0 (concat bs))" for e
    using import_both [OF assms, of True limit True] i(1,2) that by auto
  ultimately have "resolve_rule (reg\<lparr>rg_cache := Some db2\<rparr>) (fe_rule_id e) = Some ((rule_slot (light_map (js_metadata js)) e)\<lparr>be_block := None\<rparr>)"
    if "e \<in> set (number 0 (concat bs))" for e
    using that by (simp add: rule_slot_def)
  then have "imported R (js_metadata js) (concat bs) d reg"
    using v n i(3,5) db2 unfolding imported_def
    by (auto simp: drop_spool_def rg_total_rules_def split: option.splits)
  then show ?thesis using i(1,2) by blast
qed

lemma run_imported:
  assumes "ir_workers run = map (Some \<circ> Inr) outs" "ms = concat (map wo_metadata outs)"
    and "import_ok ms (ir_next_metadata_id run) (ir_batches run)"
    and "\<forall>db. cache = Some db \<longrightarrow> invar db \<and> (\<forall>c. content db c = Map.empty)"
  shows "\<exists>d reg. run_import R True cache files run = Ok (d, reg) \<and> imported R ms (concat (ir_batches run)) d reg"
proof -
  let ?js = "\<lparr>js_metadata = ms, js_files = sum_list (map wo_files outs), js_bytes = sum_list (map wo_bytes outs), js_failure = None\<rparr>"
  have ok: "import_ok (js_metadata ?js) (ir_next_metadata_id run) (ir_batches run)" using assms(3) by simp
  have "\<exists>st d reg. consume_all R True (ir_batches run) \<lparr>im_sequence = 0,
      im_writer = map_option (\<lambda>db. bulk_new db (batch_limit files)) cache, im_entries = []\<rparr> = Inr st \<and>
    finish_import R True st ?js (ir_next_metadata_id run) = Ok (d, reg) \<and> imported R ms (concat (ir_batches run)) d reg"
    using memory_imported [OF ok, of R] disk_imported [OF _ _ ok, of _ "batch_limit files"] assms(4)
    by (cases cache) auto
  moreover have "join_workers None (ir_workers run) = Inr ?js" using assms(1,2) by (simp add: join_workers_ok)
  ultimately show ?thesis by (auto simp: run_import_def)
qed

end


subsection \<open>A successful reload\<close>

lemma reload_loads:
  assumes "rocks_db R invar content"
    and "git_synchronize G (fc_local_path (bl_config bl)) (fc_repo_url (bl_config bl)) (fc_default_branch (bl_config bl))
      (bl_git bl, gm, w) = (Inr status, git, gm', w')" "\<not> skips_reload is_startup status bl"
    and "ir_is_dir (runs w')" "discover_files (fc_local_path (bl_config bl)) (ir_listing (runs w')) = Inr files" "files \<noteq> []"
    and "ir_workers (runs w') = map (Some \<circ> Inr) outs" "ms = concat (map wo_metadata outs)"
    and "import_ok ms (ir_next_metadata_id (runs w')) (ir_batches (runs w'))" "concat (ir_batches (runs w')) \<noteq> []"
    and "bl_has_cache bl \<longrightarrow> (\<exists>db. ir_generation (runs w') = Inr db \<and> invar db \<and> (\<forall>c. content db c = Map.empty))"
    and "rules_of_entries (number 0 (concat (ir_batches (runs w')))) = (r, p)"
  shows "\<exists>bl'. synchronize_and_load_internal G A R runs is_startup (bl, Some mm, gm, w) =
      (Ok (fst (load_into_maps A mm r p)), bl', Some (snd (load_into_maps A mm r p)), gm', w') \<and>
    has_active_rules bl' \<and> bl_last_loaded_commit bl' = Some (fst (status_commit status)) \<and>
    (\<forall>e \<in> set (number 0 (concat (ir_batches (runs w')))). \<exists>b. resolve_rule (bl_active_registry bl') (fe_rule_id e) =
       Some ((rule_slot (light_map ms) e)\<lparr>be_block := b\<rparr>))"
proof -
  let ?run = "runs w'"
  obtain cache where c: "(if bl_has_cache bl then map_sum id Some (ir_generation ?run) else Inr None) = Inr cache"
    "\<forall>db. cache = Some db \<longrightarrow> invar db \<and> (\<forall>c. content db c = Map.empty)"
    using assms(11) by (cases "bl_has_cache bl") auto
  obtain d reg where i: "run_import R True cache files ?run = Ok (d, reg)" "imported R ms (concat (ir_batches ?run)) d reg"
    using rocks_db.run_imported [OF assms(1,7,8,9) c(2), of files] by blast
  have parse: "parse_directory_impl R (fc_local_path (bl_config bl)) (bl_has_cache bl) True ?run = Ok (d, reg)"
    unfolding parse_directory_impl_def c(1) using assms(4-6) i(1) by simp
  obtain reg' where r: "drop_spool R d reg = Inr reg'" "rg_total_rules reg' = length (concat (ir_batches ?run))"
    "\<forall>e \<in> set (number 0 (concat (ir_batches ?run))). \<exists>b. resolve_rule reg' (fe_rule_id e) = Some ((rule_slot (light_map ms) e)\<lparr>be_block := b\<rparr>)"
    using i(2) by (auto simp: imported_def)
  have "try_prepare_rules d = Inr (r, p)"
    using try_prepare_visits [of d "number 0 (concat (ir_batches ?run))"] i(2) assms(12) by (simp add: imported_def)
  moreover have "\<not> ds_is_empty d" using i(2) assms(10) by (simp add: ds_is_empty_def imported_def)
  moreover have "\<not> skips_reload is_startup status (bl\<lparr>bl_git := git\<rparr>)"
    using assms(3) by (simp add: skips_reload_def has_active_rules_def split: sync_status.splits)
  ultimately show ?thesis
    using assms(2,10) parse r
    by (simp add: synchronize_and_load_internal_def Let_def publish_def case_prod_unfold has_active_rules_def rg_is_empty_def
        rg_total_rules_def)
qed



subsection \<open>Counting the jobs\<close>

text \<open>What a scheduled job counts, by its outcome.\<close>

fun job_counts :: "(blocklist_error, firehol_sync_outcome) outcome \<Rightarrow> u64 \<times> u64 \<times> u64 \<times> u64 \<times> u64" where
  "job_counts (Ok SkippedAlreadyRunning) = (0, 1, 0, 0, 0)"
| "job_counts (Ok (Sync_Updated _)) = (1, 0, 1, 0, 0)"
| "job_counts (Ok (Sync_UpToDate _)) = (1, 0, 0, 1, 0)"
| "job_counts (Err _) = (1, 0, 0, 0, 1)"
| "job_counts Fault = (1, 0, 0, 0, 0)"

definition cron_counters :: "('v, 'g) prometheus_metrics \<Rightarrow> u64 \<times> u64 \<times> u64 \<times> u64 \<times> u64" where
  "cron_counters m = (pm_cron_executions m, pm_cron_skipped m, pm_cron_success m, pm_cron_no_change m, pm_cron_failures m)"

lemma job_counted:
  assumes "execute_firehol_sync G A R V Q runs False locked (Some m, st) = (res, m', st')"
  shows "\<exists>m1. m' = Some m1 \<and>
    cron_counters m1 = (case (cron_counters m, job_counts res) of
      ((a, b, c, d, e), (a', b', c', d', e')) \<Rightarrow> (a + a', b + b', c + c', d + d', e + e')) \<and>
    (res = Ok SkippedAlreadyRunning \<longleftrightarrow> locked) \<and> (locked \<longrightarrow> st' = st)"
proof (cases locked)
  case True
  then show ?thesis using assms by (auto simp: execute_firehol_sync_def cron_counters_def)
next
  case False
  obtain r s where "synchronize_and_load_internal G A R runs False st = (r, s)" by (metis surj_pair)
  then show ?thesis
    using assms False
    by (cases r) (auto simp: execute_firehol_sync_def cron_counters_def Let_def record_error_def update_map_entries_def
        update_rules_count_def split: if_splits)
qed

subsection \<open>A concrete reload\<close>


definition demo_config :: firehol_config where
  "demo_config = \<lparr>fc_repo_url = ''https://lists'', fc_local_path = ''/l'', fc_default_branch = ''master'',
     fc_enabled = True, fc_ignore_ips = []\<rparr>"

definition demo_import_run :: "sst_db import_run" where
  "demo_import_run = \<lparr>ir_generation = Inl ReadFailed, ir_is_dir = True,
     ir_listing = Some [Some \<lparr>de_path = ''/l/a.ipset'', de_is_file = True, de_extension = Some ''ipset'', de_size = Some 37\<rparr>],
     ir_batches = [[entry_new (ExactV4 [10, 0, 0, 1]) 0 1 2]], ir_workers = [Some (Inr demo_out)], ir_next_metadata_id = 2\<rparr>"

definition demo_rules :: rule_set where
  "demo_rules = rs_new\<lparr>exact_v4 := [([10, 0, 0, 1], rule_drop 1)], total_rules := 1\<rparr>"

lemma demo_rules_of: "fst (rules_of_entries (number 0 [entry_new (ExactV4 [10, 0, 0, 1]) 0 1 2])) = demo_rules"
  unfolding demo_rules_def by code_simp

lemma demo_synced:
  "\<exists>git gm' w'. git_synchronize demo_git ''/l'' ''https://lists'' ''master''
      (git_new, None, \<lparr>dr_upstream = ''b'', dr_checkout = ''a'', dr_tracking = ''a''\<rparr>) = (Inr (Updated ''b'' 8), git, gm', w')"
  by (simp add: git_synchronize_def exists_at_def git_new_def demo_git_def fetch_and_reset_def reset_to_remote_def
      needs_fetch_def max_retries_def numeral_2_eq_2 Let_def)


end
