(* ===== verification/Packet_Builder.thy ===== *)
theory Packet_Builder
  imports Packet_Lib
begin

section \<open>Crafting packets\<close>

text \<open>
  Models \<open>scripts/common/src/packet.rs\<close>, the packet crafter of the traffic tools: the Internet
  checksum of RFC 1071, the IPv4 header writer and the TCP, UDP, ICMP and raw builders.  A slice
  that is written in place is a byte list that is returned updated; an index or range outside it,
  a \<open>copy_from_slice\<close> of the wrong length and a failed \<open>assert!\<close> are \<open>Fault\<close>.  Sums of type
  \<open>u32\<close> are words.  The lemmas: the loop that folds the carries terminates in the one's complement
  sum, every packet built carries valid checksums, and the classifier of the firewall reads
  back from it exactly the fields it was built from.
\<close>

subsection \<open>Constants and buffers\<close>

definition IPPROTO_ICMP :: u8 where [fw_consts]: "IPPROTO_ICMP = 1"
definition IPPROTO_TCP :: u8 where [fw_consts]: "IPPROTO_TCP = 6"
definition IPPROTO_UDP :: u8 where [fw_consts]: "IPPROTO_UDP = 17"
definition IPPROTO_TEST_OTHER :: u8 where [fw_consts]: "IPPROTO_TEST_OTHER = 253"
definition IPV4_HEADER_LEN :: nat where [fw_consts]: "IPV4_HEADER_LEN = 20"
definition TCP_HEADER_LEN :: nat where [fw_consts]: "TCP_HEADER_LEN = 20"
definition UDP_HEADER_LEN :: nat where [fw_consts]: "UDP_HEADER_LEN = 8"
definition ICMP_HEADER_LEN :: nat where [fw_consts]: "ICMP_HEADER_LEN = 8"

record packet_buffer =
  pb_data :: bytes
  pb_len :: nat

definition pb_new :: packet_buffer where
  "pb_new = \<lparr>pb_data = replicate 1500 0, pb_len = 0\<rparr>"

definition as_slice :: "packet_buffer \<Rightarrow> (unit, bytes) outcome" where
  "as_slice pb = (if pb_len pb \<le> length (pb_data pb) then Ok (take (pb_len pb) (pb_data pb)) else Fault)"

definition pb_is_empty :: "packet_buffer \<Rightarrow> bool" where
  "pb_is_empty pb \<longleftrightarrow> pb_len pb = 0"

text \<open>The \<open>debug_assert!\<close> is compiled out of a release build.\<close>

definition set_len :: "nat \<Rightarrow> packet_buffer \<Rightarrow> packet_buffer" where
  "set_len n pb = pb\<lparr>pb_len := n\<rparr>"

text \<open>\<open>buf[i] = v\<close> and \<open>buf[a..b].copy_from_slice(src)\<close>.\<close>

definition put_at :: "nat \<Rightarrow> u8 \<Rightarrow> bytes \<Rightarrow> (bytes \<Rightarrow> ('e, 'a) outcome) \<Rightarrow> ('e, 'a) outcome" where
  "put_at i v buf k = (if i < length buf then k (buf[i := v]) else Fault)"

definition copy_at :: "nat \<Rightarrow> nat \<Rightarrow> bytes \<Rightarrow> bytes \<Rightarrow> (bytes \<Rightarrow> ('e, 'a) outcome) \<Rightarrow> ('e, 'a) outcome" where
  "copy_at a b src buf k =
     (if a \<le> b \<and> b \<le> length buf \<and> length src = b - a then k (take a buf @ src @ drop b buf) else Fault)"

subsection \<open>Checksums\<close>

text \<open>The loop over \<open>chunks_exact(2)\<close> and the remainder, padded with a zero byte.\<close>

fun sum_chunks :: "u32 \<Rightarrow> bytes \<Rightarrow> u32" where
  "sum_chunks acc [] = acc"
| "sum_chunks acc [a] = acc + ucast (from_be [a, 0] :: u16)"
| "sum_chunks acc (a # b # rest) = sum_chunks (acc + ucast (from_be [a, b] :: u16)) rest"

function fold_carries :: "u32 \<Rightarrow> u32" where
  "fold_carries acc =
     (if drop_bit 16 acc > 0 then fold_carries ((acc AND 0xffff) + drop_bit 16 acc) else acc)"
  by pat_completeness auto

definition internet_checksum :: "bytes \<Rightarrow> u16" where
  "internet_checksum data = NOT (ucast (fold_carries (sum_chunks 0 data)))"

definition pseudo_header_sum :: "bytes \<Rightarrow> bytes \<Rightarrow> u8 \<Rightarrow> u16 \<Rightarrow> u32" where
  "pseudo_header_sum src dst proto l4_len =
     ucast (from_be [src ! 0, src ! 1] :: u16) + ucast (from_be [src ! 2, src ! 3] :: u16) +
     ucast (from_be [dst ! 0, dst ! 1] :: u16) + ucast (from_be [dst ! 2, dst ! 3] :: u16) +
     ucast proto + ucast l4_len"

definition l4_checksum :: "bytes \<Rightarrow> bytes \<Rightarrow> u8 \<Rightarrow> bytes \<Rightarrow> u16" where
  "l4_checksum src dst proto l4_data =
     (let acc = pseudo_header_sum src dst proto (of_nat (length l4_data));
          res = NOT (ucast (fold_carries (sum_chunks acc l4_data)) :: u16)
      in if res = 0 \<and> proto = IPPROTO_UDP then 0xffff else res)"

subsection \<open>Headers and packets\<close>

definition write_ipv4_header :: "bytes \<Rightarrow> bytes \<Rightarrow> bytes \<Rightarrow> u8 \<Rightarrow> u16 \<Rightarrow> nat \<Rightarrow> (unit, nat \<times> bytes) outcome" where
  "write_ipv4_header buf src_ip dst_ip proto identification payload_len =
     (let total_len = of_nat (IPV4_HEADER_LEN + payload_len) :: u16 in
      put_at 0 0x45 buf (\<lambda>buf.
      put_at 1 0 buf (\<lambda>buf.
      copy_at 2 4 (to_be 2 total_len) buf (\<lambda>buf.
      copy_at 4 6 (to_be 2 identification) buf (\<lambda>buf.
      copy_at 6 8 (to_be 2 (0x4000 :: u16)) buf (\<lambda>buf.
      put_at 8 64 buf (\<lambda>buf.
      put_at 9 proto buf (\<lambda>buf.
      copy_at 10 12 [0, 0] buf (\<lambda>buf.
      copy_at 12 16 src_ip buf (\<lambda>buf.
      copy_at 16 20 dst_ip buf (\<lambda>buf.
      read_at buf 0 IPV4_HEADER_LEN (\<lambda>hdr.
      copy_at 10 12 (to_be 2 (internet_checksum hdr)) buf (\<lambda>buf.
      Ok (IPV4_HEADER_LEN, buf))))))))))))))"

text \<open>\<open>if !payload.is_empty() { buf[a..b].copy_from_slice(payload); }\<close>\<close>

definition copy_payload :: "nat \<Rightarrow> nat \<Rightarrow> bytes \<Rightarrow> bytes \<Rightarrow> (bytes \<Rightarrow> ('e, 'a) outcome) \<Rightarrow> ('e, 'a) outcome" where
  "copy_payload a b payload buf k = (if payload \<noteq> [] then copy_at a b payload buf k else k buf)"

text \<open>The builders return the length the caller stores and the buffer.\<close>

definition finish_packet ::
  "bytes \<Rightarrow> bytes \<Rightarrow> bytes \<Rightarrow> u8 \<Rightarrow> u16 \<Rightarrow> nat \<Rightarrow> nat \<Rightarrow> (unit, nat \<times> bytes) outcome" where
  "finish_packet buf src_ip dst_ip proto identification payload_len total_len =
     (case write_ipv4_header buf src_ip dst_ip proto identification payload_len of
        Ok (_, buf) \<Rightarrow> Ok (total_len, buf) | Err e \<Rightarrow> Err e | Fault \<Rightarrow> Fault)"

definition build_ipv4_tcp_syn ::
  "bytes \<Rightarrow> bytes \<Rightarrow> bytes \<Rightarrow> u16 \<Rightarrow> u16 \<Rightarrow> u32 \<Rightarrow> u16 \<Rightarrow> bytes \<Rightarrow> (unit, nat \<times> bytes) outcome" where
  "build_ipv4_tcp_syn buf src_ip dst_ip src_port dst_port sequence identification payload =
     (let l4_len = TCP_HEADER_LEN + length payload; total_len = IPV4_HEADER_LEN + l4_len;
          tcp_start = IPV4_HEADER_LEN in
      if \<not> total_len \<le> length buf then Fault
      else
        copy_at tcp_start (tcp_start + 2) (to_be 2 src_port) buf (\<lambda>buf.
        copy_at (tcp_start + 2) (tcp_start + 4) (to_be 2 dst_port) buf (\<lambda>buf.
        copy_at (tcp_start + 4) (tcp_start + 8) (to_be 4 sequence) buf (\<lambda>buf.
        copy_at (tcp_start + 8) (tcp_start + 12) (to_be 4 (0 :: u32)) buf (\<lambda>buf.
        put_at (tcp_start + 12) 0x50 buf (\<lambda>buf.
        put_at (tcp_start + 13) 0x02 buf (\<lambda>buf.
        copy_at (tcp_start + 14) (tcp_start + 16) (to_be 2 (64240 :: u16)) buf (\<lambda>buf.
        copy_at (tcp_start + 16) (tcp_start + 18) [0, 0] buf (\<lambda>buf.
        copy_at (tcp_start + 18) (tcp_start + 20) [0, 0] buf (\<lambda>buf.
        copy_payload (tcp_start + 20) total_len payload buf (\<lambda>buf.
        read_at buf tcp_start (total_len - tcp_start) (\<lambda>l4.
        copy_at (tcp_start + 16) (tcp_start + 18) (to_be 2 (l4_checksum src_ip dst_ip IPPROTO_TCP l4)) buf (\<lambda>buf.
        finish_packet buf src_ip dst_ip IPPROTO_TCP identification l4_len total_len)))))))))))))"

definition build_ipv4_udp ::
  "bytes \<Rightarrow> bytes \<Rightarrow> bytes \<Rightarrow> u16 \<Rightarrow> u16 \<Rightarrow> u16 \<Rightarrow> bytes \<Rightarrow> (unit, nat \<times> bytes) outcome" where
  "build_ipv4_udp buf src_ip dst_ip src_port dst_port identification payload =
     (let udp_len = of_nat (UDP_HEADER_LEN + length payload) :: u16;
          total_len = IPV4_HEADER_LEN + unat udp_len; udp_start = IPV4_HEADER_LEN in
      if \<not> total_len \<le> length buf then Fault
      else
        copy_at udp_start (udp_start + 2) (to_be 2 src_port) buf (\<lambda>buf.
        copy_at (udp_start + 2) (udp_start + 4) (to_be 2 dst_port) buf (\<lambda>buf.
        copy_at (udp_start + 4) (udp_start + 6) (to_be 2 udp_len) buf (\<lambda>buf.
        copy_at (udp_start + 6) (udp_start + 8) [0, 0] buf (\<lambda>buf.
        copy_payload (udp_start + 8) total_len payload buf (\<lambda>buf.
        read_at buf udp_start (total_len - udp_start) (\<lambda>l4.
        copy_at (udp_start + 6) (udp_start + 8) (to_be 2 (l4_checksum src_ip dst_ip IPPROTO_UDP l4)) buf (\<lambda>buf.
        finish_packet buf src_ip dst_ip IPPROTO_UDP identification (unat udp_len) total_len))))))))"

definition build_ipv4_icmp_echo ::
  "bytes \<Rightarrow> bytes \<Rightarrow> bytes \<Rightarrow> u16 \<Rightarrow> u16 \<Rightarrow> u16 \<Rightarrow> bytes \<Rightarrow> (unit, nat \<times> bytes) outcome" where
  "build_ipv4_icmp_echo buf src_ip dst_ip ident sequence identification payload =
     (let icmp_len = ICMP_HEADER_LEN + length payload; total_len = IPV4_HEADER_LEN + icmp_len;
          icmp_start = IPV4_HEADER_LEN in
      if \<not> total_len \<le> length buf then Fault
      else
        put_at icmp_start 8 buf (\<lambda>buf.
        put_at (icmp_start + 1) 0 buf (\<lambda>buf.
        copy_at (icmp_start + 2) (icmp_start + 4) [0, 0] buf (\<lambda>buf.
        copy_at (icmp_start + 4) (icmp_start + 6) (to_be 2 ident) buf (\<lambda>buf.
        copy_at (icmp_start + 6) (icmp_start + 8) (to_be 2 sequence) buf (\<lambda>buf.
        copy_payload (icmp_start + 8) total_len payload buf (\<lambda>buf.
        read_at buf icmp_start (total_len - icmp_start) (\<lambda>l4.
        copy_at (icmp_start + 2) (icmp_start + 4) (to_be 2 (internet_checksum l4)) buf (\<lambda>buf.
        finish_packet buf src_ip dst_ip IPPROTO_ICMP identification icmp_len total_len)))))))))"

definition build_ipv4_other ::
  "bytes \<Rightarrow> bytes \<Rightarrow> bytes \<Rightarrow> u8 \<Rightarrow> u16 \<Rightarrow> bytes \<Rightarrow> (unit, nat \<times> bytes) outcome" where
  "build_ipv4_other buf src_ip dst_ip proto identification payload =
     (let total_len = IPV4_HEADER_LEN + length payload in
      if \<not> total_len \<le> length buf then Fault
      else
        copy_payload IPV4_HEADER_LEN total_len payload buf (\<lambda>buf.
        finish_packet buf src_ip dst_ip proto identification (length payload) total_len))"

subsection \<open>Folding the carries\<close>

lemma unat_u8: "unat (a :: u8) < 256"
  using unsigned_less [of a, where 'a = nat] by simp

lemma unat_u16: "unat (w :: u16) < 65536"
  using unsigned_less [of w, where 'a = nat] by simp

text \<open>One round of the loop: the two halves of the sum are added, which makes it smaller.\<close>

lemma unat_drop_bit16: "unat (drop_bit 16 (x :: u32)) = unat x div 65536"
  by (simp add: drop_bit_eq_div unat_div)

lemma unat_and_ffff: "unat ((x :: u32) AND 0xffff) = unat x mod 65536"
proof -
  have "x AND 0xffff = take_bit 16 x" by (simp add: take_bit_eq_mask mask_eq_exp_minus_1)
  then show ?thesis by (simp add: take_bit_eq_mod unat_mod)
qed

lemma fold_round:
  "unat ((acc AND 0xffff) + drop_bit 16 (acc :: u32)) = unat acc mod 65536 + unat acc div 65536"
proof -
  have "unat acc < 4294967296" using unsigned_less [of acc] by simp
  then have "unat acc mod 65536 + unat acc div 65536 < 4294967296" by linarith
  then show ?thesis by (simp add: unat_word_ariths unat_drop_bit16 unat_and_ffff)
qed

lemma high_half: "drop_bit 16 (acc :: u32) > 0 \<longleftrightarrow> 65536 \<le> unat acc"
proof -
  have "drop_bit 16 acc > 0 \<longleftrightarrow> 0 < unat (drop_bit 16 acc)" by (simp add: word_less_nat_alt)
  then show ?thesis unfolding unat_drop_bit16 by (simp add: div_greater_zero_iff)
qed

lemma halves_less: "65536 \<le> n \<Longrightarrow> n mod 65536 + n div 65536 < n" for n :: nat
proof -
  assume a: "65536 \<le> n"
  have "n = 65536 * (n div 65536) + n mod 65536" by simp
  moreover have "1 \<le> n div 65536" using a by (simp add: div_greater_zero_iff Suc_le_eq)
  ultimately show ?thesis by linarith
qed

termination fold_carries
  by (relation "measure unat") (simp_all only: wf_measure in_measure fold_round high_half halves_less)

declare fold_carries.simps [simp del]

subsection \<open>The one's complement sum\<close>

text \<open>
  RFC 1071 in numbers: a packet is the sum of its 16-bit words in network order, the last one
  padded; the one's complement sum of a number is its residue modulo 65535, with 65535 in
  the place of 0 unless the number is 0.  A receiver accepts when this sum is 65535.
\<close>

fun word_sum :: "bytes \<Rightarrow> nat" where
  "word_sum [] = 0"
| "word_sum [a] = 256 * unat a"
| "word_sum (a # b # rest) = 256 * unat a + unat b + word_sum rest"

definition ones_sum :: "nat \<Rightarrow> nat" where
  "ones_sum n = (if n = 0 then 0 else (n - 1) mod 65535 + 1)"

definition rfc1071_valid :: "nat \<Rightarrow> bool" where
  "rfc1071_valid n \<longleftrightarrow> ones_sum n = 65535"

lemma ones_sum_small: "n < 65536 \<Longrightarrow> ones_sum n = n"
  by (simp add: ones_sum_def)

lemma ones_sum_halves: "ones_sum (n mod 65536 + n div 65536) = ones_sum n"
proof (cases "n mod 65536 + n div 65536")
  case 0
  then have "n = 0" by (metis add_is_0 mult_0 mod_div_mult_eq)
  then show ?thesis by simp
next
  case (Suc m)
  have "n = 65536 * (n div 65536) + n mod 65536" by simp
  then have "n - 1 = m + 65535 * (n div 65536)" "n \<noteq> 0" using Suc by linarith+
  then show ?thesis using Suc by (simp add: ones_sum_def)
qed

lemma unat_fold_carries: "unat (fold_carries acc) = ones_sum (unat acc)"
proof (induction acc rule: fold_carries.induct)
  case (1 acc)
  show ?case
  proof (cases "drop_bit 16 acc > 0")
    case True
    then show ?thesis using "1.IH" by (subst fold_carries.simps) (simp add: fold_round ones_sum_halves)
  next
    case False
    then have "unat acc < 65536" by (simp only: high_half not_le)
    then show ?thesis using False by (subst fold_carries.simps) (simp add: ones_sum_small)
  qed
qed

lemma ones_sum_bounds: "ones_sum n \<le> 65535" "ones_sum n = 0 \<longleftrightarrow> n = 0" "ones_sum n mod 65535 = n mod 65535"
proof -
  show "ones_sum n \<le> 65535" using mod_less_divisor [of 65535 "n - 1"] by (simp add: ones_sum_def) linarith
  show "ones_sum n = 0 \<longleftrightarrow> n = 0" by (simp add: ones_sum_def)
  show "ones_sum n mod 65535 = n mod 65535" by (cases n) (simp_all add: ones_sum_def mod_Suc_eq)
qed

lemma rfc1071_valid_iff: "rfc1071_valid n \<longleftrightarrow> 0 < n \<and> 65535 dvd n"
proof -
  have "rfc1071_valid n \<longleftrightarrow> 0 < ones_sum n \<and> ones_sum n mod 65535 = 0"
    using ones_sum_bounds(1) [of n] unfolding rfc1071_valid_def by (auto simp: mod_if)
  then show ?thesis by (simp add: ones_sum_bounds(2,3) dvd_eq_mod_eq_0 neq0_conv [symmetric] del: neq0_conv)
qed

lemma unat_not16: "unat (NOT (w :: u16)) = 65535 - unat w"
proof -
  have "NOT w = 65535 - w" using word_not_def by (simp add: not_eq_complement)
  moreover have "w \<le> 65535" using unat_u16 [of w] by (simp add: word_le_nat_alt)
  ultimately show ?thesis by (simp add: unat_sub)
qed

lemma unat_fold16: "unat (ucast (fold_carries acc) :: u16) = ones_sum (unat acc)"
  using ones_sum_bounds(1) [of "unat acc"]
  by (simp add: unsigned_ucast_eq unsigned_take_bit_eq take_bit_nat_eq_self unat_fold_carries)

text \<open>The sum with its own complement added is valid, and so is a sum 65535 with 65535 added.\<close>

lemma complement_valid:
  assumes "ones_sum n + c = 65535 \<or> ones_sum n = 65535 \<and> c = 65535"
  shows "rfc1071_valid (n + c)"
proof -
  have "(n + c) mod 65535 = (ones_sum n + c) mod 65535"
    using ones_sum_bounds(3) [of n] by (metis mod_add_left_eq)
  also have "\<dots> = 0" using assms by auto
  finally have "65535 dvd n + c" by auto
  moreover have "0 < n + c" using assms ones_sum_bounds(2) [of n] by auto
  ultimately show ?thesis by (simp add: rfc1071_valid_iff)
qed

lemma word_sum_append: "even (length xs) \<Longrightarrow> word_sum (xs @ ys) = word_sum xs + word_sum ys"
  by (induction xs rule: word_sum.induct) auto

lemma word_sum_le: "word_sum xs \<le> 65535 * ((length xs + 1) div 2)"
proof (induction xs rule: word_sum.induct)
  case (2 a)
  then show ?case using unat_u8 [of a] by simp
next
  case (3 a b rest)
  then show ?case using unat_u8 [of a] unat_u8 [of b] by simp
qed simp

lemma unat_from_be16: "unat (from_be [a, b] :: u16) = 256 * unat a + unat b"
proof -
  have "from_be [a, b] = (push_bit 8 (ucast a) OR ucast b :: u16)" by (simp add: from_be_def)
  also have "\<dots> = push_bit 8 (ucast a) + ucast b"
    by (rule disjunctive_add [symmetric]) (auto simp: bit_simps dest: bit_imp_le_length)
  finally show ?thesis using unat_u8 [of a] unat_u8 [of b]
    by (simp add: push_bit_eq_mult unat_word_ariths unsigned_ucast_eq take_bit_nat_eq_self)
qed

lemma unat_ucast_u16: "unat (ucast (w :: u16) :: u32) = unat w"
  using unat_u16 [of w] by (simp add: unsigned_ucast_eq unsigned_take_bit_eq take_bit_nat_eq_self)

lemma unat_sum_chunks:
  "unat acc + word_sum bs < 4294967296 \<Longrightarrow> unat (sum_chunks acc bs) = unat acc + word_sum bs"
proof (induction acc bs rule: sum_chunks.induct)
  case (2 acc a)
  then show ?case by (simp add: unat_word_ariths unat_ucast_u16 unat_from_be16)
next
  case (3 acc a b rest)
  then have "unat (acc + ucast (from_be [a, b] :: u16)) = unat acc + (256 * unat a + unat b)"
    by (simp add: unat_word_ariths unat_ucast_u16 unat_from_be16)
  then show ?case using 3 by simp
qed simp

lemma word_sum_to_be: "word_sum (to_be 2 (c :: u16)) = unat c"
proof -
  have "to_be 2 c = [to_be 2 c ! 0, to_be 2 c ! 1]" by (rule to_be2_list)
  then have "word_sum (to_be 2 c) = unat (from_be (to_be 2 c) :: u16)"
    by (metis unat_from_be16 word_sum.simps(1,3) add_0_right)
  then show ?thesis by simp
qed

lemma word_sum_insert:
  "even (length pre) \<Longrightarrow> word_sum (pre @ to_be 2 (c :: u16) @ post) = word_sum (pre @ [0, 0] @ post) + unat c"
  by (simp add: word_sum_append word_sum_to_be)


subsection \<open>What the builders write\<close>

text \<open>
  A buffer in which a prefix has been written; a write at the end of the prefix extends it.
\<close>

definition written :: "bytes \<Rightarrow> bytes \<Rightarrow> bytes" where
  "written pre rest = pre @ rest"

lemma length_written [simp]: "length (written pre rest) = length pre + length rest"
  by (simp add: written_def)

lemma copy_at_next:
  "a = length pre \<Longrightarrow> b = length pre + length src \<Longrightarrow> length src \<le> length rest \<Longrightarrow>
   copy_at a b src (written pre rest) k = k (written (pre @ src) (drop (length src) rest))"
  by (simp add: copy_at_def written_def)

lemma put_at_next:
  "i = length pre \<Longrightarrow> rest \<noteq> [] \<Longrightarrow> put_at i v (written pre rest) k = k (written (pre @ [v]) (drop 1 rest))"
  by (cases rest) (simp_all add: put_at_def written_def)

lemma copy_payload_next:
  "a = length pre \<Longrightarrow> b = length pre + length payload \<Longrightarrow> length payload \<le> length rest \<Longrightarrow>
   copy_payload a b payload (written pre rest) k = k (written (pre @ payload) (drop (length payload) rest))"
  by (simp add: copy_payload_def copy_at_next)

text \<open>The 20 bytes of the header, around its checksum.\<close>

definition ipv4_prefix :: "u8 \<Rightarrow> u16 \<Rightarrow> nat \<Rightarrow> bytes" where
  "ipv4_prefix proto identification payload_len =
     [0x45, 0] @ to_be 2 (of_nat (20 + payload_len) :: u16) @ to_be 2 identification @
     to_be 2 (0x4000 :: u16) @ [64, proto]"

definition ipv4_checksum :: "bytes \<Rightarrow> bytes \<Rightarrow> u8 \<Rightarrow> u16 \<Rightarrow> nat \<Rightarrow> u16" where
  "ipv4_checksum src dst proto identification payload_len =
     internet_checksum (ipv4_prefix proto identification payload_len @ [0, 0] @ src @ dst)"

lemma length_ipv4_prefix [simp]: "length (ipv4_prefix proto identification payload_len) = 10"
  by (simp add: ipv4_prefix_def)

lemma write_ipv4_header_eq:
  assumes "20 \<le> length buf" "length src = 4" "length dst = 4"
  shows "write_ipv4_header buf src dst proto identification n =
    Ok (20, ipv4_prefix proto identification n @ to_be 2 (ipv4_checksum src dst proto identification n) @ src @ dst @ drop 20 buf)"
proof -
  let ?p = "ipv4_prefix proto identification n"
  have "buf \<noteq> []" using assms(1) by auto
  have "write_ipv4_header (written [] buf) src dst proto identification n =
      (let b = ?p @ [0, 0] @ src @ dst @ drop 20 buf in
       read_at b 0 20 (\<lambda>hdr. copy_at 10 12 (to_be 2 (internet_checksum hdr)) b (\<lambda>b. Ok (20, b))))"
    using assms \<open>buf \<noteq> []\<close>
    by (simp add: write_ipv4_header_def Let_def fw_consts copy_at_next put_at_next)
      (simp add: written_def ipv4_prefix_def)
  also have "\<dots> = Ok (20, ?p @ to_be 2 (ipv4_checksum src dst proto identification n) @ src @ dst @ drop 20 buf)"
    using assms by (simp add: ipv4_checksum_def Let_def read_at_def copy_at_def)
  finally show ?thesis by (simp add: written_def)
qed


lemma finish_packet_eq:
  assumes "20 \<le> length buf" "length src = 4" "length dst = 4"
  shows "finish_packet buf src dst proto identification n total_len =
    Ok (total_len, ipv4_prefix proto identification n @ to_be 2 (ipv4_checksum src dst proto identification n) @ src @ dst @ drop 20 buf)"
  by (simp add: finish_packet_def write_ipv4_header_eq [OF assms])

text \<open>A complete packet: the header and what follows it.\<close>

definition whole_packet :: "bytes \<Rightarrow> bytes \<Rightarrow> u8 \<Rightarrow> u16 \<Rightarrow> bytes \<Rightarrow> bytes" where
  "whole_packet src dst proto identification l4 =
     ipv4_prefix proto identification (length l4) @
     to_be 2 (ipv4_checksum src dst proto identification (length l4)) @ src @ dst @ l4"

lemma length_whole_packet [simp]:
  "length src = 4 \<Longrightarrow> length dst = 4 \<Longrightarrow> length (whole_packet src dst proto identification l4) = 20 + length l4"
  by (simp add: whole_packet_def)

definition tcp_syn_segment :: "bytes \<Rightarrow> bytes \<Rightarrow> u16 \<Rightarrow> u16 \<Rightarrow> u32 \<Rightarrow> bytes \<Rightarrow> bytes" where
  "tcp_syn_segment src dst sp dp sequence payload =
     (let pre = to_be 2 sp @ to_be 2 dp @ to_be 4 sequence @ to_be 4 (0 :: u32) @ [0x50, 0x02] @ to_be 2 (64240 :: u16);
          post = [0, 0] @ payload
      in pre @ to_be 2 (l4_checksum src dst IPPROTO_TCP (pre @ [0, 0] @ post)) @ post)"

definition udp_datagram :: "bytes \<Rightarrow> bytes \<Rightarrow> u16 \<Rightarrow> u16 \<Rightarrow> bytes \<Rightarrow> bytes" where
  "udp_datagram src dst sp dp payload =
     (let pre = to_be 2 sp @ to_be 2 dp @ to_be 2 (of_nat (8 + length payload) :: u16)
      in pre @ to_be 2 (l4_checksum src dst IPPROTO_UDP (pre @ [0, 0] @ payload)) @ payload)"

definition icmp_echo :: "u16 \<Rightarrow> u16 \<Rightarrow> bytes \<Rightarrow> bytes" where
  "icmp_echo ident sequence payload =
     (let post = to_be 2 ident @ to_be 2 sequence @ payload
      in [8, 0] @ to_be 2 (internet_checksum ([8, 0] @ [0, 0] @ post)) @ post)"

lemma length_segments [simp]:
  "length (tcp_syn_segment src dst sp dp sequence payload) = 20 + length payload"
  "length (udp_datagram src dst sp dp payload) = 8 + length payload"
  "length (icmp_echo ident seq16 payload) = 8 + length payload"
  by (simp_all add: tcp_syn_segment_def udp_datagram_def icmp_echo_def Let_def)

text \<open>The transport checksum is computed over the bytes just written and put over its placeholder.\<close>

lemma checksum_step:
  assumes "length hdr = 20" "length pre = c" "n = c + 2 + length post"
  shows "read_at (written (hdr @ pre @ [0, 0] @ post) rest) 20 n (\<lambda>l4.
      copy_at (20 + c) (20 + c + 2) (to_be 2 (f l4)) (written (hdr @ pre @ [0, 0] @ post) rest) k) =
    k (hdr @ pre @ to_be 2 (f (pre @ [0, 0] @ post)) @ post @ rest)"
  using assms by (simp add: read_at_def copy_at_def written_def)

lemma build_ipv4_tcp_syn_eq:
  assumes "40 + length payload \<le> length buf" "length src = 4" "length dst = 4"
  shows "build_ipv4_tcp_syn buf src dst sp dp sequence identification payload =
    Ok (40 + length payload, whole_packet src dst IPPROTO_TCP identification (tcp_syn_segment src dst sp dp sequence payload) @
      drop (40 + length payload) buf)"
proof -
  let ?h = "take 20 buf"
  let ?pre = "to_be 2 sp @ to_be 2 dp @ to_be 4 sequence @ to_be 4 (0 :: u32) @ [0x50, 0x02] @ to_be 2 (64240 :: u16)"
  let ?post = "[0, 0] @ payload"
  let ?b = "written (?h @ ?pre @ [0, 0] @ ?post) (drop (40 + length payload) buf)"
  have "build_ipv4_tcp_syn (written ?h (drop 20 buf)) src dst sp dp sequence identification payload =
    read_at ?b 20 (20 + length payload) (\<lambda>l4.
      copy_at (20 + 16) (20 + 16 + 2) (to_be 2 (l4_checksum src dst IPPROTO_TCP l4)) ?b
        (\<lambda>buf. finish_packet buf src dst IPPROTO_TCP identification (20 + length payload) (40 + length payload)))"
    using assms
    by (simp add: build_ipv4_tcp_syn_def Let_def IPV4_HEADER_LEN_def TCP_HEADER_LEN_def copy_at_next put_at_next copy_payload_next
        add_ac)+
  also have "\<dots> = Ok (40 + length payload, whole_packet src dst IPPROTO_TCP identification (tcp_syn_segment src dst sp dp sequence payload) @
      drop (40 + length payload) buf)"
    using assms
    by (subst checksum_step) (simp_all add: finish_packet_eq whole_packet_def, simp add: tcp_syn_segment_def Let_def)
  finally show ?thesis by (simp add: written_def)
qed

lemma build_ipv4_udp_eq:
  assumes "28 + length payload \<le> length buf" "length payload < 65528" "length src = 4" "length dst = 4"
  shows "build_ipv4_udp buf src dst sp dp identification payload =
    Ok (28 + length payload, whole_packet src dst IPPROTO_UDP identification (udp_datagram src dst sp dp payload) @
      drop (28 + length payload) buf)"
proof -
  let ?h = "take 20 buf"
  let ?pre = "to_be 2 sp @ to_be 2 dp @ to_be 2 (of_nat (8 + length payload) :: u16)"
  let ?b = "written (?h @ ?pre @ [0, 0] @ payload) (drop (28 + length payload) buf)"
  have len: "unat (of_nat (8 + length payload) :: u16) = 8 + length payload"
    using assms(2) by (simp only: unsigned_of_nat) (simp add: take_bit_nat_eq_self)
  have "build_ipv4_udp (written ?h (drop 20 buf)) src dst sp dp identification payload =
    read_at ?b 20 (8 + length payload) (\<lambda>l4.
      copy_at (20 + 6) (20 + 6 + 2) (to_be 2 (l4_checksum src dst IPPROTO_UDP l4)) ?b
        (\<lambda>buf. finish_packet buf src dst IPPROTO_UDP identification (8 + length payload) (28 + length payload)))"
    unfolding build_ipv4_udp_def Let_def UDP_HEADER_LEN_def len
    using assms
    by (simp add: IPV4_HEADER_LEN_def copy_at_next put_at_next copy_payload_next add_ac)+
  also have "\<dots> = Ok (28 + length payload, whole_packet src dst IPPROTO_UDP identification (udp_datagram src dst sp dp payload) @
      drop (28 + length payload) buf)"
    using assms
    by (subst checksum_step) (simp_all add: finish_packet_eq whole_packet_def, simp add: udp_datagram_def Let_def)
  finally show ?thesis by (simp add: written_def)
qed

lemma build_ipv4_icmp_echo_eq:
  assumes "28 + length payload \<le> length buf" "length src = 4" "length dst = 4"
  shows "build_ipv4_icmp_echo buf src dst ident sequence identification payload =
    Ok (28 + length payload, whole_packet src dst IPPROTO_ICMP identification (icmp_echo ident sequence payload) @
      drop (28 + length payload) buf)"
proof -
  let ?h = "take 20 buf"
  let ?post = "to_be 2 ident @ to_be 2 sequence @ payload"
  let ?b = "written (?h @ [8, 0] @ [0, 0] @ ?post) (drop (28 + length payload) buf)"
  have "build_ipv4_icmp_echo (written ?h (drop 20 buf)) src dst ident sequence identification payload =
    read_at ?b 20 (8 + length payload) (\<lambda>l4.
      copy_at (20 + 2) (20 + 2 + 2) (to_be 2 (internet_checksum l4)) ?b
        (\<lambda>buf. finish_packet buf src dst IPPROTO_ICMP identification (8 + length payload) (28 + length payload)))"
    using assms
    by (simp add: build_ipv4_icmp_echo_def Let_def IPV4_HEADER_LEN_def ICMP_HEADER_LEN_def copy_at_next put_at_next
        copy_payload_next add_ac)+
  also have "\<dots> = Ok (28 + length payload, whole_packet src dst IPPROTO_ICMP identification (icmp_echo ident sequence payload) @
      drop (28 + length payload) buf)"
    using assms
    by (subst checksum_step) (simp_all add: finish_packet_eq whole_packet_def, simp add: icmp_echo_def Let_def)
  finally show ?thesis by (simp add: written_def)
qed

lemma build_ipv4_other_eq:
  assumes "20 + length payload \<le> length buf" "length src = 4" "length dst = 4"
  shows "build_ipv4_other buf src dst proto identification payload =
    Ok (20 + length payload, whole_packet src dst proto identification payload @ drop (20 + length payload) buf)"
proof -
  have "build_ipv4_other (written (take 20 buf) (drop 20 buf)) src dst proto identification payload =
      finish_packet (written (take 20 buf @ payload) (drop (20 + length payload) buf)) src dst proto identification
        (length payload) (20 + length payload)"
    using assms by (simp add: build_ipv4_other_def Let_def IPV4_HEADER_LEN_def copy_payload_next add_ac)+
  also have "\<dots> = Ok (20 + length payload, whole_packet src dst proto identification payload @ drop (20 + length payload) buf)"
    using assms by (simp add: finish_packet_eq whole_packet_def) (simp add: written_def)
  finally show ?thesis by (simp add: written_def)
qed


subsection \<open>Valid checksums\<close>

text \<open>What a receiver adds up: the header, and the segment with the pseudo header of TCP and UDP.\<close>

definition pseudo_sum :: "bytes \<Rightarrow> bytes \<Rightarrow> u8 \<Rightarrow> nat \<Rightarrow> nat" where
  "pseudo_sum src dst proto n = word_sum src + word_sum dst + unat proto + n"

definition header_valid :: "bytes \<Rightarrow> bool" where
  "header_valid pkt \<longleftrightarrow> rfc1071_valid (word_sum (take 20 pkt))"

definition segment_valid :: "bytes \<Rightarrow> bool" where
  "segment_valid pkt \<longleftrightarrow>
     rfc1071_valid (pseudo_sum (take 4 (drop 12 pkt)) (take 4 (drop 16 pkt)) (pkt ! 9) (length pkt - 20) + word_sum (drop 20 pkt))"

definition icmp_valid :: "bytes \<Rightarrow> bool" where
  "icmp_valid pkt \<longleftrightarrow> rfc1071_valid (word_sum (drop 20 pkt))"

lemma length4: "length (xs :: bytes) = 4 \<Longrightarrow> xs = [xs ! 0, xs ! 1, xs ! 2, xs ! 3]"
  by (auto simp: length_Suc_conv numeral_eq_Suc)

lemma word_sum4: "length xs = 4 \<Longrightarrow> word_sum xs = 256 * unat (xs ! 0) + unat (xs ! 1) + (256 * unat (xs ! 2) + unat (xs ! 3))"
  by (subst length4, assumption) (simp only: word_sum.simps add_0_right add.assoc)

lemma unat_ucast_u8_u32: "unat (ucast (b :: u8) :: u32) = unat b"
  using unat_u8 [of b] by (simp add: unsigned_ucast_eq take_bit_nat_eq_self)

lemma unat_pseudo_header_sum:
  assumes "length src = 4" "length dst = 4" "n < 65536"
  shows "unat (pseudo_header_sum src dst proto (of_nat n)) = pseudo_sum src dst proto n"
    "pseudo_sum src dst proto n < 400000"
proof -
  have n: "unat (of_nat n :: u16) = n" using assms(3) by (simp add: unsigned_of_nat take_bit_nat_eq_self)
  show b: "pseudo_sum src dst proto n < 400000"
    using assms(3) word_sum_le [of src] word_sum_le [of dst] unat_u8 [of proto] assms(1,2)
    by (simp add: pseudo_sum_def)
  then have "256 * unat (src ! 0) + unat (src ! 1) + (256 * unat (src ! 2) + unat (src ! 3)) +
     (256 * unat (dst ! 0) + unat (dst ! 1) + (256 * unat (dst ! 2) + unat (dst ! 3))) + unat proto + n < 400000"
    using assms by (simp add: pseudo_sum_def word_sum4)
  then show "unat (pseudo_header_sum src dst proto (of_nat n)) = pseudo_sum src dst proto n"
    using assms
    by (simp add: pseudo_header_sum_def pseudo_sum_def word_sum4 unat_word_ariths unat_ucast_u16 unat_from_be16 unat_ucast_u8_u32 n)
qed

lemma internet_checksum_valid:
  assumes "length (pre @ [0, 0] @ post) < 65536" "even (length pre)"
  shows "rfc1071_valid (word_sum (pre @ to_be 2 (internet_checksum (pre @ [0, 0] @ post)) @ post))"
proof -
  let ?d = "pre @ [0, 0] @ post"
  have "word_sum ?d < 4294967296" using word_sum_le [of ?d] assms(1) by linarith
  then have "unat (sum_chunks 0 ?d) = word_sum ?d" using unat_sum_chunks [of 0 ?d] by simp
  then have "ones_sum (word_sum ?d) + unat (internet_checksum ?d) = 65535"
    using ones_sum_bounds(1) [of "word_sum ?d"] by (simp add: internet_checksum_def unat_not16 unat_fold16)
  then show ?thesis unfolding word_sum_insert [OF assms(2)] by (intro complement_valid) simp
qed

lemma l4_checksum_complement:
  assumes "length src = 4" "length dst = 4" "length d < 65536"
  shows "ones_sum (pseudo_sum src dst proto (length d) + word_sum d) + unat (l4_checksum src dst proto d) = 65535 \<or>
    ones_sum (pseudo_sum src dst proto (length d) + word_sum d) = 65535 \<and> unat (l4_checksum src dst proto d) = 65535"
proof -
  let ?n = "pseudo_sum src dst proto (length d) + word_sum d"
  let ?acc = "pseudo_header_sum src dst proto (of_nat (length d))"
  let ?res = "NOT (ucast (fold_carries (sum_chunks ?acc d)) :: u16)"
  note p = unat_pseudo_header_sum [OF assms, of proto]
  have "?n < 4294967296" using p(2) word_sum_le [of d] assms(3) by linarith
  then have "unat (sum_chunks ?acc d) = ?n" using unat_sum_chunks [of ?acc d] p(1) by simp
  then have r: "unat ?res = 65535 - ones_sum ?n" by (simp add: unat_not16 unat_fold16)
  show ?thesis
  proof (cases "?res = 0 \<and> proto = IPPROTO_UDP")
    case True
    then have "l4_checksum src dst proto d = 0xffff" unfolding l4_checksum_def Let_def by (rule if_P)
    moreover have "unat ?res = 0" unfolding conjunct1 [OF True] by (rule unsigned_0)
    ultimately show ?thesis using r ones_sum_bounds(1) [of ?n] by simp
  next
    case False
    then have "l4_checksum src dst proto d = ?res" by (simp only: l4_checksum_def Let_def if_False)
    then show ?thesis unfolding r using ones_sum_bounds(1) [of ?n] r by simp
  qed
qed

lemma l4_checksum_valid:
  assumes "length src = 4" "length dst = 4" "even (length pre)" "n = length pre + 2 + length post" "n < 65536"
  shows "rfc1071_valid (pseudo_sum src dst proto n +
    word_sum (pre @ to_be 2 (l4_checksum src dst proto (pre @ [0, 0] @ post)) @ post))"
proof -
  have "length (pre @ [0, 0] @ post) = n" using assms(4) by simp
  then show ?thesis
    using l4_checksum_complement [OF assms(1,2), of "pre @ [0, 0] @ post" proto] assms(5)
    unfolding word_sum_insert [OF assms(3)] add.assoc [symmetric] by (intro complement_valid) simp
qed

lemma whole_packet_fields:
  assumes "length src = 4" "length dst = 4"
  shows "take 4 (drop 12 (whole_packet src dst proto identification l4)) = src"
    "take 4 (drop 16 (whole_packet src dst proto identification l4)) = dst"
    "whole_packet src dst proto identification l4 ! 9 = proto"
    "drop 20 (whole_packet src dst proto identification l4) = l4"
    "header_valid (whole_packet src dst proto identification l4)"
proof -
  let ?p = "ipv4_prefix proto identification (length l4)"
  have "?p ! 9 = proto" by (simp add: ipv4_prefix_def nth_append nth_Cons')
  then show "whole_packet src dst proto identification l4 ! 9 = proto" by (simp add: whole_packet_def nth_append)
  have "rfc1071_valid (word_sum (?p @ to_be 2 (internet_checksum (?p @ [0, 0] @ src @ dst)) @ src @ dst))"
    using assms by (intro internet_checksum_valid) simp_all
  then show "header_valid (whole_packet src dst proto identification l4)"
    using assms by (simp add: header_valid_def whole_packet_def ipv4_checksum_def)
qed (use assms in \<open>simp_all add: whole_packet_def\<close>)


lemma segments_valid:
  assumes "length src = 4" "length dst = 4" "length payload \<le> 65495"
  shows "segment_valid (whole_packet src dst IPPROTO_TCP identification (tcp_syn_segment src dst sp dp sequence payload))"
    "segment_valid (whole_packet src dst IPPROTO_UDP identification (udp_datagram src dst sp dp payload))"
    "icmp_valid (whole_packet src dst IPPROTO_ICMP identification (icmp_echo ident ping_seq payload))"
proof -
  note f = whole_packet_fields [OF assms(1,2)]
  let ?t = "to_be 2 sp @ to_be 2 dp @ to_be 4 sequence @ to_be 4 (0 :: u32) @ [0x50, 0x02] @ to_be 2 (64240 :: u16)"
  show "segment_valid (whole_packet src dst IPPROTO_TCP identification (tcp_syn_segment src dst sp dp sequence payload))"
    using l4_checksum_valid [OF assms(1,2), of ?t "20 + length payload" "[0, 0] @ payload" IPPROTO_TCP] assms
    by (simp add: segment_valid_def f) (simp add: tcp_syn_segment_def Let_def)
  let ?u = "to_be 2 sp @ to_be 2 dp @ to_be 2 (of_nat (8 + length payload) :: u16)"
  show "segment_valid (whole_packet src dst IPPROTO_UDP identification (udp_datagram src dst sp dp payload))"
    using l4_checksum_valid [OF assms(1,2), of ?u "8 + length payload" payload IPPROTO_UDP] assms
    by (simp add: segment_valid_def f) (simp add: udp_datagram_def Let_def)
  show "icmp_valid (whole_packet src dst IPPROTO_ICMP identification (icmp_echo ident ping_seq payload))"
    using internet_checksum_valid [of "[8, 0]" "to_be 2 ident @ to_be 2 ping_seq @ payload"] assms
    by (simp add: icmp_valid_def f) (simp add: icmp_echo_def Let_def)
qed


text \<open>
  A builder leaves a packet of the stated length at the start of the buffer and the rest of
  the buffer as it was.
\<close>

definition yields :: "(unit, nat \<times> bytes) outcome \<Rightarrow> bytes \<Rightarrow> nat \<Rightarrow> (bytes \<Rightarrow> bool) \<Rightarrow> bool" where
  "yields r buf n P \<longleftrightarrow> (\<exists>pkt. r = Ok (n, pkt @ drop n buf) \<and> length pkt = n \<and> P pkt)"

lemma yieldsI: "length pkt = n \<Longrightarrow> P pkt \<Longrightarrow> yields (Ok (n, pkt @ drop n buf)) buf n P"
  by (auto simp: yields_def)

text \<open>
  Every packet the traffic tools craft carries valid checksums.  Over any buffer of at most
  65535 bytes that is large enough, whatever it held before, each of the four builders returns
  without panic, writes exactly the announced number of bytes, and the one's complement sums a
  receiver computes per RFC 1071, over the IPv4 header and, for TCP, UDP and ICMP, over the
  segment with its pseudo header, are 65535.
\<close>

lemma built_packets_valid:
  assumes "length src = 4" "length dst = 4" "40 + length payload \<le> length buf" "length buf \<le> 65535"
  shows "yields (build_ipv4_tcp_syn buf src dst sp dp sequence identification payload) buf (40 + length payload)
      (\<lambda>pkt. header_valid pkt \<and> segment_valid pkt) \<and>
    yields (build_ipv4_udp buf src dst sp dp identification payload) buf (28 + length payload)
      (\<lambda>pkt. header_valid pkt \<and> segment_valid pkt) \<and>
    yields (build_ipv4_icmp_echo buf src dst ident ping_seq identification payload) buf (28 + length payload)
      (\<lambda>pkt. header_valid pkt \<and> icmp_valid pkt) \<and>
    yields (build_ipv4_other buf src dst proto identification payload) buf (20 + length payload) header_valid"
proof -
  have n: "length payload \<le> 65495" "28 + length payload \<le> length buf" "length payload < 65528" "20 + length payload \<le> length buf"
    using assms(3,4) by linarith+
  note v = segments_valid [OF assms(1,2) n(1)] whole_packet_fields(5) [OF assms(1,2)]
  show ?thesis
    unfolding build_ipv4_tcp_syn_eq [OF assms(3,1,2)] build_ipv4_udp_eq [OF n(2,3) assms(1,2)]
      build_ipv4_icmp_echo_eq [OF n(2) assms(1,2)] build_ipv4_other_eq [OF n(4) assms(1,2)]
    by (intro conjI yieldsI) (simp_all add: v assms(1,2))
qed

lemma built_packets_valid_example:
  "yields (build_ipv4_udp (replicate 128 0) [10, 0, 0, 50] [172, 28, 0, 2] 5353 53 2 [81, 85]) (replicate 128 0) 30
     (\<lambda>pkt. header_valid pkt \<and> segment_valid pkt)"
  using built_packets_valid [of "[10, 0, 0, 50]" "[172, 28, 0, 2]" "[81, 85]" "replicate 128 0" 5353 53 0 2] by simp

text \<open>The network packet in the form the classifier's lemmas use.\<close>

lemma whole_packet_ipv4:
  "whole_packet src dst proto identification l4 =
    ipv4_packet (drop 1 (take 9 (ipv4_prefix proto identification (length l4)))) proto
      (to_be 2 (ipv4_checksum src dst proto identification (length l4))) src dst [] l4"
  by (simp add: whole_packet_def ipv4_packet_def ipv4_prefix_def)

lemma classify_whole_packet:
  assumes "length dmac = 6" "length smac = 6" "length tags \<le> 2" "\<forall>t \<in> set tags. is_vlan (fst t)"
    and "length src = 4" "length dst = 4" "length l4 \<le> 65515"
    and "frame = eth_frame dmac smac tags ETH_P_IP (whole_packet src dst proto identification l4)"
  shows "classify_packet frame =
    Ok \<lparr>pp_ip_version = 4, pp_src_ip = src @ replicate 12 0, pp_dst_ip = dst @ replicate 12 0,
        pp_protocol = proto, pp_src_port = fst (l4_ports proto l4), pp_dst_port = snd (l4_ports proto l4),
        pp_packet_len = 34 + 4 * length tags + length l4, pp_l4_offset = 34 + 4 * length tags\<rparr>"
proof -
  have l: "length frame = 34 + 4 * length tags + length l4" using assms by (simp add: eth_frame_def)
  then have "length frame < usize_bound" using assms(3,7) by (simp add: usize_bound_def)
  then show ?thesis
    using classify_ipv4 [of dmac smac tags _ _ src dst "[]" 0, OF assms(1-4) _ _ assms(5,6) _ _
        assms(8) [unfolded whole_packet_ipv4]] l
    by simp
qed

lemma segment_ports:
  "l4_ports IPPROTO_TCP (tcp_syn_segment src dst sp dp sequence payload) = (sp, dp)"
  "l4_ports IPPROTO_UDP (udp_datagram src dst sp dp payload) = (sp, dp)"
  "l4_ports IPPROTO_ICMP l4 = (0, 0)"
  by (simp_all add: l4_ports_def fw_consts) (simp_all add: tcp_syn_segment_def udp_datagram_def Let_def)


definition sent_fields :: "bytes \<Rightarrow> bytes \<Rightarrow> u8 \<Rightarrow> u16 \<times> u16 \<Rightarrow> nat \<Rightarrow> nat \<Rightarrow> parsed_packet" where
  "sent_fields src dst proto ports tag_count n =
     \<lparr>pp_ip_version = 4, pp_src_ip = src @ replicate 12 0, pp_dst_ip = dst @ replicate 12 0,
      pp_protocol = proto, pp_src_port = fst ports, pp_dst_port = snd ports,
      pp_packet_len = 14 + 4 * tag_count + n, pp_l4_offset = 34 + 4 * tag_count\<rparr>"

lemma classify_sent:
  assumes "length dmac = 6" "length smac = 6" "length tags \<le> 2" "\<forall>t \<in> set tags. is_vlan (fst t)"
    and "length src = 4" "length dst = 4" "length l4 \<le> 65515" "l4_ports proto l4 = ports" "n = 20 + length l4"
  shows "classify_packet (eth_frame dmac smac tags ETH_P_IP (whole_packet src dst proto identification l4)) =
    Ok (sent_fields src dst proto ports (length tags) n)"
  using classify_whole_packet [OF assms(1-7) refl] assms(8,9) by (simp add: sent_fields_def)

text \<open>
  \<^bold>\<open>C33\<close>. Sending and classifying are inverse.  The packet each builder writes, put into an Ethernet
  frame with at most two VLAN tags, is classified by the firewall's parser with exactly the
  addresses, protocol and ports it was built from.
\<close>

theorem built_packets_classified:
  assumes "length dmac = 6" "length smac = 6" "length tags \<le> 2" "\<forall>t \<in> set tags. is_vlan (fst t)"
    and "length src = 4" "length dst = 4" "40 + length payload \<le> length buf" "length buf \<le> 65535"
  shows "yields (build_ipv4_tcp_syn buf src dst sp dp sequence identification payload) buf (40 + length payload)
      (\<lambda>pkt. classify_packet (eth_frame dmac smac tags ETH_P_IP pkt) =
         Ok (sent_fields src dst IPPROTO_TCP (sp, dp) (length tags) (40 + length payload))) \<and>
    yields (build_ipv4_udp buf src dst sp dp identification payload) buf (28 + length payload)
      (\<lambda>pkt. classify_packet (eth_frame dmac smac tags ETH_P_IP pkt) =
         Ok (sent_fields src dst IPPROTO_UDP (sp, dp) (length tags) (28 + length payload))) \<and>
    yields (build_ipv4_icmp_echo buf src dst ident ping_seq identification payload) buf (28 + length payload)
      (\<lambda>pkt. classify_packet (eth_frame dmac smac tags ETH_P_IP pkt) =
         Ok (sent_fields src dst IPPROTO_ICMP (0, 0) (length tags) (28 + length payload))) \<and>
    yields (build_ipv4_other buf src dst IPPROTO_TEST_OTHER identification payload) buf (20 + length payload)
      (\<lambda>pkt. classify_packet (eth_frame dmac smac tags ETH_P_IP pkt) =
         Ok (sent_fields src dst IPPROTO_TEST_OTHER (0, 0) (length tags) (20 + length payload)))"
proof -
  have n: "28 + length payload \<le> length buf" "length payload < 65528" "20 + length payload \<le> length buf"
    and m: "length payload \<le> 65495" using assms(7,8) by linarith+
  have o: "l4_ports IPPROTO_TEST_OTHER payload = (0, 0)" by (simp add: l4_ports_def fw_consts)
  note c = classify_sent [OF assms(1-6)]
  show ?thesis
    unfolding build_ipv4_tcp_syn_eq [OF assms(7,5,6)] build_ipv4_udp_eq [OF n(1,2) assms(5,6)]
      build_ipv4_icmp_echo_eq [OF n(1) assms(5,6)] build_ipv4_other_eq [OF n(3) assms(5,6)]
    using m by (intro conjI yieldsI c) (simp_all add: segment_ports o assms(5,6))
qed

theorem built_packets_classified_witness:
  "yields (build_ipv4_tcp_syn (replicate 60 7) [198, 51, 100, 14] [172, 28, 0, 2] 49152 80 12345 1 [68]) (replicate 60 7) 41
     (\<lambda>pkt. classify_packet (eth_frame (replicate 6 1) (replicate 6 2) [(ETH_P_8021Q, 9)] ETH_P_IP pkt) =
        Ok (sent_fields [198, 51, 100, 14] [172, 28, 0, 2] IPPROTO_TCP (49152, 80) 1 41))"
  using built_packets_classified [of "replicate 6 1" "replicate 6 2" "[(ETH_P_8021Q, 9)]" "[198, 51, 100, 14]"
      "[172, 28, 0, 2]" "[68]" "replicate 60 7" 49152 80 12345 1]
  by (simp add: is_vlan_def)

end
