(* ===== verification/Traffic_Gen.thy ===== *)
theory Traffic_Gen
  imports Rust_Std
begin

section \<open>Traffic generation\<close>

text \<open>
  Models \<open>scripts/common/src/generator.rs\<close>: the xorshift generator, the choice of protocols and
  the pool of source addresses.  The loop that fills the pool is a partial function, \<open>None\<close> where
  it never ends; its 32-bit offset wraps around, as in a release build.  A division by zero
  and an index out of range are \<open>Fault\<close>.  The lemmas: for which sizes the pool is filled, and that it
  then has that many distinct addresses; that the generator never gets stuck at zero and stays
  in its range; and that the pool is cycled through in order.
\<close>

subsection \<open>Protocols\<close>

datatype packet_protocol = PacketTcp | PacketUdp | PacketIcmp | PacketIcmpv6 | PacketOther

fun protocol_as_str :: "packet_protocol \<Rightarrow> string" where
  "protocol_as_str PacketTcp = ''tcp''"
| "protocol_as_str PacketUdp = ''udp''"
| "protocol_as_str PacketIcmp = ''icmp''"
| "protocol_as_str PacketIcmpv6 = ''icmpv6''"
| "protocol_as_str PacketOther = ''other''"

datatype protocol_choice = ChoiceMixed | ChoiceTcp | ChoiceUdp | ChoiceIcmp | ChoiceIcmpv6 | ChoiceOther

definition choice_default :: protocol_choice where
  "choice_default = ChoiceMixed"

definition choice_from_str :: "string \<Rightarrow> string + protocol_choice" where
  "choice_from_str s =
     (let t = trim (to_lowercase s) in
      if t = ''mixed'' \<or> t = ''all'' then Inr ChoiceMixed
      else if t = ''tcp'' then Inr ChoiceTcp
      else if t = ''udp'' then Inr ChoiceUdp
      else if t = ''icmp'' \<or> t = ''ping'' then Inr ChoiceIcmp
      else if t = ''icmpv6'' \<or> t = ''ping6'' then Inr ChoiceIcmpv6
      else if t = ''other'' \<or> t = ''raw'' then Inr ChoiceOther
      else Inl (''Unknown protocol '' @ [CHR 0x27] @ s @ [CHR 0x27] @
        ''. Valid choices: mixed, tcp, udp, icmp, icmpv6, other''))"

subsection \<open>The generator\<close>

record fast_prng =
  prng_state :: u64

definition prng_new :: "u64 \<Rightarrow> fast_prng" where
  "prng_new seed = \<lparr>prng_state = (if seed = 0 then 0x853c49e6748fea9b else seed)\<rparr>"

definition prng_default :: fast_prng where
  "prng_default = prng_new 0x853c49e6748fea9b"

definition next_u64 :: "fast_prng \<Rightarrow> u64 \<times> fast_prng" where
  "next_u64 prng =
     (let x = prng_state prng;
          x = x XOR drop_bit 12 x;
          x = x XOR push_bit 25 x;
          x = x XOR drop_bit 27 x
      in (x * 0x2545f4914f6cdd1d, prng\<lparr>prng_state := x\<rparr>))"

definition next_u32 :: "fast_prng \<Rightarrow> u32 \<times> fast_prng" where
  "next_u32 prng = (let (r, prng) = next_u64 prng in (ucast (drop_bit 32 r), prng))"

definition next_u16 :: "fast_prng \<Rightarrow> u16 \<times> fast_prng" where
  "next_u16 prng = (let (r, prng) = next_u64 prng in (ucast (drop_bit 48 r), prng))"

definition gen_range :: "fast_prng \<Rightarrow> u32 \<Rightarrow> u32 \<Rightarrow> (unit, u32 \<times> fast_prng) outcome" where
  "gen_range prng lo hi =
     (if lo \<ge> hi then Ok (lo, prng)
      else let (r, prng) = next_u32 prng in
        if hi - lo + 1 = 0 then Fault else Ok (lo + r mod (hi - lo + 1), prng))"

definition roll_protocol :: "u32 \<Rightarrow> packet_protocol" where
  "roll_protocol roll =
     (if roll < 40 then PacketTcp else if roll < 75 then PacketUdp else if roll < 90 then PacketIcmp
      else if roll < 95 then PacketIcmpv6 else PacketOther)"

fun select :: "protocol_choice \<Rightarrow> fast_prng \<Rightarrow> (unit, packet_protocol \<times> fast_prng) outcome" where
  "select ChoiceTcp prng = Ok (PacketTcp, prng)"
| "select ChoiceUdp prng = Ok (PacketUdp, prng)"
| "select ChoiceIcmp prng = Ok (PacketIcmp, prng)"
| "select ChoiceIcmpv6 prng = Ok (PacketIcmpv6, prng)"
| "select ChoiceOther prng = Ok (PacketOther, prng)"
| "select ChoiceMixed prng =
     (case gen_range prng 0 99 of
        Ok (roll, prng) \<Rightarrow> Ok (roll_protocol roll, prng) | Err e \<Rightarrow> Err e | Fault \<Rightarrow> Fault)"

subsection \<open>The address pool\<close>

definition EXACT_BLOCKED_IPV4 :: "bytes list" where
  "EXACT_BLOCKED_IPV4 = [[198, 51, 100, 14], [192, 0, 2, 1], [203, 0, 113, 50], [198, 51, 100, 200], [192, 0, 2, 100]]"

definition LEGITIMATE_CONTAINER_IPV4 :: bytes where
  "LEGITIMATE_CONTAINER_IPV4 = [172, 28, 0, 10]"

definition DEFAULT_FIREWALL_IPV4 :: bytes where
  "DEFAULT_FIREWALL_IPV4 = [172, 28, 0, 2]"

record ip_pool =
  pool_ips :: "bytes list"
  pool_index :: nat

text \<open>The loop over the exact addresses.\<close>

fun push_exact :: "nat \<Rightarrow> bytes list \<Rightarrow> bytes list \<Rightarrow> bytes list" where
  "push_exact count [] ips = ips"
| "push_exact count (e # es) ips = push_exact count es (if length ips < count then ips @ [e] else ips)"

definition offset_ip :: "u32 \<Rightarrow> bytes" where
  "offset_ip current_offset =
     [10, ucast (drop_bit 16 current_offset AND 0xFF), ucast (drop_bit 8 current_offset AND 0xFF),
      ucast (max (current_offset AND 0xFF) 1)]"

partial_function (option) fill_pool :: "nat \<Rightarrow> bytes list \<Rightarrow> u32 \<Rightarrow> bytes list option" where
  "fill_pool count ips current_offset =
     (if length ips < count
      then let ip = offset_ip current_offset in
        fill_pool count (if ip \<in> set ips then ips else ips @ [ip]) (current_offset + 1)
      else Some ips)"

definition new_blocked_pool :: "nat \<Rightarrow> ip_pool option" where
  "new_blocked_pool count =
     (case fill_pool count (push_exact count EXACT_BLOCKED_IPV4 []) 1 of
        None \<Rightarrow> None | Some ips \<Rightarrow> Some \<lparr>pool_ips = ips, pool_index = 0\<rparr>)"

definition next_round_robin :: "ip_pool \<Rightarrow> (unit, bytes \<times> ip_pool) outcome" where
  "next_round_robin pool =
     (if pool_index pool < length (pool_ips pool)
      then Ok (pool_ips pool ! pool_index pool, pool\<lparr>pool_index := (pool_index pool + 1) mod length (pool_ips pool)\<rparr>)
      else Fault)"

definition next_random :: "ip_pool \<Rightarrow> fast_prng \<Rightarrow> (unit, bytes \<times> fast_prng) outcome" where
  "next_random pool prng =
     (let (r, prng) = next_u32 prng in
      if length (pool_ips pool) = 0 then Fault
      else Ok (pool_ips pool ! (unat r mod length (pool_ips pool)), prng))"

definition pool_len :: "ip_pool \<Rightarrow> nat" where
  "pool_len pool = length (pool_ips pool)"

definition pool_is_empty :: "ip_pool \<Rightarrow> bool" where
  "pool_is_empty pool \<longleftrightarrow> pool_ips pool = []"

subsection \<open>Generator lemmas\<close>

lemma xor_drop_bit_zero: "0 < n \<Longrightarrow> (x :: u64) XOR drop_bit n x = 0 \<Longrightarrow> x = 0"
proof (rule bit_eqI)
  fix i :: nat
  assume n: "0 < n" and x: "x XOR drop_bit n x = 0"
  have s: "bit x j \<longleftrightarrow> bit x (j + n)" for j
  proof -
    have "\<not> bit (x XOR drop_bit n x) j" unfolding x by simp
    then show ?thesis by (simp add: bit_xor_iff bit_drop_bit_eq add.commute)
  qed
  have "bit x i \<longleftrightarrow> bit x (i + k * n)" for k
  proof (induction k)
    case (Suc k)
    have "i + Suc k * n = i + k * n + n" by simp
    with Suc s [of "i + k * n"] show ?case by (simp only:)
  qed simp
  from this [of 64] n have "bit x i \<Longrightarrow> bit x (i + 64 * n) \<and> 64 \<le> i + 64 * n" by auto
  then show "bit x i \<longleftrightarrow> bit 0 i" using bit_imp_le_length [of x "i + 64 * n"] by auto
qed

lemma xor_push_bit_zero: "0 < n \<Longrightarrow> (x :: u64) XOR push_bit n x = 0 \<Longrightarrow> x = 0"
proof (rule bit_eqI)
  fix i :: nat
  assume n: "0 < n" and x: "x XOR push_bit n x = 0"
  have s: "bit x j \<longleftrightarrow> j < 64 \<and> n \<le> j \<and> bit x (j - n)" for j
  proof -
    have "\<not> bit (x XOR push_bit n x) j" unfolding x by simp
    then show ?thesis by (auto simp: bit_xor_iff bit_push_bit_iff dest: bit_imp_le_length)
  qed
  have "\<not> bit x j" for j
  proof (induction j rule: less_induct)
    case (less j)
    then show ?case using s [of j] n by (cases "n \<le> j") auto
  qed
  then show "bit x i \<longleftrightarrow> bit 0 i" by simp
qed

text \<open>The generator never reaches the state zero, in which it would stay.\<close>

lemma prng_new_nonzero: "prng_state (prng_new seed) \<noteq> 0"
  by (simp add: prng_new_def)

lemma next_u64_nonzero:
  assumes "prng_state prng \<noteq> 0"
  shows "prng_state (snd (next_u64 prng)) \<noteq> 0"
proof -
  let ?x = "prng_state prng" and ?y = "prng_state prng XOR drop_bit 12 (prng_state prng)"
  have "?y \<noteq> 0" using xor_drop_bit_zero [of 12 ?x] assms by auto
  then have "?y XOR push_bit 25 ?y \<noteq> 0" using xor_push_bit_zero [of 25 ?y] by auto
  then have "(?y XOR push_bit 25 ?y) XOR drop_bit 27 (?y XOR push_bit 25 ?y) \<noteq> 0"
    using xor_drop_bit_zero [of 27 "?y XOR push_bit 25 ?y"] by auto
  then show ?thesis by (simp add: next_u64_def Let_def)
qed

lemma gen_range_in_range:
  assumes "unat lo \<le> unat hi" "unat hi - unat lo < 4294967295"
  shows "\<exists>v prng'. gen_range prng lo hi = Ok (v, prng') \<and> unat lo \<le> unat v \<and> unat v \<le> unat hi"
proof (cases "lo \<ge> hi")
  case True
  then show ?thesis using assms(1) by (simp add: gen_range_def word_le_nat_alt)
next
  case False
  obtain r prng' where r: "next_u32 prng = (r, prng')" by fastforce
  have d: "unat (hi - lo + 1) = unat hi - unat lo + 1"
    using assms by (simp add: unat_word_ariths unat_sub word_le_nat_alt)
  have m: "unat (r mod (hi - lo + 1)) \<le> unat hi - unat lo"
    unfolding unat_mod d by (simp add: less_Suc_eq_le [symmetric])
  have "unat hi < 4294967296" using unsigned_less [of hi, where 'a = nat] by simp
  then have v: "unat (lo + r mod (hi - lo + 1)) = unat lo + unat (r mod (hi - lo + 1))"
    using m assms(1) unfolding unat_word_ariths(1) by (intro mod_less) simp
  have "hi - lo + 1 \<noteq> 0" using d by (metis add_is_0 one_neq_zero unsigned_0)
  then show ?thesis using False r v m assms(1) by (simp add: gen_range_def)
qed

lemma roll_shares:
  "map (\<lambda>p. length (filter (\<lambda>r. roll_protocol (of_nat r) = p) [0..<100]))
     [PacketTcp, PacketUdp, PacketIcmp, PacketIcmpv6, PacketOther] = [40, 35, 15, 5, 5]"
  by code_simp

lemma select_Ok: "\<exists>p prng'. select c prng = Ok (p, prng')"
  using gen_range_in_range [of 0 99 prng] by (cases c) auto

subsection \<open>Filling the pool\<close>

lemma push_exact_take: "push_exact count es ips = ips @ take (count - length ips) es"
proof (induction es arbitrary: ips)
  case (Cons e es)
  show ?case
  proof (cases "length ips < count")
    case True
    then have "count - length ips = Suc (count - Suc (length ips))" by simp
    then show ?thesis using Cons True by simp
  qed (simp add: Cons)
qed simp

lemma offset_ip_bytes:
  "offset_ip w = [10, of_nat (unat w div 65536 mod 256), of_nat (unat w div 256 mod 256), of_nat (max (unat w mod 256) 1)]"
proof -
  have a: "x AND 0xFF = x mod 256" for x :: u32
    using take_bit_eq_mod [of 8 x] by (simp add: take_bit_eq_mask mask_eq_exp_minus_1)
  have u: "ucast x = (of_nat (unat x) :: u8)" for x :: u32 by simp
  have mx: "unat (max x 1) = max (unat x) 1" for x :: u32 by (simp add: max_def word_le_nat_alt)
  show ?thesis
    unfolding offset_ip_def a u by (simp add: drop_bit_eq_div unat_div unat_mod mx)
qed

definition subnet_ips :: "bytes set" where
  "subnet_ips = {[10, b2, b3, b4] | b2 b3 b4. b4 \<noteq> 0}"


lemma of_nat_u8:
  assumes "m < 256" "m \<noteq> 0"
  shows "(of_nat m :: u8) \<noteq> 0"
proof -
  have "unat (of_nat m :: u8) = m" using assms(1) by (simp add: unsigned_of_nat take_bit_nat_eq_self)
  then show ?thesis using assms(2) by auto
qed

lemma subnet_reached: "offset_ip ` of_nat ` {1..<16777216} = subnet_ips"
proof (intro set_eqI iffI)
  fix a
  assume "a \<in> offset_ip ` of_nat ` {1..<16777216}"
  then obtain n where "n < 16777216" "a = offset_ip (of_nat n)" by auto
  moreover have "(of_nat (max (k mod 256) 1) :: u8) \<noteq> 0" for k :: nat
    by (rule of_nat_u8) simp_all
  ultimately show "a \<in> subnet_ips" unfolding offset_ip_bytes subnet_ips_def by blast
next
  fix a
  assume "a \<in> subnet_ips"
  then obtain b2 b3 b4 where a: "a = [10, b2, b3, b4]" "b4 \<noteq> 0" by (auto simp: subnet_ips_def)
  let ?n = "unat b2 * 65536 + unat b3 * 256 + unat b4"
  have b: "unat b2 < 256" "unat b3 < 256" "unat b4 < 256" "0 < unat b4"
    using unsigned_less [of b2, where 'a = nat] unsigned_less [of b3, where 'a = nat] unsigned_less [of b4, where 'a = nat] a(2)
    by (simp_all add: unat_gt_0)
  have n: "?n < 16777216" "?n div 65536 mod 256 = unat b2" "?n div 256 mod 256 = unat b3" "?n mod 256 = unat b4" "1 \<le> ?n"
  proof -
    show "?n < 16777216" "1 \<le> ?n" using b by linarith+
    have e: "?n = unat b4 + (unat b2 * 256 + unat b3) * 256" by simp
    show "?n mod 256 = unat b4" unfolding e mod_mult_self1 using b(3) by simp
    have "?n div 256 = unat b2 * 256 + unat b3" unfolding e using b(3) by (simp add: div_mult_self1)
    then show "?n div 256 mod 256 = unat b3" using b(2) by simp
    have e: "?n = (unat b3 * 256 + unat b4) + unat b2 * 65536" and l: "unat b3 * 256 + unat b4 < 65536" using b by linarith+
    have "?n div 65536 = unat b2" unfolding e using l by (simp add: div_mult_self1)
    then show "?n div 65536 mod 256 = unat b2" using b(1) by simp
  qed
  from n have u: "unat (of_nat ?n :: u32) = ?n" by (simp only: unsigned_of_nat) (simp add: take_bit_nat_eq_self)
  have m: "max (unat b4) 1 = unat b4" using b(4) by linarith
  have "offset_ip (of_nat ?n) = a" unfolding offset_ip_bytes u n using a m by simp
  then show "a \<in> offset_ip ` of_nat ` {1..<16777216}" using n by (metis atLeastLessThan_iff imageI)
qed

lemma card_subnet: "card subnet_ips = 16711680"
proof -
  let ?A = "(UNIV :: u8 set) \<times> (UNIV :: u8 set) \<times> (UNIV - {0 :: u8})" and ?f = "\<lambda>(b2, b3, b4). [10, b2, b3, b4] :: bytes"
  have "subnet_ips = ?f ` ?A" by (force simp: subnet_ips_def)
  moreover have "card (?f ` ?A) = card ?A" by (rule card_image) (auto simp: inj_on_def)
  ultimately have "card subnet_ips = card ?A" by simp
  also have "\<dots> = 256 * (256 * 255)" by (simp add: card_cartesian_product card_word)
  finally show ?thesis by simp
qed


definition pool_addresses :: "bytes set" where
  "pool_addresses = set EXACT_BLOCKED_IPV4 \<union> subnet_ips"

lemma exact_distinct: "distinct EXACT_BLOCKED_IPV4" "length EXACT_BLOCKED_IPV4 = 5" "set EXACT_BLOCKED_IPV4 \<inter> subnet_ips = {}"
  by (auto simp: EXACT_BLOCKED_IPV4_def subnet_ips_def)

lemma finite_subnet: "finite subnet_ips"
  using card_subnet card.infinite by fastforce

lemma card_pool_addresses: "finite pool_addresses" "card pool_addresses = 16711685"
proof -
  have "card (set EXACT_BLOCKED_IPV4) = 5" using exact_distinct distinct_card by metis
  then show "finite pool_addresses" "card pool_addresses = 16711685"
    using finite_subnet exact_distinct(3) by (simp_all add: pool_addresses_def card_Un_disjoint card_subnet)
qed

text \<open>When the loop ends, the pool has at least the wanted size and repeats nothing.\<close>

lemma offset_ip_subnet: "offset_ip off \<in> subnet_ips"
proof -
  have "(of_nat (max (unat off mod 256) 1) :: u8) \<noteq> 0" by (rule of_nat_u8) simp_all
  then show ?thesis unfolding offset_ip_bytes subnet_ips_def by blast
qed

lemma fill_pool_sound:
  assumes "fill_pool count ips off = Some y"
  shows "count \<le> length y \<and> (distinct ips \<and> set ips \<subseteq> pool_addresses \<longrightarrow> distinct y \<and> set y \<subseteq> pool_addresses)"
proof (rule fill_pool.raw_induct [OF _ assms])
  fix fill :: "nat \<Rightarrow> bytes list \<Rightarrow> u32 \<Rightarrow> bytes list option" and count ips off y
  assume IH: "\<And>count ips off y. fill count ips off = Some y \<Longrightarrow>
      count \<le> length y \<and> (distinct ips \<and> set ips \<subseteq> pool_addresses \<longrightarrow> distinct y \<and> set y \<subseteq> pool_addresses)"
    and y: "(if length ips < count then let ip = offset_ip off in fill count (if ip \<in> set ips then ips else ips @ [ip]) (off + 1)
      else Some ips) = Some y"
  show "count \<le> length y \<and> (distinct ips \<and> set ips \<subseteq> pool_addresses \<longrightarrow> distinct y \<and> set y \<subseteq> pool_addresses)"
  proof (cases "length ips < count")
    case True
    then have "fill count (if offset_ip off \<in> set ips then ips else ips @ [offset_ip off]) (off + 1) = Some y"
      using y by (simp add: Let_def)
    from IH [OF this] show ?thesis using offset_ip_subnet [of off] by (auto simp: pool_addresses_def split: if_splits)
  next
    case False
    then show ?thesis using y by auto
  qed
qed

text \<open>
  It ends when there are enough addresses: after \<open>n\<close> offsets the pool has exactly the addresses
  of the offsets below \<open>n\<close>, and below \<open>2 ^ 24\<close> every address occurs.
\<close>

lemma fill_pool_ends:
  assumes "count \<le> 16711685" "distinct ips" "set ips = set EXACT_BLOCKED_IPV4 \<union> offset_ip ` of_nat ` {1..<n}"
    "1 \<le> n" "n \<le> 16777216" "length ips \<le> count"
  shows "\<exists>y. fill_pool count ips (of_nat n) = Some y \<and> length y = count"
  using assms
proof (induction "16777216 - n" arbitrary: n ips rule: less_induct)
  case less
  show ?case
  proof (cases "length ips < count")
    case True
    have "n \<noteq> 16777216"
    proof
      assume "n = 16777216"
      then have "set ips = pool_addresses" using less.prems(3) subnet_reached by (simp add: pool_addresses_def)
      then have "length ips = 16711685" using less.prems(2) card_pool_addresses(2) distinct_card by metis
      then show False using True less.prems(1) by simp
    qed
    then have n: "n < 16777216" using less.prems(5) by simp
    let ?ip = "offset_ip (of_nat n)"
    let ?ips = "if ?ip \<in> set ips then ips else ips @ [?ip]"
    have "{1..<Suc n} = insert n {1..<n}" using less.prems(4) by auto
    then have "set ?ips = set EXACT_BLOCKED_IPV4 \<union> offset_ip ` of_nat ` {1..<Suc n}" using less.prems(3) by auto
    moreover have "distinct ?ips" using less.prems(2) by simp
    moreover have "length ?ips \<le> count" using True by simp
    ultimately obtain y where "fill_pool count ?ips (of_nat (Suc n)) = Some y" "length y = count"
      using less.hyps [of "Suc n" ?ips] n less.prems(1) diff_less_mono2 [OF lessI n] by auto
    moreover have "fill_pool count ips (of_nat n) = fill_pool count ?ips (of_nat (Suc n))"
      using True by (subst fill_pool.simps) (simp add: Let_def add.commute)
    ultimately show ?thesis by auto
  next
    case False
    then show ?thesis using less.prems(6) by (subst fill_pool.simps) simp
  qed
qed

lemma fill_pool_returns:
  assumes "count \<le> 16711685"
  shows "\<exists>y. fill_pool count (push_exact count EXACT_BLOCKED_IPV4 []) 1 = Some y \<and> length y = count"
proof (cases "count < 5")
  case True
  then show ?thesis by (subst fill_pool.simps) (simp add: push_exact_take exact_distinct(2))
next
  case False
  then have "push_exact count EXACT_BLOCKED_IPV4 [] = EXACT_BLOCKED_IPV4" by (simp add: push_exact_take exact_distinct(2))
  then show ?thesis using fill_pool_ends [OF assms, of EXACT_BLOCKED_IPV4 1] False exact_distinct by simp
qed

lemma fill_pool_spec:
  "case fill_pool count (push_exact count EXACT_BLOCKED_IPV4 []) 1 of
     None \<Rightarrow> 16711685 < count
   | Some y \<Rightarrow> count \<le> 16711685 \<and> length y = count \<and> distinct y \<and> set y \<subseteq> pool_addresses"
proof (cases "fill_pool count (push_exact count EXACT_BLOCKED_IPV4 []) 1")
  case None
  then show ?thesis using fill_pool_returns [of count] by (auto simp: not_le [symmetric])
next
  case (Some y)
  have "distinct (push_exact count EXACT_BLOCKED_IPV4 [])" "set (push_exact count EXACT_BLOCKED_IPV4 []) \<subseteq> pool_addresses"
    using exact_distinct(1) set_take_subset [of count EXACT_BLOCKED_IPV4] by (auto simp: push_exact_take pool_addresses_def)
  then have y: "count \<le> length y" "distinct y" "set y \<subseteq> pool_addresses" using fill_pool_sound [OF Some] by auto
  then have "length y \<le> 16711685" using card_mono [OF card_pool_addresses(1)] card_pool_addresses(2) distinct_card by metis
  then show ?thesis using y Some fill_pool_returns [of count] by simp
qed

text \<open>
  \<^bold>\<open>C34\<close>. The pool of source addresses is filled exactly when there are enough addresses: up to
  16711685, the loop ends and the pool has as many addresses as asked for, all distinct, each one of the
  five fixed addresses or an address of 10.0.0.0/8 whose last byte is not 0; beyond, the loop
  never ends.
\<close>

theorem new_blocked_pool_total:
  "case new_blocked_pool count of
     None \<Rightarrow> 16711685 < count
   | Some pool \<Rightarrow> count \<le> 16711685 \<and> length (pool_ips pool) = count \<and> distinct (pool_ips pool) \<and>
       set (pool_ips pool) \<subseteq> pool_addresses \<and> pool_index pool = 0"
  using fill_pool_spec [of count] by (simp add: new_blocked_pool_def split: option.splits)

text \<open>Cycling through the pool.\<close>

fun round_robin :: "nat \<Rightarrow> ip_pool \<Rightarrow> (unit, bytes list \<times> ip_pool) outcome" where
  "round_robin 0 pool = Ok ([], pool)"
| "round_robin (Suc n) pool =
     (case next_round_robin pool of
        Ok (ip, pool) \<Rightarrow> (case round_robin n pool of
            Ok (ips, pool) \<Rightarrow> Ok (ip # ips, pool) | Err e \<Rightarrow> Err e | Fault \<Rightarrow> Fault)
      | Err e \<Rightarrow> Err e | Fault \<Rightarrow> Fault)"

lemma round_robin_cycles:
  assumes "pool_index pool < length (pool_ips pool)"
  shows "round_robin n pool = Ok (map (\<lambda>k. pool_ips pool ! ((pool_index pool + k) mod length (pool_ips pool))) [0..<n],
    pool\<lparr>pool_index := (pool_index pool + n) mod length (pool_ips pool)\<rparr>)"
  using assms
proof (induction n arbitrary: pool)
  case (Suc n)
  let ?p = "pool\<lparr>pool_index := (pool_index pool + 1) mod length (pool_ips pool)\<rparr>"
  have "[0..<Suc n] = 0 # map Suc [0..<n]" by (simp add: map_Suc_upt upt_conv_Cons del: upt_Suc)
  moreover have "round_robin n ?p = Ok (map (\<lambda>k. pool_ips ?p ! ((pool_index ?p + k) mod length (pool_ips ?p))) [0..<n],
      ?p\<lparr>pool_index := (pool_index ?p + n) mod length (pool_ips ?p)\<rparr>)"
    by (intro Suc.IH) (use Suc.prems in \<open>simp, metis gr_implies_not0 mod_less_divisor neq0_conv\<close>)
  ultimately show ?case using Suc.prems by (simp add: next_round_robin_def mod_simps del: upt_Suc)
qed simp

end
