(* ===== verification/Bench_Stats.thy ===== *)
theory Bench_Stats
  imports Rust_Std
begin

section \<open>Benchmark statistics and number formatting\<close>

text \<open>
  Models the counters of \<open>scripts/common/src/stats.rs\<close> (one record per thread, 64-bit and wrapping, and
  their aggregation) and the integer formatting of \<open>src/console.rs\<close>.  The rates derived from
  the totals are floating-point numbers and are left out, as is the text of the report.  The
  lemmas: the counters of a thread balance, the totals are the sums over the threads, and a
  formatted number is its decimal digits in groups of three.
\<close>

subsection \<open>Integers with thousand separators\<close>

text \<open>\<open>{:03}\<close> of a number.\<close>

definition pad3 :: "nat \<Rightarrow> string" where
  "pad3 n = replicate (3 - length (show_nat n)) CHR ''0'' @ show_nat n"

fun number_parts :: "nat \<Rightarrow> string list \<Rightarrow> string list" where
  "number_parts n parts =
     (if n = 0 then parts
      else let rem = n mod 1000; n' = n div 1000 in
        number_parts n' (parts @ [if n' > 0 then pad3 rem else show_nat rem]))"

declare number_parts.simps [simp del]

definition format_int_with_spaces :: "nat \<Rightarrow> string" where
  "format_int_with_spaces n = (if n = 0 then ''0'' else join '' '' (rev (number_parts n [])))"

definition format_signed_with_spaces :: "int \<Rightarrow> string" where
  "format_signed_with_spaces n =
     (if n < 0 then CHR ''-'' # format_int_with_spaces (nat (- n)) else format_int_with_spaces (nat n))"

subsection \<open>Thread counters\<close>

record thread_stats =
  thread_id :: nat
  packets_sent :: u64
  bytes_sent :: u64
  tcp_packets :: u64
  udp_packets :: u64
  icmp_packets :: u64
  icmpv6_packets :: u64
  other_packets :: u64
  expected_dropped :: u64
  expected_accepted :: u64
  stat_errors :: u64

definition thread_stats_new :: "nat \<Rightarrow> thread_stats" where
  "thread_stats_new tid =
     \<lparr>thread_id = tid, packets_sent = 0, bytes_sent = 0, tcp_packets = 0, udp_packets = 0, icmp_packets = 0,
      icmpv6_packets = 0, other_packets = 0, expected_dropped = 0, expected_accepted = 0, stat_errors = 0\<rparr>"

definition record_tcp :: "nat \<Rightarrow> bool \<Rightarrow> thread_stats \<Rightarrow> thread_stats" where
  "record_tcp n dropped s =
     (let s = s\<lparr>packets_sent := packets_sent s + 1, bytes_sent := bytes_sent s + of_nat n, tcp_packets := tcp_packets s + 1\<rparr>
      in if dropped then s\<lparr>expected_dropped := expected_dropped s + 1\<rparr>
         else s\<lparr>expected_accepted := expected_accepted s + 1\<rparr>)"

definition record_udp :: "nat \<Rightarrow> bool \<Rightarrow> thread_stats \<Rightarrow> thread_stats" where
  "record_udp n dropped s =
     (let s = s\<lparr>packets_sent := packets_sent s + 1, bytes_sent := bytes_sent s + of_nat n, udp_packets := udp_packets s + 1\<rparr>
      in if dropped then s\<lparr>expected_dropped := expected_dropped s + 1\<rparr>
         else s\<lparr>expected_accepted := expected_accepted s + 1\<rparr>)"

definition record_icmp :: "nat \<Rightarrow> bool \<Rightarrow> thread_stats \<Rightarrow> thread_stats" where
  "record_icmp n dropped s =
     (let s = s\<lparr>packets_sent := packets_sent s + 1, bytes_sent := bytes_sent s + of_nat n, icmp_packets := icmp_packets s + 1\<rparr>
      in if dropped then s\<lparr>expected_dropped := expected_dropped s + 1\<rparr>
         else s\<lparr>expected_accepted := expected_accepted s + 1\<rparr>)"

definition record_icmpv6 :: "nat \<Rightarrow> bool \<Rightarrow> thread_stats \<Rightarrow> thread_stats" where
  "record_icmpv6 n dropped s =
     (let s = s\<lparr>packets_sent := packets_sent s + 1, bytes_sent := bytes_sent s + of_nat n, icmpv6_packets := icmpv6_packets s + 1\<rparr>
      in if dropped then s\<lparr>expected_dropped := expected_dropped s + 1\<rparr>
         else s\<lparr>expected_accepted := expected_accepted s + 1\<rparr>)"

definition record_other :: "nat \<Rightarrow> bool \<Rightarrow> thread_stats \<Rightarrow> thread_stats" where
  "record_other n dropped s =
     (let s = s\<lparr>packets_sent := packets_sent s + 1, bytes_sent := bytes_sent s + of_nat n, other_packets := other_packets s + 1\<rparr>
      in if dropped then s\<lparr>expected_dropped := expected_dropped s + 1\<rparr>
         else s\<lparr>expected_accepted := expected_accepted s + 1\<rparr>)"

definition stats_record_error :: "thread_stats \<Rightarrow> thread_stats" where
  "stats_record_error s = s\<lparr>stat_errors := stat_errors s + 1\<rparr>"

lemmas record_defs = record_tcp_def record_udp_def record_icmp_def record_icmpv6_def record_other_def stats_record_error_def

text \<open>The totals of \<open>BenchmarkSummary::aggregate\<close>.\<close>

record benchmark_summary =
  sum_packets :: u64
  sum_bytes :: u64
  sum_dropped :: u64
  sum_accepted :: u64
  sum_tcp :: u64
  sum_udp :: u64
  sum_icmp :: u64
  sum_icmpv6 :: u64
  sum_other :: u64
  sum_errors :: u64
  sum_threads :: nat
  sum_connections :: nat
  sum_unique_ips :: nat
  sum_breakdowns :: "thread_stats list"

definition add_thread :: "thread_stats \<Rightarrow> benchmark_summary \<Rightarrow> benchmark_summary" where
  "add_thread t b = b\<lparr>
     sum_packets := sum_packets b + packets_sent t, sum_bytes := sum_bytes b + bytes_sent t,
     sum_dropped := sum_dropped b + expected_dropped t, sum_accepted := sum_accepted b + expected_accepted t,
     sum_tcp := sum_tcp b + tcp_packets t, sum_udp := sum_udp b + udp_packets t,
     sum_icmp := sum_icmp b + icmp_packets t, sum_icmpv6 := sum_icmpv6 b + icmpv6_packets t,
     sum_other := sum_other b + other_packets t, sum_errors := sum_errors b + stat_errors t\<rparr>"

definition aggregate :: "thread_stats list \<Rightarrow> nat \<Rightarrow> nat \<Rightarrow> benchmark_summary" where
  "aggregate threads connections unique_ips =
     fold add_thread threads
       \<lparr>sum_packets = 0, sum_bytes = 0, sum_dropped = 0, sum_accepted = 0, sum_tcp = 0, sum_udp = 0, sum_icmp = 0,
        sum_icmpv6 = 0, sum_other = 0, sum_errors = 0, sum_threads = length threads, sum_connections = connections,
        sum_unique_ips = unique_ips, sum_breakdowns = threads\<rparr>"

subsection \<open>Counters balance\<close>

text \<open>Every packet is counted under one protocol and under one expectation.\<close>

definition balanced :: "thread_stats \<Rightarrow> bool" where
  "balanced s \<longleftrightarrow>
     packets_sent s = tcp_packets s + udp_packets s + icmp_packets s + icmpv6_packets s + other_packets s \<and>
     packets_sent s = expected_dropped s + expected_accepted s"

lemma balanced_new [simp]: "balanced (thread_stats_new tid)"
  by (simp add: balanced_def thread_stats_new_def)

lemma balanced_record:
  assumes "balanced s"
  shows "balanced (record_tcp n d s)" "balanced (record_udp n d s)" "balanced (record_icmp n d s)"
    "balanced (record_icmpv6 n d s)" "balanced (record_other n d s)" "balanced (stats_record_error s)"
  using assms by (auto simp: balanced_def record_defs Let_def algebra_simps)

lemma fold_add_thread:
  "sum_packets (fold add_thread ts b) = sum_packets b + sum_list (map packets_sent ts)"
  "sum_bytes (fold add_thread ts b) = sum_bytes b + sum_list (map bytes_sent ts)"
  "sum_dropped (fold add_thread ts b) = sum_dropped b + sum_list (map expected_dropped ts)"
  "sum_accepted (fold add_thread ts b) = sum_accepted b + sum_list (map expected_accepted ts)"
  "sum_tcp (fold add_thread ts b) = sum_tcp b + sum_list (map tcp_packets ts)"
  "sum_udp (fold add_thread ts b) = sum_udp b + sum_list (map udp_packets ts)"
  "sum_icmp (fold add_thread ts b) = sum_icmp b + sum_list (map icmp_packets ts)"
  "sum_icmpv6 (fold add_thread ts b) = sum_icmpv6 b + sum_list (map icmpv6_packets ts)"
  "sum_other (fold add_thread ts b) = sum_other b + sum_list (map other_packets ts)"
  "sum_errors (fold add_thread ts b) = sum_errors b + sum_list (map stat_errors ts)"
  by (induction ts arbitrary: b) (simp_all add: add_thread_def algebra_simps)

lemma sum_list_balanced:
  assumes "\<forall>t \<in> set ts. balanced t"
  shows "sum_list (map packets_sent ts) = sum_list (map tcp_packets ts) + sum_list (map udp_packets ts) +
      sum_list (map icmp_packets ts) + sum_list (map icmpv6_packets ts) + sum_list (map other_packets ts)"
    "sum_list (map packets_sent ts) = sum_list (map expected_dropped ts) + sum_list (map expected_accepted ts)"
proof -
  have a: "map packets_sent ts = map (\<lambda>t. tcp_packets t + udp_packets t + icmp_packets t + icmpv6_packets t + other_packets t) ts"
    and b: "map packets_sent ts = map (\<lambda>t. expected_dropped t + expected_accepted t) ts"
    using assms by (auto simp: balanced_def)
  show "sum_list (map packets_sent ts) = sum_list (map tcp_packets ts) + sum_list (map udp_packets ts) +
      sum_list (map icmp_packets ts) + sum_list (map icmpv6_packets ts) + sum_list (map other_packets ts)"
    unfolding a sum_list_addf ..
  show "sum_list (map packets_sent ts) = sum_list (map expected_dropped ts) + sum_list (map expected_accepted ts)"
    unfolding b sum_list_addf ..
qed

lemma aggregate_balanced:
  assumes "\<forall>t \<in> set ts. balanced t"
  shows "sum_packets (aggregate ts c u) = sum_list (map packets_sent ts) \<and>
    sum_packets (aggregate ts c u) = sum_tcp (aggregate ts c u) + sum_udp (aggregate ts c u) + sum_icmp (aggregate ts c u) +
      sum_icmpv6 (aggregate ts c u) + sum_other (aggregate ts c u) \<and>
    sum_packets (aggregate ts c u) = sum_dropped (aggregate ts c u) + sum_accepted (aggregate ts c u)"
  using sum_list_balanced [OF assms] by (simp add: aggregate_def fold_add_thread)

subsection \<open>Formatted numbers\<close>

lemma show_nat_step: "10 \<le> n \<Longrightarrow> show_nat n = show_nat (n div 10) @ [digit_char (n mod 10)]"
  by (subst show_radix.simps) simp

lemma show_nat_small: "n < 10 \<Longrightarrow> show_nat n = [digit_char n]"
  by (subst show_radix.simps) simp

lemma digit_char_0: "digit_char 0 = CHR ''0''"
  by code_simp

lemma pad3_digits:
  assumes "n < 1000"
  shows "pad3 n = [digit_char (n div 100), digit_char (n div 10 mod 10), digit_char (n mod 10)]"
proof -
  consider "n < 10" | "10 \<le> n" "n < 100" | "100 \<le> n" by linarith
  then show ?thesis
  proof cases
    case 1
    then show ?thesis by (simp add: pad3_def show_nat_small digit_char_0 numeral_3_eq_3)
  next
    case 2
    then have "n div 10 < 10" "n div 100 = 0" by auto
    then show ?thesis using 2 by (simp add: pad3_def show_nat_step [of n] show_nat_small digit_char_0)
  next
    case 3
    then have "10 \<le> n div 10" "n div 10 div 10 < 10" "n div 10 div 10 = n div 100" using assms by (auto simp: div_mult2_eq [symmetric])
    then show ?thesis using 3 by (simp add: pad3_def show_nat_step [of n] show_nat_step [of "n div 10"] show_nat_small)
  qed
qed

lemma show_nat_thousands:
  assumes "1000 \<le> n"
  shows "show_nat n = show_nat (n div 1000) @ pad3 (n mod 1000)"
proof -
  have "10 \<le> n" "10 \<le> n div 10" "10 \<le> n div 10 div 10" using assms by (auto simp: div_mult2_eq [symmetric])
  then have "show_nat n = show_nat (n div 10 div 10 div 10) @ [digit_char (n div 10 div 10 mod 10), digit_char (n div 10 mod 10), digit_char (n mod 10)]"
    by (simp add: show_nat_step)
  moreover have "n div 10 div 10 div 10 = n div 1000" by (simp add: div_mult2_eq [symmetric])
  moreover have "n div 10 div 10 mod 10 = n mod 1000 div 100"
    using mod_mult2_eq [of n 100 10] by (simp add: div_mult2_eq [symmetric])
  moreover have "n div 10 mod 10 = n mod 1000 div 10 mod 10"
    using mod_mult2_eq [of n 10 100] mod_mod_cancel [of 10 100 "n div 10"] by simp
  moreover have "n mod 10 = n mod 1000 mod 10" using mod_mod_cancel [of 10 1000 n] by simp
  ultimately show ?thesis by (simp add: pad3_digits)
qed

lemma no_space_show: "CHR '' '' \<notin> set (show_nat n)"
proof (induction n rule: less_induct)
  case (less n)
  have d: "digit_char k \<noteq> CHR '' ''" if "k < 10" for k
  proof
    assume "digit_char k = CHR '' ''"
    then have "of_char (digit_char k) = (32 :: nat)" by simp
    then show False using that by (simp add: digit_char_def)
  qed
  show ?case
  proof (cases "n < 10")
    case True
    then show ?thesis using d [of n] by (simp add: show_nat_small)
  next
    case False
    then show ?thesis using less [of "n div 10"] d [of "n mod 10"] by (simp add: show_nat_step)
  qed
qed

lemma concat_number_parts: "0 < n \<Longrightarrow> concat (rev (number_parts n parts)) = show_nat n @ concat (rev parts)"
proof (induction n parts rule: number_parts.induct)
  case (1 n parts)
  show ?case
  proof (cases "n div 1000 = 0")
    case True
    then have "n mod 1000 = n" by (simp add: div_eq_0_iff)
    then show ?thesis using 1 True by (simp add: number_parts.simps [of n] number_parts.simps [of 0] Let_def)
  next
    case False
    then have "1000 \<le> n" by (simp add: div_eq_0_iff)
    then show ?thesis using 1 False by (simp add: number_parts.simps [of n] Let_def show_nat_thousands)
  qed
qed

lemma number_parts_no_space:
  "\<forall>p \<in> set parts. CHR '' '' \<notin> set p \<Longrightarrow> \<forall>p \<in> set (number_parts n parts). CHR '' '' \<notin> set p"
proof (induction n parts rule: number_parts.induct)
  case (1 n parts)
  let ?p = "if n div 1000 > 0 then pad3 (n mod 1000) else show_nat (n mod 1000)"
  show ?case
  proof (cases "n = 0")
    case True
    then show ?thesis using "1.prems" by (simp add: number_parts.simps [of 0])
  next
    case False
    have "CHR '' '' \<notin> set ?p" by (simp add: pad3_def no_space_show)
    then have "\<forall>p \<in> set (parts @ [?p]). CHR '' '' \<notin> set p" using "1.prems" by simp
    then have "\<forall>p \<in> set (number_parts (n div 1000) (parts @ [?p])). CHR '' '' \<notin> set p" using "1.IH" [OF False refl refl] by blast
    then show ?thesis using False by (simp only: number_parts.simps [of n] Let_def if_False)
  qed
qed

lemma filter_join:
  "\<forall>p \<in> set ps. CHR '' '' \<notin> set p \<Longrightarrow> filter (\<lambda>c. c \<noteq> CHR '' '') (join '' '' ps) = concat ps"
proof (induction ps rule: induct_list012)
  case (2 p)
  then show ?case by (auto simp: filter_id_conv)
next
  case (3 p q ps)
  then have "filter (\<lambda>c. c \<noteq> CHR '' '') p = p" by (auto simp: filter_id_conv)
  then show ?case using 3 by simp
qed simp

text \<open>Without its spaces, a formatted number is the decimal rendering of the number.\<close>

lemma format_int_digits: "filter (\<lambda>c. c \<noteq> CHR '' '') (format_int_with_spaces n) = show_nat n"
proof (cases "n = 0")
  case True
  then show ?thesis by (simp add: format_int_with_spaces_def show_nat_small digit_char_0)
next
  case False
  then show ?thesis
    using concat_number_parts [of n "[]"] number_parts_no_space [of "[]" n] filter_join [of "rev (number_parts n [])"]
    by (simp add: format_int_with_spaces_def)
qed

end
