(* ===== verification/Bench_Worker.thy ===== *)
theory Bench_Worker
  imports Packet_Builder Traffic_Gen Bench_Stats Xdp_Firewall
begin

section \<open>The benchmark's worker threads\<close>

text \<open>
  Models the worker of \<open>scripts/benchmark/src/main.rs\<close>: each round draws an address and a protocol,
  crafts a packet, counts it and hands it to the raw socket.  The state of a worker has, beside
  its variables, the packets handed over and what it added to the shared counter.  The
  number of rounds, which the clock decides, is a parameter; the pause that limits the rate is
  left out.  The lemmas: a worker never panics on a non-empty pool and a packet size up to 1500,
  its counters balance, and the firewall drops everything it sends once its maps block the
  addresses of the pool.
\<close>

subsection \<open>Durations\<close>

text \<open>\<open>u64::from_str\<close>: an optional plus sign, digits only, no overflow.\<close>

definition parse_u64 :: "string \<Rightarrow> u64 option" where
  "parse_u64 s =
     (let ds = (case s of [] \<Rightarrow> [] | c # cs \<Rightarrow> if c = CHR ''+'' then cs else s) in
      if ds = [] \<or> (\<exists>c \<in> set ds. to_digit 10 c = None) then None
      else let n = foldl (\<lambda>acc c. acc * 10 + the (to_digit 10 c)) 0 ds in
        if n < 2 ^ 64 then Some (of_nat n) else None)"

definition ends_with :: "string \<Rightarrow> string \<Rightarrow> bool" where
  "ends_with suffix s \<longleftrightarrow> length suffix \<le> length s \<and> drop (length s - length suffix) s = suffix"

datatype duration_error = EmptyDuration | InvalidDuration string

text \<open>A duration in milliseconds; the product with 60 wraps around.\<close>

definition parse_human_duration :: "string \<Rightarrow> duration_error + nat" where
  "parse_human_duration s =
     (let trimmed = to_lowercase (trim s) in
      if trimmed = [] then Inl EmptyDuration
      else if ends_with ''ms'' trimmed then
        (case parse_u64 (take (length trimmed - 2) trimmed) of
           None \<Rightarrow> Inl (InvalidDuration s) | Some v \<Rightarrow> Inr (unat v))
      else if ends_with ''s'' trimmed then
        (case parse_u64 (take (length trimmed - 1) trimmed) of
           None \<Rightarrow> Inl (InvalidDuration s) | Some v \<Rightarrow> Inr (unat v * 1000))
      else if ends_with ''m'' trimmed then
        (case parse_u64 (take (length trimmed - 1) trimmed) of
           None \<Rightarrow> Inl (InvalidDuration s) | Some v \<Rightarrow> Inr (unat (v * 60) * 1000))
      else
        (case parse_u64 trimmed of
           None \<Rightarrow> Inl (InvalidDuration s) | Some v \<Rightarrow> Inr (unat v * 1000)))"

subsection \<open>One round\<close>

fun and_then :: "('e, 'a) outcome \<Rightarrow> ('a \<Rightarrow> ('e, 'b) outcome) \<Rightarrow> ('e, 'b) outcome" where
  "and_then (Ok a) k = k a"
| "and_then (Err e) k = Err e"
| "and_then Fault k = Fault"

record bench_worker =
  bw_stats :: thread_stats
  bw_prng :: fast_prng
  bw_buf :: packet_buffer
  bw_batch :: u64
  bw_seq :: u32
  bw_id :: u16
  bw_sent :: "bytes list"
  bw_counter :: u64

definition worker_new :: "nat \<Rightarrow> bench_worker" where
  "worker_new tid =
     \<lparr>bw_stats = thread_stats_new tid,
      bw_prng = prng_new (0xdeadbeef12345678 XOR (of_nat tid * 0x517cc1b727220a95)),
      bw_buf = pb_new, bw_batch = 0, bw_seq = of_nat tid * 100000, bw_id = of_nat tid * 1000,
      bw_sent = [], bw_counter = 0\<rparr>"

definition pad_slice :: "nat \<Rightarrow> nat \<Rightarrow> bytes" where
  "pad_slice packet_size header_len =
     (let payload_padding = replicate packet_size 0x41; pad_needed = packet_size - header_len
      in take (min pad_needed (length payload_padding)) payload_padding)"

text \<open>The match on the protocol: the written length, the buffer and the counters.\<close>

fun craft ::
  "packet_protocol \<Rightarrow> nat \<Rightarrow> bytes \<Rightarrow> bytes \<Rightarrow> u16 \<Rightarrow> u16 \<Rightarrow> u32 \<Rightarrow> u16 \<Rightarrow> bytes \<Rightarrow> thread_stats \<Rightarrow>
   (unit, nat \<times> bytes \<times> thread_stats) outcome" where
  "craft PacketTcp packet_size src dst sp dp sequence identification data stats =
     and_then (build_ipv4_tcp_syn data src dst sp dp sequence identification
         (pad_slice packet_size (IPV4_HEADER_LEN + TCP_HEADER_LEN)))
       (\<lambda>(len, data). Ok (len, data, record_tcp len True stats))"
| "craft PacketUdp packet_size src dst sp dp sequence identification data stats =
     and_then (build_ipv4_udp data src dst sp dp identification (pad_slice packet_size (IPV4_HEADER_LEN + UDP_HEADER_LEN)))
       (\<lambda>(len, data). Ok (len, data, record_udp len True stats))"
| "craft PacketIcmp packet_size src dst sp dp sequence identification data stats =
     and_then (build_ipv4_icmp_echo data src dst identification 1 identification
         (pad_slice packet_size (IPV4_HEADER_LEN + ICMP_HEADER_LEN)))
       (\<lambda>(len, data). Ok (len, data, record_icmp len True stats))"
| "craft PacketIcmpv6 packet_size src dst sp dp sequence identification data stats =
     Ok (0, data, record_icmpv6 packet_size True stats)"
| "craft PacketOther packet_size src dst sp dp sequence identification data stats =
     and_then (build_ipv4_other data src dst IPPROTO_TEST_OTHER identification (pad_slice packet_size IPV4_HEADER_LEN))
       (\<lambda>(len, data). Ok (len, data, record_other len True stats))"

text \<open>Storing the length and sending; the result of the send is ignored.\<close>

definition send_packet :: "bool \<Rightarrow> nat \<Rightarrow> bench_worker \<Rightarrow> (unit, bench_worker) outcome" where
  "send_packet has_sender written_len w =
     (if written_len > 0 then
        let w = w\<lparr>bw_buf := set_len written_len (bw_buf w)\<rparr> in
        if has_sender then and_then (as_slice (bw_buf w)) (\<lambda>pkt. Ok (w\<lparr>bw_sent := bw_sent w @ [pkt]\<rparr>)) else Ok w
      else Ok w)"

definition count_batch :: "bench_worker \<Rightarrow> bench_worker" where
  "count_batch w =
     (let w = w\<lparr>bw_batch := bw_batch w + 1\<rparr> in
      if bw_batch w \<ge> 64 then w\<lparr>bw_counter := bw_counter w + bw_batch w, bw_batch := 0\<rparr> else w)"

definition worker_step ::
  "ip_pool \<Rightarrow> bytes \<Rightarrow> nat \<Rightarrow> protocol_choice \<Rightarrow> bool \<Rightarrow> bench_worker \<Rightarrow> (unit, bench_worker) outcome" where
  "worker_step pool target_ip packet_size choice has_sender w =
     and_then (next_random pool (bw_prng w)) (\<lambda>(src_ip, prng).
     and_then (select choice prng) (\<lambda>(proto, prng).
     let w = w\<lparr>bw_seq := bw_seq w + 1, bw_id := bw_id w + 1\<rparr> in
     and_then (gen_range prng 1024 65535) (\<lambda>(src_port, prng).
     and_then (gen_range prng 1 1024) (\<lambda>(dst_port, prng).
     and_then (craft proto packet_size src_ip target_ip (ucast src_port) (ucast dst_port) (bw_seq w) (bw_id w)
         (pb_data (bw_buf w)) (bw_stats w)) (\<lambda>(written_len, data, stats).
     let w = w\<lparr>bw_prng := prng, bw_buf := (bw_buf w)\<lparr>pb_data := data\<rparr>, bw_stats := stats\<rparr> in
     and_then (send_packet has_sender written_len w) (\<lambda>w. Ok (count_batch w)))))))"

fun bench_loop ::
  "nat \<Rightarrow> ip_pool \<Rightarrow> bytes \<Rightarrow> nat \<Rightarrow> protocol_choice \<Rightarrow> bool \<Rightarrow> bench_worker \<Rightarrow> (unit, bench_worker) outcome" where
  "bench_loop 0 pool target_ip packet_size choice has_sender w = Ok w"
| "bench_loop (Suc n) pool target_ip packet_size choice has_sender w =
     and_then (worker_step pool target_ip packet_size choice has_sender w)
       (bench_loop n pool target_ip packet_size choice has_sender)"

definition flush_batch :: "bench_worker \<Rightarrow> bench_worker" where
  "flush_batch w = (if bw_batch w > 0 then w\<lparr>bw_counter := bw_counter w + bw_batch w\<rparr> else w)"

text \<open>The thread: \<open>args_size\<close> is the requested packet size, which is raised to 64.\<close>

definition worker_run ::
  "nat \<Rightarrow> nat \<Rightarrow> ip_pool \<Rightarrow> bytes \<Rightarrow> nat \<Rightarrow> protocol_choice \<Rightarrow> bool \<Rightarrow> (unit, bench_worker) outcome" where
  "worker_run rounds tid pool target_ip args_size choice has_sender =
     and_then (bench_loop rounds pool target_ip (max args_size 64) choice has_sender (worker_new tid)) (\<lambda>w. Ok (flush_batch w))"

subsection \<open>What a round does\<close>

lemma length_pad_slice [simp]: "length (pad_slice n h) = n - h"
  by (simp add: pad_slice_def Let_def)

text \<open>A packet as the worker crafts it, from a source address and with a source port that is no bypass.\<close>

definition crafted :: "bytes \<Rightarrow> bytes \<Rightarrow> nat \<Rightarrow> bytes \<Rightarrow> bool" where
  "crafted src dst n pkt \<longleftrightarrow>
     (\<exists>proto identification l4. pkt = whole_packet src dst proto identification l4 \<and> n = 20 + length l4 \<and>
        fst (l4_ports proto l4) \<notin> {53, 443})"

definition record_sent :: "packet_protocol \<Rightarrow> nat \<Rightarrow> thread_stats \<Rightarrow> thread_stats" where
  "record_sent proto n stats =
     (case proto of PacketTcp \<Rightarrow> record_tcp n True stats | PacketUdp \<Rightarrow> record_udp n True stats
      | PacketIcmp \<Rightarrow> record_icmp n True stats | PacketIcmpv6 \<Rightarrow> record_icmpv6 n True stats
      | PacketOther \<Rightarrow> record_other n True stats)"

lemma craft_icmpv6:
  "craft PacketIcmpv6 n src dst sp dp sequence identification data stats = Ok (0, data, record_sent PacketIcmpv6 n stats)"
  by (simp add: record_sent_def)

lemma craft_spec:
  assumes "length src = 4" "length dst = 4" "length data = 1500" "64 \<le> n" "n \<le> 1500" "sp \<notin> {53, 443}" "proto \<noteq> PacketIcmpv6"
  shows "\<exists>pkt. craft proto n src dst sp dp sequence identification data stats =
        Ok (n, pkt @ drop n data, record_sent proto n stats) \<and> length pkt = n \<and> crafted src dst n pkt"
proof -
  have *: ?thesis
    if "craft proto n src dst sp dp sequence identification data stats =
        Ok (n, whole_packet src dst pr identification l4 @ drop n data, record_sent proto n stats)"
      "n = 20 + length l4" "fst (l4_ports pr l4) \<notin> {53, 443}" for pr l4
    using that assms(1,2) by (intro exI [of _ "whole_packet src dst pr identification l4"]) (auto simp: crafted_def)
  let ?p = "\<lambda>k. pad_slice n k"
  note h = IPV4_HEADER_LEN_def TCP_HEADER_LEN_def UDP_HEADER_LEN_def ICMP_HEADER_LEN_def record_sent_def
  have po: "fst (l4_ports IPPROTO_TEST_OTHER l4) = 0" for l4 by (simp add: l4_ports_def fw_consts)
  show ?thesis
  proof (cases proto)
    case PacketTcp
    have "craft proto n src dst sp dp sequence identification data stats =
        Ok (n, whole_packet src dst IPPROTO_TCP identification (tcp_syn_segment src dst sp dp sequence (?p 40)) @ drop n data, record_sent proto n stats)"
      using build_ipv4_tcp_syn_eq [of "?p 40" data src dst sp dp sequence identification] assms by (simp add: PacketTcp h)
    then show ?thesis by (rule *) (use assms in \<open>simp_all add: segment_ports\<close>)
  next
    case PacketUdp
    have "craft proto n src dst sp dp sequence identification data stats =
        Ok (n, whole_packet src dst IPPROTO_UDP identification (udp_datagram src dst sp dp (?p 28)) @ drop n data, record_sent proto n stats)"
      using build_ipv4_udp_eq [of "?p 28" data src dst sp dp identification] assms by (simp add: PacketUdp h)
    then show ?thesis by (rule *) (use assms in \<open>simp_all add: segment_ports\<close>)
  next
    case PacketIcmp
    have "craft proto n src dst sp dp sequence identification data stats =
        Ok (n, whole_packet src dst IPPROTO_ICMP identification (icmp_echo identification 1 (?p 28)) @ drop n data, record_sent proto n stats)"
      using build_ipv4_icmp_echo_eq [of "?p 28" data src dst identification 1 identification] assms by (simp add: PacketIcmp h)
    then show ?thesis by (rule *) (use assms in \<open>simp_all add: segment_ports\<close>)
  next
    case PacketOther
    have "craft proto n src dst sp dp sequence identification data stats =
        Ok (n, whole_packet src dst IPPROTO_TEST_OTHER identification (?p 20) @ drop n data, record_sent proto n stats)"
      using build_ipv4_other_eq [of "?p 20" data src dst IPPROTO_TEST_OTHER identification] assms by (simp add: PacketOther h)
    then show ?thesis by (rule *) (use assms in \<open>simp_all add: po\<close>)
  qed (use assms(7) in simp)
qed

lemma next_random_spec:
  assumes "pool_ips pool \<noteq> []"
  shows "\<exists>src prng'. next_random pool prng = Ok (src, prng') \<and> src \<in> set (pool_ips pool)"
  using assms by (auto simp: next_random_def Let_def split: prod.splits)

text \<open>What holds between rounds, of a worker that has done \<open>k\<close> of them.\<close>

definition worker_ok :: "nat \<Rightarrow> ip_pool \<Rightarrow> bytes \<Rightarrow> nat \<Rightarrow> bool \<Rightarrow> bench_worker \<Rightarrow> bool" where
  "worker_ok k pool target_ip n has_sender w \<longleftrightarrow>
     length (pb_data (bw_buf w)) = 1500 \<and> balanced (bw_stats w) \<and>
     packets_sent (bw_stats w) = of_nat k \<and> expected_accepted (bw_stats w) = 0 \<and> stat_errors (bw_stats w) = 0 \<and>
     bytes_sent (bw_stats w) = of_nat k * of_nat n \<and>
     bw_counter w + bw_batch w = of_nat k \<and>
     (if has_sender then of_nat (length (bw_sent w)) + icmpv6_packets (bw_stats w) = of_nat k else bw_sent w = []) \<and>
     (\<forall>pkt \<in> set (bw_sent w). \<exists>src \<in> set (pool_ips pool). crafted src target_ip n pkt)"

lemma worker_ok_new: "worker_ok 0 pool target_ip n has_sender (worker_new tid)"
  by (simp add: worker_ok_def worker_new_def pb_new_def) (simp add: thread_stats_new_def)

lemma record_sent_fields:
  "balanced s \<Longrightarrow> balanced (record_sent proto n s)"
  "packets_sent (record_sent proto n s) = packets_sent s + 1"
  "bytes_sent (record_sent proto n s) = bytes_sent s + of_nat n"
  "expected_accepted (record_sent proto n s) = expected_accepted s"
  "stat_errors (record_sent proto n s) = stat_errors s"
  "icmpv6_packets (record_sent proto n s) = icmpv6_packets s + (if proto = PacketIcmpv6 then 1 else 0)"
  by (cases proto; simp add: record_sent_def balanced_record; simp add: record_defs Let_def)+

lemma count_batch_fields:
  "bw_counter (count_batch w) + bw_batch (count_batch w) = bw_counter w + bw_batch w + 1"
  "bw_stats (count_batch w) = bw_stats w" "bw_buf (count_batch w) = bw_buf w" "bw_sent (count_batch w) = bw_sent w"
  by (simp_all add: count_batch_def Let_def)


lemma drawn_port:
  assumes "1024 \<le> unat v" "unat v \<le> 65535"
  shows "(ucast (v :: u32) :: u16) \<notin> {53, 443}"
proof -
  have "unat (ucast v :: u16) = unat v"
    using assms(2) by (simp add: unsigned_ucast_eq unsigned_take_bit_eq take_bit_nat_eq_self)
  then show ?thesis using assms(1) by auto
qed

lemma send_packet_spec:
  assumes "pb_data (bw_buf w) = pkt @ rest" "length pkt = n" "0 < n"
  shows "send_packet has_sender n w = Ok (w\<lparr>bw_buf := set_len n (bw_buf w), bw_sent := bw_sent w @ (if has_sender then [pkt] else [])\<rparr>)"
  using assms by (simp add: send_packet_def Let_def as_slice_def set_len_def)

text \<open>The state before the batch is counted.\<close>

definition after_send :: "packet_protocol \<Rightarrow> nat \<Rightarrow> bytes list \<Rightarrow> bytes \<Rightarrow> bench_worker \<Rightarrow> bench_worker \<Rightarrow> bool" where
  "after_send proto n sent data w w' \<longleftrightarrow>
     bw_stats w' = record_sent proto n (bw_stats w) \<and> pb_data (bw_buf w') = data \<and> bw_sent w' = bw_sent w @ sent \<and>
     bw_counter w' = bw_counter w \<and> bw_batch w' = bw_batch w"

lemma worker_step_spec:
  assumes "pool_ips pool \<noteq> []" "\<forall>a \<in> set (pool_ips pool). length a = 4" "length target_ip = 4" "64 \<le> n" "n \<le> 1500"
    "length (pb_data (bw_buf w)) = 1500"
  shows "\<exists>proto sent data w'. worker_step pool target_ip n choice has_sender w = Ok (count_batch w') \<and>
    after_send proto n sent data w w' \<and> length data = 1500 \<and>
    (if proto = PacketIcmpv6 \<or> \<not> has_sender then sent = []
     else \<exists>pkt. sent = [pkt] \<and> (\<exists>src \<in> set (pool_ips pool). crafted src target_ip n pkt))"
proof -
  obtain src p1 where r: "next_random pool (bw_prng w) = Ok (src, p1)" "src \<in> set (pool_ips pool)"
    using next_random_spec [OF assms(1)] by blast
  obtain proto p2 where s: "select choice p1 = Ok (proto, p2)" using select_Ok by blast
  obtain sp p3 where g: "gen_range p2 1024 65535 = Ok (sp, p3)" "1024 \<le> unat sp" "unat sp \<le> 65535"
    using gen_range_in_range [of 1024 65535 p2] by auto
  obtain dp p4 where d: "gen_range p3 1 1024 = Ok (dp, p4)" using gen_range_in_range [of 1 1024 p3] by auto
  let ?w = "w\<lparr>bw_seq := bw_seq w + 1, bw_id := bw_id w + 1\<rparr>"
  let ?c = "craft proto n src target_ip (ucast sp) (ucast dp) (bw_seq w + 1) (bw_id w + 1) (pb_data (bw_buf w)) (bw_stats w)"
  have step: "worker_step pool target_ip n choice has_sender w = and_then ?c (\<lambda>(written_len, data, stats).
      let w = ?w\<lparr>bw_prng := p4, bw_buf := (bw_buf ?w)\<lparr>pb_data := data\<rparr>, bw_stats := stats\<rparr> in
      and_then (send_packet has_sender written_len w) (\<lambda>w. Ok (count_batch w)))"
    using r(1) s g(1) d by (simp add: worker_step_def Let_def)
  have len: "length src = 4" using r(2) assms(2) by blast
  show ?thesis
  proof (cases "proto = PacketIcmpv6")
    case True
    then have c: "?c = Ok (0, pb_data (bw_buf w), record_sent proto n (bw_stats w))" using craft_icmpv6 by simp
    show ?thesis
      by (rule exI [of _ proto], rule exI [of _ "[]"], rule exI [of _ "pb_data (bw_buf w)"],
          rule exI [of _ "?w\<lparr>bw_prng := p4, bw_buf := (bw_buf ?w)\<lparr>pb_data := pb_data (bw_buf w)\<rparr>, bw_stats := record_sent proto n (bw_stats w)\<rparr>"])
        (use True assms(6) in \<open>simp add: step c after_send_def send_packet_def record_sent_def Let_def\<close>)
  next
    case False
    obtain pkt where c: "?c = Ok (n, pkt @ drop n (pb_data (bw_buf w)), record_sent proto n (bw_stats w))" "length pkt = n" "crafted src target_ip n pkt"
      using craft_spec [OF len assms(3,6,4,5) drawn_port [OF g(2,3)] False] by blast
    let ?w' = "?w\<lparr>bw_prng := p4, bw_buf := (bw_buf ?w)\<lparr>pb_data := pkt @ drop n (pb_data (bw_buf w))\<rparr>, bw_stats := record_sent proto n (bw_stats w)\<rparr>"
    have sd: "send_packet has_sender n ?w' = Ok (?w'\<lparr>bw_buf := set_len n (bw_buf ?w'), bw_sent := bw_sent ?w' @ (if has_sender then [pkt] else [])\<rparr>)"
      by (rule send_packet_spec) (use c(2) assms(4) in simp_all)
    show ?thesis
      by (rule exI [of _ proto], rule exI [of _ "if has_sender then [pkt] else []"], rule exI [of _ "pkt @ drop n (pb_data (bw_buf w))"],
          rule exI [of _ "?w'\<lparr>bw_buf := set_len n (bw_buf ?w'), bw_sent := bw_sent ?w' @ (if has_sender then [pkt] else [])\<rparr>"])
        (use False assms(5,6) c(2,3) r(2) sd in \<open>auto simp: step c(1) after_send_def Let_def set_len_def\<close>)
  qed
qed

lemma worker_step_ok:
  assumes "pool_ips pool \<noteq> []" "\<forall>a \<in> set (pool_ips pool). length a = 4" "length target_ip = 4" "64 \<le> n" "n \<le> 1500"
    "worker_ok k pool target_ip n has_sender w"
  shows "\<exists>w'. worker_step pool target_ip n choice has_sender w = Ok w' \<and> worker_ok (Suc k) pool target_ip n has_sender w'"
proof -
  have "length (pb_data (bw_buf w)) = 1500" using assms(6) by (simp add: worker_ok_def)
  from worker_step_spec [OF assms(1-5) this] obtain proto sent data w' where
    s: "worker_step pool target_ip n choice has_sender w = Ok (count_batch w')" "after_send proto n sent data w w'" "length data = 1500"
      "if proto = PacketIcmpv6 \<or> \<not> has_sender then sent = []
       else \<exists>pkt. sent = [pkt] \<and> (\<exists>src \<in> set (pool_ips pool). crafted src target_ip n pkt)" by blast
  have "bw_counter (count_batch w') + bw_batch (count_batch w') = of_nat (Suc k)"
    using s(2) assms(6) by (simp add: count_batch_fields(1) worker_ok_def after_send_def)
  then have "worker_ok (Suc k) pool target_ip n has_sender (count_batch w')"
    using s(2-4) assms(6)
    by (auto simp: worker_ok_def after_send_def count_batch_fields(2-4) record_sent_fields algebra_simps split: if_splits)
  then show ?thesis using s(1) by blast
qed

lemma worker_loop_ok:
  assumes "pool_ips pool \<noteq> []" "\<forall>a \<in> set (pool_ips pool). length a = 4" "length target_ip = 4" "64 \<le> n" "n \<le> 1500"
    "worker_ok k pool target_ip n has_sender w"
  shows "\<exists>w'. bench_loop m pool target_ip n choice has_sender w = Ok w' \<and> worker_ok (k + m) pool target_ip n has_sender w'"
  using assms(6)
proof (induction m arbitrary: k w)
  case (Suc m)
  from worker_step_ok [OF assms(1-5) Suc.prems] obtain w' where
    "worker_step pool target_ip n choice has_sender w = Ok w'" "worker_ok (Suc k) pool target_ip n has_sender w'" by blast
  then show ?case using Suc.IH [of "Suc k" w'] by simp
qed simp


subsection \<open>The firewall drops what the benchmark sends\<close>

definition blocks_source :: "'rb xdp_env \<Rightarrow> bytes \<Rightarrow> bool" where
  "blocks_source env a \<longleftrightarrow>
     (\<exists>r. fst (reputation_lookup (ipv4_exact_get env) (ipv4_lpm_get env) 32 a) = Some r \<and> rv_action r = ACTION_DROP)"

lemma crafted_dropped:
  assumes "length dmac = 6" "length smac = 6" "length tags \<le> 1" "\<forall>t \<in> set tags. is_vlan (fst t)"
    and "length src = 4" "length dst = 4" "crafted src dst n pkt" "n \<le> 1500"
    and "cx_pkt ctx = eth_frame dmac smac tags ETH_P_IP pkt" "blocks_source env src"
  shows "fst (firewall env ctx st) = Ok XDP_DROP"
proof -
  obtain proto identification l4 where pkt: "pkt = whole_packet src dst proto identification l4" "n = 20 + length l4"
    and ports: "fst (l4_ports proto l4) \<notin> {53, 443}" using assms(7) by (auto simp: crafted_def)
  let ?p = "sent_fields src dst proto (l4_ports proto l4) (length tags) n"
  have t: "length tags \<le> 2" "length l4 \<le> 65515" using assms(3,8) pkt(2) by simp_all
  have c: "classify_packet (cx_pkt ctx) = Ok ?p"
    unfolding assms(9) pkt(1) by (rule classify_sent [OF assms(1,2) t(1) assms(4-6) t(2) refl pkt(2)])
  have l: "length (cx_pkt ctx) < usize_bound"
    using assms(1-6,8) pkt by (simp add: assms(9) eth_frame_def usize_bound_def)
  have nv: "\<not> is_vlan ETH_P_IP" by (simp add: is_vlan_def fw_consts)
  obtain h where h: "parse_ethernet (cx_pkt ctx) = Ok (h, 14 + 4 * length tags, ETH_P_IP)"
    using parse_ethernet_frame [OF assms(1,2) t(1) assms(4), of ETH_P_IP pkt] nv l unfolding assms(9) by blast
  have "\<not> bypassed ?p" using ports by (auto simp: bypassed_def sent_fields_def)
  moreover have "\<exists>r. fst (source_lookup env ?p) = Some r \<and> rv_action r = ACTION_DROP"
    using assms(5,10) by (simp add: source_lookup_reputation sent_fields_def blocks_source_def)
  ultimately show ?thesis
    using decide_drop_iff [of env ctx ?p st] firewall_decide [OF l c h, of env st] assms(3) by simp
qed

lemma pool_lengths: "a \<in> pool_addresses \<Longrightarrow> length a = 4"
  by (auto simp: pool_addresses_def EXACT_BLOCKED_IPV4_def subnet_ips_def)

lemma blocked_pool_spec:
  assumes "new_blocked_pool k = Some pool"
  shows "length (pool_ips pool) = k" "set (pool_ips pool) \<subseteq> pool_addresses"
  using assms fill_pool_spec [of k] by (auto simp: new_blocked_pool_def split: option.splits)

lemma flush_batch_counter: "bw_counter (flush_batch w) = bw_counter w + bw_batch w"
  by (simp add: flush_batch_def word_gt_0)

lemma flush_batch_fields: "bw_stats (flush_batch w) = bw_stats w" "bw_sent (flush_batch w) = bw_sent w"
  by (simp_all add: flush_batch_def)



end
