(* ===== verification/Test_Traffic.thy ===== *)
theory Test_Traffic
  imports Bench_Worker
begin

section \<open>The traffic verification tool\<close>

text \<open>
  Models \<open>scripts/test_traffic/src/main.rs\<close>: the three rounds of probes, from a legitimate address, from
  an address blocked exactly and from one in a blocked network.  Everything the tool does to
  the outside, through \<open>scripts/common/src/socket.rs\<close>, is an operation of a trace, and what the outside
  answers (a ping, a connection attempt, an alias) is the parameter \<open>host\<close>; the console output is left out.
  The lemmas: the tool ends without panic, its packets are well formed and the firewall
  drops the spoofed ones, and the two counts it returns do not depend on any answer.
\<close>

datatype net_op =
    EnableDropLogs bytes
  | PingCheck "bytes option" bytes u32 u32
  | TcpProbe bytes u16 nat
  | UdpDatagram "bytes option" bytes u16 bytes
  | AddAlias string bytes
  | DelAlias string bytes
  | RawPacket bytes bytes

text \<open>Whether a raw socket can be opened, and the answers of the network.\<close>

record host =
  ho_raw :: bool
  ho_ping :: "net_op list \<Rightarrow> bool"
  ho_connect :: "net_op list \<Rightarrow> bool"
  ho_alias :: "net_op list \<Rightarrow> bool"

record cli_args =
  ca_target :: bytes
  ca_interface :: string
  ca_timeout :: u64

definition cli_default :: cli_args where
  "cli_default = \<lparr>ca_target = [172, 28, 0, 2], ca_interface = ''eth0'', ca_timeout = 2\<rparr>"

definition byte_string :: "string \<Rightarrow> bytes" where
  "byte_string s = map (\<lambda>c. of_nat (of_char c)) s"

text \<open>\<open>buf.set_len(len); let _ = sender.send_to(buf.as_slice(), target_ip)\<close>\<close>

definition send_built :: "bytes \<Rightarrow> nat \<times> bytes \<Rightarrow> net_op list \<Rightarrow> (unit, net_op list) outcome" where
  "send_built target_ip built t =
     (case built of (len, data) \<Rightarrow>
        and_then (as_slice (set_len len (pb_new\<lparr>pb_data := data\<rparr>))) (\<lambda>pkt. Ok (t @ [RawPacket pkt target_ip])))"

text \<open>The block \<open>if let Some(ref sender) = raw_sender\<close> with one packet.\<close>

definition raw_probe ::
  "bool \<Rightarrow> bytes \<Rightarrow> (bytes \<Rightarrow> (unit, nat \<times> bytes) outcome) \<Rightarrow> net_op list \<Rightarrow> (unit, net_op list) outcome" where
  "raw_probe raw target_ip build t =
     (if raw then and_then (build (pb_data pb_new)) (\<lambda>built. send_built target_ip built t) else Ok t)"

text \<open>[1/3]: the legitimate probes; the result is the trace and the accepted count.\<close>

definition legitimate_round :: "host \<Rightarrow> cli_args \<Rightarrow> net_op list \<Rightarrow> (unit, net_op list \<times> nat) outcome" where
  "legitimate_round H args t =
     (let target_ip = ca_target args;
          timeout = unat (max (ca_timeout args) 1);
          accepted_count = 0;
          t = t @ [PingCheck None target_ip 2 (ucast (ca_timeout args))];
          accepted_count = (if ho_ping H t then accepted_count + 1 else accepted_count + 1);
          t = t @ [TcpProbe target_ip 80 timeout] in
      and_then
        (if ho_connect H t then Ok (t, accepted_count + 1)
         else and_then
           (raw_probe (ho_raw H) target_ip
              (\<lambda>buf. build_ipv4_tcp_syn buf LEGITIMATE_CONTAINER_IPV4 target_ip 49152 80 1001 1 []) t)
           (\<lambda>t. Ok (t, accepted_count + 1)))
        (\<lambda>(t, accepted_count).
           Ok (t @ [UdpDatagram None target_ip 53 (byte_string ''HELLO_FIREWALL_LEGIT_UDP'')], accepted_count + 1)))"

text \<open>The two SYN probes of 2.2 share one buffer.\<close>

definition syn_probes :: "bool \<Rightarrow> bytes \<Rightarrow> bytes \<Rightarrow> net_op list \<Rightarrow> (unit, net_op list) outcome" where
  "syn_probes raw src target_ip t =
     (if raw then
        and_then (build_ipv4_tcp_syn (pb_data pb_new) src target_ip 50001 80 2001 20 []) (\<lambda>(len80, data).
        and_then (send_built target_ip (len80, data) t) (\<lambda>t.
        and_then (build_ipv4_tcp_syn data src target_ip 50002 443 2002 21 []) (\<lambda>(len443, data).
        send_built target_ip (len443, data) t)))
      else Ok t)"

text \<open>[2/3]: probes from an exactly blocked address; the result is the trace and the blocked count.\<close>

definition exact_round :: "host \<Rightarrow> cli_args \<Rightarrow> net_op list \<times> nat \<Rightarrow> (unit, net_op list \<times> nat) outcome" where
  "exact_round H args = (\<lambda>(t, blocked_count).
     let target_ip = ca_target args;
         blocked_exact = [198, 51, 100, 14];
         payload = byte_string ''MALICIOUS_DNS_AMPLIFICATION_ATTACK'';
         t = t @ [AddAlias (ca_interface args) blocked_exact];
         alias_added = ho_alias H t in
     and_then (raw_probe (ho_raw H) target_ip
         (\<lambda>buf. build_ipv4_icmp_echo buf blocked_exact target_ip 1234 1 10 (byte_string ''MALICIOUS_PING'')) t) (\<lambda>t.
     let t = t @ [PingCheck (Some blocked_exact) target_ip 2 1]; blocked_count = blocked_count + 1 in
     and_then (syn_probes (ho_raw H) blocked_exact target_ip t) (\<lambda>t.
     let blocked_count = blocked_count + 1 in
     and_then (raw_probe (ho_raw H) target_ip
         (\<lambda>buf. build_ipv4_udp buf blocked_exact target_ip 53535 53 30 payload) t) (\<lambda>t.
     let t = t @ [UdpDatagram (Some blocked_exact) target_ip 53 payload]; blocked_count = blocked_count + 1 in
     Ok (if alias_added then t @ [DelAlias (ca_interface args) blocked_exact] else t, blocked_count)))))"

text \<open>[3/3]: probes from an address of a blocked network.\<close>

definition cidr_round :: "host \<Rightarrow> cli_args \<Rightarrow> net_op list \<times> nat \<Rightarrow> (unit, net_op list \<times> nat) outcome" where
  "cidr_round H args = (\<lambda>(t, blocked_count).
     let target_ip = ca_target args;
         blocked_cidr = [10, 0, 0, 50];
         payload = byte_string ''MALICIOUS_SYSLOG_SPOOF'';
         t = t @ [AddAlias (ca_interface args) blocked_cidr];
         alias_cidr_added = ho_alias H t in
     and_then (raw_probe (ho_raw H) target_ip
         (\<lambda>buf. build_ipv4_icmp_echo buf blocked_cidr target_ip 5678 1 40 (byte_string ''CIDR_PING_ATTACK'')) t) (\<lambda>t.
     let t = t @ [PingCheck (Some blocked_cidr) target_ip 2 1]; blocked_count = blocked_count + 1 in
     and_then (raw_probe (ho_raw H) target_ip
         (\<lambda>buf. build_ipv4_tcp_syn buf blocked_cidr target_ip 50003 22 3001 50 []) t) (\<lambda>t.
     let blocked_count = blocked_count + 1 in
     and_then (raw_probe (ho_raw H) target_ip
         (\<lambda>buf. build_ipv4_udp buf blocked_cidr target_ip 50004 514 60 payload) t) (\<lambda>t.
     let t = t @ [UdpDatagram (Some blocked_cidr) target_ip 514 payload]; blocked_count = blocked_count + 1 in
     Ok (if alias_cidr_added then t @ [DelAlias (ca_interface args) blocked_cidr] else t, blocked_count)))))"

definition run_traffic_verification :: "host \<Rightarrow> cli_args \<Rightarrow> (unit, (nat \<times> nat) \<times> net_op list) outcome" where
  "run_traffic_verification H args =
     and_then (legitimate_round H args [EnableDropLogs (ca_target args)]) (\<lambda>(t, accepted_count).
     and_then (exact_round H args (t, 0)) (\<lambda>st.
     and_then (cidr_round H args st) (\<lambda>(t, blocked_count). Ok ((blocked_count, accepted_count), t))))"

subsection \<open>What is sent\<close>

text \<open>The raw packets of a trace.\<close>

fun raw_packets :: "net_op list \<Rightarrow> bytes list" where
  "raw_packets [] = []"
| "raw_packets (RawPacket pkt _ # t) = pkt # raw_packets t"
| "raw_packets (_ # t) = raw_packets t"

lemma raw_packets_append [simp]: "raw_packets (s @ t) = raw_packets s @ raw_packets t"
  by (induction s rule: raw_packets.induct) simp_all

text \<open>\<open>sends src dst k s t\<close>: the trace \<open>t\<close> extends \<open>s\<close> by \<open>k\<close> raw packets from \<open>src\<close>.\<close>

definition sends :: "bytes \<Rightarrow> bytes \<Rightarrow> nat \<Rightarrow> net_op list \<Rightarrow> net_op list \<Rightarrow> bool" where
  "sends src dst k s t \<longleftrightarrow> (\<exists>pkts. raw_packets t = raw_packets s @ pkts \<and> length pkts = k \<and>
     (\<forall>pkt \<in> set pkts. \<exists>n \<le> 1500. crafted src dst n pkt))"

lemma sends_trans: "sends src dst j s t \<Longrightarrow> sends src dst k t u \<Longrightarrow> sends src dst (j + k) s u"
  unfolding sends_def by fastforce

lemma sends_silent: "raw_packets t = raw_packets s \<Longrightarrow> sends src dst 0 s t"
  by (simp add: sends_def)

lemma send_built_sends:
  assumes "pkt = whole_packet src dst proto identification l4" "len = 20 + length l4" "len \<le> 1500"
    "length src = 4" "length dst = 4" "fst (l4_ports proto l4) \<notin> {53, 443}"
  shows "\<exists>t'. send_built dst (len, pkt @ rest) t = Ok t' \<and> sends src dst 1 t t'"
proof -
  have "length pkt = len" using assms by simp
  moreover have "crafted src dst len pkt" using assms by (auto simp: crafted_def)
  ultimately show ?thesis using assms(3)
    by (auto simp: send_built_def as_slice_def set_len_def sends_def)
qed

lemma buf_length [simp]: "length (pb_data pb_new) = 1500"
  by (simp add: pb_new_def)

lemma raw_tcp:
  assumes "length src = 4" "length dst = 4" "sp \<notin> {53, 443}"
  shows "\<exists>t'. raw_probe raw dst (\<lambda>buf. build_ipv4_tcp_syn buf src dst sp dp sequence identification []) t = Ok t' \<and>
    sends src dst (if raw then 1 else 0) t t'"
proof (cases raw)
  case True
  then show ?thesis
    using send_built_sends [OF refl, where len = 40 and src = src and dst = dst and t = t] assms
    by (simp add: raw_probe_def build_ipv4_tcp_syn_eq segment_ports)
qed (simp add: raw_probe_def sends_silent)

lemma raw_udp:
  assumes "length src = 4" "length dst = 4" "sp \<notin> {53, 443}" "length payload \<le> 1000"
  shows "\<exists>t'. raw_probe raw dst (\<lambda>buf. build_ipv4_udp buf src dst sp dp identification payload) t = Ok t' \<and>
    sends src dst (if raw then 1 else 0) t t'"
proof (cases raw)
  case True
  then show ?thesis
    using send_built_sends [OF refl, where len = "28 + length payload" and src = src and dst = dst and t = t] assms
    by (simp add: raw_probe_def build_ipv4_udp_eq segment_ports)
qed (simp add: raw_probe_def sends_silent)

lemma raw_icmp:
  assumes "length src = 4" "length dst = 4" "length payload \<le> 1000"
  shows "\<exists>t'. raw_probe raw dst (\<lambda>buf. build_ipv4_icmp_echo buf src dst ident sequence identification payload) t = Ok t' \<and>
    sends src dst (if raw then 1 else 0) t t'"
proof (cases raw)
  case True
  then show ?thesis
    using send_built_sends [OF refl, where len = "28 + length payload" and src = src and dst = dst and t = t] assms
    by (simp add: raw_probe_def build_ipv4_icmp_echo_eq segment_ports)
qed (simp add: raw_probe_def sends_silent)

lemma syn_probes_sends:
  assumes "length src = 4" "length dst = 4"
  shows "\<exists>t'. syn_probes raw src dst t = Ok t' \<and> sends src dst (if raw then 2 else 0) t t'"
proof (cases raw)
  case True
  let ?p1 = "whole_packet src dst IPPROTO_TCP 20 (tcp_syn_segment src dst 50001 80 2001 [])"
  let ?p2 = "whole_packet src dst IPPROTO_TCP 21 (tcp_syn_segment src dst 50002 443 2002 [])"
  let ?d = "?p1 @ drop 40 (pb_data pb_new)"
  have b1: "build_ipv4_tcp_syn (pb_data pb_new) src dst 50001 80 2001 20 [] = Ok (40, ?d)"
    using assms by (simp add: build_ipv4_tcp_syn_eq)
  obtain t1 where t1: "send_built dst (40, ?d) t = Ok t1" "sends src dst 1 t t1"
    using assms send_built_sends [OF refl, of 40 "tcp_syn_segment src dst 50001 80 2001 []" src dst IPPROTO_TCP 20 "drop 40 (pb_data pb_new)" t]
    by (auto simp: segment_ports)
  have b2: "build_ipv4_tcp_syn ?d src dst 50002 443 2002 21 [] = Ok (40, ?p2 @ drop 40 ?d)"
    using assms by (subst build_ipv4_tcp_syn_eq) simp_all
  obtain t2 where t2: "send_built dst (40, ?p2 @ drop 40 ?d) t1 = Ok t2" "sends src dst 1 t1 t2"
    using assms send_built_sends [OF refl, of 40 "tcp_syn_segment src dst 50002 443 2002 []" src dst IPPROTO_TCP 21 "drop 40 ?d" t1]
    by (auto simp: segment_ports simp del: drop_append)
  show ?thesis using True b1 b2 t1(1) t2(1) sends_trans [OF t1(2) t2(2)] by (simp add: syn_probes_def numeral_2_eq_2 del: drop_append)
qed (simp add: syn_probes_def sends_silent)

lemma length_byte_string [simp]: "length (byte_string s) = length s"
  by (simp add: byte_string_def)

lemma legitimate_round_counts:
  assumes "length (ca_target args) = 4"
  shows "\<exists>t' k. legitimate_round H args t = Ok (t', 3) \<and> sends LEGITIMATE_CONTAINER_IPV4 (ca_target args) k t t'"
proof -
  let ?t = "t @ [PingCheck None (ca_target args) 2 (ucast (ca_timeout args)), TcpProbe (ca_target args) 80 (unat (max (ca_timeout args) 1))]"
  let ?udp = "[UdpDatagram None (ca_target args) 53 (byte_string ''HELLO_FIREWALL_LEGIT_UDP'')]"
  have silent: "sends src dst 0 t ?t" "sends src dst 0 u (u @ ?udp)" for src dst u by (simp_all add: sends_silent)
  show ?thesis
  proof (cases "ho_connect H ?t")
    case True
    then have "legitimate_round H args t = Ok (?t @ ?udp, 3)" by (simp add: legitimate_round_def Let_def)
    then show ?thesis using sends_trans [OF silent(1) silent(2)] by blast
  next
    case False
    have "length LEGITIMATE_CONTAINER_IPV4 = 4" "(49152 :: u16) \<notin> {53, 443}" by (simp_all add: LEGITIMATE_CONTAINER_IPV4_def)
    from raw_tcp [OF this(1) assms this(2)] obtain u where
      u: "raw_probe (ho_raw H) (ca_target args)
            (\<lambda>buf. build_ipv4_tcp_syn buf LEGITIMATE_CONTAINER_IPV4 (ca_target args) 49152 80 1001 1 []) ?t = Ok u"
        "sends LEGITIMATE_CONTAINER_IPV4 (ca_target args) (if ho_raw H then 1 else 0) ?t u" by blast
    have "legitimate_round H args t = Ok (u @ ?udp, 3)" using False u(1) by (simp add: legitimate_round_def Let_def)
    then show ?thesis using sends_trans [OF sends_trans [OF silent(1) u(2)] silent(2)] by blast
  qed
qed

lemma exact_round_counts:
  assumes "length (ca_target args) = 4"
  shows "\<exists>t'. exact_round H args (t, b) = Ok (t', b + 3) \<and>
    sends [198, 51, 100, 14] (ca_target args) (if ho_raw H then 4 else 0) t t'"
proof -
  let ?a = "[198, 51, 100, 14] :: bytes" and ?d = "ca_target args" and ?r = "ho_raw H" and ?k = "if ho_raw H then 1 else 0 :: nat"
  have a: "length ?a = 4" by simp
  let ?t = "t @ [AddAlias (ca_interface args) ?a]"
  obtain t1 where t1: "raw_probe ?r ?d (\<lambda>buf. build_ipv4_icmp_echo buf ?a ?d 1234 1 10 (byte_string ''MALICIOUS_PING'')) ?t = Ok t1"
    "sends ?a ?d ?k ?t t1" using raw_icmp [OF a assms, of "byte_string ''MALICIOUS_PING''" ?r 1234 1 10 ?t] by auto
  let ?t1 = "t1 @ [PingCheck (Some ?a) ?d 2 1]"
  obtain t2 where t2: "syn_probes ?r ?a ?d ?t1 = Ok t2" "sends ?a ?d (if ?r then 2 else 0) ?t1 t2"
    using syn_probes_sends [OF a assms] by blast
  obtain t3 where t3: "raw_probe ?r ?d (\<lambda>buf. build_ipv4_udp buf ?a ?d 53535 53 30 (byte_string ''MALICIOUS_DNS_AMPLIFICATION_ATTACK'')) t2 = Ok t3"
    "sends ?a ?d ?k t2 t3" using raw_udp [OF a assms, of 53535 "byte_string ''MALICIOUS_DNS_AMPLIFICATION_ATTACK''" ?r 53 30 t2] by auto
  have "sends ?a ?d 0 t ?t" "sends ?a ?d 0 t1 ?t1" by (simp_all add: sends_silent)
  from sends_trans [OF sends_trans [OF sends_trans [OF sends_trans [OF this(1) t1(2)] this(2)] t2(2)] t3(2)]
  have s: "sends ?a ?d (if ?r then 4 else 0) t t3" by (simp add: eval_nat_numeral split: if_splits)
  have "sends ?a ?d (if ?r then 4 else 0) t t'"
    if "raw_packets t' = raw_packets t3" for t' using sends_trans [OF s sends_silent [OF that]] by simp
  then show ?thesis using t1(1) t2(1) t3(1) by (simp add: exact_round_def Let_def)
qed

lemma cidr_round_counts:
  assumes "length (ca_target args) = 4"
  shows "\<exists>t'. cidr_round H args (t, b) = Ok (t', b + 3) \<and> sends [10, 0, 0, 50] (ca_target args) (if ho_raw H then 3 else 0) t t'"
proof -
  let ?a = "[10, 0, 0, 50] :: bytes" and ?d = "ca_target args" and ?r = "ho_raw H" and ?k = "if ho_raw H then 1 else 0 :: nat"
  have a: "length ?a = 4" by simp
  let ?t = "t @ [AddAlias (ca_interface args) ?a]"
  obtain t1 where t1: "raw_probe ?r ?d (\<lambda>buf. build_ipv4_icmp_echo buf ?a ?d 5678 1 40 (byte_string ''CIDR_PING_ATTACK'')) ?t = Ok t1"
    "sends ?a ?d ?k ?t t1" using raw_icmp [OF a assms, of "byte_string ''CIDR_PING_ATTACK''" ?r 5678 1 40 ?t] by auto
  let ?t1 = "t1 @ [PingCheck (Some ?a) ?d 2 1]"
  obtain t2 where t2: "raw_probe ?r ?d (\<lambda>buf. build_ipv4_tcp_syn buf ?a ?d 50003 22 3001 50 []) ?t1 = Ok t2" "sends ?a ?d ?k ?t1 t2"
    using raw_tcp [OF a assms, of 50003 ?r 22 3001 50 ?t1] by auto
  obtain t3 where t3: "raw_probe ?r ?d (\<lambda>buf. build_ipv4_udp buf ?a ?d 50004 514 60 (byte_string ''MALICIOUS_SYSLOG_SPOOF'')) t2 = Ok t3"
    "sends ?a ?d ?k t2 t3" using raw_udp [OF a assms, of 50004 "byte_string ''MALICIOUS_SYSLOG_SPOOF''" ?r 514 60 t2] by auto
  have "sends ?a ?d 0 t ?t" "sends ?a ?d 0 t1 ?t1" by (simp_all add: sends_silent)
  from sends_trans [OF sends_trans [OF sends_trans [OF sends_trans [OF this(1) t1(2)] this(2)] t2(2)] t3(2)]
  have s: "sends ?a ?d (if ?r then 3 else 0) t t3" by (simp add: numeral_3_eq_3 split: if_splits)
  have "sends ?a ?d (if ?r then 3 else 0) t t'"
    if "raw_packets t' = raw_packets t3" for t' using sends_trans [OF s sends_silent [OF that]] by simp
  then show ?thesis using t1(1) t2(1) t3(1) by (simp add: cidr_round_def Let_def)
qed

text \<open>
  \<^bold>\<open>C36\<close>. What the traffic verification shows.  For every target and every host, whatever the pings, the
  connection attempts and the aliases answer, the tool ends without panic and reports six blocked and
  three accepted probes: the report does not depend on the firewall.  With a raw socket it does
  send seven spoofed packets, four from 198.51.100.14 and three from 10.0.0.50, and a firewall with drop
  rules for these two addresses drops each of them in a frame with at most one VLAN tag.
\<close>

theorem verification_report_fixed:
  assumes "length (ca_target args) = 4"
  shows "\<exists>t legit spoofed. run_traffic_verification H args = Ok ((6, 3), t) \<and> raw_packets t = legit @ spoofed \<and>
    length spoofed = (if ho_raw H then 7 else 0) \<and>
    (\<forall>env dmac smac tags ctx st pkt. blocks_source env [198, 51, 100, 14] \<and> blocks_source env [10, 0, 0, 50] \<and>
       length dmac = 6 \<and> length smac = 6 \<and> length tags \<le> 1 \<and> (\<forall>tag \<in> set tags. is_vlan (fst tag)) \<and>
       pkt \<in> set spoofed \<and> cx_pkt ctx = eth_frame dmac smac tags ETH_P_IP pkt \<longrightarrow>
       fst (firewall (env :: 'rb xdp_env) ctx st) = Ok XDP_DROP)"
proof -
  let ?d = "ca_target args"
  obtain t1 k where t1: "legitimate_round H args [EnableDropLogs ?d] = Ok (t1, 3)"
    using legitimate_round_counts [OF assms] by blast
  obtain t2 where t2: "exact_round H args (t1, 0) = Ok (t2, 3)" "sends [198, 51, 100, 14] ?d (if ho_raw H then 4 else 0) t1 t2"
    using exact_round_counts [OF assms, of H t1 0] by auto
  obtain t3 where t3: "cidr_round H args (t2, 3) = Ok (t3, 6)" "sends [10, 0, 0, 50] ?d (if ho_raw H then 3 else 0) t2 t3"
    using cidr_round_counts [OF assms, of H t2 3] by auto
  obtain p2 where p2: "raw_packets t2 = raw_packets t1 @ p2" "length p2 = (if ho_raw H then 4 else 0)"
    "\<forall>pkt \<in> set p2. \<exists>n \<le> 1500. crafted [198, 51, 100, 14] ?d n pkt" using t2(2) by (auto simp: sends_def)
  obtain p3 where p3: "raw_packets t3 = raw_packets t2 @ p3" "length p3 = (if ho_raw H then 3 else 0)"
    "\<forall>pkt \<in> set p3. \<exists>n \<le> 1500. crafted [10, 0, 0, 50] ?d n pkt" using t3(2) by (auto simp: sends_def)
  have run: "run_traffic_verification H args = Ok ((6, 3), t3)" using t1 t2(1) t3(1) by (simp add: run_traffic_verification_def)
  have drop: "fst (firewall env ctx st) = Ok XDP_DROP"
    if a: "blocks_source env [198, 51, 100, 14]" "blocks_source env [10, 0, 0, 50]" "length dmac = 6" "length smac = 6" "length tags \<le> 1"
      "\<forall>tag \<in> set tags. is_vlan (fst tag)" "pkt \<in> set (p2 @ p3)" "cx_pkt ctx = eth_frame dmac smac tags ETH_P_IP pkt"
    for env :: "'rb xdp_env" and dmac smac tags ctx st pkt
  proof -
    obtain src n where src: "src \<in> {[198, 51, 100, 14], [10, 0, 0, 50]}" "n \<le> 1500" "crafted src ?d n pkt" using p2(3) p3(3) a(7) unfolding set_append by blast
    have "length src = 4" "blocks_source env src" using src(1) a(1,2) by auto
    then show ?thesis by (intro crafted_dropped [OF a(3-6) _ assms src(3,2) a(8)])
  qed
  have "raw_packets t3 = raw_packets t1 @ (p2 @ p3)" "length (p2 @ p3) = (if ho_raw H then 7 else 0)" using p2 p3 by simp_all
  then show ?thesis using run drop by blast
qed

theorem verification_report_fixed_witness:
  "\<exists>t. run_traffic_verification \<lparr>ho_raw = True, ho_ping = (\<lambda>_. False), ho_connect = (\<lambda>_. False), ho_alias = (\<lambda>_. False)\<rparr> cli_default =
     Ok ((6, 3), t)"
  using verification_report_fixed [of cli_default "\<lparr>ho_raw = True, ho_ping = (\<lambda>_. False), ho_connect = (\<lambda>_. False), ho_alias = (\<lambda>_. False)\<rparr>"]
  by (auto simp: cli_default_def)

end
