(* ===== verification/Xdp_Loader.thy ===== *)
theory Xdp_Loader
  imports Map_Manager Rust_Std
begin

section \<open>Loading and attaching the XDP program\<close>

text \<open>
  Models \<open>src/xdp.rs\<close> and the attachment modes of \<open>src/config.rs\<close>: the search for the compiled program,
  loading it, and attaching it with the fall-back from the driver to the generic mode.  The file system,
  the process environment and the kernel are the parameter \<open>platform\<close>; raising the memory limit is
  left out.  The lemmas: the search returns the first file that exists, in the documented
  order, and an attachment uses the mode asked for, or the generic mode in automatic mode when the
  driver refuses.
\<close>

datatype xdp_mode = Driver | Skb | Hardware

datatype xdp_mode_choice = ModeAuto | ModeDriver | ModeGeneric | ModeHardware

definition mode_default :: xdp_mode_choice where
  "mode_default = ModeAuto"

datatype fw_error =
    ConfigNotAFile string
  | ConfigReadFailed string
  | ConfigBinaryNotFound
  | ConfigNoProgram
  | EbpfFailed
  | ProgramFailed

text \<open>
  \<open>pf_exe_dir\<close> is the directory of the running executable, \<open>pf_env_path\<close> the variable
  \<open>FIREWALL_EBPF_PATH\<close>; \<open>pf_load\<close> is \<open>EbpfLoader::load\<close>, which yields the named maps;
  \<open>pf_program\<close> says whether the object has an XDP program \<open>firewall\<close>, \<open>pf_verify\<close> whether the
  kernel accepts it, and \<open>pf_attach\<close> whether it can be attached.
\<close>

record 'o platform =
  pf_is_file :: "string \<Rightarrow> bool"
  pf_read :: "string \<Rightarrow> bytes option"
  pf_env_path :: "string option"
  pf_exe_dir :: "string option"
  pf_load :: "bytes \<Rightarrow> (string \<rightharpoonup> 'o) option"
  pf_program :: "bytes \<Rightarrow> bool"
  pf_verify :: "bytes \<Rightarrow> bool"
  pf_attach :: "bytes \<Rightarrow> string \<Rightarrow> xdp_mode \<Rightarrow> bool"

record 'o xdp_firewall =
  xf_ebpf :: "string \<rightharpoonup> 'o"
  xf_elf :: bytes
  xf_iface :: string

definition candidate_paths :: "string list" where
  "candidate_paths =
     [''target/bpfel-unknown-none/release/firewall-ebpf'',
      ''target/bpfel-unknown-none/debug/firewall-ebpf'',
      ''/app/firewall-ebpf'',
      ''firewall-ebpf/target/bpfel-unknown-none/release/firewall-ebpf'',
      ''firewall-ebpf/target/bpfel-unknown-none/debug/firewall-ebpf'',
      ''../target/bpfel-unknown-none/release/firewall-ebpf'',
      ''../target/bpfel-unknown-none/debug/firewall-ebpf'',
      ''../firewall-ebpf/target/bpfel-unknown-none/release/firewall-ebpf'',
      ''../firewall-ebpf/target/bpfel-unknown-none/debug/firewall-ebpf'',
      ''./firewall-ebpf'']"

text \<open>\<open>Path::join\<close> with a relative path.\<close>

definition path_join :: "string \<Rightarrow> string \<Rightarrow> string" where
  "path_join dir rel = (if dir = [] \<or> last dir = CHR ''/'' then dir @ rel else dir @ ''/'' @ rel)"

definition sibling_candidates :: "string \<Rightarrow> string list" where
  "sibling_candidates exe_dir =
     map (path_join exe_dir)
       [''../bpfel-unknown-none/release/firewall-ebpf'',
        ''../bpfel-unknown-none/debug/firewall-ebpf'',
        ''../../firewall-ebpf/target/bpfel-unknown-none/release/firewall-ebpf'',
        ''../../firewall-ebpf/target/bpfel-unknown-none/debug/firewall-ebpf'']"

definition locate_ebpf_binary :: "'o platform \<Rightarrow> fw_error + string" where
  "locate_ebpf_binary P =
     (case (case pf_env_path P of Some p \<Rightarrow> if pf_is_file P p then Some p else None | None \<Rightarrow> None) of
        Some p \<Rightarrow> Inr p
      | None \<Rightarrow>
        (case List.find (pf_is_file P) candidate_paths of
           Some p \<Rightarrow> Inr p
         | None \<Rightarrow>
           (case pf_exe_dir P of
              Some exe_dir \<Rightarrow>
                (case List.find (pf_is_file P) (sibling_candidates exe_dir) of
                   Some p \<Rightarrow> Inr p | None \<Rightarrow> Inl ConfigBinaryNotFound)
            | None \<Rightarrow> Inl ConfigBinaryNotFound)))"

definition xdp_load :: "'o platform \<Rightarrow> string option \<Rightarrow> fw_error + 'o xdp_firewall" where
  "xdp_load P custom_bpf_path =
     (case (case custom_bpf_path of
              Some p \<Rightarrow> if \<not> pf_is_file P p then Inl (ConfigNotAFile p) else Inr p
            | None \<Rightarrow> locate_ebpf_binary P) of
        Inl e \<Rightarrow> Inl e
      | Inr bpf_path \<Rightarrow>
        (case pf_read P bpf_path of
           None \<Rightarrow> Inl (ConfigReadFailed bpf_path)
         | Some bytecode \<Rightarrow>
           (case pf_load P bytecode of
              None \<Rightarrow> Inl EbpfFailed
            | Some ebpf \<Rightarrow>
              if \<not> pf_program P bytecode then Inl ConfigNoProgram
              else if \<not> pf_verify P bytecode then Inl ProgramFailed
              else Inr \<lparr>xf_ebpf = ebpf, xf_elf = bytecode, xf_iface = []\<rparr>)))"

definition try_attach :: "'o platform \<Rightarrow> string \<Rightarrow> xdp_mode \<Rightarrow> 'o xdp_firewall \<Rightarrow> fw_error + xdp_mode" where
  "try_attach P iface mode fw = (if pf_attach P (xf_elf fw) iface mode then Inr mode else Inl ProgramFailed)"

definition attach :: "'o platform \<Rightarrow> string \<Rightarrow> xdp_mode_choice \<Rightarrow> 'o xdp_firewall \<Rightarrow> (fw_error + xdp_mode) \<times> 'o xdp_firewall" where
  "attach P iface mode_choice fw =
     (if \<not> pf_program P (xf_elf fw) then (Inl ConfigNoProgram, fw)
      else
        (case (case mode_choice of
                 ModeDriver \<Rightarrow> try_attach P iface Driver fw
               | ModeGeneric \<Rightarrow> try_attach P iface Skb fw
               | ModeHardware \<Rightarrow> try_attach P iface Hardware fw
               | ModeAuto \<Rightarrow>
                   (case try_attach P iface Driver fw of Inr m \<Rightarrow> Inr m | Inl _ \<Rightarrow> try_attach P iface Skb fw)) of
           Inl e \<Rightarrow> (Inl e, fw)
         | Inr m \<Rightarrow> (Inr m, fw\<lparr>xf_iface := iface\<rparr>)))"

definition load_and_attach ::
  "'o platform \<Rightarrow> string \<Rightarrow> xdp_mode_choice \<Rightarrow> string option \<Rightarrow> fw_error + xdp_mode \<times> 'o xdp_firewall" where
  "load_and_attach P iface mode_choice custom_bpf_path =
     (case xdp_load P custom_bpf_path of
        Inl e \<Rightarrow> Inl e
      | Inr fw \<Rightarrow> (case attach P iface mode_choice fw of (Inl e, _) \<Rightarrow> Inl e | (Inr m, fw) \<Rightarrow> Inr (m, fw)))"

subsection \<open>The search order\<close>

definition search_path :: "'o platform \<Rightarrow> string list" where
  "search_path P =
     (case pf_env_path P of Some p \<Rightarrow> [p] | None \<Rightarrow> []) @ candidate_paths @
     (case pf_exe_dir P of Some d \<Rightarrow> sibling_candidates d | None \<Rightarrow> [])"

lemma find_append: "List.find P (xs @ ys) = (case List.find P xs of Some x \<Rightarrow> Some x | None \<Rightarrow> List.find P ys)"
  by (induction xs) auto

lemma locate_first:
  "locate_ebpf_binary P = (case List.find (pf_is_file P) (search_path P) of Some p \<Rightarrow> Inr p | None \<Rightarrow> Inl ConfigBinaryNotFound)"
  by (simp add: locate_ebpf_binary_def search_path_def find_append split: option.splits)

lemma xdp_load_program: "xdp_load P path = Inr fw \<Longrightarrow> pf_program P (xf_elf fw) \<and> pf_verify P (xf_elf fw) \<and> pf_load P (xf_elf fw) = Some (xf_ebpf fw)"
  by (auto simp: xdp_load_def split: sum.splits option.splits if_splits)

text \<open>Whatever mode is chosen, it is one the kernel granted, and it is the one asked for except in automatic mode.\<close>

fun allowed_modes :: "xdp_mode_choice \<Rightarrow> xdp_mode list" where
  "allowed_modes ModeDriver = [Driver]"
| "allowed_modes ModeGeneric = [Skb]"
| "allowed_modes ModeHardware = [Hardware]"
| "allowed_modes ModeAuto = [Driver, Skb]"

lemma attach_mode:
  assumes "pf_program P (xf_elf fw)"
  shows "fst (attach P iface choice fw) =
    (case List.find (pf_attach P (xf_elf fw) iface) (allowed_modes choice) of Some m \<Rightarrow> Inr m | None \<Rightarrow> Inl ProgramFailed)"
  using assms by (cases choice) (simp_all add: attach_def try_attach_def)

end
