(* ===== verification/Metrics_Server.thy ===== *)
theory Metrics_Server
  imports Fw_Metrics Rust_Std
begin

section \<open>The metrics server\<close>

text \<open>
  Models the request handler of \<open>MetricsServer::run\<close> in \<open>src/metrics.rs\<close>: the dispatch on the text of a
  request, the response, and the effect on the metrics (an export brings the most blocked
  addresses up to date) and on the flag that controls the drop log.  The text encoder of
  the Prometheus library is a parameter; sockets and tasks are left out.
\<close>

definition starts_with :: "string \<Rightarrow> string \<Rightarrow> bool" where
  "starts_with pat s \<longleftrightarrow> take (length pat) s = pat"

fun contains :: "string \<Rightarrow> string \<Rightarrow> bool" where
  "contains pat [] \<longleftrightarrow> pat = []"
| "contains pat (c # s) \<longleftrightarrow> starts_with pat (c # s) \<or> contains pat s"

definition crlf :: string where
  "crlf = [CHR 0x0D, CHR 0x0A]"

text \<open>The response formats; \<open>http_ok\<close> with an optional content type.\<close>

definition http_response :: "string \<Rightarrow> string option \<Rightarrow> string \<Rightarrow> string" where
  "http_response status content_type body =
     ''HTTP/1.1 '' @ status @ crlf @
     (case content_type of None \<Rightarrow> [] | Some c \<Rightarrow> ''Content-Type: '' @ c @ crlf) @
     ''Content-Length: '' @ show_radix 10 (length body) @ crlf @
     ''Connection: close'' @ crlf @ crlf @ body"

definition requested_state :: "string \<Rightarrow> bool" where
  "requested_state req \<longleftrightarrow>
     \<not> contains ''enabled=false'' req \<and> \<not> contains ''enable=false'' req \<and> \<not> contains ''/disable'' req \<and>
     (contains ''enabled=true'' req \<or> contains ''enable=true'' req \<or> contains ''/enable'' req)"

definition metrics_encode ::
  "'v counter_vec_ops \<Rightarrow> (('v, 'g) prometheus_metrics \<Rightarrow> string + string) \<Rightarrow> ('v, 'g) prometheus_metrics \<Rightarrow>
   (string + string) \<times> ('v, 'g) prometheus_metrics" where
  "metrics_encode V encode_text m = (let m = sync_top_blocked_ips V m in (encode_text m, m))"

definition handle_request ::
  "'v counter_vec_ops \<Rightarrow> (('v, 'g) prometheus_metrics \<Rightarrow> string + string) \<Rightarrow> string \<Rightarrow>
   ('v, 'g) prometheus_metrics \<Rightarrow> bool option \<Rightarrow> string \<times> ('v, 'g) prometheus_metrics \<times> bool option" where
  "handle_request V encode_text req m drop_flag =
     (if starts_with ''GET /metrics'' req \<or> starts_with ''GET / '' req then
        (case metrics_encode V encode_text m of
           (res, m) \<Rightarrow>
             let body = (case res of Inr text \<Rightarrow> text | Inl e \<Rightarrow> ''# Error gathering metrics: '' @ e @ [CHR 0x0A]) in
             (http_response ''200 OK'' (Some ''text/plain; version=0.0.4; charset=utf-8'') body, m, drop_flag))
      else if starts_with ''GET /health'' req then (http_response ''200 OK'' None ''OK'', m, drop_flag)
      else if starts_with ''POST /telemetry/drop-logs'' req \<or> starts_with ''GET /telemetry/drop-logs'' req then
        let new_state = requested_state req;
            body = ''{'' @ [CHR 0x22] @ ''drop_logs_enabled'' @ [CHR 0x22] @ '':'' @ (if new_state then ''true'' else ''false'') @ ''}'' in
        (http_response ''200 OK'' (Some ''application/json'') body, m, map_option (\<lambda>_. new_state) drop_flag)
      else (http_response ''404 NOT FOUND'' None ''Not Found'', m, drop_flag))"

subsection \<open>What a request changes\<close>

text \<open>
  A request changes the flag only at the telemetry address, to what it asks for, and the metrics only
  by an export.  A plain \<open>GET\<close> of the telemetry address switches the log off.
\<close>

lemma starts_with_other:
  assumes "starts_with b s" "take k a \<noteq> take k b" "k \<le> length a" "k \<le> length b"
  shows "\<not> starts_with a s"
proof
  assume "starts_with a s"
  then have "take k a = take k (take (length a) s)" "take k b = take k (take (length b) s)"
    using assms(1) by (simp_all only: starts_with_def)
  then show False using assms(2-4) by (simp add: min_absorb1)
qed

lemma telemetry_first:
  assumes "starts_with ''POST /telemetry/drop-logs'' s \<or> starts_with ''GET /telemetry/drop-logs'' s"
  shows "\<not> starts_with ''GET /metrics'' s" "\<not> starts_with ''GET / '' s" "\<not> starts_with ''GET /health'' s"
proof -
  have "\<not> starts_with a s" if "a \<in> {''GET /metrics'', ''GET / '', ''GET /health''}" for a
    using assms
  proof
    assume "starts_with ''POST /telemetry/drop-logs'' s"
    then show ?thesis by (rule starts_with_other [where k = 6]) (use that in auto)
  next
    assume "starts_with ''GET /telemetry/drop-logs'' s"
    then show ?thesis by (rule starts_with_other [where k = 6]) (use that in auto)
  qed
  then show "\<not> starts_with ''GET /metrics'' s" "\<not> starts_with ''GET / '' s" "\<not> starts_with ''GET /health'' s" by simp_all
qed

lemma handle_request_state:
  assumes "handle_request V enc req m flag = (response, m', flag')"
  shows "flag' = (if starts_with ''POST /telemetry/drop-logs'' req \<or> starts_with ''GET /telemetry/drop-logs'' req
      then map_option (\<lambda>_. requested_state req) flag else flag)"
    "m' = (if starts_with ''GET /metrics'' req \<or> starts_with ''GET / '' req then sync_top_blocked_ips V m else m)"
  using assms telemetry_first [of req]
  by (auto simp: handle_request_def metrics_encode_def Let_def split: if_splits)

lemma requested_states:
  "requested_state ''POST /telemetry/drop-logs?enabled=true HTTP/1.1''"
  "\<not> requested_state ''GET /telemetry/drop-logs HTTP/1.1''"
  by code_simp+

end
