(* ===== verification/Daemon.thy ===== *)
theory Daemon
  imports Xdp_Loader Fw_Loader Firehol_Blocklist Metrics_Server
begin

section \<open>The daemon\<close>

text \<open>
  Models \<open>src/main.rs\<close> with the switches of \<open>src/config.rs\<close> and the tick of \<open>src/stats.rs\<close>: the start
  of the daemon, stage by stage with its exits, and the steps of the tasks it then runs.  The
  tasks share the map manager behind a lock, so a run is a sequence of steps, each of which is one
  event of one task: a change of a watched rule file, a scheduled FireHOL job, a statistics tick, a
  request to the metrics server, the termination signal.  What the outside does is in the events (the rule files as they are
  at that moment) and in the parameters.  A burst of file events that the watcher debounces is
  one event.  The ring-buffer task has a theory of its own; the \<open>firewall_up\<close> gauge, durations, the log and
  the console are left out.  The lemmas: the hook is attached only after every stage has succeeded, and whatever the tasks do,
  the maps are those of a history of static and FireHOL reloads.
\<close>

subsection \<open>Configuration\<close>

record config =
  cf_iface :: string
  cf_rules :: "string list"
  cf_mode :: xdp_mode_choice
  cf_watch :: bool
  cf_json :: bool
  cf_quiet :: bool
  cf_stats_interval :: nat
  cf_metrics_listen_addr :: string
  cf_no_metrics :: bool
  cf_bpf_path :: "string option"
  cf_log_level :: string
  cf_firehol :: bool
  cf_no_firehol :: bool
  cf_firehol_dir :: string
  cf_firehol_url :: string
  cf_firehol_branch :: string
  cf_firehol_cache_dir :: "string option"
  cf_no_color :: bool
  cf_firehol_cron :: string
  cf_no_cron :: bool
  cf_firehol_ignore_ip :: string

text \<open>The settings without any argument and any of the environment variables.\<close>

definition config_default :: config where
  "config_default =
     \<lparr>cf_iface = ''eth0'',
      cf_rules = [''rules/blocklist.txt'', ''rules/blocklist_v6.txt'', ''rules/cidr_ranges.txt''],
      cf_mode = mode_default, cf_watch = False, cf_json = False, cf_quiet = False, cf_stats_interval = 5,
      cf_metrics_listen_addr = ''0.0.0.0:9100'', cf_no_metrics = False, cf_bpf_path = None, cf_log_level = ''info'',
      cf_firehol = True, cf_no_firehol = False, cf_firehol_dir = ''rules/firehol-blocklist-ipsets'',
      cf_firehol_url = ''https://github.com/firehol/blocklist-ipsets'', cf_firehol_branch = ''master'',
      cf_firehol_cache_dir = Some ''cache/firehol'', cf_no_color = False, cf_firehol_cron = ''0 0 * * * *'',
      cf_no_cron = False, cf_firehol_ignore_ip = []\<rparr>"

definition is_firehol_enabled :: "config \<Rightarrow> bool" where
  "is_firehol_enabled cfg \<longleftrightarrow> cf_firehol cfg \<and> \<not> cf_no_firehol cfg"

definition is_cron_enabled :: "config \<Rightarrow> bool" where
  "is_cron_enabled cfg \<longleftrightarrow> is_firehol_enabled cfg \<and> \<not> cf_no_cron cfg"

subsection \<open>State and surroundings\<close>

text \<open>The libraries the daemon is linked with; \<open>lb_runs\<close> is what an import finds in a state of the disk.\<close>

record ('w, 'r, 'o, 'e, 'l, 's, 'db, 'v, 'g, 'n) libs =
  lb_git :: "('w, 'r) git_ops"
  lb_aya :: "('o, 'e, 'l, 's) aya"
  lb_rocks :: "'db rocks_ops"
  lb_counters :: "'v counter_vec_ops"
  lb_gauges :: "'g gauge_vec_ops"
  lb_net :: "'n ipnet_lib"
  lb_encode :: "('v, 'g) prometheus_metrics \<Rightarrow> string + string"
  lb_runs :: "'w \<Rightarrow> 'db import_run"

text \<open>
  The surroundings at the start: \<open>PrometheusMetrics::new\<close> with the git counters, the variable
  \<open>FIREHOL_IGNORE_IP\<close>, whether the cache opens and whether the ring-buffer map can be registered.
\<close>

record ('o, 'v, 'g) boot =
  bt_platform :: "'o platform"
  bt_metrics :: "(('v, 'g) prometheus_metrics \<times> git_metrics) option"
  bt_ignore_env :: "string option"
  bt_open_cache :: "string \<Rightarrow> bool"
  bt_ringbuf :: "'o \<Rightarrow> bool"

type_synonym fingerprint = "(string \<times> nat option \<times> nat) list"

record ('w, 'r, 'e, 'l, 's, 'db, 'v, 'g) daemon =
  dm_metrics :: "('v, 'g) prometheus_metrics option"
  dm_blocklist :: "('r, 'db) blocklist"
  dm_manager :: "('e, 'l, 's) map_manager option"
  dm_git_metrics :: "git_metrics option"
  dm_world :: 'w
  dm_static :: static_rule_registry
  dm_attached :: "(string \<times> xdp_mode) option"
  dm_drop_logs :: bool
  dm_fingerprint :: fingerprint
  dm_stopped :: bool

text \<open>\<open>if let Some(m) = &metrics { m.record_error(..) }\<close>\<close>

definition note_error ::
  "'v counter_vec_ops \<Rightarrow> string \<Rightarrow> ('w, 'r, 'e, 'l, 's, 'db, 'v, 'g) daemon \<Rightarrow> ('w, 'r, 'e, 'l, 's, 'db, 'v, 'g) daemon" where
  "note_error V label d = d\<lparr>dm_metrics := map_option (record_error V label) (dm_metrics d)\<rparr>"

subsection \<open>Start\<close>

definition firehol_settings :: "config \<Rightarrow> string option \<Rightarrow> firehol_config" where
  "firehol_settings cfg ignore_env =
     \<lparr>fc_repo_url = cf_firehol_url cfg, fc_local_path = cf_firehol_dir cfg, fc_default_branch = cf_firehol_branch cfg,
      fc_enabled = is_firehol_enabled cfg,
      fc_ignore_ips =
        (if cf_firehol_ignore_ip cfg \<noteq> [] then parse_ignore_ips (cf_firehol_ignore_ip cfg)
         else case ignore_env of Some val \<Rightarrow> parse_ignore_ips val | None \<Rightarrow> [])\<rparr>"

definition opens_cache :: "config \<Rightarrow> (string \<Rightarrow> bool) \<Rightarrow> bool" where
  "opens_cache cfg open_ok =
     (if is_firehol_enabled cfg then (case cf_firehol_cache_dir cfg of Some dir \<Rightarrow> open_ok dir | None \<Rightarrow> False) else False)"

definition daemon_init :: "config \<Rightarrow> ('o, 'v, 'g) boot \<Rightarrow> 'w \<Rightarrow> ('w, 'r, 'e, 'l, 's, 'db, 'v, 'g) daemon" where
  "daemon_init cfg B w =
     (let metrics = (if \<not> cf_no_metrics cfg then bt_metrics B else None) in
      \<lparr>dm_metrics = map_option fst metrics,
       dm_blocklist = bl_new (firehol_settings cfg (bt_ignore_env B)) (opens_cache cfg (bt_open_cache B)),
       dm_manager = None, dm_git_metrics = map_option snd metrics, dm_world = w, dm_static = registry_new,
       dm_attached = None, dm_drop_logs = \<not> cf_quiet cfg, dm_fingerprint = [], dm_stopped = False\<rparr>)"

text \<open>A FireHOL job on the state of the daemon.\<close>

definition firehol_job ::
  "('w, 'r, 'o, 'e, 'l, 's, 'db, 'v, 'g, 'n) libs \<Rightarrow> bool \<Rightarrow> bool \<Rightarrow> ('w, 'r, 'e, 'l, 's, 'db, 'v, 'g) daemon \<Rightarrow>
   (blocklist_error, firehol_sync_outcome) outcome \<times> ('w, 'r, 'e, 'l, 's, 'db, 'v, 'g) daemon" where
  "firehol_job E is_startup locked d =
     (case execute_firehol_sync (lb_git E) (lb_aya E) (lb_rocks E) (lb_counters E) (lb_gauges E) (lb_runs E) is_startup locked
         (dm_metrics d, dm_blocklist d, dm_manager d, dm_git_metrics d, dm_world d) of
        (res, m, bl, mgr, gm, w) \<Rightarrow>
          (res, d\<lparr>dm_metrics := m, dm_blocklist := bl, dm_manager := mgr, dm_git_metrics := gm, dm_world := w\<rparr>))"

definition firehol_stage ::
  "('w, 'r, 'o, 'e, 'l, 's, 'db, 'v, 'g, 'n) libs \<Rightarrow> config \<Rightarrow> ('w, 'r, 'e, 'l, 's, 'db, 'v, 'g) daemon \<Rightarrow>
   bool \<times> ('w, 'r, 'e, 'l, 's, 'db, 'v, 'g) daemon" where
  "firehol_stage E cfg d =
     (if is_firehol_enabled cfg then
        (case firehol_job E True False d of
           (Ok _, d) \<Rightarrow> (True, d)
         | (Err _, d) \<Rightarrow> (False, note_error (lb_counters E) ''firehol_startup_failed'' d)
         | (Fault, d) \<Rightarrow> (False, d))
      else (True, d))"

text \<open>
  Loading the static rule files into the registry and the maps; \<open>label\<close> is the error counted
  when they cannot be read.
\<close>

definition load_static ::
  "('w, 'r, 'o, 'e, 'l, 's, 'db, 'v, 'g, 'n) libs \<Rightarrow> string \<Rightarrow> loader_fs \<Rightarrow> string list \<Rightarrow>
   ('w, 'r, 'e, 'l, 's, 'db, 'v, 'g) daemon \<Rightarrow> ('w, 'r, 'e, 'l, 's, 'db, 'v, 'g) daemon" where
  "load_static E label fs paths d =
     (let A = lb_aya E in
      case load_from_paths_with_meta (lb_net E) fs paths of
        Inr (rules, static_meta) \<Rightarrow>
          let d = d\<lparr>dm_static := registry_set static_meta (dm_static d)\<rparr> in
          (case dm_manager d of
             None \<Rightarrow> d
           | Some mm \<Rightarrow>
               let (report, mm) = sync_rules A rules mm in
               d\<lparr>dm_manager := Some mm,
                 dm_metrics := map_option (update_map_entries (lb_gauges E) (total_exact_v4 A mm) (total_exact_v6 A mm)
                   (total_lpm_v4 A mm) (total_lpm_v6 A mm)) (dm_metrics d)\<rparr>)
      | Inl err \<Rightarrow> note_error (lb_counters E) label d)"

definition static_stage ::
  "('w, 'r, 'o, 'e, 'l, 's, 'db, 'v, 'g, 'n) libs \<Rightarrow> config \<Rightarrow> loader_fs \<Rightarrow>
   ('w, 'r, 'e, 'l, 's, 'db, 'v, 'g) daemon \<Rightarrow> ('w, 'r, 'e, 'l, 's, 'db, 'v, 'g) daemon" where
  "static_stage E cfg fs d = (if cf_rules cfg \<noteq> [] then load_static E ''rule_load'' fs (cf_rules cfg) d else d)"

definition attach_stage ::
  "('w, 'r, 'o, 'e, 'l, 's, 'db, 'v, 'g, 'n) libs \<Rightarrow> 'o platform \<Rightarrow> config \<Rightarrow> 'o xdp_firewall \<Rightarrow>
   ('w, 'r, 'e, 'l, 's, 'db, 'v, 'g) daemon \<Rightarrow> bool \<times> ('w, 'r, 'e, 'l, 's, 'db, 'v, 'g) daemon" where
  "attach_stage E P cfg fw d =
     (case attach P (cf_iface cfg) (cf_mode cfg) fw of
        (Inl _, _) \<Rightarrow> (False, note_error (lb_counters E) ''xdp_attach'' d)
      | (Inr mode, _) \<Rightarrow> (True, d\<lparr>dm_attached := Some (cf_iface cfg, mode)\<rparr>))"

text \<open>The stages in order; \<open>False\<close> is an exit with status 1.\<close>

definition startup ::
  "('w, 'r, 'o, 'e, 'l, 's, 'db, 'v, 'g, 'n) libs \<Rightarrow> config \<Rightarrow> ('o, 'v, 'g) boot \<Rightarrow> loader_fs \<Rightarrow> 'w \<Rightarrow>
   bool \<times> ('w, 'r, 'e, 'l, 's, 'db, 'v, 'g) daemon" where
  "startup E cfg B fs w =
     (let d = daemon_init cfg B w; P = bt_platform B; V = lb_counters E in
      case xdp_load P (cf_bpf_path cfg) of
        Inl _ \<Rightarrow> (False, note_error V ''ebpf_load'' d)
      | Inr fw \<Rightarrow>
        (case take_map ''EVENTS'' (xf_ebpf fw) of
           (events, ebpf) \<Rightarrow>
             if \<not> (case events of Some ob \<Rightarrow> bt_ringbuf B ob | None \<Rightarrow> False) then (False, note_error V ''ringbuf_init'' d)
             else
               (case map_manager_new (lb_aya E) ebpf of
                  (Inl _, _) \<Rightarrow> (False, note_error V ''map_manager_init'' d)
                | (Inr mm, ebpf) \<Rightarrow>
                  (case firehol_stage E cfg (d\<lparr>dm_manager := Some mm\<rparr>) of
                     (False, d) \<Rightarrow> (False, d)
                   | (True, d) \<Rightarrow> attach_stage E P cfg (fw\<lparr>xf_ebpf := ebpf\<rparr>) (static_stage E cfg fs d)))))"

subsection \<open>Running\<close>

text \<open>\<open>compute_fingerprint\<close>; \<open>meta\<close> is \<open>std::fs::metadata\<close>: modification time, if known, and size.\<close>

definition compute_fingerprint :: "(string \<Rightarrow> (nat option \<times> nat) option) \<Rightarrow> string list \<Rightarrow> fingerprint" where
  "compute_fingerprint meta paths =
     map (\<lambda>p. let m = meta p; mtime = Option.bind m fst; len = (case m of Some m \<Rightarrow> snd m | None \<Rightarrow> 0) in (p, mtime, len)) paths"

text \<open>The event kinds the watcher lets through.\<close>

datatype notify_kind = ModifyData | ModifyName | ModifyAny | ModifyMetadata | ModifyOther | Create | Remove | Access | OtherKind

definition is_content_change :: "notify_kind \<Rightarrow> bool" where
  "is_content_change kind \<longleftrightarrow> kind \<in> {ModifyData, ModifyName, ModifyAny, Create, Remove}"

datatype daemon_event =
    FileEvent notify_kind loader_fs "string \<Rightarrow> (nat option \<times> nat) option"
  | CronTick bool
  | StatsTick
  | HttpRequest string
  | ShutdownSignal

definition start_watching :: "config \<Rightarrow> (string \<Rightarrow> (nat option \<times> nat) option) \<Rightarrow>
   ('w, 'r, 'e, 'l, 's, 'db, 'v, 'g) daemon \<Rightarrow> ('w, 'r, 'e, 'l, 's, 'db, 'v, 'g) daemon" where
  "start_watching cfg meta d = (if cf_watch cfg then d\<lparr>dm_fingerprint := compute_fingerprint meta (cf_rules cfg)\<rparr> else d)"

definition on_file_event ::
  "('w, 'r, 'o, 'e, 'l, 's, 'db, 'v, 'g, 'n) libs \<Rightarrow> config \<Rightarrow> notify_kind \<Rightarrow> loader_fs \<Rightarrow> (string \<Rightarrow> (nat option \<times> nat) option) \<Rightarrow>
   ('w, 'r, 'e, 'l, 's, 'db, 'v, 'g) daemon \<Rightarrow> ('w, 'r, 'e, 'l, 's, 'db, 'v, 'g) daemon" where
  "on_file_event E cfg kind fs meta d =
     (if \<not> (cf_watch cfg \<and> is_content_change kind) then d
      else
        let current = compute_fingerprint meta (cf_rules cfg) in
        if current = dm_fingerprint d then d
        else load_static E ''watcher_parse'' fs (cf_rules cfg) (d\<lparr>dm_fingerprint := current\<rparr>))"

definition on_cron_tick ::
  "('w, 'r, 'o, 'e, 'l, 's, 'db, 'v, 'g, 'n) libs \<Rightarrow> config \<Rightarrow> bool \<Rightarrow>
   ('w, 'r, 'e, 'l, 's, 'db, 'v, 'g) daemon \<Rightarrow> (unit, ('w, 'r, 'e, 'l, 's, 'db, 'v, 'g) daemon) outcome" where
  "on_cron_tick E cfg locked d =
     (if \<not> is_cron_enabled cfg then Ok d
      else case firehol_job E False locked d of (Fault, d) \<Rightarrow> Fault | (_, d) \<Rightarrow> Ok d)"

definition on_stats_tick ::
  "('w, 'r, 'o, 'e, 'l, 's, 'db, 'v, 'g, 'n) libs \<Rightarrow>
   ('w, 'r, 'e, 'l, 's, 'db, 'v, 'g) daemon \<Rightarrow> ('w, 'r, 'e, 'l, 's, 'db, 'v, 'g) daemon" where
  "on_stats_tick E d =
     (let stats = (case dm_manager d of Some mm \<Rightarrow> get_stats (lb_aya E) mm | None \<Rightarrow> stats_default)
      in d\<lparr>dm_metrics := map_option (update_from_ebpf_stats (lb_counters E) stats) (dm_metrics d)\<rparr>)"

text \<open>A request to the metrics server, which runs when there are metrics.\<close>

definition on_http_request ::
  "('w, 'r, 'o, 'e, 'l, 's, 'db, 'v, 'g, 'n) libs \<Rightarrow> string \<Rightarrow>
   ('w, 'r, 'e, 'l, 's, 'db, 'v, 'g) daemon \<Rightarrow> ('w, 'r, 'e, 'l, 's, 'db, 'v, 'g) daemon" where
  "on_http_request E req d =
     (case dm_metrics d of
        None \<Rightarrow> d
      | Some m \<Rightarrow>
          (case handle_request (lb_counters E) (lb_encode E) req m (Some (dm_drop_logs d)) of
             (response, m, flag) \<Rightarrow> d\<lparr>dm_metrics := Some m, dm_drop_logs := (flag = Some True)\<rparr>))"

text \<open>One event; after the termination signal the tasks have ended.  A panic ends the process.\<close>

fun daemon_step ::
  "('w, 'r, 'o, 'e, 'l, 's, 'db, 'v, 'g, 'n) libs \<Rightarrow> config \<Rightarrow> daemon_event \<Rightarrow>
   ('w, 'r, 'e, 'l, 's, 'db, 'v, 'g) daemon \<Rightarrow> (unit, ('w, 'r, 'e, 'l, 's, 'db, 'v, 'g) daemon) outcome" where
  "daemon_step E cfg (FileEvent kind fs meta) d = Ok (if dm_stopped d then d else on_file_event E cfg kind fs meta d)"
| "daemon_step E cfg (CronTick locked) d = (if dm_stopped d then Ok d else on_cron_tick E cfg locked d)"
| "daemon_step E cfg StatsTick d = Ok (if dm_stopped d then d else on_stats_tick E d)"
| "daemon_step E cfg (HttpRequest req) d = Ok (if dm_stopped d then d else on_http_request E req d)"
| "daemon_step E cfg ShutdownSignal d = Ok (d\<lparr>dm_stopped := True\<rparr>)"

fun daemon_run ::
  "('w, 'r, 'o, 'e, 'l, 's, 'db, 'v, 'g, 'n) libs \<Rightarrow> config \<Rightarrow> daemon_event list \<Rightarrow>
   ('w, 'r, 'e, 'l, 's, 'db, 'v, 'g) daemon \<Rightarrow> (unit, ('w, 'r, 'e, 'l, 's, 'db, 'v, 'g) daemon) outcome" where
  "daemon_run E cfg [] d = Ok d"
| "daemon_run E cfg (e # es) d =
     (case daemon_step E cfg e d of Ok d \<Rightarrow> daemon_run E cfg es d | Err x \<Rightarrow> Err x | Fault \<Rightarrow> Fault)"


subsection \<open>What a step does to the maps\<close>

text \<open>A rule set that an import of the list files yields.\<close>

definition published ::
  "('w, 'r, 'o, 'e, 'l, 's, 'db, 'v, 'g, 'n) libs \<Rightarrow> ('r, 'db) blocklist \<Rightarrow> rule_set \<Rightarrow> bool" where
  "published E bl r \<longleftrightarrow>
     (\<exists>w dr p. parse_directory_impl (lb_rocks E) (fc_local_path (bl_config bl)) (bl_has_cache bl) True (lb_runs E w) = Ok dr \<and>
        \<not> ds_is_empty (fst dr) \<and> try_prepare_rules (fst dr) = Inr (r, p))"

text \<open>What the tasks leave alone.\<close>

definition same_setup ::
  "('w, 'r, 'e, 'l, 's, 'db, 'v, 'g) daemon \<Rightarrow> ('w, 'r, 'e, 'l, 's, 'db, 'v, 'g) daemon \<Rightarrow> bool" where
  "same_setup d d' \<longleftrightarrow> dm_attached d' = dm_attached d \<and>
     bl_config (dm_blocklist d') = bl_config (dm_blocklist d) \<and> bl_has_cache (dm_blocklist d') = bl_has_cache (dm_blocklist d)"

lemma same_setup_refl [simp]: "same_setup d d"
  by (simp add: same_setup_def)

lemma same_setup_trans: "same_setup d d' \<Longrightarrow> same_setup d' d'' \<Longrightarrow> same_setup d d''"
  by (simp add: same_setup_def)

lemma published_same: "same_setup d d' \<Longrightarrow> published E (dm_blocklist d') r = published E (dm_blocklist d) r"
  by (simp add: published_def same_setup_def)

lemma execute_state:
  assumes "execute_firehol_sync G A R V Q runs is_startup locked (m, st) = (res, m', st')"
  shows "\<not> is_startup \<and> st' = st \<or>
    (\<exists>r. synchronize_and_load_internal G A R runs is_startup st = (r, st') \<and> ((\<exists>x. res = Ok x) \<longleftrightarrow> (\<exists>x. r = Ok x)))"
  using assms
  by (auto simp: execute_firehol_sync_def Let_def split: if_splits prod.splits outcome.splits)

lemma synchronize_maps:
  assumes "synchronize_and_load_internal G A R runs is_startup (bl, Some mm, gm, w) = (res, bl', mgr', gm', w')"
  shows "bl_config bl' = bl_config bl \<and> bl_has_cache bl' = bl_has_cache bl \<and>
    (mgr' = Some mm \<and> (is_startup \<longrightarrow> (\<forall>x. res \<noteq> Ok x)) \<or>
     (\<exists>dr r p. parse_directory_impl R (fc_local_path (bl_config bl)) (bl_has_cache bl) True (runs w') = Ok dr \<and>
        \<not> ds_is_empty (fst dr) \<and> try_prepare_rules (fst dr) = Inr (r, p) \<and> mgr' = Some (snd (sync_firehol_rules A r mm))))"
proof -
  have lm: "snd (load_into_maps A mm r p) = snd (sync_firehol_rules A r mm)" for r p
    by (simp add: load_into_maps_def split: prod.splits)
  note c = synchronize_cases [where G = G and A = A and R = R and runs = runs and is_startup = is_startup and bl = bl
      and mgr = "Some mm" and gm = gm and w = w, unfolded assms prod.case]
  show ?thesis
  proof (cases res)
    case (Ok report)
    with c consider dr where "parse_directory_impl R (fc_local_path (bl_config bl)) (bl_has_cache bl) True (runs w') = Ok dr"
        "loaded A R dr bl (Some mm) bl' mgr'"
      | "\<not> is_startup" "bl' = bl\<lparr>bl_git := bl_git bl'\<rparr>" "mgr' = Some mm" by auto
    then show ?thesis
    proof cases
      case 1
      then show ?thesis by (auto simp: loaded_def lm)
    next
      case 2
      have "bl_config bl' = bl_config bl" "bl_has_cache bl' = bl_has_cache bl" by (subst 2(2), simp)+
      then show ?thesis using 2 by simp
    qed
  next
    case (Err e)
    then have b: "bl' = bl\<lparr>bl_git := bl_git bl'\<rparr>" "mgr' = Some mm" using c by simp_all
    have "bl_config bl' = bl_config bl" "bl_has_cache bl' = bl_has_cache bl" by (subst b(1), simp)+
    then show ?thesis using b Err by simp
  next
    case Fault
    then have b: "bl' = bl\<lparr>bl_git := bl_git bl'\<rparr>" "mgr' = Some mm" using c by simp_all
    have "bl_config bl' = bl_config bl" "bl_has_cache bl' = bl_has_cache bl" by (subst b(1), simp)+
    then show ?thesis using b Fault by simp
  qed
qed

lemma firehol_job_ops:
  assumes "firehol_job E is_startup locked d = (res, d')" "dm_manager d = Some mm"
  shows "same_setup d d' \<and> dm_static d' = dm_static d \<and> dm_fingerprint d' = dm_fingerprint d \<and> dm_stopped d' = dm_stopped d \<and>
    (dm_manager d' = Some mm \<and> (is_startup \<longrightarrow> (\<forall>x. res \<noteq> Ok x)) \<or>
     (\<exists>r. published E (dm_blocklist d) r \<and> dm_manager d' = Some (snd (sync_firehol_rules (lb_aya E) r mm))))"
proof -
  let ?st = "(dm_blocklist d, dm_manager d, dm_git_metrics d, dm_world d)"
  obtain m bl mgr gm w where x: "execute_firehol_sync (lb_git E) (lb_aya E) (lb_rocks E) (lb_counters E) (lb_gauges E) (lb_runs E) is_startup locked
      (dm_metrics d, ?st) = (res, m, bl, mgr, gm, w)"
    and d': "d' = d\<lparr>dm_metrics := m, dm_blocklist := bl, dm_manager := mgr, dm_git_metrics := gm, dm_world := w\<rparr>"
    using assms(1) by (auto simp: firehol_job_def split: prod.splits)
  from execute_state [OF x] show ?thesis
  proof
    assume "\<not> is_startup \<and> (bl, mgr, gm, w) = ?st"
    then show ?thesis using assms(2) by (simp add: d' same_setup_def)
  next
    assume "\<exists>r. synchronize_and_load_internal (lb_git E) (lb_aya E) (lb_rocks E) (lb_runs E) is_startup ?st = (r, bl, mgr, gm, w) \<and>
      ((\<exists>x. res = Ok x) \<longleftrightarrow> (\<exists>x. r = Ok x))"
    then obtain r where r: "synchronize_and_load_internal (lb_git E) (lb_aya E) (lb_rocks E) (lb_runs E) is_startup
        (dm_blocklist d, Some mm, dm_git_metrics d, dm_world d) = (r, bl, mgr, gm, w)" "(\<exists>x. res = Ok x) \<longleftrightarrow> (\<exists>x. r = Ok x)"
      using assms(2) by auto
    note s = synchronize_maps [OF r(1)]
    have su: "same_setup d d'" using s by (simp add: d' same_setup_def)
    from s have "mgr = Some mm \<and> (is_startup \<longrightarrow> (\<forall>x. res \<noteq> Ok x)) \<or>
        (\<exists>r. published E (dm_blocklist d) r \<and> mgr = Some (snd (sync_firehol_rules (lb_aya E) r mm)))"
      unfolding published_def using r(2) by blast
    then show ?thesis using su by (simp add: d')
  qed
qed

text \<open>The reload a load of the static files amounts to.\<close>

definition static_ops :: "'n ipnet_lib \<Rightarrow> loader_fs \<Rightarrow> string list \<Rightarrow> sync_op list" where
  "static_ops L fs paths = (case load_from_paths_with_meta L fs paths of Inr (r, _) \<Rightarrow> [StaticSync r] | Inl _ \<Rightarrow> [])"

definition static_registry :: "'n ipnet_lib \<Rightarrow> loader_fs \<Rightarrow> string list \<Rightarrow> static_rule_registry \<Rightarrow> static_rule_registry" where
  "static_registry L fs paths reg =
     (case load_from_paths_with_meta L fs paths of Inr (_, meta) \<Rightarrow> registry_set meta reg | Inl _ \<Rightarrow> reg)"

lemma load_static_ops:
  assumes "dm_manager d = Some mm"
  shows "dm_manager (load_static E label fs paths d) = Some (run_syncs (lb_aya E) (static_ops (lb_net E) fs paths) mm)"
    "dm_static (load_static E label fs paths d) = static_registry (lb_net E) fs paths (dm_static d)"
    "same_setup d (load_static E label fs paths d)"
    "dm_fingerprint (load_static E label fs paths d) = dm_fingerprint d"
    "dm_stopped (load_static E label fs paths d) = dm_stopped d"
  using assms
  by (auto simp: load_static_def static_ops_def static_registry_def note_error_def same_setup_def Let_def split: sum.splits prod.splits)


subsection \<open>Runs\<close>

text \<open>
  The specification of the watcher: starting from a fingerprint, the rule sets with their
  attribution that the file events of a run load, until the daemon is told to stop.
\<close>

fun watch_loads ::
  "'n ipnet_lib \<Rightarrow> config \<Rightarrow> fingerprint \<Rightarrow> daemon_event list \<Rightarrow> (rule_set \<times> static_meta) list" where
  "watch_loads L cfg fp [] = []"
| "watch_loads L cfg fp (FileEvent kind fs meta # es) =
     (let current = compute_fingerprint meta (cf_rules cfg) in
      if \<not> (cf_watch cfg \<and> is_content_change kind) \<or> current = fp then watch_loads L cfg fp es
      else (case load_from_paths_with_meta L fs (cf_rules cfg) of Inr rm \<Rightarrow> [rm] | Inl _ \<Rightarrow> []) @ watch_loads L cfg current es)"
| "watch_loads L cfg fp (CronTick locked # es) = watch_loads L cfg fp es"
| "watch_loads L cfg fp (StatsTick # es) = watch_loads L cfg fp es"
| "watch_loads L cfg fp (HttpRequest req # es) = watch_loads L cfg fp es"
| "watch_loads L cfg fp (ShutdownSignal # es) = []"

fun static_sets :: "sync_op list \<Rightarrow> rule_set list" where
  "static_sets [] = []"
| "static_sets (StaticSync r # ops) = r # static_sets ops"
| "static_sets (FireholSync r # ops) = static_sets ops"

fun firehol_sets :: "sync_op list \<Rightarrow> rule_set list" where
  "firehol_sets [] = []"
| "firehol_sets (StaticSync r # ops) = firehol_sets ops"
| "firehol_sets (FireholSync r # ops) = r # firehol_sets ops"

lemma sets_append [simp]: "static_sets (xs @ ys) = static_sets xs @ static_sets ys" "firehol_sets (xs @ ys) = firehol_sets xs @ firehol_sets ys"
  by (induction xs rule: static_sets.induct) simp_all

lemma run_syncs_append: "run_syncs A (xs @ ys) mm = run_syncs A ys (run_syncs A xs mm)"
  by (induction A xs mm rule: run_syncs.induct) simp_all

text \<open>The registry of the static rules after a list of loads.\<close>

definition after_loads :: "(rule_set \<times> static_meta) list \<Rightarrow> static_rule_registry \<Rightarrow> static_rule_registry" where
  "after_loads ls reg = fold (\<lambda>(_, meta) reg. registry_set meta reg) ls reg"

lemma after_loads_append [simp]: "after_loads (xs @ ys) reg = after_loads ys (after_loads xs reg)"
  by (simp add: after_loads_def)

lemma after_loads_Nil [simp]: "after_loads [] reg = reg"
  by (simp add: after_loads_def)

text \<open>What a run amounts to: a history of reloads, its static part given by the watcher's specification.\<close>

definition run_is ::
  "('w, 'r, 'o, 'e, 'l, 's, 'db, 'v, 'g, 'n) libs \<Rightarrow> config \<Rightarrow> (rule_set \<times> static_meta) list \<Rightarrow> sync_op list \<Rightarrow>
   ('w, 'r, 'e, 'l, 's, 'db, 'v, 'g) daemon \<Rightarrow> ('e, 'l, 's) map_manager \<Rightarrow> ('w, 'r, 'e, 'l, 's, 'db, 'v, 'g) daemon \<Rightarrow> bool" where
  "run_is E cfg loads ops d mm d' \<longleftrightarrow>
     dm_manager d' = Some (run_syncs (lb_aya E) ops mm) \<and> static_sets ops = map fst loads \<and>
     (\<forall>r \<in> set (firehol_sets ops). published E (dm_blocklist d) r) \<and> (firehol_sets ops = [] \<or> is_cron_enabled cfg) \<and>
     dm_static d' = after_loads loads (dm_static d) \<and> same_setup d d'"

lemma run_is_refl: "dm_manager d = Some mm \<Longrightarrow> run_is E cfg [] [] d mm d"
  by (simp add: run_is_def)

lemma run_is_trans:
  assumes "run_is E cfg ls ops d mm d'" "run_is E cfg ls' ops' d' (run_syncs (lb_aya E) ops mm) d''"
  shows "run_is E cfg (ls @ ls') (ops @ ops') d mm d''"
  using assms published_same [of d d' E] same_setup_trans [of d d' d'']
  by (auto simp: run_is_def run_syncs_append)

lemma load_static_run:
  assumes "dm_manager d = Some mm"
  shows "run_is E cfg (case load_from_paths_with_meta (lb_net E) fs paths of Inr rm \<Rightarrow> [rm] | Inl _ \<Rightarrow> [])
    (static_ops (lb_net E) fs paths) d mm (load_static E label fs paths (d\<lparr>dm_fingerprint := fp\<rparr>))"
proof -
  have "dm_manager (d\<lparr>dm_fingerprint := fp\<rparr>) = Some mm" using assms by simp
  note l = load_static_ops [OF this, of E label fs paths]
  have "same_setup d (d\<lparr>dm_fingerprint := fp\<rparr>)" by (simp add: same_setup_def)
  then show ?thesis
    using l same_setup_trans by (auto simp: run_is_def static_ops_def static_registry_def after_loads_def split: sum.splits)
qed

lemma cron_tick_run:
  assumes "on_cron_tick E cfg locked d = Ok d'" "dm_manager d = Some mm"
  shows "\<exists>ops. run_is E cfg [] ops d mm d' \<and> dm_fingerprint d' = dm_fingerprint d \<and> dm_stopped d' = dm_stopped d"
proof (cases "is_cron_enabled cfg")
  case False
  then show ?thesis using assms run_is_refl [OF assms(2), of E cfg] by (auto simp: on_cron_tick_def)
next
  case True
  then obtain res where j: "firehol_job E False locked d = (res, d')"
    using assms(1) by (auto simp: on_cron_tick_def split: prod.splits outcome.splits)
  note k = firehol_job_ops [OF j assms(2)]
  then consider "dm_manager d' = Some mm"
    | r where "published E (dm_blocklist d) r" "dm_manager d' = Some (snd (sync_firehol_rules (lb_aya E) r mm))" by blast
  then show ?thesis
  proof cases
    case 1
    then show ?thesis using k by (intro exI [of _ "[]"]) (simp add: run_is_def)
  next
    case 2
    then show ?thesis using k True by (intro exI [of _ "[FireholSync r]"]) (simp add: run_is_def)
  qed
qed

lemma stopped_run: "dm_stopped d \<Longrightarrow> daemon_run E cfg es d = Ok d' \<Longrightarrow> dm_stopped d' \<and>
   dm_manager d' = dm_manager d \<and> dm_static d' = dm_static d \<and> same_setup d d'"
proof (induction es arbitrary: d)
  case (Cons e es)
  then have "daemon_step E cfg e d = Ok (d\<lparr>dm_stopped := True\<rparr>)" by (cases e) simp_all
  then show ?case using Cons.IH [of "d\<lparr>dm_stopped := True\<rparr>"] Cons.prems by (simp add: same_setup_def)
qed simp

text \<open>One event that is not the termination signal, with the loads it adds to the specification.\<close>

lemma daemon_step_run:
  assumes "daemon_step E cfg e d = Ok d1" "dm_manager d = Some mm" "\<not> dm_stopped d" "e \<noteq> ShutdownSignal"
  shows "\<exists>ls ops. run_is E cfg ls ops d mm d1 \<and> \<not> dm_stopped d1 \<and>
    (\<forall>es. watch_loads (lb_net E) cfg (dm_fingerprint d) (e # es) = ls @ watch_loads (lb_net E) cfg (dm_fingerprint d1) es)"
proof (cases e)
  case (FileEvent kind fs meta)
  let ?cur = "compute_fingerprint meta (cf_rules cfg)"
  show ?thesis
  proof (cases "\<not> (cf_watch cfg \<and> is_content_change kind) \<or> ?cur = dm_fingerprint d")
    case True
    then have "d1 = d" using assms(1,3) FileEvent by (auto simp: on_file_event_def Let_def)
    then show ?thesis using run_is_refl [OF assms(2), of E cfg] True FileEvent assms(3)
      by (intro exI [of _ "[]"]) (simp add: Let_def)
  next
    case False
    then have d1: "d1 = load_static E ''watcher_parse'' fs (cf_rules cfg) (d\<lparr>dm_fingerprint := ?cur\<rparr>)"
      using assms(1,3) FileEvent by (auto simp: on_file_event_def Let_def)
    have "dm_manager (d\<lparr>dm_fingerprint := ?cur\<rparr>) = Some mm" using assms(2) by simp
    from load_static_ops(4,5) [OF this, of E "''watcher_parse''" fs "cf_rules cfg"]
    have "dm_fingerprint d1 = ?cur" "\<not> dm_stopped d1" using assms(3) by (simp_all add: d1)
    then show ?thesis
      using load_static_run [OF assms(2), of E cfg fs "cf_rules cfg" "''watcher_parse''" ?cur, folded d1] False FileEvent
      by (auto simp: Let_def)
  qed
next
  case (CronTick locked)
  then have "on_cron_tick E cfg locked d = Ok d1" using assms(1,3) by simp
  from cron_tick_run [OF this assms(2)] obtain ops where
    "run_is E cfg [] ops d mm d1 \<and> dm_fingerprint d1 = dm_fingerprint d \<and> \<not> dm_stopped d1" using assms(3) by auto
  then show ?thesis using CronTick by (intro exI [of _ "[]"] exI [of _ ops]) simp
next
  case StatsTick
  then have "d1 = on_stats_tick E d" using assms(1,3) by simp
  then have "run_is E cfg [] [] d mm d1 \<and> \<not> dm_stopped d1 \<and> dm_fingerprint d1 = dm_fingerprint d"
    using assms(2,3) by (simp add: on_stats_tick_def run_is_def same_setup_def)
  then show ?thesis using StatsTick by (intro exI [of _ "[]"]) simp
next
  case (HttpRequest req)
  then have "d1 = on_http_request E req d" using assms(1,3) by simp
  then have "run_is E cfg [] [] d mm d1 \<and> \<not> dm_stopped d1 \<and> dm_fingerprint d1 = dm_fingerprint d"
    using assms(2,3) by (auto simp: on_http_request_def run_is_def same_setup_def split: option.splits prod.splits)
  then show ?thesis using HttpRequest by (intro exI [of _ "[]"]) simp
qed (use assms(4) in simp)

lemma daemon_run_is:
  assumes "daemon_run E cfg es d = Ok d'" "dm_manager d = Some mm" "\<not> dm_stopped d"
  shows "\<exists>ops. run_is E cfg (watch_loads (lb_net E) cfg (dm_fingerprint d) es) ops d mm d'"
  using assms
proof (induction es arbitrary: d mm)
  case Nil
  then show ?case using run_is_refl [of d mm E cfg] by auto
next
  case (Cons e es)
  obtain d1 where s: "daemon_step E cfg e d = Ok d1" "daemon_run E cfg es d1 = Ok d'"
    using Cons.prems(1) by (auto split: outcome.splits)
  show ?case
  proof (cases "e = ShutdownSignal")
    case True
    then have d1: "d1 = d\<lparr>dm_stopped := True\<rparr>" using s(1) by simp
    then have "dm_stopped d1" by simp
    from stopped_run [OF this s(2)] have "run_is E cfg [] [] d mm d'"
      using Cons.prems(2) by (simp add: d1 run_is_def same_setup_def)
    then show ?thesis using True by auto
  next
    case False
    obtain ls ops where r: "run_is E cfg ls ops d mm d1" "\<not> dm_stopped d1"
      "watch_loads (lb_net E) cfg (dm_fingerprint d) (e # es) = ls @ watch_loads (lb_net E) cfg (dm_fingerprint d1) es"
      using daemon_step_run [OF s(1) Cons.prems(2,3) False] by blast
    have "dm_manager d1 = Some (run_syncs (lb_aya E) ops mm)" using r(1) by (simp add: run_is_def)
    from Cons.IH [OF s(2) this r(2)] obtain ops'
      where "run_is E cfg (watch_loads (lb_net E) cfg (dm_fingerprint d1) es) ops' d1 (run_syncs (lb_aya E) ops mm) d'" by blast
    from run_is_trans [OF r(1) this] show ?thesis unfolding r(3) by blast
  qed
qed


subsection \<open>The start\<close>

definition initial_ops :: "'n ipnet_lib \<Rightarrow> config \<Rightarrow> loader_fs \<Rightarrow> sync_op list" where
  "initial_ops L cfg fs = (if cf_rules cfg \<noteq> [] then static_ops L fs (cf_rules cfg) else [])"

lemma firehol_stage_ops:
  assumes "firehol_stage E cfg d = (ok, d')" "dm_manager d = Some mm"
  shows "same_setup d d' \<and> dm_static d' = dm_static d \<and> dm_stopped d' = dm_stopped d \<and>
    (ok \<longrightarrow> (\<exists>ops. dm_manager d' = Some (run_syncs (lb_aya E) ops mm) \<and>
      (if is_firehol_enabled cfg then \<exists>f. ops = [FireholSync f] \<and> published E (dm_blocklist d) f else ops = [])))"
proof (cases "is_firehol_enabled cfg")
  case False
  then show ?thesis using assms by (auto simp: firehol_stage_def)
next
  case True
  obtain res d1 where j: "firehol_job E True False d = (res, d1)" by fastforce
  note k = firehol_job_ops [OF j assms(2)]
  show ?thesis
  proof (cases res)
    case (Ok x)
    then have "ok" "d' = d1" using assms(1) True j by (simp_all add: firehol_stage_def)
    moreover obtain f where f: "published E (dm_blocklist d) f" "dm_manager d1 = Some (snd (sync_firehol_rules (lb_aya E) f mm))"
      using k Ok by blast
    have "\<exists>ops. dm_manager d1 = Some (run_syncs (lb_aya E) ops mm) \<and> (\<exists>f. ops = [FireholSync f] \<and> published E (dm_blocklist d) f)"
      using f by (intro exI [of _ "[FireholSync f]"]) simp
    ultimately show ?thesis using k True by simp
  next
    case (Err e)
    then show ?thesis using assms(1) True j k by (auto simp: firehol_stage_def note_error_def same_setup_def)
  next
    case Fault
    then show ?thesis using assms(1) True j k by (auto simp: firehol_stage_def)
  qed
qed

lemma static_stage_ops:
  assumes "dm_manager d = Some mm"
  shows "dm_manager (static_stage E cfg fs d) = Some (run_syncs (lb_aya E) (initial_ops (lb_net E) cfg fs) mm)"
    "same_setup d (static_stage E cfg fs d)" "dm_stopped (static_stage E cfg fs d) = dm_stopped d"
  using load_static_ops [OF assms, of E "''rule_load''" fs "cf_rules cfg"] assms by (simp_all add: static_stage_def initial_ops_def)

lemma attach_stage_cases:
  assumes "attach_stage E P cfg fw d = (ok, d')" "pf_program P (xf_elf fw)"
  shows "dm_manager d' = dm_manager d \<and> dm_blocklist d' = dm_blocklist d \<and> dm_stopped d' = dm_stopped d \<and>
    (if ok then \<exists>mode. List.find (pf_attach P (xf_elf fw) (cf_iface cfg)) (allowed_modes (cf_mode cfg)) = Some mode \<and>
       dm_attached d' = Some (cf_iface cfg, mode)
     else dm_attached d' = dm_attached d)"
  using assms(1) attach_mode [OF assms(2), of "cf_iface cfg" "cf_mode cfg"]
  by (auto simp: attach_stage_def note_error_def split: prod.splits sum.splits option.splits)

lemma startup_cases:
  fixes E :: "('w, 'r, 'o, 'e, 'l, 's, 'db, 'v, 'g, 'n) libs"
  assumes "startup E cfg B fs w = (running, d)"
  shows "if running then
      \<exists>fw mm rest fh mode. xdp_load (bt_platform B) (cf_bpf_path cfg) = Inr fw \<and>
        map_manager_new (lb_aya E) ((xf_ebpf fw)(''EVENTS'' := None)) = (Inr mm, rest) \<and>
        (if is_firehol_enabled cfg then \<exists>f. fh = [FireholSync f] \<and> published E (dm_blocklist d) f else fh = []) \<and>
        dm_manager d = Some (run_syncs (lb_aya E) (fh @ initial_ops (lb_net E) cfg fs) mm) \<and>
        List.find (pf_attach (bt_platform B) (xf_elf fw) (cf_iface cfg)) (allowed_modes (cf_mode cfg)) = Some mode \<and>
        dm_attached d = Some (cf_iface cfg, mode) \<and> \<not> dm_stopped d
    else dm_attached d = None"
proof -
  let ?d0 = "daemon_init cfg B w :: ('w, 'r, 'e, 'l, 's, 'db, 'v, 'g) daemon" and ?P = "bt_platform B"
  have init: "dm_attached ?d0 = None" "\<not> dm_stopped ?d0" by (simp_all add: daemon_init_def Let_def)
  show ?thesis
  proof (cases "\<exists>fw. xdp_load ?P (cf_bpf_path cfg) = Inr fw \<and>
      (case xf_ebpf fw ''EVENTS'' of Some ob \<Rightarrow> bt_ringbuf B ob | None \<Rightarrow> False) \<and>
      (\<exists>mm rest. map_manager_new (lb_aya E) ((xf_ebpf fw)(''EVENTS'' := None)) = (Inr mm, rest))")
    case False
    then show ?thesis
      using assms init by (auto simp: startup_def take_map_def note_error_def Let_def split: sum.splits if_splits prod.splits)
  next
    case True
    then obtain fw mm rest where l: "xdp_load ?P (cf_bpf_path cfg) = Inr fw"
      "case xf_ebpf fw ''EVENTS'' of Some ob \<Rightarrow> bt_ringbuf B ob | None \<Rightarrow> False"
      "map_manager_new (lb_aya E) ((xf_ebpf fw)(''EVENTS'' := None)) = (Inr mm, rest)" by blast
    obtain ok d1 where f: "firehol_stage E cfg (?d0\<lparr>dm_manager := Some mm\<rparr>) = (ok, d1)" by fastforce
    have "dm_manager (?d0\<lparr>dm_manager := Some mm\<rparr>) = Some mm" by simp
    note fs = firehol_stage_ops [OF f this]
    have start: "(running, d) = (if ok then attach_stage E ?P cfg (fw\<lparr>xf_ebpf := rest\<rparr>) (static_stage E cfg fs d1) else (False, d1))"
      using assms l f by (simp add: startup_def take_map_def Let_def split: bool.splits)
    show ?thesis
    proof (cases ok)
      case False
      then show ?thesis using start fs init by (simp add: same_setup_def)
    next
      case True
      with fs obtain ops where o: "dm_manager d1 = Some (run_syncs (lb_aya E) ops mm)"
        "if is_firehol_enabled cfg then \<exists>f. ops = [FireholSync f] \<and> published E (dm_blocklist ?d0) f else ops = []"
        by (metis (no_types, lifting) daemon.select_convs(2) daemon.surjective daemon.update_convs(3))
      note st = static_stage_ops [OF o(1), of E cfg fs]
      have su: "same_setup (?d0\<lparr>dm_manager := Some mm\<rparr>) (static_stage E cfg fs d1)" using fs st(2) same_setup_trans by blast
      have p: "pf_program ?P (xf_elf (fw\<lparr>xf_ebpf := rest\<rparr>))" using xdp_load_program [OF l(1)] by simp
      have "attach_stage E ?P cfg (fw\<lparr>xf_ebpf := rest\<rparr>) (static_stage E cfg fs d1) = (running, d)" using start True by simp
      note a = attach_stage_cases [OF this p]
      have pub: "published E (dm_blocklist d) f = published E (dm_blocklist ?d0) f" for f
        using a su by (simp add: published_def same_setup_def)
      show ?thesis
      proof (cases running)
        case False
        then show ?thesis using a su init by (simp add: same_setup_def)
      next
        case True
        with a obtain mode where m: "List.find (pf_attach ?P (xf_elf fw) (cf_iface cfg)) (allowed_modes (cf_mode cfg)) = Some mode"
          "dm_attached d = Some (cf_iface cfg, mode)" by auto
        have "dm_manager d = Some (run_syncs (lb_aya E) (ops @ initial_ops (lb_net E) cfg fs) mm)" "\<not> dm_stopped d"
          using a st fs init by (simp_all add: run_syncs_append)
        moreover have "if is_firehol_enabled cfg then \<exists>f. ops = [FireholSync f] \<and> published E (dm_blocklist d) f else ops = []"
          using o(2) by (simp add: pub)
        ultimately show ?thesis using True l m by auto
      qed
    qed
  qed
qed

lemma daemon_history:
  assumes "startup E cfg B fs w = (True, d)" "daemon_run E cfg es (start_watching cfg meta d) = Ok d'"
  shows "\<exists>fw mm rest ops mode. xdp_load (bt_platform B) (cf_bpf_path cfg) = Inr fw \<and>
    map_manager_new (lb_aya E) ((xf_ebpf fw)(''EVENTS'' := None)) = (Inr mm, rest) \<and>
    dm_manager d' = Some (run_syncs (lb_aya E) ops mm) \<and> dm_attached d' = Some (cf_iface cfg, mode) \<and>
    static_sets ops = static_sets (initial_ops (lb_net E) cfg fs) @
      map fst (watch_loads (lb_net E) cfg (dm_fingerprint (start_watching cfg meta d)) es) \<and>
    (\<forall>r \<in> set (firehol_sets ops). published E (dm_blocklist d) r) \<and> (is_firehol_enabled cfg \<longleftrightarrow> firehol_sets ops \<noteq> [])"
proof -
  let ?A = "lb_aya E" and ?d = "start_watching cfg meta d" and ?init = "initial_ops (lb_net E) cfg fs"
  have sw: "dm_manager ?d = dm_manager d" "dm_blocklist ?d = dm_blocklist d" "dm_attached ?d = dm_attached d" "dm_stopped ?d = dm_stopped d"
    by (simp_all add: start_watching_def)
  obtain fw mm rest fh mode where b: "xdp_load (bt_platform B) (cf_bpf_path cfg) = Inr fw"
    "map_manager_new ?A ((xf_ebpf fw)(''EVENTS'' := None)) = (Inr mm, rest)"
    "if is_firehol_enabled cfg then \<exists>f. fh = [FireholSync f] \<and> published E (dm_blocklist d) f else fh = []"
    "dm_manager d = Some (run_syncs ?A (fh @ ?init) mm)" "dm_attached d = Some (cf_iface cfg, mode)" "\<not> dm_stopped d"
    using startup_cases [OF assms(1)] by auto
  have "dm_manager ?d = Some (run_syncs ?A (fh @ ?init) mm)" "\<not> dm_stopped ?d" using b sw by simp_all
  from daemon_run_is [OF assms(2) this] obtain ops where
    r: "run_is E cfg (watch_loads (lb_net E) cfg (dm_fingerprint ?d) es) ops ?d (run_syncs ?A (fh @ ?init) mm) d'" by blast
  have fh: "static_sets fh = []" "\<forall>r \<in> set (firehol_sets fh). published E (dm_blocklist d) r"
    "is_firehol_enabled cfg \<longleftrightarrow> firehol_sets fh \<noteq> []" "firehol_sets ?init = []"
    using b(3) by (auto simp: initial_ops_def static_ops_def split: if_splits sum.splits)
  let ?ops = "fh @ ?init @ ops"
  have "static_sets ?ops = static_sets ?init @ map fst (watch_loads (lb_net E) cfg (dm_fingerprint ?d) es)"
    "\<forall>r \<in> set (firehol_sets ?ops). published E (dm_blocklist d) r" "is_firehol_enabled cfg \<longleftrightarrow> firehol_sets ?ops \<noteq> []"
    "dm_manager d' = Some (run_syncs ?A ?ops mm)" "dm_attached d' = Some (cf_iface cfg, mode)"
    using r fh sw b(5) by (auto simp: run_is_def run_syncs_append same_setup_def is_cron_enabled_def)
  then show ?thesis using b(1,2) by blast
qed


subsection \<open>A concrete daemon\<close>

text \<open>A host whose driver refuses the hook, a daemon on one static rule file without FireHOL.\<close>

definition demo_platform :: "(etable + ltable) platform" where
  "demo_platform = \<lparr>pf_is_file = (\<lambda>p. p = ''/app/firewall-ebpf''), pf_read = (\<lambda>_. Some [127]), pf_env_path = None,
     pf_exe_dir = None,
     pf_load = (\<lambda>_. Some [''EVENTS'' \<mapsto> Inl [], ''STATS'' \<mapsto> Inl [], ''IPV4_EXACT_MAP'' \<mapsto> Inl [], ''IPV6_EXACT_MAP'' \<mapsto> Inl [],
       ''IPV4_LPM_MAP'' \<mapsto> Inr [], ''IPV6_LPM_MAP'' \<mapsto> Inr []]),
     pf_program = (\<lambda>_. True), pf_verify = (\<lambda>_. True), pf_attach = (\<lambda>_ _ mode. mode = Skb)\<rparr>"

definition demo_daemon_config :: config where
  "demo_daemon_config = config_default\<lparr>cf_rules := [''/missing'', ''/rules/a.txt''], cf_watch := True, cf_firehol := False\<rparr>"

definition demo_libs ::
  "(demo_remote, unit, etable + ltable, etable, ltable, firewall_stats, sst_db, string list \<Rightarrow> u64 option,
    string list \<Rightarrow> i64, u8 \<times> bytes) libs" where
  "demo_libs = \<lparr>lb_git = demo_git, lb_aya = table_aya, lb_rocks = sst_ops, lb_counters = map_vec, lb_gauges = fun_gauges,
     lb_net = pair_lib, lb_encode = (\<lambda>_. Inr ''''), lb_runs = (\<lambda>_. demo_import_run)\<rparr>"

definition demo_boot :: "(etable + ltable, string list \<Rightarrow> u64 option, string list \<Rightarrow> i64) boot" where
  "demo_boot = \<lparr>bt_platform = demo_platform, bt_metrics = None, bt_ignore_env = None, bt_open_cache = (\<lambda>_. True),
     bt_ringbuf = (\<lambda>_. True)\<rparr>"

definition demo_static :: rule_set where
  "demo_static = \<lparr>exact_v4 = [([192, 0, 2, 7], rule_drop STATIC_RULE_BASE)], exact_v6 = [],
     lpm_v4 = [(8, [10, 0, 0, 0], rule_drop (STATIC_RULE_BASE + 1))], lpm_v6 = [], total_rules = 2, skipped_rules = 1\<rparr>"

lemma demo_boots:
  "xdp_load demo_platform None = Inr \<lparr>xf_ebpf = the (pf_load demo_platform [127]), xf_elf = [127], xf_iface = []\<rparr>"
  "\<exists>rest. map_manager_new table_aya ((the (pf_load demo_platform [127]))(''EVENTS'' := None)) = (Inr table_manager, rest)"
  by (simp_all add: xdp_load_def locate_ebpf_binary_def candidate_paths_def demo_platform_def map_manager_new_def take_typed_def
      take_map_def table_aya_def table_manager_def Let_def)

lemma demo_static_ops: "static_ops pair_lib demo_fs [''/missing'', ''/rules/a.txt''] = [StaticSync demo_static]"
  by (simp add: static_ops_def demo_load demo_static_def)

lemma demo_startup: "fst (startup demo_libs demo_daemon_config demo_boot fs w)"
proof -
  obtain rest where "map_manager_new table_aya ((the (pf_load demo_platform [127]))(''EVENTS'' := None)) = (Inr table_manager, rest)"
    using demo_boots(2) by blast
  moreover have "the (pf_load demo_platform [127]) ''EVENTS'' = Some (Inl [])" by (simp add: demo_platform_def)
  moreover have "attach demo_platform ''eth0'' ModeAuto fw = (Inr Skb, fw\<lparr>xf_iface := ''eth0''\<rparr>)" for fw
    by (simp add: attach_def try_attach_def demo_platform_def)
  ultimately show ?thesis
    by (auto simp: startup_def demo_boot_def demo_boots take_map_def Let_def firehol_stage_def is_firehol_enabled_def attach_stage_def
        demo_daemon_config_def config_default_def demo_libs_def mode_default_def split: prod.splits sum.splits)
qed

definition demo_world :: demo_remote where
  "demo_world = \<lparr>dr_upstream = ''b'', dr_checkout = ''a'', dr_tracking = ''a''\<rparr>"


definition demo_daemon_events :: "daemon_event list" where
  "demo_daemon_events =
     [FileEvent ModifyMetadata demo_fs (\<lambda>_. Some (Some 2, 40)), FileEvent ModifyData demo_fs (\<lambda>_. Some (Some 2, 40)),
      FileEvent Create demo_fs (\<lambda>_. Some (Some 2, 40)), StatsTick, HttpRequest ''GET /metrics HTTP/1.1'', ShutdownSignal, FileEvent Create demo_fs Map.empty]"

definition demo_running :: "(demo_remote, unit, etable, ltable, firewall_stats, sst_db, string list \<Rightarrow> u64 option, string list \<Rightarrow> i64) daemon" where
  "demo_running = start_watching demo_daemon_config (\<lambda>_. Some (Some 1, 40))
     ((daemon_init demo_daemon_config demo_boot demo_world)\<lparr>dm_manager := Some table_manager\<rparr>)"

lemma demo_watch_loads:
  "map fst (watch_loads pair_lib demo_daemon_config (dm_fingerprint demo_running) demo_daemon_events) = [demo_static]"
  by (simp add: demo_daemon_events_def demo_running_def start_watching_def demo_daemon_config_def config_default_def compute_fingerprint_def is_content_change_def
      demo_load demo_static_def)


end
