(* ===== verification/Spec2Isabelle.thy ===== *)
theory Spec2Isabelle
  imports Xdp_Firewall Ringbuf Firehol_Blocklist Test_Traffic Daemon
begin

text \<open>
  A verification development for an IP-reputation firewall: an eBPF program that the Linux
  kernel runs on every received packet (XDP), and a daemon in Rust that fills its maps with blocked
  addresses and networks from local rule files and from the FireHOL lists.

  \<^bold>\<open>The program and its parts.\<close>  The hook (\<open>firewall-ebpf/src/main.rs\<close>) parses a frame, looks its source
  address up in an exact map and then in a longest-prefix trie, drops or passes the packet, counts
  it and reports drops on a ring buffer.  The daemon (\<open>src/main.rs\<close>) loads the program (\<open>src/xdp.rs\<close>), takes
  its maps (\<open>src/maps.rs\<close>), synchronises the FireHOL checkout (\<open>src/firehol/git_repository.rs\<close>), imports its
  list files on several threads into memory or an on-disk cache (\<open>src/firehol/parser.rs\<close>,
  \<open>src/cache_rocksdb.rs\<close>), publishes the result to the maps and to a registry that explains rules
  (\<open>src/firehol/sync.rs\<close>, \<open>metadata.rs\<close>, \<open>blocklist.rs\<close>), adds the static rule files (\<open>src/loader.rs\<close>), and only then
  attaches the hook.  Afterwards tasks reload changed rule files, run scheduled FireHOL jobs
  (\<open>src/firehol/scheduler.rs\<close>), read the ring buffer (\<open>src/ringbuf.rs\<close>) and serve metrics (\<open>src/metrics.rs\<close>,
  \<open>src/top_n.rs\<close>).  Two tools under \<open>scripts/\<close> craft packets to test and to measure the firewall.

  \<^bold>\<open>Conventions.\<close>  \<open>Fw_Prelude\<close> holds the shared vocabulary.  Integers keep their width as words and wrap;
  \<open>usize\<close> values are natural numbers, with \<open>usize_bound\<close> where the code depends on it.  Code that can fail
  returns \<open>outcome\<close>: \<open>Err\<close> is an error value, \<open>Fault\<close> a panic or a read or write outside the
  memory the code owns.  State is a record that operations return updated.  Code outside the repository is
  an argument (a record of operations), and a locale states the documented laws the theorems rely on;
  each locale is interpreted on concrete tables, so the hypotheses are satisfiable: \<open>bpf_map\<close> and
  \<open>lpm_trie\<close> (kernel maps, \<open>Bpf_Map\<close>), \<open>aya_env\<close> (the four maps of the manager, \<open>Map_Manager\<close>), \<open>ip_network\<close> and
  \<open>ipnet\<close> (the network library, \<open>Ip_Net\<close>), \<open>rocks_db\<close> (the database, \<open>Rocks_Db\<close>), \<open>counter_vec\<close> and \<open>gauge_vec\<close>
  (Prometheus, \<open>Top_N\<close> and \<open>Fw_Metrics\<close>), \<open>git_remote\<close> (libgit2, \<open>Git_Repo\<close>).  What \<open>std\<close> does with strings,
  numbers and addresses is defined in \<open>Rust_Std\<close>.

  \<^bold>\<open>In the kernel.\<close>
  \<^item> \<open>Fw_Common\<close> (\<open>firewall-common/src/lib.rs\<close>): constants, rule values, the telemetry event; its 64-byte
    layout is read back as written.
  \<^item> \<open>Packet_Lib\<close> (\<open>firewall-ebpf/src/lib.rs\<close>): the classifier; it never reads outside the buffer and
    returns the fields of every well-formed IPv4 and IPv6 frame.
  \<^item> \<open>Xdp_Firewall\<close> (\<open>firewall-ebpf/src/main.rs\<close>): the hook, over packet memory between \<open>data\<close> and \<open>data_end\<close>; it
    always returns an action, refines the classifier followed by a decision function, reports each drop
    once, keeps its counters consistent, and passes double-tagged frames.

  \<^bold>\<open>Maps and rules.\<close>
  \<^item> \<open>Rule_Set\<close>, \<open>Fw_Loader\<close> (\<open>src/loader.rs\<close>): the loaded set blocks exactly what the lines say, each rule
    resolves to its file and line.
  \<^item> \<open>Map_Manager\<close> (\<open>src/maps.rs\<close>): differential synchronisation of two rule sources; after any admissible history
    the maps hold the latest of both, and even a full map keeps nothing stale.
  \<^item> \<open>Xdp_Loader\<close> (\<open>src/xdp.rs\<close>): the search for the program and the modes of attachment.

  \<^bold>\<open>FireHOL lists.\<close>
  \<^item> \<open>Firehol_Entry\<close> (\<open>entry.rs\<close>), \<open>Ip_Prefix\<close> and \<open>Firehol_Metadata\<close> (\<open>metadata.rs\<close>): targets with their encoding and
    cache keys, prefix tests and masks, categories and dates.
  \<^item> \<open>Cidr_Exclude\<close>, \<open>Firehol_Parser\<close>, \<open>File_Lines\<close>, \<open>Firehol_File\<close> (\<open>parser.rs\<close>): ignored addresses are cut out of
    networks exactly, the hand-written scanner agrees with the library, reading in chunks does not change
    the lines, a file yields one entry per target of each rule line or the error of its first bad line.
  \<^item> \<open>Firehol_Dataset\<close>, \<open>Firehol_Import\<close>, \<open>Firehol_Worker\<close> (\<open>parser.rs\<close>), \<open>Firehol_Registry\<close>, \<open>Firehol_Index\<close>
    (\<open>metadata.rs\<close>), \<open>Rocks_Db\<close> (\<open>cache_rocksdb.rs\<close>): the import under every interleaving of the worker threads; the
    registry in memory and the one on disk answer every IPv4 address alike, and the IPv6
    networks the disk misses are characterised.
  \<^item> \<open>Firehol_Sync\<close> (\<open>sync.rs\<close>): allowlist, deduplication and commit.
  \<^item> \<open>Git_Repo\<close> (\<open>git_repository.rs\<close>): a successful synchronisation is at the commit of the remote branch.
  \<^item> \<open>Firehol_Blocklist\<close> (\<open>blocklist.rs\<close>, \<open>scheduler.rs\<close>): a reload is all or nothing, and a good one publishes
    exactly the rules of the list files.

  \<^bold>\<open>Telemetry.\<close>
  \<^item> \<open>Top_N\<close> (\<open>top_n.rs\<close>), \<open>Fw_Metrics\<close> and \<open>Metrics_Server\<close> (\<open>metrics.rs\<close>, \<open>firehol/metrics.rs\<close>): bounded tracking, ranking
    and export of the most blocked addresses; counters, gauges and the handler of a request.
  \<^item> \<open>Ringbuf\<close> (\<open>ringbuf.rs\<close>): every item of a batch is counted, every event logged with all lists that name
    its source.

  \<^bold>\<open>The daemon and the tools.\<close>
  \<^item> \<open>Daemon\<close> (\<open>src/main.rs\<close>, \<open>config.rs\<close>, \<open>stats.rs\<close>): the stages of the start, and the tasks as events of one
    run in any order; the start is fail-safe, a run is a history of reloads.
  \<^item> \<open>Packet_Builder\<close>, \<open>Traffic_Gen\<close>, \<open>Bench_Stats\<close>, \<open>Bench_Worker\<close>, \<open>Test_Traffic\<close> (\<open>scripts/\<close>): crafted packets have valid
    checksums and are classified as crafted, the address pool fills exactly up to its limit, the firewall
    drops what the tools send from blocked addresses, and the report of the traffic test is constant.

  \<^bold>\<open>This theory\<close> joins the parts: \<open>daemon_verdict\<close> follows a run from the start of the daemon to the verdict on a
  packet, \<open>drop_is_logged\<close> follows a dropped packet from the hook to the log.

  \<^bold>\<open>Loops, fuel and bounds.\<close>  Structural recursion where the code iterates over a list.  The halving loop of
  \<open>Cidr_Exclude\<close> has one round of fuel per prefix length plus one, the reader of \<open>File_Lines\<close> takes its rounds from the
  list of read events, the carry loop of the checksum terminates by a measure; each is shown to return.
  \<open>fill_pool\<close> may run forever and is a partial function; the theorem says exactly when it does not.  Bounds that
  appear as hypotheses are those of the code: packets below \<open>usize_bound\<close>, identifiers that do not wrap, rule
  sets that fit the declared map sizes.

  \<^bold>\<open>Simplifications.\<close>  Hash maps are association lists in an arbitrary order.  Critical sections are atomic
  steps, since every access to the maps holds one lock.  A file is its content together with the way
  reads split it.  Text is restricted to code points up to U+00FF where the code splits by
  characters.

  \<^bold>\<open>Not modelled.\<close>  Logging, banners and colours; durations, time stamps and floating-point rates, which
  only feed the log and a few gauges; JSON rendering and the text report of the benchmark; the sockets, signals
  and task scheduling of the runtime, the command-line parser and the cron library, which are library
  calls; opening and tuning of the database; conversions between error types; \<open>scripts/common/src/socket.rs\<close>
  (system calls, present as operations of a trace), console styles, build script, task runner, benchmarks and
  tests.
\<close>

subsection \<open>The kernel maps and the hook\<close>

text \<open>The hook over the maps of a manager.\<close>

definition maps_env ::
  "('e \<Rightarrow> bytes \<Rightarrow> rule_value option) \<Rightarrow> ('l \<Rightarrow> u32 \<Rightarrow> bytes \<Rightarrow> rule_value option) \<Rightarrow> ('e, 'l, 's) map_manager \<Rightarrow>
   ('rb \<Rightarrow> packet_log_event \<Rightarrow> 'rb \<times> bool) \<Rightarrow> u64 \<Rightarrow> 'rb xdp_env" where
  "maps_env get lookup mm out now =
     \<lparr>ipv4_exact_get = get (ipv4_exact mm), ipv6_exact_get = get (ipv6_exact mm),
      ipv4_lpm_get = lookup (ipv4_lpm mm), ipv6_lpm_get = lookup (ipv6_lpm mm),
      events_output = out, ktime_get_ns = now\<rparr>"

definition packet_source :: "parsed_packet \<Rightarrow> ip_addr" where
  "packet_source p = (if pp_ip_version p = 4 then V4 (take 4 (pp_src_ip p)) else V6 (pp_src_ip p))"

definition rule_set_values :: "rule_set \<Rightarrow> rule_value set" where
  "rule_set_values r = snd ` set (exact_v4 r) \<union> snd ` set (exact_v6 r) \<union> snd ` set (lpm_rules (lpm_v4 r)) \<union> snd ` set (lpm_rules (lpm_v6 r))"

definition all_drop :: "rule_set \<Rightarrow> bool" where
  "all_drop r \<longleftrightarrow> (\<forall>v \<in> rule_set_values r. rv_action v = ACTION_DROP)"

lemma rules_map_ran: "rules_map xs k = Some v \<Longrightarrow> v \<in> snd ` set xs"
  by (force simp: rules_map_def dest: map_of_SomeD)

lemma reflects_iff: "reflects c fh S F \<Longrightarrow> c k \<noteq> None \<longleftrightarrow> k \<in> fst ` set S \<union> fst ` set F"
  unfolding reflects_def by (metis UnCI UnE domD domIff dom_map_add dom_rules_map)

lemma reflects_ran: "reflects c fh S F \<Longrightarrow> c k = Some v \<Longrightarrow> v \<in> snd ` set S \<union> snd ` set F"
  by (auto simp: reflects_def map_add_Some_iff dest!: rules_map_ran)

lemma rs_blocks_keys:
  "rs_blocks r (V4 a) \<longleftrightarrow> a \<in> fst ` set (exact_v4 r) \<or> (\<exists>k \<in> fst ` set (lpm_rules (lpm_v4 r)). same_prefix (unat (fst k)) (snd k) a)"
  "rs_blocks r (V6 b) \<longleftrightarrow> b \<in> fst ` set (exact_v6 r) \<or> (\<exists>k \<in> fst ` set (lpm_rules (lpm_v6 r)). same_prefix (unat (fst k)) (snd k) b)"
proof -
  have "(\<exists>p b. (p, b) \<in> X \<and> same_prefix (unat p) b c) \<longleftrightarrow> (\<exists>k \<in> X. same_prefix (unat (fst k)) (snd k) c)"
    for X :: "(u32 \<times> bytes) set" and c by force
  then show "rs_blocks r (V4 a) \<longleftrightarrow> a \<in> fst ` set (exact_v4 r) \<or> (\<exists>k \<in> fst ` set (lpm_rules (lpm_v4 r)). same_prefix (unat (fst k)) (snd k) a)"
    "rs_blocks r (V6 b) \<longleftrightarrow> b \<in> fst ` set (exact_v6 r) \<or> (\<exists>k \<in> fst ` set (lpm_rules (lpm_v6 r)). same_prefix (unat (fst k)) (snd k) b)"
    by (simp_all only: rs_blocks.simps lpm_blocks)
qed

context lpm_trie
begin

lemma lookup_iff: "invar m \<Longrightarrow> lookup m p a \<noteq> None \<longleftrightarrow> (\<exists>k. content m k \<noteq> None \<and> lpm_matches p a k)"
  using lookup_hit lookup_miss by (metis option.distinct(1) option.exhaust)

text \<open>A lookup of a full-length address in a trie that holds two rule lists.\<close>

lemma lookup_reflects:
  assumes "invar m" "reflects (content m) fh S F" "\<forall>k \<in> fst ` set S \<union> fst ` set F. net_key n k" "unat p = 8 * n"
  shows "lookup m p a \<noteq> None \<longleftrightarrow> (\<exists>k \<in> fst ` set S \<union> fst ` set F. same_prefix (unat (fst k)) (snd k) a)"
proof -
  have "fst k \<le> p" if "k \<in> fst ` set S \<union> fst ` set F" for k
    using assms(3,4) that by (auto simp: net_key_def word_le_nat_alt)
  then show ?thesis unfolding lookup_iff [OF assms(1)] reflects_iff [OF assms(2)] lpm_matches_def by blast
qed

end

context aya_env
begin

lemma source_lookup_blocks:
  assumes "manager_ok mm" "manager_holds mm s f" "rules_ok s" "rules_ok f"
  shows "fst (source_lookup (maps_env econtent lookup mm out now) p) \<noteq> None \<longleftrightarrow>
    rs_blocks s (packet_source p) \<or> rs_blocks f (packet_source p)"
proof -
  let ?env = "maps_env econtent lookup mm out now"
  have inv: "linv4 (ipv4_lpm mm)" "linv6 (ipv6_lpm mm)" using assms(1) by (simp_all add: mm_invar_def)
  have holds: "reflects (econtent (ipv4_exact mm)) (firehol_v4_exact mm) (exact_v4 s) (exact_v4 f)"
     "reflects (econtent (ipv6_exact mm)) (firehol_v6_exact mm) (exact_v6 s) (exact_v6 f)"
     "reflects (lcontent (ipv4_lpm mm)) (firehol_v4_lpm mm) (lpm_rules (lpm_v4 s)) (lpm_rules (lpm_v4 f))"
     "reflects (lcontent (ipv6_lpm mm)) (firehol_v6_lpm mm) (lpm_rules (lpm_v6 s)) (lpm_rules (lpm_v6 f))"
    using assms(2) by (simp_all add: mm_reflects_def)
  have keys: "\<forall>k \<in> fst ` set (lpm_rules (lpm_v4 s)) \<union> fst ` set (lpm_rules (lpm_v4 f)). net_key 4 k"
    "\<forall>k \<in> fst ` set (lpm_rules (lpm_v6 s)) \<union> fst ` set (lpm_rules (lpm_v6 f)). net_key 16 k"
    using rules_ok_keys(3,4) [OF assms(3)] rules_ok_keys(3,4) [OF assms(4)] by blast+
  have l4: "lookup (ipv4_lpm mm) 32 a \<noteq> None \<longleftrightarrow>
      (\<exists>k \<in> fst ` set (lpm_rules (lpm_v4 s)) \<union> fst ` set (lpm_rules (lpm_v4 f)). same_prefix (unat (fst k)) (snd k) a)" for a
    by (rule v4_lpm.lookup_reflects [OF inv(1) holds(3) keys(1)]) simp
  have l6: "lookup (ipv6_lpm mm) 128 a \<noteq> None \<longleftrightarrow>
      (\<exists>k \<in> fst ` set (lpm_rules (lpm_v6 s)) \<union> fst ` set (lpm_rules (lpm_v6 f)). same_prefix (unat (fst k)) (snd k) a)" for a
    by (rule v6_lpm.lookup_reflects [OF inv(2) holds(4) keys(2)]) simp
  have "fst (source_lookup ?env p) \<noteq> None \<longleftrightarrow>
      (if pp_ip_version p = 4 then econtent (ipv4_exact mm) (take 4 (pp_src_ip p)) \<noteq> None \<or> lookup (ipv4_lpm mm) 32 (take 4 (pp_src_ip p)) \<noteq> None
       else econtent (ipv6_exact mm) (pp_src_ip p) \<noteq> None \<or> lookup (ipv6_lpm mm) 128 (pp_src_ip p) \<noteq> None)"
    by (auto simp: source_lookup_def Let_def maps_env_def)
  then show ?thesis
    unfolding l4 l6 reflects_iff [OF holds(1)] reflects_iff [OF holds(2)]
    by (cases "pp_ip_version p = 4") (simp_all only: packet_source_def rs_blocks_keys bex_Un Un_iff if_True if_False simp_thms disj_ac)
qed

lemma source_lookup_drops:
  assumes "manager_ok mm" "manager_holds mm s f" "all_drop s" "all_drop f"
    "fst (source_lookup (maps_env econtent lookup mm out now) p) = Some v"
  shows "rv_action v = ACTION_DROP"
proof -
  have inv: "linv4 (ipv4_lpm mm)" "linv6 (ipv6_lpm mm)" using assms(1) by (simp_all add: mm_invar_def)
  have r: "fst (source_lookup (maps_env econtent lookup mm out now) p) \<in>
      {econtent (ipv4_exact mm) (take 4 (pp_src_ip p)), lookup (ipv4_lpm mm) 32 (take 4 (pp_src_ip p)),
       econtent (ipv6_exact mm) (pp_src_ip p), lookup (ipv6_lpm mm) 128 (pp_src_ip p)}"
    by (simp add: source_lookup_def Let_def maps_env_def)
  have holds: "reflects (econtent (ipv4_exact mm)) (firehol_v4_exact mm) (exact_v4 s) (exact_v4 f)"
     "reflects (econtent (ipv6_exact mm)) (firehol_v6_exact mm) (exact_v6 s) (exact_v6 f)"
     "reflects (lcontent (ipv4_lpm mm)) (firehol_v4_lpm mm) (lpm_rules (lpm_v4 s)) (lpm_rules (lpm_v4 f))"
     "reflects (lcontent (ipv6_lpm mm)) (firehol_v6_lpm mm) (lpm_rules (lpm_v6 s)) (lpm_rules (lpm_v6 f))"
    using assms(2) by (simp_all add: mm_reflects_def)
  have l: "v \<in> snd ` set (lpm_rules (lpm_v4 s)) \<union> snd ` set (lpm_rules (lpm_v4 f))" if "lookup (ipv4_lpm mm) q a = Some v" for q a
    using v4_lpm.lookup_hit [OF inv(1) that] reflects_ran [OF holds(3)] by blast
  have l': "v \<in> snd ` set (lpm_rules (lpm_v6 s)) \<union> snd ` set (lpm_rules (lpm_v6 f))" if "lookup (ipv6_lpm mm) q a = Some v" for q a
    using v6_lpm.lookup_hit [OF inv(2) that] reflects_ran [OF holds(4)] by blast
  consider "econtent (ipv4_exact mm) (take 4 (pp_src_ip p)) = Some v" | "lookup (ipv4_lpm mm) 32 (take 4 (pp_src_ip p)) = Some v"
    | "econtent (ipv6_exact mm) (pp_src_ip p) = Some v" | "lookup (ipv6_lpm mm) 128 (pp_src_ip p) = Some v"
    using r unfolding assms(5) by auto
  then have "v \<in> rule_set_values s \<or> v \<in> rule_set_values f"
  proof cases
    case 1
    show ?thesis using reflects_ran [OF holds(1) 1] unfolding rule_set_values_def Un_iff by argo
  next
    case 2
    show ?thesis using l [OF 2] unfolding rule_set_values_def Un_iff by argo
  next
    case 3
    show ?thesis using reflects_ran [OF holds(2) 3] unfolding rule_set_values_def Un_iff by argo
  next
    case 4
    show ?thesis using l' [OF 4] unfolding rule_set_values_def Un_iff by argo
  qed
  then show ?thesis using assms(3,4) by (auto simp: all_drop_def)
qed

lemma verdict:
  assumes "manager_ok mm" "manager_holds mm s f" "rules_ok s" "rules_ok f" "all_drop s" "all_drop f"
    and "length (cx_pkt ctx) < usize_bound" "classify_packet (cx_pkt ctx) = Ok p"
    and "parse_ethernet (cx_pkt ctx) = Ok (h, off, et)" "off \<le> 18"
  shows "fst (firewall (maps_env econtent lookup mm out now) ctx st) =
    Ok (if \<not> bypassed p \<and> (rs_blocks s (packet_source p) \<or> rs_blocks f (packet_source p)) then XDP_DROP else XDP_PASS)"
  unfolding firewall_decide [OF assms(7-10)] source_lookup_blocks [OF assms(1-4), of out now p, symmetric]
  using source_lookup_drops [OF assms(1,2,5,6), of out now p]
  by (auto simp: decide_def enforce_def Let_def split: prod.splits option.splits)

end

lemma one_rule_drop: "all_drop (one_rule a i)" "all_drop rs_new"
  by (simp_all add: all_drop_def rule_set_values_def one_rule_def rs_new_def lpm_rules_def rule_drop_def)

subsection \<open>The daemon and the hook\<close>

lemma all_drop_values: "all_drop r \<longleftrightarrow> (\<forall>v \<in> set (rule_values r). rv_action v = ACTION_DROP)"
  by (auto simp: all_drop_def rule_set_values_def rule_values_def lpm_rules_def image_image split_beta comp_def)

lemma all_drop_counts [simp]:
  "all_drop (r\<lparr>skipped_rules := n\<rparr>) = all_drop r" "all_drop (r\<lparr>total_rules := n\<rparr>) = all_drop r"
  by (simp_all add: all_drop_def rule_set_values_def)

lemma add_entry_drops: "all_drop r \<Longrightarrow> rv_action (entry_value e) = ACTION_DROP \<Longrightarrow> all_drop (add_entry e r)"
  using add_entry_values [of e r] by (auto simp: all_drop_values)

context ipnet
begin

lemma load_line_drops: "all_drop (ld_rules st) \<Longrightarrow> all_drop (ld_rules (load_line L f i raw st))"
  using parse_line_entry(1)
  by (auto simp: load_line_def Let_def rule_drop_def intro!: add_entry_drops split: sum.splits option.splits)

lemma load_lines_drops: "load_lines L f i ls st = Inr st' \<Longrightarrow> all_drop (ld_rules st) \<Longrightarrow> all_drop (ld_rules st')"
proof (induction ls arbitrary: i st)
  case (Cons l ls)
  then show ?case by (cases l) (auto simp: load_line_drops)
qed simp

lemma load_paths_drops: "load_paths L fs paths st = Inr st' \<Longrightarrow> all_drop (ld_rules st) \<Longrightarrow> all_drop (ld_rules st')"
proof (induction paths arbitrary: st)
  case (Cons p paths)
  then show ?case by (auto simp: load_file_into_def Let_def dest: load_lines_drops split: if_splits sum.splits)
qed simp

lemma load_drops: "load_from_paths_with_meta L fs paths = Inr (r, meta) \<Longrightarrow> all_drop r"
  using load_paths_drops [of fs paths load_start] one_rule_drop(2)
  by (auto simp: load_from_paths_with_meta_def load_start_def Let_def split: sum.splits)

lemma watch_loads_drop: "rm \<in> set (watch_loads L cfg fp es) \<Longrightarrow> all_drop (fst rm)"
proof (induction es arbitrary: fp)
  case (Cons e es)
  then show ?case by (cases e) (auto simp: Let_def load_drops [OF sym] split: if_splits sum.splits)
qed simp

lemma initial_ops_drop: "r \<in> set (static_sets (initial_ops L cfg fs)) \<Longrightarrow> all_drop r"
  by (auto simp: initial_ops_def static_ops_def load_drops split: if_splits sum.splits)

end

lemma all_drop_updates:
  assumes "all_drop r" "rv_action v = ACTION_DROP"
  shows "all_drop (r\<lparr>exact_v4 := AList.update k v (exact_v4 r)\<rparr>)" "all_drop (r\<lparr>exact_v6 := AList.update k v (exact_v6 r)\<rparr>)"
    "all_drop (r\<lparr>lpm_v4 := lpm_v4 r @ [(p, k, v)]\<rparr>)" "all_drop (r\<lparr>lpm_v6 := lpm_v6 r @ [(p, k, v)]\<rparr>)"
  using add_entry_drops [OF assms(1), of "EntryExactV4 k v"] add_entry_drops [OF assms(1), of "EntryExactV6 k v"]
    add_entry_drops [OF assms(1), of "EntryLpmV4 p k v"] add_entry_drops [OF assms(1), of "EntryLpmV6 p k v"] assms(2)
  by (simp_all add: add_entry_def Let_def split: if_splits)

lemma prepare_entry_drops: "all_drop (ps_rules st) \<Longrightarrow> all_drop (ps_rules (prepare_entry e st))"
  by (simp add: prepare_entry_def put_exact_v4_def put_exact_v6_def skip_entry_def dup_entry_def Let_def all_drop_updates rule_drop_def
      split: firehol_ip_target.splits)

lemma visit_each_invariant:
  assumes "\<And>x s s'. f x s = Inr s' \<Longrightarrow> I s \<Longrightarrow> I s'"
  shows "visit_each f xs s = Inr s' \<Longrightarrow> I s \<Longrightarrow> I s'"
  by (induction xs arbitrary: s) (auto split: sum.splits dest: assms)

lemma visit_entries_invariant:
  assumes step: "\<And>e s s'. f e s = Inr s' \<Longrightarrow> I s \<Longrightarrow> I s'" and "visit_entries d f s = Inr s'" "I s"
  shows "I s'"
proof -
  have block: "I s'" if "visit_block f b s = Inr s'" "I s" for b s s'
  proof -
    from that(1) have "visit_each (\<lambda>encoded s. case decode encoded of Inl e \<Rightarrow> Inl e | Inr entry \<Rightarrow> f entry s) (chunks30 b) s = Inr s'"
      by (simp add: visit_block_def split: if_splits)
    then show ?thesis using that(2)
      by (rule visit_each_invariant [rotated]) (auto split: sum.splits dest: step)
  qed
  show ?thesis
  proof (cases "ds_stored_entries d")
    case None
    then show ?thesis using assms visit_each_invariant [of f I, OF step] by (simp add: visit_entries_def)
  next
    case (Some vs)
    then have "visit_each (visit_block f) (fst vs) s = Inr s'"
      using assms(2) by (auto simp: visit_entries_def visit_values_def split: sum.splits if_splits)
    then show ?thesis using assms(3) visit_each_invariant [of "visit_block f" I, OF block] by simp
  qed
qed

lemma published_drops:
  assumes "published E bl r"
  shows "all_drop r"
proof -
  obtain d p where "try_prepare_rules d = Inr (r, p)" using assms by (auto simp: published_def)
  then obtain st where st: "visit_entries d (\<lambda>e st. Inr (prepare_entry e st)) prepare_start = Inr st" "all_drop r = all_drop (ps_rules st)"
    by (auto simp: try_prepare_rules_def split: sum.splits)
  have "all_drop (ps_rules prepare_start)" by (simp add: prepare_start_def one_rule_drop)
  from visit_entries_invariant [OF _ st(1), of "\<lambda>st. all_drop (ps_rules st)", OF _ this] show ?thesis
    unfolding st(2) by (auto simp: prepare_entry_drops)
qed

lemma latest_last: "latest s f ops = (last (s # static_sets ops), last (f # firehol_sets ops))"
  by (induction s f ops rule: latest.induct) simp_all

lemma admissible_ok: "admissible s f ops \<Longrightarrow> rules_ok s \<Longrightarrow> rules_ok f \<Longrightarrow> rules_ok (fst (latest s f ops)) \<and> rules_ok (snd (latest s f ops))"
  by (induction s f ops rule: admissible.induct) simp_all


definition demo_source_fs :: loader_fs where
  "demo_source_fs = demo_fs\<lparr>fs_lines := (\<lambda>_. Inr [Inr ''198.51.100.14''])\<rparr>"

lemma demo_source_load:
  "\<exists>meta. load_from_paths_with_meta pair_lib demo_source_fs [''/missing'', ''/rules/a.txt''] =
     Inr ((one_rule [198, 51, 100, 14] STATIC_RULE_BASE)\<lparr>total_rules := 1\<rparr>, meta)"
proof -
  have "trim (before_char CHR ''#'' ''198.51.100.14'') = ''198.51.100.14''" "parse_ip ''198.51.100.14'' = Some (V4 [198, 51, 100, 14])"
    "lib_from_str pair_lib ''198.51.100.14'' = None" by code_simp+
  then have "parse_line pair_lib ''198.51.100.14'' i = Inr (Some (EntryExactV4 [198, 51, 100, 14] (rule_drop i)))" for i
    unfolding parse_line_def by (simp add: Let_def)
  then show ?thesis
    by (simp add: load_from_paths_with_meta_def load_file_into_def demo_source_fs_def demo_fs_def load_line_def load_start_def rs_new_def add_entry_def
        rs_count_def one_rule_def Let_def)
qed

lemma static_only: "firehol_sets ops = [] \<Longrightarrow> ops = map StaticSync (static_sets ops)"
  by (induction ops rule: static_sets.induct) simp_all


subsection \<open>From the hook to the log\<close>



end
